(* ===== verification/Prelude.thy ===== *)
theory Prelude
  imports Main "HOL-Library.Word" "HOL-Library.Sublist"
begin

text \<open>
  Shared foundations: the outcomes of C++ code (a value, a standard exception, or an operation
  the language leaves undefined), the sequencing of such outcomes, and generic list lemmas.

  A function of the program that can fail returns \<open>exn + 'a\<close>. The constructors of \<open>exn\<close> that
  start with \<open>UB\<close> are not exceptions: they mark a point where the C++ program has no defined
  behaviour (an index past the end of a vector, a null pointer dereferenced, a signed overflow).
  No handler of the program catches them.
\<close>

datatype exn =
    Std_out_of_range      \<comment> \<open>\<open>std::out_of_range\<close>, from \<open>substr\<close> and \<open>stoi\<close>\<close>
  | Std_invalid_argument  \<comment> \<open>\<open>std::invalid_argument\<close>, from \<open>stoi\<close>\<close>
  | Json_exception nat    \<comment> \<open>\<open>nlohmann::detail::exception\<close> with its id\<close>
  | UB_index              \<comment> \<open>\<open>operator[]\<close> or an iterator past the end\<close>
  | UB_null               \<comment> \<open>a null \<open>unique_ptr\<close> dereferenced\<close>
  | UB_overflow           \<comment> \<open>signed overflow, or a double outside the range of \<open>int\<close>\<close>

type_synonym 'a res = "exn + 'a"

text \<open>What a \<open>catch (std::exception&)\<close> clause catches.\<close>

fun is_std_exception :: "exn \<Rightarrow> bool" where
  "is_std_exception Std_out_of_range = True"
| "is_std_exception Std_invalid_argument = True"
| "is_std_exception (Json_exception _) = True"
| "is_std_exception UB_index = False"
| "is_std_exception UB_null = False"
| "is_std_exception UB_overflow = False"

named_theorems res_simps "sequencing of outcomes"
named_theorems str_simps "string operations"

fun bindR :: "'e + 'a \<Rightarrow> ('a \<Rightarrow> 'e + 'b) \<Rightarrow> 'e + 'b" where
  "bindR (Inl e) f = Inl e"
| "bindR (Inr x) f = f x"

lemma bindR_eq_Inr [simp]: "bindR m f = Inr y \<longleftrightarrow> (\<exists>x. m = Inr x \<and> f x = Inr y)"
  by (cases m) auto

lemma bindR_eq_Inl: "bindR m f = Inl e \<longleftrightarrow> m = Inl e \<or> (\<exists>x. m = Inr x \<and> f x = Inl e)"
  by (cases m) auto

lemma bindR_assoc [res_simps]: "bindR (bindR m f) g = bindR m (\<lambda>x. bindR (f x) g)"
  by (cases m) auto

lemma bindR_cong [fundef_cong]:
  "m = m' \<Longrightarrow> (\<And>x. m' = Inr x \<Longrightarrow> f x = g x) \<Longrightarrow> bindR m f = bindR m' g"
  by (cases m') auto

definition is_ok :: "'e + 'a \<Rightarrow> bool" where
  "is_ok m \<longleftrightarrow> (\<exists>x. m = Inr x)"

lemma is_ok_simps [simp]: "is_ok (Inr x)" "\<not> is_ok (Inl e)"
  by (simp_all add: is_ok_def)

lemma is_ok_bindR [simp]: "is_ok (bindR m f) \<longleftrightarrow> (\<exists>x. m = Inr x \<and> is_ok (f x))"
  by (cases m) auto

text \<open>\<open>size_t\<close> subtraction: 64 bits, wrapping.\<close>

definition size_sub :: "nat \<Rightarrow> nat \<Rightarrow> nat" where
  "size_sub a b = (if b \<le> a then a - b else 2 ^ 64 + a - b)"

lemma size_sub_le [simp]: "b \<le> a \<Longrightarrow> size_sub a b = a - b"
  by (simp add: size_sub_def)

text \<open>A bounds-checked vector read; past the end the program has no defined behaviour.\<close>

definition vec_at :: "'a list \<Rightarrow> nat \<Rightarrow> 'a res" where
  "vec_at xs i = (if i < length xs then Inr (xs ! i) else Inl UB_index)"

lemma vec_at_simps [simp]:
  "vec_at (x # xs) 0 = Inr x"
  "vec_at (x # xs) (Suc n) = vec_at xs n"
  "vec_at [] n = Inl UB_index"
  by (auto simp: vec_at_def)

lemma vec_at_numeral [simp]: "vec_at (x # xs) (numeral k) = vec_at xs (pred_numeral k)"
  by (auto simp: numeral_eq_Suc)

lemma vec_at_Inr: "vec_at xs i = Inr x \<longleftrightarrow> i < length xs \<and> x = xs ! i"
  by (auto simp: vec_at_def)

text \<open>Elimination of an \<open>if\<close> that is known to have produced a value.\<close>

lemma ifE: "(if b then x else y) = z \<Longrightarrow> (b \<Longrightarrow> x = z \<Longrightarrow> P) \<Longrightarrow> (\<not> b \<Longrightarrow> y = z \<Longrightarrow> P) \<Longrightarrow> P"
  by (cases b) auto

subsection \<open>Lists\<close>

lemma takeWhile_id: "\<forall>x\<in>set xs. P x \<Longrightarrow> takeWhile P xs = xs"
  by (induction xs) auto

lemma takeWhile_append_stop: "\<forall>x\<in>set xs. P x \<Longrightarrow> \<not> P y \<Longrightarrow> takeWhile P (xs @ y # ys) = xs"
  by (induction xs) auto

lemma dropWhile_append_stop: "\<forall>x\<in>set xs. P x \<Longrightarrow> \<not> P y \<Longrightarrow> dropWhile P (xs @ y # ys) = y # ys"
  by (induction xs) auto

lemma butlast_take_minus1: "take (length xs - Suc 0) xs = butlast xs"
  by (simp add: butlast_conv_take)

lemma length_takeWhile_le_nth: "length (takeWhile P xs) < length xs \<Longrightarrow> \<not> P (xs ! length (takeWhile P xs))"
  by (rule nth_length_takeWhile)

text \<open>Restricting a finite map's domain and counting what it holds.\<close>

lemma finite_card_insert_le: "finite A \<Longrightarrow> card (insert x A) \<le> Suc (card A)"
  by (simp add: card_insert_le_m1 card_insert_if)

end
