(* ===== verification/CppString.thy ===== *)
theory CppString
  imports Prelude
begin

text \<open>
  What the program uses of \<open>std::string\<close>, the C string functions and
  \<open>boost::split(_, _, boost::is_any_of(d))\<close>: strings are byte lists (\<open>char list\<close>).
\<close>

subsection \<open>C strings\<close>

definition nul :: char where
  "nul = CHR 0x00"

text \<open>\<open>s.c_str()\<close> read as a C string: everything before the first NUL.\<close>

definition c_str :: "string \<Rightarrow> string" where
  "c_str s = takeWhile (\<lambda>c. c \<noteq> nul) s"

lemma c_str_id [str_simps]: "nul \<notin> set s \<Longrightarrow> c_str s = s"
  unfolding c_str_def by (rule takeWhile_id) auto

lemma nul_notin_c_str [simp]: "nul \<notin> set (c_str s)"
  unfolding c_str_def by (metis (full_types) set_takeWhileD)

lemma c_str_idem [simp]: "c_str (c_str s) = c_str s"
  by (simp add: c_str_id)

lemma set_c_str: "set (c_str s) \<subseteq> set s"
  unfolding c_str_def by (auto dest: set_takeWhileD)

lemma length_c_str: "length (c_str s) \<le> length s"
  by (simp add: c_str_def length_takeWhile_le)

text \<open>\<open>snprintf(buffer, n, "%s", s)\<close> for \<open>0 < n\<close>: at most \<open>n - 1\<close> bytes and a NUL.\<close>

definition snprintf_to :: "nat \<Rightarrow> string \<Rightarrow> string" where
  "snprintf_to n s = take (n - 1) s"

lemma length_snprintf_to: "0 < n \<Longrightarrow> length (snprintf_to n s) < n"
  by (simp add: snprintf_to_def)

subsection \<open>\<open>std::string\<close>\<close>

text \<open>\<open>s.substr(pos, n)\<close> throws when \<open>pos > s.size()\<close>.\<close>

definition substr :: "string \<Rightarrow> nat \<Rightarrow> nat \<Rightarrow> string res" where
  "substr s pos n = (if length s < pos then Inl Std_out_of_range else Inr (take n (drop pos s)))"

lemma substr_0 [simp]: "substr s 0 n = Inr (take n s)"
  by (simp add: substr_def)

text \<open>\<open>s.find(t) != npos\<close>.\<close>

fun contains :: "string \<Rightarrow> string \<Rightarrow> bool" where
  "contains [] t = (t = [])"
| "contains (c # s) t = (prefix t (c # s) \<or> contains s t)"

lemma contains_iff_sublist: "contains s t \<longleftrightarrow> sublist t s"
  by (induction s) (auto simp: sublist_Cons_right)

lemma contains_mem: "contains s t \<Longrightarrow> set t \<subseteq> set s"
  by (auto simp: contains_iff_sublist dest: set_mono_sublist)

text \<open>\<open>s.find(c)\<close> for one character: the index of its first occurrence.\<close>

fun find_char :: "char \<Rightarrow> string \<Rightarrow> nat option" where
  "find_char c [] = None"
| "find_char c (x # xs) = (if x = c then Some 0 else map_option Suc (find_char c xs))"

lemma find_char_Some: "find_char c s = Some i \<Longrightarrow> i < length s \<and> s ! i = c \<and> c \<notin> set (take i s)"
  by (induction s arbitrary: i) (auto split: if_splits)

lemma find_char_None: "find_char c s = None \<longleftrightarrow> c \<notin> set s"
  by (induction s) auto

lemma find_char_append [simp]:
  "c \<notin> set a \<Longrightarrow> find_char c (a @ c # b) = Some (length a)"
  by (induction a) auto

subsection \<open>\<open>boost::split\<close> and joining the tokens again\<close>

fun split_on :: "char \<Rightarrow> string \<Rightarrow> string list" where
  "split_on d [] = [[]]"
| "split_on d (c # cs) =
     (if c = d then [] # split_on d cs
      else case split_on d cs of [] \<Rightarrow> [[c]] | t # ts \<Rightarrow> (c # t) # ts)"

fun join_with :: "char \<Rightarrow> string list \<Rightarrow> string" where
  "join_with d [] = []"
| "join_with d [t] = t"
| "join_with d (t # ts) = t @ d # join_with d ts"

lemma split_on_not_Nil [simp]: "split_on d s \<noteq> []"
  by (induction s) (auto split: list.splits)

lemma length_split_on_pos [simp]: "0 < length (split_on d s)"
  by simp

lemma join_with_Cons: "ts \<noteq> [] \<Longrightarrow> join_with d (t # ts) = t @ d # join_with d ts"
  by (cases ts) auto

lemma join_split [simp]: "join_with d (split_on d s) = s"
proof (induction s)
  case Nil
  then show ?case by simp
next
  case (Cons c cs)
  obtain t ts where ts: "split_on d cs = t # ts"
    using split_on_not_Nil [of d cs] by (cases "split_on d cs") auto
  from Cons ts show ?case by (cases ts) auto
qed

lemma split_on_no_delim: "d \<notin> set s \<Longrightarrow> split_on d s = [s]"
  by (induction s) auto

lemma split_on_append [str_simps]: "d \<notin> set a \<Longrightarrow> split_on d (a @ d # b) = a # split_on d b"
  by (induction a) auto

lemma split_on_tokens: "t \<in> set (split_on d s) \<Longrightarrow> d \<notin> set t"
  by (induction s arbitrary: t) (auto split: if_splits list.splits)

lemma split_join: "ts \<noteq> [] \<Longrightarrow> \<forall>t\<in>set ts. d \<notin> set t \<Longrightarrow> split_on d (join_with d ts) = ts"
proof (induction ts rule: list_nonempty_induct)
  case (single t)
  then show ?case by (simp add: split_on_no_delim)
next
  case (cons t ts)
  then show ?case by (simp add: join_with_Cons split_on_append)
qed

lemma length_split_on: "length (split_on d s) = Suc (count_list s d)"
  by (induction s) (auto split: list.splits)

lemma split_on_hd: "hd (split_on d s) = takeWhile (\<lambda>c. c \<noteq> d) s"
  by (induction s) (auto split: list.splits)

subsection \<open>Decimal numbers\<close>

definition digit_char :: "nat \<Rightarrow> char" where
  "digit_char n = char_of (48 + n)"

definition is_digit :: "char \<Rightarrow> bool" where
  "is_digit c \<longleftrightarrow> 48 \<le> (of_char c :: nat) \<and> (of_char c :: nat) \<le> 57"

definition digit_val :: "char \<Rightarrow> nat" where
  "digit_val c = of_char c - 48"

lemma of_char_digit_char [simp]: "n < 10 \<Longrightarrow> of_char (digit_char n) = (48 + n :: nat)"
  by (simp add: digit_char_def)

lemma is_digit_digit_char [simp]: "n < 10 \<Longrightarrow> is_digit (digit_char n)"
  by (simp add: is_digit_def)

lemma digit_val_digit_char [simp]: "n < 10 \<Longrightarrow> digit_val (digit_char n) = n"
  by (simp add: digit_val_def)

lemma digit_char_simps [simp]:
  "digit_char 0 = CHR ''0''" "digit_char (Suc 0) = CHR ''1''" "digit_char 2 = CHR ''2''"
  "digit_char 3 = CHR ''3''" "digit_char 4 = CHR ''4''" "digit_char 5 = CHR ''5''"
  "digit_char 6 = CHR ''6''" "digit_char 7 = CHR ''7''" "digit_char 8 = CHR ''8''"
  "digit_char 9 = CHR ''9''"
  by (code_simp)+

lemma digit_val_less: "is_digit c \<Longrightarrow> digit_val c < 10"
  unfolding digit_val_def is_digit_def by linarith

text \<open>The decimal digits of a number, most significant first (\<open>std::to_string\<close> of an unsigned value).\<close>

fun nat_str :: "nat \<Rightarrow> string" where
  "nat_str n = (if n < 10 then [digit_char n] else nat_str (n div 10) @ [digit_char (n mod 10)])"

declare nat_str.simps [simp del]

definition digits_val :: "string \<Rightarrow> nat" where
  "digits_val s = foldl (\<lambda>a c. 10 * a + digit_val c) 0 s"

lemma digits_val_snoc: "digits_val (s @ [c]) = 10 * digits_val s + digit_val c"
  by (simp add: digits_val_def)

lemma nat_str_not_Nil [simp]: "nat_str n \<noteq> []"
  by (subst nat_str.simps) simp

lemma nat_str_digits: "c \<in> set (nat_str n) \<Longrightarrow> is_digit c"
proof (induction n arbitrary: c rule: nat_str.induct)
  case (1 n)
  show ?case
  proof (cases "n < 10")
    case True
    with 1 show ?thesis by (simp add: nat_str.simps [of n])
  next
    case False
    with 1 show ?thesis by (auto simp: nat_str.simps [of n])
  qed
qed

lemma digits_val_nat_str [simp]: "digits_val (nat_str n) = n"
proof (induction n rule: nat_str.induct)
  case (1 n)
  show ?case
  proof (cases "n < 10")
    case True
    then show ?thesis by (simp add: nat_str.simps [of n] digits_val_def)
  next
    case False
    with 1 show ?thesis by (simp add: nat_str.simps [of n] digits_val_snoc)
  qed
qed

text \<open>\<open>std::to_string(int)\<close> and \<open>operator<<\<close> of an integer.\<close>

definition to_string :: "int \<Rightarrow> string" where
  "to_string i = (if i < 0 then CHR ''-'' # nat_str (nat (- i)) else nat_str (nat i))"

definition isspace :: "char \<Rightarrow> bool" where
  "isspace c \<longleftrightarrow> (of_char c :: nat) = 32 \<or> 9 \<le> (of_char c :: nat) \<and> (of_char c :: nat) \<le> 13"

text \<open>The value \<open>strtol(s, _, 10)\<close> finds at the start of a string, or \<open>None\<close> if it converts nothing.\<close>

fun strip_sign :: "string \<Rightarrow> bool \<times> string" where
  "strip_sign [] = (False, [])"
| "strip_sign (c # cs) =
     (if c = CHR ''-'' then (True, cs) else if c = CHR ''+'' then (False, cs) else (False, c # cs))"

definition strtol10 :: "string \<Rightarrow> int option" where
  "strtol10 s =
     (let (neg, r) = strip_sign (dropWhile isspace s); ds = takeWhile is_digit r
      in if ds = [] then None
         else Some (if neg then - int (digits_val ds) else int (digits_val ds)))"

definition int_min :: int where "int_min = - (2 ^ 31)"
definition int_max :: int where "int_max = 2 ^ 31 - 1"
definition long_min :: int where "long_min = - (2 ^ 63)"
definition long_max :: int where "long_max = 2 ^ 63 - 1"

text \<open>\<open>std::stoi\<close>: \<open>invalid_argument\<close> if nothing converts, \<open>out_of_range\<close> beyond \<open>int\<close>.\<close>

definition stoi :: "string \<Rightarrow> int res" where
  "stoi s = (case strtol10 s of
       None \<Rightarrow> Inl Std_invalid_argument
     | Some i \<Rightarrow> if int_min \<le> i \<and> i \<le> int_max then Inr i else Inl Std_out_of_range)"

lemma nat_str_not_sign: "hd (nat_str n) \<noteq> CHR ''-''" "hd (nat_str n) \<noteq> CHR ''+''" "\<not> isspace (hd (nat_str n))"
proof -
  have "is_digit (hd (nat_str n))" using nat_str_digits [of "hd (nat_str n)" n] by simp
  then show "hd (nat_str n) \<noteq> CHR ''-''" "hd (nat_str n) \<noteq> CHR ''+''" "\<not> isspace (hd (nat_str n))"
    by (auto simp: is_digit_def isspace_def)
qed

lemma strip_sign_nat_str: "strip_sign (dropWhile isspace (nat_str n)) = (False, nat_str n)"
  using nat_str_not_sign [of n] by (cases "nat_str n") auto

lemma takeWhile_digits_nat_str [simp]: "takeWhile is_digit (nat_str n) = nat_str n"
  by (rule takeWhile_id) (auto dest: nat_str_digits)

lemma strtol10_to_string [simp]: "strtol10 (to_string i) = Some i"
proof (cases "i < 0")
  case True
  then have "dropWhile isspace (to_string i) = CHR ''-'' # nat_str (nat (- i))"
    by (simp add: to_string_def isspace_def)
  with True show ?thesis by (simp add: strtol10_def)
next
  case False
  then show ?thesis by (simp add: strtol10_def to_string_def strip_sign_nat_str)
qed

lemma stoi_to_string: "int_min \<le> i \<Longrightarrow> i \<le> int_max \<Longrightarrow> stoi (to_string i) = Inr i"
  by (simp add: stoi_def)

lemma stoi_error: "stoi s = Inl e \<Longrightarrow> e = Std_invalid_argument \<or> e = Std_out_of_range"
  by (auto simp: stoi_def split: option.splits if_splits)

lemma stoi_error_std: "stoi s = Inl e \<Longrightarrow> is_std_exception e"
  by (auto dest: stoi_error)

lemma stoi_range: "stoi s = Inr i \<Longrightarrow> int_min \<le> i \<and> i \<le> int_max"
  by (auto simp: stoi_def split: option.splits if_splits)

lemma digit_not_comma: "is_digit c \<Longrightarrow> c \<noteq> CHR '',''" "is_digit c \<Longrightarrow> c \<noteq> CHR 0x23" "is_digit c \<Longrightarrow> c \<noteq> nul"
  by (auto simp: is_digit_def nul_def)

lemma comma_notin_nat_str [simp]: "CHR '','' \<notin> set (nat_str n)" "CHR 0x23 \<notin> set (nat_str n)"
  by (auto dest: nat_str_digits digit_not_comma)

lemma to_string_chars: "c \<in> set (to_string i) \<Longrightarrow> is_digit c \<or> c = CHR ''-''"
  by (auto simp: to_string_def dest: nat_str_digits split: if_splits)

lemma length_nat_str: "n < 10 ^ k \<Longrightarrow> 0 < k \<Longrightarrow> length (nat_str n) \<le> k"
proof (induction k arbitrary: n)
  case 0
  then show ?case by simp
next
  case (Suc k)
  show ?case
  proof (cases "n < 10")
    case True
    then show ?thesis by (simp add: nat_str.simps [of n])
  next
    case False
    then have "k \<noteq> 0" using Suc.prems by (cases k) auto
    moreover have "n div 10 < 10 ^ k" using Suc.prems by (simp add: less_mult_imp_div_less mult.commute)
    ultimately have "length (nat_str (n div 10)) \<le> k" using Suc.IH by simp
    with False show ?thesis by (simp add: nat_str.simps [of n])
  qed
qed

lemma length_to_string:
  assumes "int_min \<le> i" "i \<le> int_max"
  shows "length (to_string i) \<le> 11"
proof -
  have "nat (- i) < 10 ^ 10" "nat i < 10 ^ 10" using assms by (auto simp: int_min_def int_max_def)
  then have "length (nat_str (nat (- i))) \<le> 10" "length (nat_str (nat i)) \<le> 10"
    by (auto intro: length_nat_str)
  then show ?thesis by (simp add: to_string_def)
qed

end
