(* ===== verification/Car.thy ===== *)
theory Car
  imports CppString
begin

text \<open>
  \<open>class Car\<close> (\<open>src/ParkManager/Car.hpp\<close>): what the server keeps of a car. \<open>unsigned int\<close> is 32 bits.
\<close>

record Car =
  m_IdTag :: "32 word"
  m_Plate :: string
  m_EnterenceTime :: string
  m_payment :: "32 word"
  m_EnterenceGate :: string
  m_ExitingGate :: string
  m_Handicap :: string
  m_slot :: int

text \<open>The constructor; the slot is never set by the server.\<close>

definition Car_new :: "32 word \<Rightarrow> string \<Rightarrow> string \<Rightarrow> string \<Rightarrow> string \<Rightarrow> Car" where
  "Car_new IdTag Plate EnterenceTime EnterenceGate HandicapStatus =
     \<lparr>m_IdTag = IdTag, m_Plate = Plate, m_EnterenceTime = EnterenceTime, m_payment = 0,
      m_EnterenceGate = EnterenceGate, m_ExitingGate = [], m_Handicap = HandicapStatus, m_slot = - 1\<rparr>"

lemma Car_new_simps [simp]:
  "m_Plate (Car_new i p t g h) = p" "m_EnterenceTime (Car_new i p t g h) = t"
  "m_EnterenceGate (Car_new i p t g h) = g" "m_Handicap (Car_new i p t g h) = h"
  by (simp_all add: Car_new_def)

end
