(* ===== verification/Pdu.thy ===== *)
theory Pdu
  imports CppString
begin

text \<open>
  The message envelope of \<open>src/CommonLibraries/json/Base.hpp\<close>: a call is
  \<open>[0,"<random>","<action>",<json>]\<close>, a response \<open>[1,"<id>",<json>]\<close>.
  \<open>AddBase\<close> writes the envelope, \<open>handleIncomingMsg\<close> takes it apart by splitting at every
  comma and joining the tail again, with the two bytes \<open>],\<close> cut off its end.
\<close>

text \<open>\<open>enum messageType { CALL = 0, RESPOND = 1 }\<close>, kept as the integers the code compares.\<close>

definition mt_CALL :: int where "mt_CALL = 0"
definition mt_RESPOND :: int where "mt_RESPOND = 1"

definition quoted :: "string \<Rightarrow> string" where
  "quoted s = CHR 0x22 # s @ [CHR 0x22]"

lemma set_quoted [simp]: "set (quoted s) = insert (CHR 0x22) (set s)"
  by (auto simp: quoted_def)

lemma length_quoted [simp]: "length (quoted s) = length s + 2"
  by (simp add: quoted_def)

lemma quoted_inject [simp]: "quoted s = quoted t \<longleftrightarrow> s = t"
  by (simp add: quoted_def)

text \<open>\<open>AddBase\<close>; \<open>rnd\<close> is the value \<open>random()\<close> returns in the call branch.\<close>

definition AddBase :: "nat \<Rightarrow> string \<Rightarrow> int \<Rightarrow> string \<Rightarrow> string \<Rightarrow> string" where
  "AddBase rnd JM mT Action messageId =
     (if mT = mt_CALL then
        ''['' @ to_string mT @ '','' @ quoted (nat_str rnd) @ '','' @ quoted Action @ '','' @ JM @ '']''
      else if mT = mt_RESPOND then
        ''['' @ to_string mT @ '','' @ quoted messageId @ '','' @ JM @ '']''
      else [])"

text \<open>\<open>for (itr = begin + offset; itr != end; ++itr) JsonString = JsonString + *itr + ","\<close>\<close>

fun append_items :: "string \<Rightarrow> string list \<Rightarrow> string" where
  "append_items acc [] = acc"
| "append_items acc (t # ts) = append_items (acc @ t @ '','') ts"

text \<open>
  \<open>handleIncomingMsg\<close> returns \<open>(messageId, JsonString)\<close>. With fewer items than the offset the
  loop starts past the end of the vector, which has no defined behaviour.
\<close>

definition handleIncomingMsg :: "string \<Rightarrow> int \<Rightarrow> (string \<times> string) res" where
  "handleIncomingMsg JM mT =
     (let requestItems = split_on (CHR '','') JM in
      bindR (vec_at requestItems 1) (\<lambda>messageId.
        let offset = (if mT = mt_CALL then 3 else 2) in
        if length requestItems < offset then Inl UB_index
        else
          let JsonString = append_items [] (drop offset requestItems) in
          bindR (substr JsonString 0 (size_sub (length JsonString) 2)) (\<lambda>js.
            Inr (messageId, js))))"

subsection \<open>What the envelope guarantees\<close>

lemma append_items_join: "append_items acc (t # ts) = acc @ join_with (CHR '','') (t # ts) @ '',''"
proof (induction ts arbitrary: acc t)
  case Nil
  then show ?case by simp
next
  case (Cons u us)
  have "append_items acc (t # u # us) = append_items (acc @ t @ '','') (u # us)" by simp
  also have "\<dots> = (acc @ t @ '','') @ join_with (CHR '','') (u # us) @ '',''" by (rule Cons)
  finally show ?case by simp
qed

lemma append_items_split [str_simps]:
  "append_items [] (split_on (CHR '','') s) = s @ '',''"
proof -
  obtain t ts where "split_on (CHR '','') s = t # ts"
    using split_on_not_Nil [of "CHR '',''" s] by (cases "split_on (CHR '','') s") auto
  then show ?thesis
    using append_items_join [of "[]" t ts] join_split [of "CHR '',''" s] by simp
qed

lemma to_string_mt [simp]: "to_string mt_CALL = ''0''" "to_string mt_RESPOND = ''1''"
  by (simp_all add: to_string_def mt_CALL_def mt_RESPOND_def nat_str.simps digit_char_simps)

lemma mt_neq [simp]: "mt_RESPOND \<noteq> mt_CALL" "mt_CALL \<noteq> mt_RESPOND"
  by (simp_all add: mt_CALL_def mt_RESPOND_def)

lemma AddBase_CALL:
  "AddBase rnd JM mt_CALL Action mid =
     ''[0'' @ CHR '','' # quoted (nat_str rnd) @ CHR '','' # quoted Action @ CHR '','' # JM @ '']''"
  by (simp add: AddBase_def)

lemma AddBase_RESPOND:
  "AddBase rnd JM mt_RESPOND Action mid =
     ''[1'' @ CHR '','' # quoted mid @ CHR '','' # JM @ '']''"
  by (simp add: AddBase_def)

text \<open>The items of a call and of a response envelope.\<close>

lemma split_call:
  assumes "CHR '','' \<notin> set Action"
  shows "split_on (CHR '','') (AddBase rnd JM mt_CALL Action mid) =
    ''[0'' # quoted (nat_str rnd) # quoted Action # split_on (CHR '','') (JM @ '']'')"
proof -
  have a: "CHR '','' \<notin> set ''[0''" and b: "CHR '','' \<notin> set (quoted (nat_str rnd))"
    and c: "CHR '','' \<notin> set (quoted Action)"
    using assms by simp_all
  show ?thesis
    unfolding AddBase_CALL
    by (simp only: split_on_append [OF a] split_on_append [OF b] split_on_append [OF c])
qed

lemma split_respond:
  assumes "CHR '','' \<notin> set mid"
  shows "split_on (CHR '','') (AddBase rnd JM mt_RESPOND Action mid) =
    ''[1'' # quoted mid # split_on (CHR '','') (JM @ '']'')"
proof -
  have a: "CHR '','' \<notin> set ''[1''" and b: "CHR '','' \<notin> set (quoted mid)"
    using assms by simp_all
  show ?thesis
    unfolding AddBase_RESPOND by (simp only: split_on_append [OF a] split_on_append [OF b])
qed

lemma handleIncomingMsg_call:
  assumes "CHR '','' \<notin> set Action"
  shows "handleIncomingMsg (AddBase rnd JM mt_CALL Action mid) mt_CALL = Inr (quoted (nat_str rnd), JM)"
  using split_call [OF assms, of rnd JM mid]
  by (simp add: handleIncomingMsg_def append_items_split)

lemma handleIncomingMsg_respond:
  assumes "CHR '','' \<notin> set mid"
  shows "handleIncomingMsg (AddBase rnd JM mt_RESPOND Action mid) mt_RESPOND = Inr (quoted mid, JM)"
  using split_respond [OF assms, of rnd JM Action]
  by (simp add: handleIncomingMsg_def append_items_split)

text \<open>An envelope with too few items is outside the code's defined behaviour.\<close>

lemma handleIncomingMsg_short:
  "length (split_on (CHR '','') JM) < (if mT = mt_CALL then 3 else 2) \<Longrightarrow>
   handleIncomingMsg JM mT = Inl UB_index"
  by (auto simp: handleIncomingMsg_def vec_at_def Let_def)

lemma handleIncomingMsg_ok_iff:
  "is_ok (handleIncomingMsg JM mT) \<longleftrightarrow>
     (if mT = mt_CALL then 3 else 2) \<le> length (split_on (CHR '','') JM)"
  by (auto simp: handleIncomingMsg_def vec_at_def Let_def is_ok_def not_less)

text \<open>The message id an envelope carries never holds a comma.\<close>

lemma handleIncomingMsg_id_no_comma:
  assumes "handleIncomingMsg JM mT = Inr (mid, js)"
  shows "CHR '','' \<notin> set mid"
proof -
  from assms have "vec_at (split_on (CHR '','') JM) 1 = Inr mid"
    by (auto simp: handleIncomingMsg_def Let_def split: if_splits)
  then have "mid \<in> set (split_on (CHR '','') JM)" by (auto simp: vec_at_Inr)
  then show ?thesis by (rule split_on_tokens)
qed

end
