(* ===== verification/Binary64.thy ===== *)
theory Binary64
  imports CppString Complex_Main
begin

text \<open>
  IEEE binary64 as the program uses it: the conversions \<open>strtod\<close>/\<open>atof\<close> and \<open>int\<close> to \<open>double\<close>, one
  multiplication, \<open>std::round\<close> and the conversion back to \<open>int\<close>. A finite double is the rational
  it stands for; every operation rounds the exact result to nearest, ties to even, with 53
  significant bits and the least exponent \<open>-1074\<close>. The sign of zero is not represented.
\<close>

datatype double = Fin rat | Infinite bool | NaN

subsection \<open>The binary exponent of a positive rational\<close>

fun nlog2 :: "nat \<Rightarrow> nat" where
  "nlog2 n = (if n \<le> 1 then 0 else Suc (nlog2 (n div 2)))"

declare nlog2.simps [simp del]

lemma nlog2_bounds: "0 < n \<Longrightarrow> 2 ^ nlog2 n \<le> n \<and> n < 2 ^ Suc (nlog2 n)"
proof (induction n rule: nlog2.induct)
  case (1 n)
  show ?case
  proof (cases "n \<le> 1")
    case True
    with 1 show ?thesis by (simp add: nlog2.simps [of n])
  next
    case False
    then have "2 ^ nlog2 (n div 2) \<le> n div 2 \<and> n div 2 < 2 ^ Suc (nlog2 (n div 2))"
      using 1 by simp
    then have "2 * 2 ^ nlog2 (n div 2) \<le> n" "n < 2 * 2 ^ Suc (nlog2 (n div 2))" by linarith+
    with False show ?thesis by (simp add: nlog2.simps [of n])
  qed
qed

definition flog2 :: "rat \<Rightarrow> int" where
  "flog2 q =
     (let (n, d) = quotient_of q; k = int (nlog2 (nat n)) - int (nlog2 (nat d))
      in if 2 powi k \<le> q then k else k - 1)"

lemma quotient_of_pos:
  assumes "0 < (q::rat)" "quotient_of q = (n, d)"
  shows "0 < n" "0 < d" "q = of_int n / of_int d"
proof -
  show d: "0 < d" using quotient_of_denom_pos [OF assms(2)] .
  show q: "q = of_int n / of_int d" using quotient_of_div [OF assms(2)] .
  show "0 < n" using assms(1) d unfolding q by (simp add: zero_less_divide_iff)
qed

lemma flog2_bounds:
  assumes "0 < q"
  shows "2 powi (flog2 q) \<le> q" "q < 2 powi (flog2 q + 1)"
proof -
  obtain n d where nd: "quotient_of q = (n, d)" by force
  note p = quotient_of_pos [OF assms nd]
  let ?a = "nlog2 (nat n)" and ?b = "nlog2 (nat d)"
  have n: "(2::rat) ^ ?a \<le> of_int n" "of_int n < (2::rat) ^ Suc ?a"
  proof -
    have "2 ^ ?a \<le> nat n" "nat n < 2 ^ Suc ?a" using nlog2_bounds [of "nat n"] p(1) by simp_all
    then have "int (2 ^ ?a) \<le> n" "n < int (2 ^ Suc ?a)" using p(1) by linarith+
    then have "rat_of_int (int (2 ^ ?a)) \<le> of_int n" "rat_of_int n < of_int (int (2 ^ Suc ?a))"
      by (simp_all only: of_int_le_iff of_int_less_iff)
    then show "(2::rat) ^ ?a \<le> of_int n" "of_int n < (2::rat) ^ Suc ?a" by simp_all
  qed
  have d: "(2::rat) ^ ?b \<le> of_int d" "of_int d < (2::rat) ^ Suc ?b"
  proof -
    have "2 ^ ?b \<le> nat d" "nat d < 2 ^ Suc ?b" using nlog2_bounds [of "nat d"] p(2) by simp_all
    then have "int (2 ^ ?b) \<le> d" "d < int (2 ^ Suc ?b)" using p(2) by linarith+
    then have "rat_of_int (int (2 ^ ?b)) \<le> of_int d" "rat_of_int d < of_int (int (2 ^ Suc ?b))"
      by (simp_all only: of_int_le_iff of_int_less_iff)
    then show "(2::rat) ^ ?b \<le> of_int d" "of_int d < (2::rat) ^ Suc ?b" by simp_all
  qed
  let ?k = "int ?a - int ?b"
  have k: "(2::rat) powi ?k = 2 ^ ?a / 2 ^ ?b"
    by (simp add: power_int_diff)
  have dpos: "0 < (of_int d :: rat)" using p(2) by simp
  have "2 ^ ?a / 2 ^ Suc ?b < q"
  proof -
    have "2 ^ ?a * of_int d < of_int n * (2::rat) ^ Suc ?b"
      using n(1) d(2) p(1) dpos by (intro mult_le_less_imp_less) auto
    then show ?thesis unfolding p(3) using dpos by (simp add: field_simps)
  qed
  then have low: "2 powi (?k - 1) \<le> q" using k by (simp add: power_int_diff)
  have "q < 2 ^ Suc ?a / 2 ^ ?b"
  proof -
    have "of_int n * (2::rat) ^ ?b < 2 ^ Suc ?a * of_int d"
      using n(2) d(1) p(1) dpos by (intro mult_less_le_imp_less) auto
    then show ?thesis unfolding p(3) using dpos by (simp add: field_simps)
  qed
  then have up: "q < 2 powi (?k + 1)" using k by (simp add: power_int_add mult.commute)
  show "2 powi (flog2 q) \<le> q" using low nd by (simp add: flog2_def Let_def)
  show "q < 2 powi (flog2 q + 1)" using up nd by (simp add: flog2_def Let_def)
qed

lemma powi_less_cancel: "(2::rat) powi a < 2 powi b \<Longrightarrow> a < b"
  by (metis not_less power_int_increasing one_le_numeral)

lemma powi_mono: "a \<le> b \<Longrightarrow> (2::rat) powi a \<le> 2 powi b"
  by (rule power_int_increasing) auto

lemma powi_pos [simp]: "0 < (2::rat) powi a"
  by simp

lemma flog2_unique:
  assumes "2 powi k \<le> q" "q < 2 powi (k + 1)"
  shows "flog2 q = k"
proof -
  have "0 < q" using assms(1) powi_pos [of k] by (rule less_le_trans [rotated])
  note b = flog2_bounds [OF this]
  have "flog2 q < k + 1" using b(1) assms(2) by (intro powi_less_cancel) linarith
  moreover have "k < flog2 q + 1" using b(2) assms(1) by (intro powi_less_cancel) linarith
  ultimately show ?thesis by simp
qed

lemma flog2_mono: "0 < p \<Longrightarrow> p \<le> q \<Longrightarrow> flog2 p \<le> flog2 q"
proof -
  assume "0 < p" "p \<le> q"
  then have "2 powi (flog2 p) < (2::rat) powi (flog2 q + 1)"
    using flog2_bounds [of p] flog2_bounds [of q] by linarith
  then show ?thesis using powi_less_cancel by fastforce
qed

subsection \<open>Rounding to nearest, ties to even\<close>

definition rne :: "rat \<Rightarrow> int" where
  "rne q = (let f = \<lfloor>q\<rfloor>; r = q - of_int f in
     if r < 1/2 then f else if 1/2 < r then f + 1 else if even f then f else f + 1)"

lemma rne_of_int [simp]: "rne (of_int i) = i"
  by (simp add: rne_def)

lemma rne_numeral [simp]: "rne 0 = 0" "rne (numeral k) = numeral k"
  using rne_of_int [of 0] rne_of_int [of "numeral k"] by simp_all

lemma rne_floor: "\<lfloor>q\<rfloor> \<le> rne q" "rne q \<le> \<lfloor>q\<rfloor> + 1"
  by (simp_all add: rne_def Let_def)

lemma rne_mono: "p \<le> q \<Longrightarrow> rne p \<le> rne q"
proof -
  assume pq: "p \<le> q"
  show ?thesis
  proof (cases "\<lfloor>p\<rfloor> = \<lfloor>q\<rfloor>")
    case True
    then show ?thesis using pq by (auto simp: rne_def Let_def)
  next
    case False
    then have "\<lfloor>p\<rfloor> + 1 \<le> \<lfloor>q\<rfloor>" using floor_mono [OF pq] by simp
    then show ?thesis using rne_floor [of p] rne_floor [of q] by linarith
  qed
qed

definition fl64_exp :: "rat \<Rightarrow> int" where
  "fl64_exp q = max (flog2 \<bar>q\<bar> - 52) (- 1074)"

definition fl64 :: "rat \<Rightarrow> rat" where
  "fl64 q = (if q = 0 then 0
     else let u = 2 powi fl64_exp q in of_int (rne (q / u)) * u)"

lemma fl64_0 [simp]: "fl64 0 = 0"
  by (simp add: fl64_def)

text \<open>A multiple of a power of two whose exponent is at least that of the value's last place is exact.\<close>

lemma fl64_exact:
  assumes "q = of_int m * 2 powi e" "fl64_exp q \<le> e"
  shows "fl64 q = q"
proof (cases "q = 0")
  case False
  let ?u = "2 powi fl64_exp q"
  have "q / ?u = of_int m * 2 powi (e - fl64_exp q)"
    by (subst assms(1)) (simp add: power_int_diff)
  also have "\<dots> = of_int (m * 2 ^ nat (e - fl64_exp q))"
    using assms(2) by (simp add: power_int_def)
  finally have *: "q / ?u = of_int (m * 2 ^ nat (e - fl64_exp q))" .
  have "fl64 q = of_int (rne (q / ?u)) * ?u" using False by (simp add: fl64_def Let_def)
  also have "\<dots> = q / ?u * ?u" unfolding * rne_of_int ..
  also have "\<dots> = q" by simp
  finally show ?thesis .
qed simp

lemma fl64_of_int:
  assumes "\<bar>i\<bar> \<le> 2 ^ 53"
  shows "fl64 (of_int i) = of_int i"
proof (cases "i = 0 \<or> \<bar>i\<bar> = 2 ^ 53")
  case True
  then consider "i = 0" | "i = 2 ^ 53" | "i = - (2 ^ 53)" by linarith
  then show ?thesis
  proof cases
    case 1
    then show ?thesis by simp
  next
    case 2
    have "flog2 \<bar>rat_of_int i\<bar> = 53" unfolding 2 by (rule flog2_unique) simp_all
    then show ?thesis
      by (intro fl64_exact [where m = "2 ^ 52" and e = 1]) (simp_all add: fl64_exp_def 2)
  next
    case 3
    have "flog2 \<bar>rat_of_int i\<bar> = 53" unfolding 3 by (rule flog2_unique) simp_all
    then show ?thesis
      by (intro fl64_exact [where m = "- (2 ^ 52)" and e = 1]) (simp_all add: fl64_exp_def 3)
  qed
next
  case False
  with assms have i: "0 < \<bar>i\<bar>" "\<bar>i\<bar> < 2 ^ 53" by auto
  have "rat_of_int \<bar>i\<bar> < of_int (2 ^ 53)" using i(2) by (simp only: of_int_less_iff)
  then have "\<bar>rat_of_int i\<bar> < 2 powi 53" by simp
  moreover have "2 powi (flog2 \<bar>rat_of_int i\<bar>) \<le> \<bar>rat_of_int i\<bar>"
    using i(1) by (intro flog2_bounds) simp
  ultimately have "flog2 \<bar>rat_of_int i\<bar> < 53" by (intro powi_less_cancel) linarith
  then have "fl64_exp (of_int i) \<le> 0" by (simp add: fl64_exp_def)
  then show ?thesis by (intro fl64_exact [where m = i and e = 0]) simp_all
qed

lemma fl64_nonneg: "0 \<le> q \<Longrightarrow> 0 \<le> fl64 q"
proof (cases "q = 0")
  case False
  assume "0 \<le> q"
  then have "0 \<le> q / 2 powi fl64_exp q" by simp
  then have "0 \<le> rne (q / 2 powi fl64_exp q)" using rne_mono [of "of_int 0"] by simp
  with False show ?thesis by (simp add: fl64_def Let_def)
qed simp

lemma fl64_mono:
  assumes "0 \<le> p" "p \<le> q"
  shows "fl64 p \<le> fl64 q"
proof (cases "p = 0")
  case True
  with assms show ?thesis by (simp add: fl64_nonneg)
next
  case False
  with assms have p: "0 < p" and q: "0 < q" by auto
  let ?a = "fl64_exp p" and ?b = "fl64_exp q"
  have ab: "?a \<le> ?b" using flog2_mono [OF p assms(2)] p q by (simp add: fl64_exp_def)
  have fp: "fl64 p = of_int (rne (p / 2 powi ?a)) * 2 powi ?a"
    and fq: "fl64 q = of_int (rne (q / 2 powi ?b)) * 2 powi ?b"
    using p q by (simp_all add: fl64_def Let_def)
  show ?thesis
  proof (cases "?a = ?b")
    case True
    have "p / 2 powi ?b \<le> q / 2 powi ?b" using assms(2) by (simp add: divide_right_mono)
    then have "rat_of_int (rne (p / 2 powi ?b)) \<le> of_int (rne (q / 2 powi ?b))"
      using rne_mono by simp
    then show ?thesis unfolding fp fq True by (intro mult_right_mono) auto
  next
    case False
    with ab have lt: "?a < ?b" by simp
    then have eb: "?b = flog2 q - 52" using q unfolding fl64_exp_def by auto
    have ea: "flog2 p - 52 \<le> ?a" using p unfolding fl64_exp_def by auto
    \<comment> \<open>\<open>p\<close> rounds to at most \<open>2\<^sup>5\<^sup>3\<close> units of its own last place, \<open>q\<close> to at least \<open>2\<^sup>5\<^sup>2\<close> of its own\<close>
    have "p < 2 powi (flog2 p + 1)" by (rule flog2_bounds [OF p])
    also have "\<dots> \<le> 2 powi (?a + 53)" using ea by (intro powi_mono) simp
    finally have "p / 2 powi ?a \<le> of_int (2 ^ 53)"
      by (simp add: power_int_add field_simps)
    then have "rne (p / 2 powi ?a) \<le> 2 ^ 53" using rne_mono [of "p / 2 powi ?a" "of_int (2 ^ 53)"] by simp
    then have "rat_of_int (rne (p / 2 powi ?a)) \<le> of_int (2 ^ 53)" by (simp only: of_int_le_iff)
    then have up: "fl64 p \<le> 2 ^ 53 * 2 powi ?a" unfolding fp by (intro mult_right_mono) simp_all
    have "2 powi (?b + 52) \<le> q" using flog2_bounds(1) [OF q] eb by simp
    then have "of_int (2 ^ 52) \<le> q / 2 powi ?b" by (simp add: power_int_add field_simps)
    then have "2 ^ 52 \<le> rne (q / 2 powi ?b)" using rne_mono [of "of_int (2 ^ 52)" "q / 2 powi ?b"] by simp
    then have "of_int (2 ^ 52) \<le> rat_of_int (rne (q / 2 powi ?b))" by (simp only: of_int_le_iff)
    then have low: "2 ^ 52 * 2 powi ?b \<le> fl64 q" unfolding fq by (intro mult_right_mono) simp_all
    have "(2::rat) powi (?a + 1) \<le> 2 powi ?b" using lt by (intro powi_mono) simp
    then have "2 ^ 53 * (2::rat) powi ?a \<le> 2 ^ 52 * 2 powi ?b" by (simp add: power_int_add)
    with up low show ?thesis by linarith
  qed
qed

subsection \<open>Operations\<close>

definition to_double :: "rat \<Rightarrow> double" where
  "to_double q = (let r = fl64 q in
     if 2 ^ 1024 \<le> r then Infinite False else if r \<le> - (2 ^ 1024) then Infinite True else Fin r)"

text \<open>\<open>double * double\<close> with a finite second factor (an integer converted to double).\<close>

fun double_mul :: "double \<Rightarrow> rat \<Rightarrow> double" where
  "double_mul (Fin p) q = to_double (p * q)"
| "double_mul (Infinite s) q = (if q = 0 then NaN else Infinite (s \<noteq> (q < 0)))"
| "double_mul NaN q = NaN"

text \<open>\<open>std::round\<close>: halfway cases away from zero.\<close>

definition round_away :: "rat \<Rightarrow> int" where
  "round_away q = (if 0 \<le> q then \<lfloor>q + 1/2\<rfloor> else - \<lfloor>1/2 - q\<rfloor>)"

text \<open>\<open>int x = std::round(d)\<close>: a value outside \<open>int\<close>, infinite or NaN has no defined conversion.\<close>

fun round_to_int :: "double \<Rightarrow> int res" where
  "round_to_int (Fin q) =
     (let i = round_away q in if int_min \<le> i \<and> i \<le> int_max then Inr i else Inl UB_overflow)"
| "round_to_int (Infinite s) = Inl UB_overflow"
| "round_to_int NaN = Inl UB_overflow"

lemma round_away_of_int [simp]: "round_away (of_int i) = i"
proof -
  have "\<lfloor>rat_of_int i + 1 / 2\<rfloor> = i" by (simp add: floor_unique)
  moreover have "\<lfloor>1 / 2 - rat_of_int i\<rfloor> = - i" by (simp add: floor_unique)
  ultimately show ?thesis by (simp add: round_away_def)
qed

lemma round_away_mono: "0 \<le> p \<Longrightarrow> p \<le> q \<Longrightarrow> round_away p \<le> round_away q"
  by (simp add: round_away_def floor_mono)

lemma round_away_nonneg: "0 \<le> p \<Longrightarrow> 0 \<le> round_away p"
  by (simp add: round_away_def)

subsection \<open>\<open>strtod\<close>\<close>

definition lower_char :: "char \<Rightarrow> char" where
  "lower_char c = (let n = of_char c :: nat in if 65 \<le> n \<and> n \<le> 90 then char_of (n + 32) else c)"

definition is_hex :: "char \<Rightarrow> bool" where
  "is_hex c \<longleftrightarrow> is_digit c \<or>
     (let n = of_char (lower_char c) :: nat in 97 \<le> n \<and> n \<le> 102)"

definition hex_val :: "char \<Rightarrow> nat" where
  "hex_val c = (if is_digit c then digit_val c else of_char (lower_char c) - 87)"

definition hexs_val :: "string \<Rightarrow> nat" where
  "hexs_val s = foldl (\<lambda>a c. 16 * a + hex_val c) 0 s"

text \<open>An exponent part: the marker \<open>e\<close> or \<open>p\<close>, an optional sign, at least one digit; otherwise 0.\<close>

definition exponent_part :: "char \<Rightarrow> string \<Rightarrow> int" where
  "exponent_part mark s =
     (case s of [] \<Rightarrow> 0
      | c # r \<Rightarrow>
          if lower_char c = mark then
            (let (neg, r') = strip_sign r; ds = takeWhile is_digit r'
             in if ds = [] then 0 else if neg then - int (digits_val ds) else int (digits_val ds))
          else 0)"

text \<open>Mantissa digits before and after an optional point, and what follows them.\<close>

definition mantissa :: "(char \<Rightarrow> bool) \<Rightarrow> string \<Rightarrow> string \<times> string \<times> string" where
  "mantissa P s =
     (let a = takeWhile P s; r = dropWhile P s in
      case r of
        c # r' \<Rightarrow> if c = CHR ''.'' then (a, takeWhile P r', dropWhile P r') else (a, [], r)
      | [] \<Rightarrow> (a, [], []))"

definition dec_value :: "string \<Rightarrow> rat option" where
  "dec_value s =
     (let (a, b, r) = mantissa is_digit s in
      if a = [] \<and> b = [] then None
      else Some (of_nat (digits_val (a @ b)) * 10 powi (exponent_part (CHR ''e'') r - int (length b))))"

definition hex_value :: "string \<Rightarrow> rat option" where
  "hex_value s =
     (let (a, b, r) = mantissa is_hex s in
      if a = [] \<and> b = [] then None
      else Some (of_nat (hexs_val (a @ b)) * 2 powi (exponent_part (CHR ''p'') r - 4 * int (length b))))"

definition strtod :: "string \<Rightarrow> double option" where
  "strtod s =
     (let (neg, r) = strip_sign (dropWhile isspace s); l = map lower_char r;
          sign = (\<lambda>q. if neg then - q else q)
      in if prefix ''inf'' l then Some (Infinite neg)
         else if prefix ''nan'' l then Some NaN
         else if prefix ''0x'' l \<and> hex_value (drop 2 r) \<noteq> None
           then map_option (\<lambda>q. to_double (sign q)) (hex_value (drop 2 r))
         else map_option (\<lambda>q. to_double (sign q)) (dec_value r))"

text \<open>\<open>atof\<close>: \<open>strtod\<close>, or zero when nothing converts.\<close>

definition atof :: "string \<Rightarrow> double" where
  "atof s = (case strtod (c_str s) of Some d \<Rightarrow> d | None \<Rightarrow> Fin 0)"

end
