(* ===== verification/JsonLexer.thy ===== *)
theory JsonLexer
  imports Binary64 "HOL-Library.List_Lexorder" "HOL-Library.Char_ord"
begin

unbundle bit_operations_syntax

text \<open>
  The JSON value and the lexer of the bundled \<open>nlohmann/json.hpp\<close> (3.6), as \<open>json::parse\<close> runs it on
  a \<open>std::string\<close>. The lexer's input is the list of bytes not read yet; a scan returns the token,
  with the value registers it fills, and the rest. \<open>get()\<close> at the end of the input keeps returning
  \<open>eof\<close>, which is the empty rest here; \<open>unget()\<close> is not consuming the byte.
\<close>

subsection \<open>Values\<close>

text \<open>
  Objects are \<open>std::map<std::string, json>\<close>: an association list strictly sorted by key, in the
  byte order of \<open>std::string::compare\<close>.
\<close>

datatype json =
    JNull
  | JBool bool
  | JUnsigned nat
  | JInteger int
  | JFloat rat
  | JString string
  | JArray "json list"
  | JObject "(string \<times> json) list"

subsection \<open>Tokens\<close>

datatype token =
    literal_true | literal_false | literal_null
  | value_string string
  | value_unsigned nat
  | value_integer int
  | value_float double
  | begin_array | begin_object | end_array | end_object
  | name_separator | value_separator
  | parse_error | end_of_input

abbreviation byte :: "char \<Rightarrow> nat" where
  "byte c \<equiv> of_char c"

subsection \<open>Escapes: four hex digits and the UTF-8 encoding of a code point\<close>

text \<open>\<open>get_codepoint\<close>: \<open>None\<close> is the code's \<open>-1\<close>.\<close>

fun codepoint_digits :: "nat list \<Rightarrow> string \<Rightarrow> nat \<Rightarrow> (nat \<times> string) option" where
  "codepoint_digits [] s codepoint = Some (codepoint, s)"
| "codepoint_digits (factor # fs) [] codepoint = None"
| "codepoint_digits (factor # fs) (c # s) codepoint =
     (let current = byte c in
      if 0x30 \<le> current \<and> current \<le> 0x39 then
        codepoint_digits fs s (codepoint + push_bit factor (current - 0x30))
      else if 0x41 \<le> current \<and> current \<le> 0x46 then
        codepoint_digits fs s (codepoint + push_bit factor (current - 0x37))
      else if 0x61 \<le> current \<and> current \<le> 0x66 then
        codepoint_digits fs s (codepoint + push_bit factor (current - 0x57))
      else None)"

definition get_codepoint :: "string \<Rightarrow> (nat \<times> string) option" where
  "get_codepoint s = codepoint_digits [12, 8, 4, 0] s 0"

text \<open>Translating a code point into bytes.\<close>

definition codepoint_bytes :: "nat \<Rightarrow> string" where
  "codepoint_bytes codepoint =
     map char_of
      (if codepoint < 0x80 then [codepoint]
       else if codepoint \<le> 0x7FF then
         [0xC0 OR drop_bit 6 codepoint, 0x80 OR (codepoint AND 0x3F)]
       else if codepoint \<le> 0xFFFF then
         [0xE0 OR drop_bit 12 codepoint, 0x80 OR (drop_bit 6 codepoint AND 0x3F),
          0x80 OR (codepoint AND 0x3F)]
       else
         [0xF0 OR drop_bit 18 codepoint, 0x80 OR (drop_bit 12 codepoint AND 0x3F),
          0x80 OR (drop_bit 6 codepoint AND 0x3F), 0x80 OR (codepoint AND 0x3F)])"

text \<open>
  One turn of the loop in \<open>scan_string\<close>: the closing quote, an error, or bytes for the token buffer.
\<close>

datatype scan_result = Closed string | Scan_error | More string string

definition scan_unicode_escape :: "string \<Rightarrow> scan_result" where
  "scan_unicode_escape s =
     (case get_codepoint s of
        None \<Rightarrow> Scan_error
      | Some (codepoint1, r) \<Rightarrow>
          if 0xD800 \<le> codepoint1 \<and> codepoint1 \<le> 0xDBFF then
            (case r of
               b # u # r' \<Rightarrow>
                 if b = CHR 0x5C \<and> u = CHR ''u'' then
                   (case get_codepoint r' of
                      None \<Rightarrow> Scan_error
                    | Some (codepoint2, r'') \<Rightarrow>
                        if 0xDC00 \<le> codepoint2 \<and> codepoint2 \<le> 0xDFFF then
                          More (codepoint_bytes (push_bit 10 codepoint1 + codepoint2 - 0x35FDC00)) r''
                        else Scan_error)
                 else Scan_error
             | _ \<Rightarrow> Scan_error)
          else if 0xDC00 \<le> codepoint1 \<and> codepoint1 \<le> 0xDFFF then Scan_error
          else More (codepoint_bytes codepoint1) r)"

definition scan_escape :: "string \<Rightarrow> scan_result" where
  "scan_escape s =
     (case s of
        [] \<Rightarrow> Scan_error
      | c # r \<Rightarrow>
          if c = CHR 0x22 then More [CHR 0x22] r
          else if c = CHR 0x5C then More [CHR 0x5C] r
          else if c = CHR ''/'' then More ''/'' r
          else if c = CHR ''b'' then More [CHR 0x08] r
          else if c = CHR ''f'' then More [CHR 0x0C] r
          else if c = CHR ''n'' then More [CHR 0x0A] r
          else if c = CHR ''r'' then More [CHR 0x0D] r
          else if c = CHR ''t'' then More [CHR 0x09] r
          else if c = CHR ''u'' then scan_unicode_escape r
          else Scan_error)"

subsection \<open>Raw bytes of a string\<close>

text \<open>The cases \<open>0x00\<close> to \<open>0x1F\<close> and the ASCII cases of the switch.\<close>

definition is_control_byte :: "nat \<Rightarrow> bool" where
  "is_control_byte b \<longleftrightarrow> b \<le> 0x1F"

definition is_ascii_byte :: "nat \<Rightarrow> bool" where
  "is_ascii_byte b \<longleftrightarrow> b = 0x20 \<or> b = 0x21 \<or> 0x23 \<le> b \<and> b \<le> 0x5B \<or> 0x5D \<le> b \<and> b \<le> 0x7F"

text \<open>The ranges a lead byte demands of the bytes after it; \<open>None\<close> is the switch's default.\<close>

definition utf8_ranges :: "nat \<Rightarrow> (nat \<times> nat) list option" where
  "utf8_ranges b =
     (if 0xC2 \<le> b \<and> b \<le> 0xDF then Some [(0x80, 0xBF)]
      else if b = 0xE0 then Some [(0xA0, 0xBF), (0x80, 0xBF)]
      else if 0xE1 \<le> b \<and> b \<le> 0xEC \<or> b = 0xEE \<or> b = 0xEF then Some [(0x80, 0xBF), (0x80, 0xBF)]
      else if b = 0xED then Some [(0x80, 0x9F), (0x80, 0xBF)]
      else if b = 0xF0 then Some [(0x90, 0xBF), (0x80, 0xBF), (0x80, 0xBF)]
      else if 0xF1 \<le> b \<and> b \<le> 0xF3 then Some [(0x80, 0xBF), (0x80, 0xBF), (0x80, 0xBF)]
      else if b = 0xF4 then Some [(0x80, 0x8F), (0x80, 0xBF), (0x80, 0xBF)]
      else None)"

text \<open>\<open>next_byte_in_range\<close>: the bytes added, starting with the current one.\<close>

fun next_byte_in_range :: "(nat \<times> nat) list \<Rightarrow> string \<Rightarrow> string \<Rightarrow> (string \<times> string) option" where
  "next_byte_in_range [] added s = Some (added, s)"
| "next_byte_in_range ((lo, hi) # ranges) added [] = None"
| "next_byte_in_range ((lo, hi) # ranges) added (c # s) =
     (if lo \<le> byte c \<and> byte c \<le> hi then next_byte_in_range ranges (added @ [c]) s else None)"

definition scan_char :: "string \<Rightarrow> scan_result" where
  "scan_char s =
     (case s of
        [] \<Rightarrow> Scan_error
      | c # r \<Rightarrow>
          if c = CHR 0x22 then Closed r
          else if c = CHR 0x5C then scan_escape r
          else if is_control_byte (byte c) then Scan_error
          else if is_ascii_byte (byte c) then More [c] r
          else (case utf8_ranges (byte c) of
                  None \<Rightarrow> Scan_error
                | Some ranges \<Rightarrow>
                    (case next_byte_in_range ranges [c] r of
                       None \<Rightarrow> Scan_error
                     | Some (added, r') \<Rightarrow> More added r')))"

lemma codepoint_digits_length:
  "codepoint_digits fs s cp = Some (n, r) \<Longrightarrow> length r + length fs = length s"
  by (induction fs s cp rule: codepoint_digits.induct) (auto simp: Let_def split: if_splits)

lemma get_codepoint_length: "get_codepoint s = Some (n, r) \<Longrightarrow> length r + 4 = length s"
  by (drule codepoint_digits_length [of "[12, 8, 4, 0]" s 0 n r, unfolded get_codepoint_def [symmetric]]) simp

lemma next_byte_in_range_length:
  "next_byte_in_range ranges added s = Some (a, r) \<Longrightarrow> length r \<le> length s"
  by (induction ranges added s rule: next_byte_in_range.induct) (auto split: if_splits)

lemma scan_unicode_escape_length: "scan_unicode_escape s = More a r \<Longrightarrow> length r < length s"
  by (auto simp: scan_unicode_escape_def split: option.splits list.splits if_splits
      dest!: get_codepoint_length)

lemma scan_char_length: "scan_char s = More a r \<Longrightarrow> length r < length s"
  by (auto simp: scan_char_def scan_escape_def split: list.splits if_splits option.splits
      dest!: scan_unicode_escape_length next_byte_in_range_length)

lemma scan_escape_not_Closed [simp]: "scan_escape s \<noteq> Closed r"
  by (auto simp: scan_escape_def scan_unicode_escape_def split: list.splits option.splits)

lemma scan_char_Closed: "scan_char s = Closed r \<longleftrightarrow> s = CHR 0x22 # r"
  by (auto simp: scan_char_def split: list.splits option.splits)

text \<open>\<open>scan_string\<close>, entered after the opening quote; the token buffer grows to the right.\<close>

function scan_string :: "string \<Rightarrow> string \<Rightarrow> token \<times> string" where
  "scan_string token_buffer s =
     (case scan_char s of
        Closed r \<Rightarrow> (value_string token_buffer, r)
      | Scan_error \<Rightarrow> (parse_error, [])
      | More added r \<Rightarrow> scan_string (token_buffer @ added) r)"
  by pat_completeness auto
termination
  by (relation "measure (\<lambda>(b, s). length s)") (auto dest: scan_char_length)

declare scan_string.simps [simp del]

lemma scan_string_length: "scan_string b s = (t, r) \<Longrightarrow> length r \<le> length s"
proof (induction b s rule: scan_string.induct)
  case (1 b s)
  show ?case
  proof (cases "scan_char s")
    case (Closed r')
    with 1 show ?thesis by (auto simp: scan_string.simps [of b s] scan_char_Closed)
  next
    case Scan_error
    with 1 show ?thesis by (simp add: scan_string.simps [of b s])
  next
    case (More a r')
    with 1 scan_char_length [OF More] show ?thesis by (simp add: scan_string.simps [of b s])
  qed
qed

subsection \<open>Numbers\<close>

text \<open>
  The state machine of \<open>scan_number\<close>, one function per label. A state has the bytes read so far
  and the type of number; its result is the literal, its type and the rest, or \<open>None\<close> on an error.
\<close>

datatype number_type = NUnsigned | NInteger | NFloat

fun scan_number_any2 :: "string \<Rightarrow> string \<Rightarrow> (string \<times> number_type \<times> string) option" where
  "scan_number_any2 b [] = Some (b, NFloat, [])"
| "scan_number_any2 b (c # s) =
     (if is_digit c then scan_number_any2 (b @ [c]) s else Some (b, NFloat, c # s))"

definition scan_number_sign :: "string \<Rightarrow> string \<Rightarrow> (string \<times> number_type \<times> string) option" where
  "scan_number_sign b s =
     (case s of [] \<Rightarrow> None | c # r \<Rightarrow> if is_digit c then scan_number_any2 (b @ [c]) r else None)"

definition scan_number_exponent :: "string \<Rightarrow> string \<Rightarrow> (string \<times> number_type \<times> string) option" where
  "scan_number_exponent b s =
     (case s of
        [] \<Rightarrow> None
      | c # r \<Rightarrow>
          if c = CHR ''+'' \<or> c = CHR ''-'' then scan_number_sign (b @ [c]) r
          else if is_digit c then scan_number_any2 (b @ [c]) r
          else None)"

fun scan_number_decimal2 :: "string \<Rightarrow> string \<Rightarrow> (string \<times> number_type \<times> string) option" where
  "scan_number_decimal2 b [] = Some (b, NFloat, [])"
| "scan_number_decimal2 b (c # s) =
     (if is_digit c then scan_number_decimal2 (b @ [c]) s
      else if c = CHR ''e'' \<or> c = CHR ''E'' then scan_number_exponent (b @ [c]) s
      else Some (b, NFloat, c # s))"

definition scan_number_decimal1 :: "string \<Rightarrow> string \<Rightarrow> (string \<times> number_type \<times> string) option" where
  "scan_number_decimal1 b s =
     (case s of [] \<Rightarrow> None | c # r \<Rightarrow> if is_digit c then scan_number_decimal2 (b @ [c]) r else None)"

fun scan_number_any1 :: "number_type \<Rightarrow> string \<Rightarrow> string \<Rightarrow> (string \<times> number_type \<times> string) option" where
  "scan_number_any1 ty b [] = Some (b, ty, [])"
| "scan_number_any1 ty b (c # s) =
     (if is_digit c then scan_number_any1 ty (b @ [c]) s
      else if c = CHR ''.'' then scan_number_decimal1 (b @ [c]) s
      else if c = CHR ''e'' \<or> c = CHR ''E'' then scan_number_exponent (b @ [c]) s
      else Some (b, ty, c # s))"

definition scan_number_zero :: "number_type \<Rightarrow> string \<Rightarrow> string \<Rightarrow> (string \<times> number_type \<times> string) option" where
  "scan_number_zero ty b s =
     (case s of
        [] \<Rightarrow> Some (b, ty, [])
      | c # r \<Rightarrow>
          if c = CHR ''.'' then scan_number_decimal1 (b @ [c]) r
          else if c = CHR ''e'' \<or> c = CHR ''E'' then scan_number_exponent (b @ [c]) r
          else Some (b, ty, s))"

definition scan_number_minus :: "string \<Rightarrow> string \<Rightarrow> (string \<times> number_type \<times> string) option" where
  "scan_number_minus b s =
     (case s of
        [] \<Rightarrow> None
      | c # r \<Rightarrow>
          if c = CHR ''0'' then scan_number_zero NInteger (b @ [c]) r
          else if is_digit c then scan_number_any1 NInteger (b @ [c]) r
          else None)"

text \<open>
  The conversion at \<open>scan_number_done\<close>: \<open>strtoull\<close> and \<open>strtoll\<close> report \<open>ERANGE\<close> outside 64 bits,
  and the literal is then read as a double.
\<close>

definition scan_number_done :: "string \<Rightarrow> number_type \<Rightarrow> token" where
  "scan_number_done b ty =
     (let as_float = value_float (case strtod b of Some d \<Rightarrow> d | None \<Rightarrow> Fin 0) in
      case ty of
        NUnsigned \<Rightarrow> (case strtol10 b of
            Some i \<Rightarrow> if i < 2 ^ 64 then value_unsigned (nat i) else as_float
          | None \<Rightarrow> as_float)
      | NInteger \<Rightarrow> (case strtol10 b of
            Some i \<Rightarrow> if long_min \<le> i \<and> i \<le> long_max then value_integer i else as_float
          | None \<Rightarrow> as_float)
      | NFloat \<Rightarrow> as_float)"

definition scan_number :: "char \<Rightarrow> string \<Rightarrow> token \<times> string" where
  "scan_number current s =
     (let r = (if current = CHR ''-'' then scan_number_minus [current] s
               else if current = CHR ''0'' then scan_number_zero NUnsigned [current] s
               else scan_number_any1 NUnsigned [current] s)
      in case r of None \<Rightarrow> (parse_error, [])
         | Some (b, ty, rest) \<Rightarrow> (scan_number_done b ty, rest))"

lemma scan_number_any2_length: "scan_number_any2 b s = Some (b', ty', r) \<Longrightarrow> length r \<le> length s"
  by (induction b s rule: scan_number_any2.induct) (auto split: if_splits)

lemma scan_number_exponent_length: "scan_number_exponent b s = Some (b', ty', r) \<Longrightarrow> length r \<le> length s"
  by (auto simp: scan_number_exponent_def scan_number_sign_def split: list.splits if_splits
      dest!: scan_number_any2_length)

lemma scan_number_decimal2_length: "scan_number_decimal2 b s = Some (b', ty', r) \<Longrightarrow> length r \<le> length s"
  by (induction b s rule: scan_number_decimal2.induct)
    (auto split: if_splits dest: scan_number_exponent_length)

lemma scan_number_decimal1_length: "scan_number_decimal1 b s = Some (b', ty', r) \<Longrightarrow> length r \<le> length s"
  by (auto simp: scan_number_decimal1_def split: list.splits if_splits dest!: scan_number_decimal2_length)

lemma scan_number_any1_length: "scan_number_any1 ty b s = Some (b', ty', r) \<Longrightarrow> length r \<le> length s"
  by (induction ty b s rule: scan_number_any1.induct)
    (auto split: if_splits dest: scan_number_exponent_length scan_number_decimal1_length)

lemma scan_number_zero_length: "scan_number_zero ty b s = Some (b', ty', r) \<Longrightarrow> length r \<le> length s"
  by (auto simp: scan_number_zero_def split: list.splits if_splits
      dest!: scan_number_exponent_length scan_number_decimal1_length)

lemma scan_number_length: "scan_number c s = (t, r) \<Longrightarrow> length r \<le> length s"
  by (auto simp: scan_number_def scan_number_minus_def Let_def split: list.splits if_splits option.splits
      dest!: scan_number_any1_length scan_number_zero_length)

subsection \<open>The scanner\<close>

text \<open>\<open>scan_literal\<close>: the rest of the literal after its first byte.\<close>

fun scan_literal :: "string \<Rightarrow> token \<Rightarrow> string \<Rightarrow> token \<times> string" where
  "scan_literal [] return_type s = (return_type, s)"
| "scan_literal (l # ls) return_type [] = (parse_error, [])"
| "scan_literal (l # ls) return_type (c # s) =
     (if c = l then scan_literal ls return_type s else (parse_error, []))"

text \<open>\<open>skip_bom\<close>: only at the start of the input; \<open>None\<close> when the mark is incomplete.\<close>

definition skip_bom :: "string \<Rightarrow> string option" where
  "skip_bom s =
     (case s of
        a # r \<Rightarrow>
          if byte a = 0xEF then
            (case r of
               b # c # r' \<Rightarrow> if byte b = 0xBB \<and> byte c = 0xBF then Some r' else None
             | _ \<Rightarrow> None)
          else Some s
      | [] \<Rightarrow> Some s)"

definition is_json_space :: "char \<Rightarrow> bool" where
  "is_json_space c \<longleftrightarrow> c = CHR 0x20 \<or> c = CHR 0x09 \<or> c = CHR 0x0A \<or> c = CHR 0x0D"

text \<open>The switch of \<open>scan\<close> on the current byte. A NUL byte ends the input.\<close>

definition scan_switch :: "char \<Rightarrow> string \<Rightarrow> token \<times> string" where
  "scan_switch c r =
     (if c = CHR ''['' then (begin_array, r)
      else if c = CHR '']'' then (end_array, r)
      else if c = CHR ''{'' then (begin_object, r)
      else if c = CHR ''}'' then (end_object, r)
      else if c = CHR '':'' then (name_separator, r)
      else if c = CHR '','' then (value_separator, r)
      else if c = CHR ''t'' then scan_literal ''rue'' literal_true r
      else if c = CHR ''f'' then scan_literal ''alse'' literal_false r
      else if c = CHR ''n'' then scan_literal ''ull'' literal_null r
      else if c = CHR 0x22 then scan_string [] r
      else if c = CHR ''-'' \<or> is_digit c then scan_number c r
      else if c = nul then (end_of_input, r)
      else (parse_error, []))"

text \<open>\<open>scan\<close> once the byte order mark has been dealt with.\<close>

definition scan :: "string \<Rightarrow> token \<times> string" where
  "scan s =
     (case dropWhile is_json_space s of
        [] \<Rightarrow> (end_of_input, [])
      | c # r \<Rightarrow> scan_switch c r)"

text \<open>The first \<open>scan\<close> of an input.\<close>

definition scan_first :: "string \<Rightarrow> token \<times> string" where
  "scan_first s = (case skip_bom s of None \<Rightarrow> (parse_error, []) | Some s' \<Rightarrow> scan s')"

definition is_terminal :: "token \<Rightarrow> bool" where
  "is_terminal t \<longleftrightarrow> t = end_of_input \<or> t = parse_error"

lemma scan_literal_length: "scan_literal ls t s = (t', r) \<Longrightarrow> length r \<le> length s"
  by (induction ls t s rule: scan_literal.induct) (auto split: if_splits)

lemma scan_switch_length: "scan_switch c s = (t, r) \<Longrightarrow> length r \<le> length s"
  unfolding scan_switch_def
  by (elim ifE) (erule scan_literal_length scan_string_length scan_number_length | simp)+

lemma scan_length_le: "scan s = (t, r) \<Longrightarrow> length r \<le> length s"
  and scan_length_less: "scan s = (t, r) \<Longrightarrow> \<not> is_terminal t \<Longrightarrow> length r < length s"
proof -
  have *: "length r \<le> length s \<and> (\<not> is_terminal t \<longrightarrow> length r < length s)" if scan: "scan s = (t, r)"
  proof (cases "dropWhile is_json_space s")
    case Nil
    with scan show ?thesis by (simp add: scan_def is_terminal_def)
  next
    case (Cons c s')
    have "length (c # s') \<le> length s" using length_dropWhile_le [of is_json_space s] Cons by simp
    moreover have "length r \<le> length s'"
      using scan Cons scan_switch_length by (simp add: scan_def)
    ultimately show ?thesis by simp
  qed
  show "scan s = (t, r) \<Longrightarrow> length r \<le> length s"
    and "scan s = (t, r) \<Longrightarrow> \<not> is_terminal t \<Longrightarrow> length r < length s" using * by auto
qed

end
