(* ===== verification/JsonParser.thy ===== *)
theory JsonParser
  imports JsonLexer
begin

text \<open>
  \<open>parser::sax_parse_internal\<close> driving \<open>json_sax_dom_parser\<close>, and what the program reads from the
  result: \<open>at(key)\<close> and \<open>get<std::string>()\<close>. The parser is one loop with an explicit stack of
  the containers still open; it is modelled as that loop, over a single step.
\<close>

subsection \<open>Objects as sorted association lists\<close>

text \<open>\<open>operator[](key) = value\<close> on \<open>std::map\<close>: the key keeps its place, a new key is put in order.\<close>

fun obj_put :: "string \<Rightarrow> json \<Rightarrow> (string \<times> json) list \<Rightarrow> (string \<times> json) list" where
  "obj_put k v [] = [(k, v)]"
| "obj_put k v ((k', v') # m) =
     (if k < k' then (k, v) # (k', v') # m
      else if k = k' then (k, v) # m
      else (k', v') # obj_put k v m)"

abbreviation sorted_keys :: "(string \<times> json) list \<Rightarrow> bool" where
  "sorted_keys m \<equiv> sorted_wrt (<) (map fst m)"

lemma set_obj_put: "fst ` set (obj_put k v m) = insert k (fst ` set m)"
  by (induction k v m rule: obj_put.induct) auto

lemma sorted_obj_put: "sorted_keys m \<Longrightarrow> sorted_keys (obj_put k v m)"
proof (induction k v m rule: obj_put.induct)
  case (1 k v)
  then show ?case by simp
next
  case (2 k v k' v' m)
  have "\<forall>x\<in>fst ` set (obj_put k v m). k' < x" if "k' < k"
    using 2 that unfolding set_obj_put by auto
  with 2 show ?case by auto
qed

lemma map_of_obj_put: "map_of (obj_put k v m) = (map_of m)(k \<mapsto> v)"
  by (induction k v m rule: obj_put.induct) auto

lemma obj_put_snoc: "\<forall>x\<in>set m. fst x < k \<Longrightarrow> obj_put k v m = m @ [(k, v)]"
  by (induction k v m rule: obj_put.induct) auto

subsection \<open>The handler that builds the document\<close>

text \<open>
  \<open>ref_stack\<close> holds references to the containers still open, innermost first here: an array with the
  elements so far, or an object with its members so far and the key \<open>object_element\<close> stands for.
\<close>

datatype frame = In_array "json list" | In_object "(string \<times> json) list" string

fun frame_value :: "frame \<Rightarrow> json" where
  "frame_value (In_array vs) = JArray vs"
| "frame_value (In_object m k) = JObject m"

text \<open>\<open>handle_value\<close>: the root, the next element of an array, or the value of the pending key.\<close>

fun handle_value :: "json \<Rightarrow> frame list \<times> json \<Rightarrow> frame list \<times> json" where
  "handle_value v ([], rt) = ([], v)"
| "handle_value v (In_array vs # fs, rt) = (In_array (vs @ [v]) # fs, rt)"
| "handle_value v (In_object m k # fs, rt) = (In_object (obj_put k v m) k # fs, rt)"

text \<open>\<open>end_array\<close> and \<open>end_object\<close>: the innermost container is complete in its parent.\<close>

fun end_container :: "frame list \<times> json \<Rightarrow> frame list \<times> json" where
  "end_container ([], rt) = ([], rt)"
| "end_container (f # fs, rt) = handle_value (frame_value f) (fs, rt)"

subsection \<open>One turn of the loop\<close>

record pstate =
  skip_to_state_evaluation :: bool
  doc :: "frame list \<times> json"
  last_token :: token
  input :: string

text \<open>Where a turn ends: with the next turn's state, or with the whole value read.\<close>

datatype turn = Continue pstate | Finished json string

definition goto_parse :: "frame list \<times> json \<Rightarrow> token \<times> string \<Rightarrow> turn" where
  "goto_parse d ts = Continue \<lparr>skip_to_state_evaluation = False, doc = d, last_token = fst ts, input = snd ts\<rparr>"

definition goto_evaluate :: "frame list \<times> json \<Rightarrow> string \<Rightarrow> turn" where
  "goto_evaluate d s = Continue \<lparr>skip_to_state_evaluation = True, doc = d, last_token = end_of_input, input = s\<rparr>"

text \<open>A key, its colon and the first token of its value; used after \<open>{\<close> and after a comma.\<close>

definition read_key :: "token \<Rightarrow> string \<Rightarrow> (string \<times> token \<times> string) res" where
  "read_key t s =
     (case t of
        value_string k \<Rightarrow>
          (case scan s of (t', s') \<Rightarrow>
             if t' = name_separator then Inr (k, scan s') else Inl (Json_exception 101))
      | _ \<Rightarrow> Inl (Json_exception 101))"

text \<open>\<open>switch (last_token)\<close>. A scalar falls through to the evaluation of the state.\<close>

definition parse_object :: "frame list \<times> json \<Rightarrow> string \<Rightarrow> (turn + (frame list \<times> json) \<times> string) res" where
  "parse_object d s =
     (case scan s of (t, s') \<Rightarrow>
        if t = end_object then Inr (Inr (handle_value (JObject []) d, s'))
        else bindR (read_key t s') (\<lambda>(k, ts).
          Inr (Inl (goto_parse (In_object [] k # fst d, snd d) ts))))"

definition parse_array :: "frame list \<times> json \<Rightarrow> string \<Rightarrow> (turn + (frame list \<times> json) \<times> string) res" where
  "parse_array d s =
     (case scan s of (t, s') \<Rightarrow>
        if t = end_array then Inr (Inr (handle_value (JArray []) d, s'))
        else Inr (Inl (goto_parse (In_array [] # fst d, snd d) (t, s'))))"

fun parse_value :: "frame list \<times> json \<Rightarrow> token \<Rightarrow> string \<Rightarrow> (turn + (frame list \<times> json) \<times> string) res" where
  "parse_value d begin_object s = parse_object d s"
| "parse_value d begin_array s = parse_array d s"
| "parse_value d (value_float (Fin q)) s = Inr (Inr (handle_value (JFloat q) d, s))"
| "parse_value d (value_float (Infinite b)) s = Inl (Json_exception 406)"
| "parse_value d (value_float NaN) s = Inl (Json_exception 406)"
| "parse_value d literal_false s = Inr (Inr (handle_value (JBool False) d, s))"
| "parse_value d literal_null s = Inr (Inr (handle_value JNull d, s))"
| "parse_value d literal_true s = Inr (Inr (handle_value (JBool True) d, s))"
| "parse_value d (value_integer i) s = Inr (Inr (handle_value (JInteger i) d, s))"
| "parse_value d (value_string str) s = Inr (Inr (handle_value (JString str) d, s))"
| "parse_value d (value_unsigned n) s = Inr (Inr (handle_value (JUnsigned n) d, s))"
| "parse_value d end_array s = Inl (Json_exception 101)"
| "parse_value d end_object s = Inl (Json_exception 101)"
| "parse_value d name_separator s = Inl (Json_exception 101)"
| "parse_value d value_separator s = Inl (Json_exception 101)"
| "parse_value d parse_error s = Inl (Json_exception 101)"
| "parse_value d end_of_input s = Inl (Json_exception 101)"

text \<open>After a complete value: done, the next element or member, or the end of the container.\<close>

fun evaluate_state :: "frame list \<times> json \<Rightarrow> string \<Rightarrow> turn res" where
  "evaluate_state ([], rt) s = Inr (Finished rt s)"
| "evaluate_state (In_array vs # fs, rt) s =
     (case scan s of (t, s') \<Rightarrow>
        if t = value_separator then Inr (goto_parse (In_array vs # fs, rt) (scan s'))
        else if t = end_array then Inr (goto_evaluate (end_container (In_array vs # fs, rt)) s')
        else Inl (Json_exception 101))"
| "evaluate_state (In_object m k # fs, rt) s =
     (case scan s of (t, s') \<Rightarrow>
        if t = value_separator then
          (case scan s' of (t', s'') \<Rightarrow>
             bindR (read_key t' s'') (\<lambda>(k', ts).
               Inr (goto_parse (In_object m k' # fs, rt) ts)))
        else if t = end_object then Inr (goto_evaluate (end_container (In_object m k # fs, rt)) s')
        else Inl (Json_exception 101))"

definition parse_step :: "pstate \<Rightarrow> turn res" where
  "parse_step st =
     (if skip_to_state_evaluation st then evaluate_state (doc st) (input st)
      else bindR (parse_value (doc st) (last_token st) (input st)) (\<lambda>r.
        case r of Inl turn \<Rightarrow> Inr turn | Inr (d, s) \<Rightarrow> evaluate_state d s))"

subsection \<open>The loop ends\<close>

definition parse_measure :: "pstate \<Rightarrow> nat" where
  "parse_measure st = 2 * length (input st) +
     (if skip_to_state_evaluation st \<or> is_terminal (last_token st) then 0 else 1)"

lemma scan_measure:
  "2 * length (snd (scan s)) + (if is_terminal (fst (scan s)) then 0 else 1) \<le> 2 * length s"
  using scan_length_le [of s "fst (scan s)" "snd (scan s)"]
    scan_length_less [of s "fst (scan s)" "snd (scan s)"] by auto

lemma scan_consumes: "scan s = (t, r) \<Longrightarrow> t \<noteq> end_of_input \<Longrightarrow> t \<noteq> parse_error \<Longrightarrow> length r < length s"
  by (rule scan_length_less) (auto simp: is_terminal_def)

definition turn_measure :: "turn \<Rightarrow> nat" where
  "turn_measure t = (case t of Continue st \<Rightarrow> parse_measure st | Finished _ _ \<Rightarrow> 0)"

lemma turn_measure_goto [simp]:
  "turn_measure (goto_parse d (scan s)) \<le> 2 * length s"
  "turn_measure (goto_evaluate d s) = 2 * length s"
  using scan_measure [of s] by (auto simp: turn_measure_def goto_parse_def goto_evaluate_def parse_measure_def)

lemma turn_measure_Continue: "turn_measure (Continue st) = parse_measure st"
  by (simp add: turn_measure_def)

lemma read_key_measure:
  assumes "read_key t s = Inr (k, ts)"
  shows "turn_measure (goto_parse d ts) < 2 * length s"
proof -
  from assms obtain s' where s': "scan s = (name_separator, s')" "ts = scan s'"
    by (cases "scan s") (auto simp: read_key_def split: token.splits if_splits)
  have "length s' < length s" using scan_consumes [OF s'(1)] by simp
  moreover have "turn_measure (goto_parse d ts) \<le> 2 * length s'" by (simp add: s'(2))
  ultimately show ?thesis by linarith
qed

lemma evaluate_state_measure:
  assumes "evaluate_state d s = Inr turn"
  shows "turn_measure turn < 2 * length s \<or> turn_measure turn = 0 \<and> (\<exists>v r. turn = Finished v r)"
  using assms
proof (cases "(d, s)" rule: evaluate_state.cases)
  case (1 rt s)
  with assms show ?thesis by (auto simp: turn_measure_def)
next
  case (2 vs fs rt s')
  obtain t r where t: "scan s = (t, r)" by force
  with 2 assms have turn: "turn = goto_parse (In_array vs # fs, rt) (scan r) \<and> t = value_separator
      \<or> turn = goto_evaluate (end_container (In_array vs # fs, rt)) r \<and> t = end_array"
    by (auto split: if_splits)
  then have "length r < length s" using scan_consumes [OF t] by auto
  moreover have "turn_measure turn \<le> 2 * length r"
    using turn turn_measure_goto(1) [of "(In_array vs # fs, rt)" r] by auto
  ultimately show ?thesis by linarith
next
  case (3 m k fs rt s')
  obtain t r where t: "scan s = (t, r)" by force
  obtain t' r' where t': "scan r = (t', r')" by force
  from 3 assms t t' have turn: "(\<exists>k' ts. read_key t' r' = Inr (k', ts) \<and>
        turn = goto_parse (In_object m k' # fs, rt) ts) \<and> t = value_separator
      \<or> turn = goto_evaluate (end_container (In_object m k # fs, rt)) r \<and> t = end_object"
    by (auto split: if_splits)
  then have "length r < length s" using scan_consumes [OF t] by auto
  moreover have "length r' \<le> length r" by (rule scan_length_le [OF t'])
  moreover have "turn_measure turn \<le> 2 * length r' \<or> turn_measure turn = 2 * length r"
    using turn by (auto dest: read_key_measure less_imp_le)
  ultimately show ?thesis by linarith
qed

lemma parse_object_measure:
  assumes "parse_object d s = Inr r"
  shows "case r of Inl turn \<Rightarrow> turn_measure turn < Suc (2 * length s) | Inr (d', s') \<Rightarrow> length s' \<le> length s"
proof -
  obtain t s' where t: "scan s = (t, s')" by force
  have le: "length s' \<le> length s" by (rule scan_length_le [OF t])
  show ?thesis
  proof (cases "t = end_object")
    case True
    with assms t le show ?thesis by (auto simp: parse_object_def)
  next
    case False
    with assms t obtain k ts where k: "read_key t s' = Inr (k, ts)"
      "r = Inl (goto_parse (In_object [] k # fst d, snd d) ts)" by (auto simp: parse_object_def)
    from read_key_measure [OF k(1), of "(In_object [] k # fst d, snd d)"] le k(2) show ?thesis by simp
  qed
qed

lemma parse_array_measure:
  assumes "parse_array d s = Inr r"
  shows "case r of Inl turn \<Rightarrow> turn_measure turn < Suc (2 * length s) | Inr (d', s') \<Rightarrow> length s' \<le> length s"
proof -
  obtain t s' where t: "scan s = (t, s')" by force
  have le: "length s' \<le> length s" by (rule scan_length_le [OF t])
  show ?thesis
    using assms t le turn_measure_goto(1) [of "(In_array [] # fst d, snd d)" s]
    by (auto simp: parse_array_def split: if_splits)
qed

lemma parse_value_measure:
  assumes "parse_value d t s = Inr r"
  shows "\<not> is_terminal t \<and>
    (case r of Inl turn \<Rightarrow> turn_measure turn < Suc (2 * length s) | Inr (d', s') \<Rightarrow> length s' \<le> length s)"
  using assms
  by (cases "(d, t, s)" rule: parse_value.cases)
    (auto simp: is_terminal_def dest: parse_object_measure parse_array_measure)

lemma parse_step_measure:
  assumes "parse_step st = Inr (Continue st')"
  shows "parse_measure st' < parse_measure st"
proof (cases "skip_to_state_evaluation st")
  case True
  with assms evaluate_state_measure [of "doc st" "input st" "Continue st'"] show ?thesis
    by (simp add: parse_step_def parse_measure_def [of st] turn_measure_Continue)
next
  case False
  with assms obtain r where r: "parse_value (doc st) (last_token st) (input st) = Inr r"
    "(case r of Inl turn \<Rightarrow> Inr turn | Inr (d, s) \<Rightarrow> evaluate_state d s) = Inr (Continue st')"
    by (auto simp: parse_step_def)
  note v = parse_value_measure [OF r(1)]
  have m: "parse_measure st = Suc (2 * length (input st))"
    using v False by (simp add: parse_measure_def)
  show ?thesis
  proof (cases r)
    case (Inl turn)
    with r(2) v m show ?thesis by (simp add: turn_measure_Continue)
  next
    case (Inr ds)
    obtain d s where ds: "ds = (d, s)" by (cases ds) auto
    from r(2) Inr ds have "evaluate_state d s = Inr (Continue st')" by simp
    from evaluate_state_measure [OF this] v Inr ds m show ?thesis
      by (auto simp: turn_measure_Continue)
  qed
qed

function sax_parse_internal :: "pstate \<Rightarrow> (json \<times> string) res" where
  "sax_parse_internal st =
     (case parse_step st of
        Inl e \<Rightarrow> Inl e
      | Inr (Finished v s) \<Rightarrow> Inr (v, s)
      | Inr (Continue st') \<Rightarrow> sax_parse_internal st')"
  by pat_completeness auto
termination
  by (relation "measure parse_measure") (auto dest: parse_step_measure)

declare sax_parse_internal.simps [simp del]

text \<open>\<open>json::parse\<close>: strict, so the value must be followed by the end of the input.\<close>

definition json_parse :: "string \<Rightarrow> json res" where
  "json_parse s =
     (case scan_first s of (t, r) \<Rightarrow>
        bindR (sax_parse_internal
          \<lparr>skip_to_state_evaluation = False, doc = ([], JNull), last_token = t, input = r\<rparr>)
          (\<lambda>(v, rest). if fst (scan rest) = end_of_input then Inr v else Inl (Json_exception 101)))"

subsection \<open>Reading the document\<close>

text \<open>\<open>j.at(key)\<close>: type error 304 unless \<open>j\<close> is an object, out of range 403 if the key is missing.\<close>

definition json_at :: "json \<Rightarrow> string \<Rightarrow> json res" where
  "json_at j key =
     (case j of
        JObject m \<Rightarrow> (case map_of m key of Some v \<Rightarrow> Inr v | None \<Rightarrow> Inl (Json_exception 403))
      | _ \<Rightarrow> Inl (Json_exception 304))"

text \<open>\<open>j.get<std::string>()\<close>: type error 302 unless \<open>j\<close> is a string.\<close>

definition get_string :: "json \<Rightarrow> string res" where
  "get_string j = (case j of JString s \<Rightarrow> Inr s | _ \<Rightarrow> Inl (Json_exception 302))"

definition at_string :: "json \<Rightarrow> string \<Rightarrow> string res" where
  "at_string j key = bindR (json_at j key) get_string"

text \<open>
  The parser fails with a parse error, 101, or with out of range, 406, at a number too large for a
  double; like the failures of the readers, both are a \<open>std::exception\<close>.
\<close>

definition is_parser_exception :: "exn \<Rightarrow> bool" where
  "is_parser_exception e \<longleftrightarrow> e = Json_exception 101 \<or> e = Json_exception 406"

lemma parser_exceptions [simp]: "is_parser_exception (Json_exception 101)" "is_parser_exception (Json_exception 406)"
  by (simp_all add: is_parser_exception_def)

lemma read_key_error: "read_key t s = Inl e \<Longrightarrow> is_parser_exception e"
  by (auto simp: read_key_def split: token.splits prod.splits if_splits)

lemma parse_value_error: "parse_value d t s = Inl e \<Longrightarrow> is_parser_exception e"
  by (cases "(d, t, s)" rule: parse_value.cases)
    (auto simp: parse_object_def parse_array_def bindR_eq_Inl split: prod.splits if_splits
      dest: read_key_error)

lemma evaluate_state_error: "evaluate_state d s = Inl e \<Longrightarrow> is_parser_exception e"
  by (cases "(d, s)" rule: evaluate_state.cases)
    (auto simp: bindR_eq_Inl split: prod.splits if_splits dest: read_key_error)

lemma parse_step_error:
  assumes "parse_step st = Inl e"
  shows "is_parser_exception e"
proof (cases "skip_to_state_evaluation st")
  case True
  with assms show ?thesis by (auto simp: parse_step_def dest: evaluate_state_error)
next
  case False
  show ?thesis
  proof (cases "parse_value (doc st) (last_token st) (input st)")
    case (Inl e')
    with assms False show ?thesis by (auto simp: parse_step_def dest: parse_value_error)
  next
    case (Inr r)
    with assms False show ?thesis
      by (cases r) (auto simp: parse_step_def dest: evaluate_state_error)
  qed
qed

lemma sax_parse_internal_error: "sax_parse_internal st = Inl e \<Longrightarrow> is_parser_exception e"
proof (induction st rule: sax_parse_internal.induct)
  case (1 st)
  then show ?case
    by (auto simp: sax_parse_internal.simps [of st] split: sum.splits turn.splits dest: parse_step_error)
qed

lemma json_parse_exception: "json_parse s = Inl e \<Longrightarrow> is_parser_exception e"
  by (auto simp: json_parse_def bindR_eq_Inl split: prod.splits if_splits dest: sax_parse_internal_error)

lemma json_parse_error: "json_parse s = Inl e \<Longrightarrow> is_std_exception e"
  by (drule json_parse_exception) (auto simp: is_parser_exception_def)

lemma json_at_error: "json_at j k = Inl e \<Longrightarrow> is_std_exception e"
  by (auto simp: json_at_def split: json.splits option.splits)

lemma get_string_error: "get_string j = Inl e \<Longrightarrow> is_std_exception e"
  by (auto simp: get_string_def split: json.splits)

lemma at_string_error: "at_string j k = Inl e \<Longrightarrow> is_std_exception e"
  unfolding at_string_def bindR_eq_Inl using json_at_error get_string_error by blast

end
