(* ===== verification/JsonDump.thy ===== *)
theory JsonDump
  imports JsonParser
begin

unbundle bit_operations_syntax

text \<open>
  The serializer behind \<open>json::dump()\<close>: compact output, strict about UTF-8. Strings pass through the
  table-driven decoder of Hoehrmann and a 512-byte buffer that is flushed to the output adapter.
\<close>

subsection \<open>The UTF-8 decoder\<close>

text \<open>
  The table \<open>utf8d\<close>: the class of each byte, then for every state the next state per class.
  State 0 accepts, state 1 rejects.
\<close>

definition utf8_classes :: "nat list" where
  "utf8_classes =
     replicate 128 0
     @ replicate 16 1 @ replicate 16 9
     @ replicate 32 7
     @ [8, 8] @ replicate 30 2
     @ [0xA, 3, 3, 3, 3, 3, 3, 3, 3, 3, 3, 3, 3, 4, 3, 3]
     @ [0xB, 6, 6, 6, 5, 8, 8, 8, 8, 8, 8, 8, 8, 8, 8, 8]"

definition utf8_rows :: "nat list list" where
  "utf8_rows =
     [[0, 1, 2, 3, 5, 8, 7, 1, 1, 1, 4, 6, 1, 1, 1, 1],
      [1, 1, 1, 1, 1, 1, 1, 1, 1, 1, 1, 1, 1, 1, 1, 1],
      [1, 0, 1, 1, 1, 1, 1, 0, 1, 0, 1, 1, 1, 1, 1, 1],
      [1, 2, 1, 1, 1, 1, 1, 2, 1, 2, 1, 1, 1, 1, 1, 1],
      [1, 1, 1, 1, 1, 1, 1, 2, 1, 1, 1, 1, 1, 1, 1, 1],
      [1, 2, 1, 1, 1, 1, 1, 1, 1, 2, 1, 1, 1, 1, 1, 1],
      [1, 1, 1, 1, 1, 1, 1, 3, 1, 3, 1, 1, 1, 1, 1, 1],
      [1, 3, 1, 1, 1, 1, 1, 3, 1, 3, 1, 1, 1, 1, 1, 1],
      [1, 3, 1, 1, 1, 1, 1, 1, 1, 1, 1, 1, 1, 1, 1, 1]]"

definition utf8d :: "nat list" where
  "utf8d = utf8_classes @ concat utf8_rows"

definition UTF8_ACCEPT :: nat where "UTF8_ACCEPT = 0"
definition UTF8_REJECT :: nat where "UTF8_REJECT = 1"

text \<open>\<open>decode(state, codep, byte)\<close>: the new state and code point (\<open>uint32_t\<close>).\<close>

definition decode :: "nat \<Rightarrow> nat \<Rightarrow> nat \<Rightarrow> nat \<times> nat" where
  "decode state codep b =
     (let type = utf8d ! b;
          codep' = (if state \<noteq> UTF8_ACCEPT then (b AND 0x3F) OR take_bit 32 (push_bit 6 codep)
                    else drop_bit type 0xFF AND b)
      in (utf8d ! (256 + state * 16 + type), codep'))"

subsection \<open>Escaping\<close>

definition hex_digit :: "nat \<Rightarrow> char" where
  "hex_digit n = (if n < 10 then char_of (48 + n) else char_of (87 + n))"

text \<open>\<open>snprintf("\\u%04x", n)\<close> of a \<open>uint16_t\<close>.\<close>

definition u_escape :: "nat \<Rightarrow> string" where
  "u_escape n = CHR 0x5C # CHR ''u'' # map hex_digit
     [n div 4096 mod 16, n div 256 mod 16, n div 16 mod 16, n mod 16]"

text \<open>The bytes written when a code point is complete; \<open>c\<close> is its last byte.\<close>

definition escape_codepoint :: "bool \<Rightarrow> nat \<Rightarrow> char \<Rightarrow> string" where
  "escape_codepoint ensure_ascii codepoint c =
     (if codepoint = 0x08 then [CHR 0x5C, CHR ''b'']
      else if codepoint = 0x09 then [CHR 0x5C, CHR ''t'']
      else if codepoint = 0x0A then [CHR 0x5C, CHR ''n'']
      else if codepoint = 0x0C then [CHR 0x5C, CHR ''f'']
      else if codepoint = 0x0D then [CHR 0x5C, CHR ''r'']
      else if codepoint = 0x22 then [CHR 0x5C, CHR 0x22]
      else if codepoint = 0x5C then [CHR 0x5C, CHR 0x5C]
      else if codepoint \<le> 0x1F \<or> ensure_ascii \<and> 0x7F \<le> codepoint then
        (if codepoint \<le> 0xFFFF then u_escape codepoint
         else u_escape (take_bit 16 (0xD7C0 + drop_bit 10 codepoint)) @
              u_escape (0xDC00 + (codepoint AND 0x3FF)))
      else [c])"

record dump_state =
  d_state :: nat
  d_codepoint :: nat
  string_buffer :: string   \<comment> \<open>the first \<open>bytes\<close> bytes of \<open>std::array<char, 512>\<close>\<close>
  d_out :: string           \<comment> \<open>what the output adapter has been given\<close>

definition dump_init :: dump_state where
  "dump_init = \<lparr>d_state = UTF8_ACCEPT, d_codepoint = 0, string_buffer = [], d_out = []\<rparr>"

text \<open>\<open>if (string_buffer.size() - bytes < 13) { write_characters(...); bytes = 0; }\<close>\<close>

definition flush_if_full :: "dump_state \<Rightarrow> dump_state" where
  "flush_if_full st =
     (if 512 - length (string_buffer st) < 13
      then st\<lparr>string_buffer := [], d_out := d_out st @ string_buffer st\<rparr> else st)"

text \<open>What one byte adds to the buffer, given the state and code point it leads to.\<close>

definition dump_written :: "bool \<Rightarrow> nat \<times> nat \<Rightarrow> char \<Rightarrow> string" where
  "dump_written ensure_ascii dc c =
     (if fst dc = UTF8_ACCEPT then escape_codepoint ensure_ascii (snd dc) c
      else if ensure_ascii then [] else [c])"

definition dump_step :: "bool \<Rightarrow> dump_state \<Rightarrow> char \<Rightarrow> dump_state res" where
  "dump_step ensure_ascii st c =
     (let (state', codepoint') = decode (d_state st) (d_codepoint st) (byte c);
          st' = st\<lparr>d_state := state', d_codepoint := codepoint',
                   string_buffer := string_buffer st @ dump_written ensure_ascii (state', codepoint') c\<rparr>
      in if state' = UTF8_ACCEPT then Inr (flush_if_full st')
         else if state' = UTF8_REJECT then Inl (Json_exception 316)
         else Inr st')"

fun dump_loop :: "bool \<Rightarrow> dump_state \<Rightarrow> string \<Rightarrow> dump_state res" where
  "dump_loop ensure_ascii st [] = Inr st"
| "dump_loop ensure_ascii st (c # s) =
     bindR (dump_step ensure_ascii st c) (\<lambda>st'. dump_loop ensure_ascii st' s)"

definition dump_escaped :: "bool \<Rightarrow> string \<Rightarrow> string res" where
  "dump_escaped ensure_ascii s =
     bindR (dump_loop ensure_ascii dump_init s) (\<lambda>st.
       if d_state st = UTF8_ACCEPT then Inr (d_out st @ string_buffer st)
       else Inl (Json_exception 316))"

subsection \<open>Values\<close>

text \<open>
  \<open>dump\<close> without pretty-printing. The conversion of doubles (\<open>dump_float\<close>) is a parameter: the
  program writes documents of strings only.
\<close>

fun dump :: "(rat \<Rightarrow> string) \<Rightarrow> bool \<Rightarrow> json \<Rightarrow> string res"
  and dump_elements :: "(rat \<Rightarrow> string) \<Rightarrow> bool \<Rightarrow> json list \<Rightarrow> string res"
  and dump_members :: "(rat \<Rightarrow> string) \<Rightarrow> bool \<Rightarrow> (string \<times> json) list \<Rightarrow> string res" where
  "dump df ea (JObject m) =
     (if m = [] then Inr ''{}'' else bindR (dump_members df ea m) (\<lambda>s. Inr (''{'' @ s @ ''}'')))"
| "dump df ea (JArray vs) =
     (if vs = [] then Inr ''[]'' else bindR (dump_elements df ea vs) (\<lambda>s. Inr (''['' @ s @ '']'')))"
| "dump df ea (JString s) = bindR (dump_escaped ea s) (\<lambda>e. Inr (CHR 0x22 # e @ [CHR 0x22]))"
| "dump df ea (JBool b) = Inr (if b then ''true'' else ''false'')"
| "dump df ea (JInteger i) = Inr (to_string i)"
| "dump df ea (JUnsigned n) = Inr (nat_str n)"
| "dump df ea (JFloat q) = Inr (df q)"
| "dump df ea JNull = Inr ''null''"
| "dump_elements df ea [] = Inr []"
| "dump_elements df ea (v # vs) =
     bindR (dump df ea v) (\<lambda>s.
       if vs = [] then Inr s else bindR (dump_elements df ea vs) (\<lambda>t. Inr (s @ '','' @ t)))"
| "dump_members df ea [] = Inr []"
| "dump_members df ea ((k, v) # m) =
     bindR (dump_escaped ea k) (\<lambda>e.
     bindR (dump df ea v) (\<lambda>s.
       let kv = CHR 0x22 # e @ [CHR 0x22, CHR '':''] @ s in
       if m = [] then Inr kv else bindR (dump_members df ea m) (\<lambda>t. Inr (kv @ '','' @ t))))"

subsection \<open>The decoder table in terms of ranges\<close>

text \<open>The state that waits for bytes in the given ranges.\<close>

definition range_state :: "(nat \<times> nat) list \<Rightarrow> nat" where
  "range_state rs =
     (if rs = [] then 0
      else if rs = [(0x80, 0xBF)] then 2
      else if rs = [(0x80, 0xBF), (0x80, 0xBF)] then 3
      else if rs = [(0xA0, 0xBF), (0x80, 0xBF)] then 4
      else if rs = [(0x80, 0x9F), (0x80, 0xBF)] then 5
      else if rs = [(0x90, 0xBF), (0x80, 0xBF), (0x80, 0xBF)] then 6
      else if rs = [(0x80, 0xBF), (0x80, 0xBF), (0x80, 0xBF)] then 7
      else if rs = [(0x80, 0x8F), (0x80, 0xBF), (0x80, 0xBF)] then 8
      else 1)"

definition lead_state :: "nat \<Rightarrow> nat" where
  "lead_state b = (if b < 0x80 then 0 else case utf8_ranges b of None \<Rightarrow> 1 | Some rs \<Rightarrow> range_state rs)"

text \<open>The class of a byte, read off the table.\<close>

definition byte_class :: "nat \<Rightarrow> nat" where
  "byte_class b =
     (if b < 0x80 then 0 else if b < 0x90 then 1 else if b < 0xA0 then 9 else if b < 0xC0 then 7
      else if b < 0xC2 then 8 else if b < 0xE0 then 2 else if b = 0xE0 then 10 else if b = 0xED then 4
      else if b < 0xF0 then 3 else if b = 0xF0 then 11 else if b < 0xF4 then 6 else if b = 0xF4 then 5
      else 8)"

lemma byte_class_less: "byte_class b < 16"
  by (simp add: byte_class_def)

lemma length_utf8_classes: "length utf8_classes = 256"
  by (simp add: utf8_classes_def)

lemma utf8d_class:
  assumes "b < 256"
  shows "utf8d ! b = byte_class b"
proof -
  have "utf8_classes ! b = byte_class b"
  proof (cases "b < 0xE0")
    case True
    then show ?thesis by (auto simp: utf8_classes_def byte_class_def nth_append nth_Cons' less_Suc_eq)
  next
    case False
    have *: "list_all (\<lambda>b. utf8_classes ! b = byte_class b) [224..<256]"
      by (simp add: upt_rec_numeral utf8_classes_def byte_class_def nth_append)
    have "b \<in> set [224..<256]" unfolding set_upt atLeastLessThan_iff using False assms by linarith
    with * show ?thesis unfolding list_all_iff by blast
  qed
  then show ?thesis using assms by (simp add: utf8d_def nth_append length_utf8_classes)
qed

text \<open>A row of a table stored row by row.\<close>

lemma nth_concat_rows:
  "\<forall>r\<in>set rows. length r = w \<Longrightarrow> i < length rows \<Longrightarrow> t < w \<Longrightarrow> concat rows ! (i * w + t) = rows ! i ! t"
proof (induction rows arbitrary: i)
  case Nil
  then show ?case by simp
next
  case (Cons r rows)
  show ?case
  proof (cases i)
    case 0
    with Cons.prems show ?thesis by (simp add: nth_append)
  next
    case (Suc j)
    with Cons have "concat rows ! (j * w + t) = rows ! j ! t" by simp
    moreover have "\<not> w + j * w + t < w" by simp
    ultimately show ?thesis using Cons.prems Suc by (simp add: nth_append)
  qed
qed

lemma utf8d_next:
  assumes "st < 9" "b < 256"
  shows "utf8d ! (256 + st * 16 + utf8d ! b) = utf8_rows ! st ! byte_class b"
proof -
  have "utf8d ! (256 + (st * 16 + utf8d ! b)) = concat utf8_rows ! (st * 16 + utf8d ! b)"
    by (simp add: utf8d_def nth_append length_utf8_classes)
  also have "\<dots> = utf8_rows ! st ! (utf8d ! b)"
    by (rule nth_concat_rows) (use assms in \<open>simp_all add: utf8_rows_def utf8d_class byte_class_less\<close>)
  finally show ?thesis using assms by (simp add: utf8d_class add.assoc)
qed

text \<open>The intervals on which the class is constant.\<close>

lemma byte_intervals:
  "b < 0x80 \<or> (0x80 \<le> b \<and> b < 0x90) \<or> (0x90 \<le> b \<and> b < 0xA0) \<or> (0xA0 \<le> b \<and> b < 0xC0)
   \<or> (0xC0 \<le> b \<and> b < 0xC2) \<or> (0xC2 \<le> b \<and> b < 0xE0) \<or> b = 0xE0 \<or> (0xE1 \<le> b \<and> b \<le> 0xEC)
   \<or> b = 0xED \<or> b = 0xEE \<or> b = 0xEF \<or> b = 0xF0 \<or> (0xF1 \<le> b \<and> b < 0xF4) \<or> b = 0xF4 \<or> 0xF5 \<le> (b::nat)"
proof (cases "b < 0xE0")
  case True
  then show ?thesis
    by (cases "b < 0x80", simp, cases "b < 0x90", simp, cases "b < 0xA0", simp, cases "b < 0xC0", simp,
        cases "b < 0xC2", simp_all)
next
  case False
  have "b = 0xE0 \<or> (0xE1 \<le> b \<and> b \<le> 0xEC) \<or> b = 0xED \<or> b = 0xEE \<or> b = 0xEF \<or> 0xF0 \<le> b"
    using False by linarith
  moreover have "b = 0xF0 \<or> (0xF1 \<le> b \<and> b < 0xF4) \<or> b = 0xF4 \<or> 0xF5 \<le> b" if "0xF0 \<le> b"
    using that by linarith
  ultimately show ?thesis by blast
qed

text \<open>The next state: from the accepting state by the lead byte, from the others by one range.\<close>

lemma next_from_accept:
  assumes "b < 256"
  shows "utf8d ! (256 + 0 * 16 + utf8d ! b) = lead_state b"
proof -
  have "utf8_rows ! 0 ! byte_class b = lead_state b"
    using byte_intervals [of b]
    by (elim disjE)
      (simp_all add: utf8_rows_def byte_class_def lead_state_def utf8_ranges_def range_state_def)
  then show ?thesis using utf8d_next [of 0 b] assms by simp
qed

text \<open>The range lists that occur while a character is incomplete.\<close>

definition pending_ranges :: "(nat \<times> nat) list list" where
  "pending_ranges =
     [[(0x80, 0xBF)], [(0x80, 0xBF), (0x80, 0xBF)], [(0xA0, 0xBF), (0x80, 0xBF)],
      [(0x80, 0x9F), (0x80, 0xBF)], [(0x90, 0xBF), (0x80, 0xBF), (0x80, 0xBF)],
      [(0x80, 0xBF), (0x80, 0xBF), (0x80, 0xBF)], [(0x80, 0x8F), (0x80, 0xBF), (0x80, 0xBF)]]"

lemma range_state_simps:
  "range_state [] = 0" "range_state [(0x80, 0xBF)] = 2" "range_state [(0x80, 0xBF), (0x80, 0xBF)] = 3"
  "range_state [(0xA0, 0xBF), (0x80, 0xBF)] = 4" "range_state [(0x80, 0x9F), (0x80, 0xBF)] = 5"
  "range_state [(0x90, 0xBF), (0x80, 0xBF), (0x80, 0xBF)] = 6"
  "range_state [(0x80, 0xBF), (0x80, 0xBF), (0x80, 0xBF)] = 7"
  "range_state [(0x80, 0x8F), (0x80, 0xBF), (0x80, 0xBF)] = 8"
  by (simp_all add: range_state_def)

lemma next_from_pending:
  assumes "(lo, hi) # rs \<in> set pending_ranges" "b < 256"
  shows "utf8d ! (256 + range_state ((lo, hi) # rs) * 16 + utf8d ! b) =
    (if lo \<le> b \<and> b \<le> hi then range_state rs else 1)"
proof -
  have "range_state ((lo, hi) # rs) < 9" by (simp add: range_state_def)
  note u = utf8d_next [OF this assms(2)]
  show ?thesis
    unfolding u using assms(1) byte_intervals [of b]
    by (elim disjE) (auto simp: pending_ranges_def range_state_simps utf8_rows_def byte_class_def)
qed

lemma range_state_pending: "rs \<in> set pending_ranges \<Longrightarrow> range_state rs \<noteq> 0 \<and> range_state rs \<noteq> 1"
  by (auto simp: pending_ranges_def range_state_def)

lemma pending_tl: "(lo, hi) # rs \<in> set pending_ranges \<Longrightarrow> rs = [] \<or> rs \<in> set pending_ranges"
  by (auto simp: pending_ranges_def)

lemma utf8_ranges_pending: "utf8_ranges b = Some rs \<Longrightarrow> rs \<in> set pending_ranges"
  by (auto simp: utf8_ranges_def pending_ranges_def split: if_splits)

subsection \<open>Code points of multi-byte characters are not ASCII\<close>

text \<open>What the partial code point satisfies while the given ranges are awaited.\<close>

definition partial_codepoint :: "(nat \<times> nat) list \<Rightarrow> nat \<Rightarrow> bool" where
  "partial_codepoint rs cp \<longleftrightarrow>
     (if length rs = 1 then 2 \<le> cp \<and> cp < 2 ^ 16
      else if length rs = 2 then cp < 2 ^ 10 \<and> (rs = [(0xA0, 0xBF), (0x80, 0xBF)] \<or> 1 \<le> cp)
      else cp < 2 ^ 4 \<and> (rs = [(0x90, 0xBF), (0x80, 0xBF), (0x80, 0xBF)] \<or> 1 \<le> cp))"

lemma and_63: "(b::nat) AND 0x3F = b mod 64"
proof -
  have "b AND mask 6 = take_bit 6 b" by (simp add: take_bit_eq_mask)
  then show ?thesis by (simp add: mask_eq_exp_minus_1 take_bit_eq_mod)
qed

lemma cont_codepoint:
  assumes "cp < 2 ^ 26"
  shows "(b AND 0x3F) OR take_bit 32 (push_bit 6 cp) = b mod 64 + 64 * (cp::nat)"
proof -
  have "push_bit 6 cp < 2 ^ 32" using assms by (simp add: push_bit_eq_mult)
  then have "take_bit 32 (push_bit 6 cp) = push_bit 6 cp" by (simp add: take_bit_nat_eq_self)
  moreover have "take_bit 6 b AND push_bit 6 cp = 0"
    by (rule bit_eqI) (simp add: bit_simps)
  ultimately have "(b AND 0x3F) OR take_bit 32 (push_bit 6 cp) = take_bit 6 b + push_bit 6 cp"
    by (simp add: disjunctive_add_eq_or and_63 take_bit_eq_mod)
  then show ?thesis by (simp add: take_bit_eq_mod push_bit_eq_mult)
qed

lemma partial_codepoint_step:
  assumes "(lo, hi) # rs \<in> set pending_ranges" "partial_codepoint ((lo, hi) # rs) cp" "lo \<le> b" "b \<le> hi"
  shows "if rs = [] then 0x80 \<le> (b AND 0x3F) OR take_bit 32 (push_bit 6 cp)
         else partial_codepoint rs ((b AND 0x3F) OR take_bit 32 (push_bit 6 cp))"
proof -
  have "cp < 2 ^ 26" using assms(2) by (auto simp: partial_codepoint_def split: if_splits)
  note c = cont_codepoint [OF this, of b]
  have m: "b mod 64 < 64" by simp
  consider "0xA0 \<le> b" "b \<le> 0xBF" | "0x90 \<le> b" "b \<le> 0xBF" | "0x80 \<le> b" "b \<le> 0xBF"
    using assms by (auto simp: pending_ranges_def)
  have b: "b mod 64 = b - 128" if "0x80 \<le> b" "b \<le> 0xBF"
    using that by (simp add: le_mod_geq)
  show ?thesis
    unfolding c using assms m b
    by (auto simp: pending_ranges_def partial_codepoint_def)
qed

lemma partial_codepoint_lead:
  assumes "utf8_ranges b = Some rs"
  shows "partial_codepoint rs (drop_bit (utf8d ! b) 0xFF AND b)"
proof -
  have b: "b < 256" using assms by (auto simp: utf8_ranges_def split: if_splits)
  have "list_all (\<lambda>b. case utf8_ranges b of None \<Rightarrow> True
      | Some rs \<Rightarrow> partial_codepoint rs (drop_bit (byte_class b) 0xFF AND b)) [0xC2..<0xF5]"
    by (simp add: upt_rec_numeral utf8_ranges_def byte_class_def partial_codepoint_def)
  moreover have "b \<in> set [0xC2..<0xF5]"
    using assms unfolding set_upt atLeastLessThan_iff by (auto simp: utf8_ranges_def split: if_splits)
  ultimately show ?thesis using assms b unfolding list_all_iff utf8d_class [OF b] by fastforce
qed

subsection \<open>What \<open>dump_escaped\<close> writes\<close>

text \<open>Well-formed UTF-8, by the ranges of RFC 3629.\<close>

function utf8_valid :: "string \<Rightarrow> bool" where
  "utf8_valid s =
     (case s of [] \<Rightarrow> True
      | c # r \<Rightarrow>
          if byte c < 0x80 then utf8_valid r
          else (case utf8_ranges (byte c) of None \<Rightarrow> False
                | Some rs \<Rightarrow> (case next_byte_in_range rs [] r of None \<Rightarrow> False
                              | Some (added, r') \<Rightarrow> utf8_valid r')))"
  by pat_completeness auto
termination
  by (relation "measure length") (auto dest: next_byte_in_range_length)

declare utf8_valid.simps [simp del]

lemma utf8_valid_Nil [simp]: "utf8_valid []"
  by (simp add: utf8_valid.simps [of "[]"])

lemma utf8_valid_ascii: "byte c < 0x80 \<Longrightarrow> utf8_valid (c # r) = utf8_valid r"
  by (simp add: utf8_valid.simps [of "c # r"])

text \<open>How one byte of a valid string appears in the output.\<close>

definition esc_char :: "char \<Rightarrow> string" where
  "esc_char c = (if byte c < 0x80 then escape_codepoint False (byte c) c else [c])"

definition esc_string :: "string \<Rightarrow> string" where
  "esc_string s = concat (map esc_char s)"

lemma esc_string_simps [simp]:
  "esc_string [] = []" "esc_string (c # s) = esc_char c @ esc_string s"
  "esc_string (s @ t) = esc_string s @ esc_string t"
  by (simp_all add: esc_string_def)

lemma esc_string_high: "\<forall>c\<in>set s. 0x80 \<le> byte c \<Longrightarrow> esc_string s = s"
  by (induction s) (auto simp: esc_char_def)

lemma next_byte_in_range_acc:
  "next_byte_in_range rs (a @ b) s = map_option (\<lambda>(x, r). (a @ x, r)) (next_byte_in_range rs b s)"
  by (induction rs b s rule: next_byte_in_range.induct) auto

lemma next_byte_in_range_single:
  assumes "next_byte_in_range rs [c] s = Some (a, r)"
  obtains x where "next_byte_in_range rs [] s = Some (x, r)" "a = c # x"
  using assms next_byte_in_range_acc [of rs "[c]" "[]" s] by (cases "next_byte_in_range rs [] s") auto

lemma next_byte_in_range_append:
  "next_byte_in_range rs [] s = Some (added, r) \<Longrightarrow>
   s = added @ r \<and> next_byte_in_range rs b (added @ z) = Some (b @ added, z)"
proof (induction rs arbitrary: s added b)
  case Nil
  then show ?case by simp
next
  case (Cons lh rs)
  obtain lo hi where lh: "lh = (lo, hi)" by force
  with Cons.prems obtain c s' where s: "s = c # s'" "lo \<le> byte c" "byte c \<le> hi"
    "next_byte_in_range rs [c] s' = Some (added, r)"
    by (cases s) (auto split: if_splits)
  then obtain x where x: "next_byte_in_range rs [] s' = Some (x, r)" "added = c # x"
    by (auto elim: next_byte_in_range_single)
  from Cons.IH [OF x(1), of "b @ [c]"] s x(2) lh show ?case by simp
qed

lemma next_byte_in_range_high:
  "rs \<in> set pending_ranges \<Longrightarrow> next_byte_in_range rs [] s = Some (added, r) \<Longrightarrow> \<forall>c\<in>set added. 0x80 \<le> byte c"
proof (induction rs arbitrary: s added)
  case Nil
  then show ?case by (simp add: pending_ranges_def)
next
  case (Cons lh rs)
  obtain lo hi where lh: "lh = (lo, hi)" by force
  have lo: "0x80 \<le> lo" using Cons.prems(1) lh by (auto simp: pending_ranges_def)
  from Cons.prems lh obtain c s' where s: "s = c # s'" "lo \<le> byte c"
    "next_byte_in_range rs [c] s' = Some (added, r)"
    by (cases s) (auto split: if_splits)
  then obtain x where x: "next_byte_in_range rs [] s' = Some (x, r)" "added = c # x"
    by (auto elim: next_byte_in_range_single)
  have "rs = [] \<or> rs \<in> set pending_ranges" using Cons.prems(1) lh pending_tl by blast
  then show ?case
  proof
    assume "rs = []"
    with x s lo show ?thesis by auto
  next
    assume "rs \<in> set pending_ranges"
    from Cons.IH [OF this x(1)] x(2) s lo show ?thesis by auto
  qed
qed

text \<open>Everything written so far, in the buffer or already flushed.\<close>

definition dump_total :: "dump_state \<Rightarrow> string" where
  "dump_total st = d_out st @ string_buffer st"

definition dump_from :: "bool \<Rightarrow> dump_state \<Rightarrow> string \<Rightarrow> string res" where
  "dump_from ea st s = bindR (dump_loop ea st s) (\<lambda>st.
     if d_state st = UTF8_ACCEPT then Inr (d_out st @ string_buffer st) else Inl (Json_exception 316))"

lemma dump_from_simps:
  "dump_from ea st [] = (if d_state st = UTF8_ACCEPT then Inr (dump_total st) else Inl (Json_exception 316))"
  "dump_from ea st (c # s) = bindR (dump_step ea st c) (\<lambda>st'. dump_from ea st' s)"
  by (simp_all add: dump_from_def dump_total_def bindR_assoc)

lemma flush_if_full_simps [simp]:
  "dump_total (flush_if_full st) = dump_total st" "d_state (flush_if_full st) = d_state st"
  "d_codepoint (flush_if_full st) = d_codepoint st"
  by (simp_all add: flush_if_full_def dump_total_def)

text \<open>One byte, as the decoder's next state and the bytes written.\<close>

lemma dump_step_cases:
  assumes "decode (d_state st) (d_codepoint st) (byte c) = (n, cp)"
  shows "n = UTF8_REJECT \<Longrightarrow> dump_step ea st c = Inl (Json_exception 316)"
    and "n \<noteq> UTF8_REJECT \<Longrightarrow> \<exists>st'. dump_step ea st c = Inr st' \<and> d_state st' = n \<and> d_codepoint st' = cp \<and>
       dump_total st' = dump_total st @ dump_written ea (n, cp) c"
proof -
  show "n = UTF8_REJECT \<Longrightarrow> dump_step ea st c = Inl (Json_exception 316)"
    using assms by (simp add: dump_step_def UTF8_ACCEPT_def UTF8_REJECT_def)
next
  let ?st = "st\<lparr>d_state := n, d_codepoint := cp,
     string_buffer := string_buffer st @ dump_written ea (n, cp) c\<rparr>"
  have "dump_total ?st = dump_total st @ dump_written ea (n, cp) c" by (simp add: dump_total_def)
  then show "n \<noteq> UTF8_REJECT \<Longrightarrow> \<exists>st'. dump_step ea st c = Inr st' \<and> d_state st' = n \<and> d_codepoint st' = cp \<and>
       dump_total st' = dump_total st @ dump_written ea (n, cp) c"
    using assms by (auto simp: dump_step_def Let_def)
qed

text \<open>An incomplete character: either its remaining bytes are in range, or the dump is rejected.\<close>

lemma dump_pending:
  assumes "rs \<in> set pending_ranges" "d_state st = range_state rs" "partial_codepoint rs (d_codepoint st)"
  shows "case next_byte_in_range rs [] s of
      None \<Rightarrow> dump_from False st s = Inl (Json_exception 316)
    | Some (added, r) \<Rightarrow> \<exists>st'. d_state st' = 0 \<and> dump_total st' = dump_total st @ added \<and>
        dump_from False st s = dump_from False st' r"
  using assms
proof (induction s arbitrary: rs st)
  case Nil
  then show ?case
    using range_state_pending [OF Nil(1)]
    by (cases rs) (auto simp: dump_from_simps UTF8_ACCEPT_def pending_ranges_def)
next
  case (Cons c s)
  obtain lo hi rs' where rs: "rs = (lo, hi) # rs'" using Cons.prems(1) by (auto simp: pending_ranges_def)
  let ?cp = "(byte c AND 0x3F) OR take_bit 32 (push_bit 6 (d_codepoint st))"
  have st0: "d_state st \<noteq> UTF8_ACCEPT"
    using range_state_pending [OF Cons.prems(1)] Cons.prems(2) by (simp add: UTF8_ACCEPT_def)
  have dec: "decode (d_state st) (d_codepoint st) (byte c) =
      (if lo \<le> byte c \<and> byte c \<le> hi then range_state rs' else 1, ?cp)"
    using next_from_pending [OF Cons.prems(1) [unfolded rs], of "byte c"] st0
    unfolding decode_def Cons.prems(2) rs by simp
  show ?case
  proof (cases "lo \<le> byte c \<and> byte c \<le> hi")
    case False
    with dec have "dump_step False st c = Inl (Json_exception 316)"
      by (intro dump_step_cases(1)) (auto simp: UTF8_REJECT_def)
    with False rs show ?thesis by (auto simp: dump_from_simps)
  next
    case True
    have tl: "rs' = [] \<or> rs' \<in> set pending_ranges" using pending_tl Cons.prems(1) rs by blast
    note cp = partial_codepoint_step [OF Cons.prems(1)[unfolded rs] Cons.prems(3)[unfolded rs], of "byte c"]
    have n1: "range_state rs' \<noteq> UTF8_REJECT"
      using tl range_state_pending [of rs'] by (auto simp: UTF8_REJECT_def range_state_simps)
    obtain st1 where st1: "dump_step False st c = Inr st1" "d_state st1 = range_state rs'"
      "d_codepoint st1 = ?cp" "dump_total st1 = dump_total st @ dump_written False (range_state rs', ?cp) c"
      using dump_step_cases(2) [of st c "range_state rs'" ?cp False] dec True n1 by auto
    have w: "dump_written False (range_state rs', ?cp) c = [c]"
    proof (cases "rs' = []")
      case True
      with cp \<open>lo \<le> byte c \<and> byte c \<le> hi\<close> show ?thesis
        by (auto simp: dump_written_def escape_codepoint_def UTF8_ACCEPT_def range_state_simps)
    next
      case False
      with tl have "range_state rs' \<noteq> 0" using range_state_pending [of rs'] by simp
      then show ?thesis by (simp add: dump_written_def UTF8_ACCEPT_def)
    qed
    have nx: "next_byte_in_range rs [] (c # s) = map_option (\<lambda>(x, r). (c # x, r)) (next_byte_in_range rs' [] s)"
      using rs True next_byte_in_range_acc [of rs' "[c]" "[]" s] by simp
    show ?thesis
    proof (cases "rs' = []")
      case True
      then show ?thesis unfolding nx using st1 w
        by (auto simp: dump_from_simps range_state_simps intro!: exI [of _ st1])
    next
      case False
      with tl have p: "rs' \<in> set pending_ranges" by simp
      have "partial_codepoint rs' (d_codepoint st1)" using cp False True st1(3) by simp
      from Cons.IH [OF p st1(2) this] show ?thesis
        unfolding nx using st1 w by (auto simp: dump_from_simps split: option.splits)
    qed
  qed
qed

lemma dump_accept:
  "d_state st = 0 \<Longrightarrow>
   dump_from False st s = (if utf8_valid s then Inr (dump_total st @ esc_string s) else Inl (Json_exception 316))"
proof (induction s arbitrary: st rule: length_induct)
  case (1 s)
  show ?case
  proof (cases s)
    case Nil
    with 1 show ?thesis by (simp add: dump_from_simps UTF8_ACCEPT_def)
  next
    case (Cons c r)
    have dec: "decode (d_state st) (d_codepoint st) (byte c) =
        (lead_state (byte c), drop_bit (utf8d ! byte c) 0xFF AND byte c)"
      using next_from_accept [of "byte c"] 1(2) by (simp add: decode_def UTF8_ACCEPT_def)
    show ?thesis
    proof (cases "byte c < 0x80")
      case True
      have "drop_bit (utf8d ! byte c) 0xFF AND byte c = byte c"
      proof -
        have "utf8d ! byte c = 0" using True by (simp add: utf8d_class byte_class_def)
        moreover have "byte c AND mask 8 = take_bit 8 (byte c)" by (simp add: take_bit_eq_mask)
        ultimately show ?thesis by (simp add: mask_eq_exp_minus_1 take_bit_nat_eq_self and.commute)
      qed
      then obtain st1 where st1: "dump_step False st c = Inr st1" "d_state st1 = 0"
        "dump_total st1 = dump_total st @ escape_codepoint False (byte c) c"
        using dump_step_cases(2) [OF dec, of False] True
        by (auto simp: lead_state_def UTF8_REJECT_def UTF8_ACCEPT_def dump_written_def)
      from 1(1) Cons st1(2) have "dump_from False st1 r =
          (if utf8_valid r then Inr (dump_total st1 @ esc_string r) else Inl (Json_exception 316))" by simp
      with st1 Cons True show ?thesis by (simp add: dump_from_simps utf8_valid_ascii esc_char_def)
    next
      case False
      show ?thesis
      proof (cases "utf8_ranges (byte c)")
        case None
        with False dec have "dump_step False st c = Inl (Json_exception 316)"
          by (intro dump_step_cases(1)) (auto simp: lead_state_def UTF8_REJECT_def)
        with Cons False None show ?thesis by (simp add: dump_from_simps utf8_valid.simps [of "c # r"])
      next
        case (Some rs)
        have p: "rs \<in> set pending_ranges" by (rule utf8_ranges_pending [OF Some])
        have ls: "lead_state (byte c) = range_state rs" using False Some by (simp add: lead_state_def)
        note nz = range_state_pending [OF p]
        obtain st1 where st1: "dump_step False st c = Inr st1" "d_state st1 = range_state rs"
          "d_codepoint st1 = drop_bit (utf8d ! byte c) 0xFF AND byte c" "dump_total st1 = dump_total st @ [c]"
          using dump_step_cases(2) [OF dec, of False] nz
          by (auto simp: ls UTF8_REJECT_def UTF8_ACCEPT_def dump_written_def)
        have "partial_codepoint rs (d_codepoint st1)"
          unfolding st1(3) by (rule partial_codepoint_lead [OF Some])
        note pend = dump_pending [OF p st1(2) this, of r]
        show ?thesis
        proof (cases "next_byte_in_range rs [] r")
          case None
          with pend st1(1) Cons False Some show ?thesis
            by (simp add: dump_from_simps utf8_valid.simps [of "c # r"])
        next
          case (Some ar)
          obtain added r' where ar: "ar = (added, r')" by force
          from pend Some ar obtain st2 where st2: "d_state st2 = 0" "dump_total st2 = dump_total st1 @ added"
            "dump_from False st1 r = dump_from False st2 r'" by auto
          have r: "r = added @ r'" using next_byte_in_range_append Some ar by blast
          have "esc_string added = added"
            using next_byte_in_range_high [OF p] Some ar by (intro esc_string_high) blast
          moreover have "dump_from False st2 r' =
              (if utf8_valid r' then Inr (dump_total st2 @ esc_string r') else Inl (Json_exception 316))"
            using 1(1) Cons r st2(1) by simp
          moreover have "utf8_valid (c # r) = utf8_valid r'"
            using False \<open>utf8_ranges (byte c) = Some rs\<close> Some ar by (simp add: utf8_valid.simps [of "c # r"])
          ultimately show ?thesis
            using st1 st2 r Cons False by (simp add: dump_from_simps esc_char_def)
        qed
      qed
    qed
  qed
qed

lemma dump_escaped_eq:
  "dump_escaped False s = (if utf8_valid s then Inr (esc_string s) else Inl (Json_exception 316))"
proof -
  have "dump_escaped False s = dump_from False dump_init s" by (simp add: dump_escaped_def dump_from_def)
  also have "\<dots> = (if utf8_valid s then Inr (esc_string s) else Inl (Json_exception 316))"
    by (subst dump_accept) (simp_all add: dump_init_def UTF8_ACCEPT_def dump_total_def)
  finally show ?thesis .
qed

end
