(* ===== verification/Interfaces.thy ===== *)
theory Interfaces
  imports Prelude
begin

text \<open>
  The interfaces the components rely on, as locales: a FIFO mailbox, a keyed store of settings,
  a pair of encoder and decoder, and a sender that retries. Each is interpreted in the theory of
  the component that provides it.
\<close>

subsection \<open>A FIFO mailbox\<close>

locale fifo =
  fixes contents :: "'q \<Rightarrow> 'a list"
    and enq :: "'a \<Rightarrow> 'q \<Rightarrow> 'q"
    and deq :: "'q \<Rightarrow> 'e + ('a \<times> 'q)"
    and qsize :: "'q \<Rightarrow> nat"
  assumes contents_enq: "contents (enq x q) = contents q @ [x]"
    and deq_Cons: "contents q = x # xs \<Longrightarrow> \<exists>q'. deq q = Inr (x, q') \<and> contents q' = xs"
    and qsize_eq: "qsize q = length (contents q)"
begin

lemma deq_safe: "0 < qsize q \<Longrightarrow> \<exists>x q'. deq q = Inr (x, q')"
  using deq_Cons by (cases "contents q") (auto simp: qsize_eq, blast)

lemma contents_fold_enq: "contents (fold enq xs q) = contents q @ xs"
  by (induction xs arbitrary: q) (auto simp: contents_enq)

lemma deq_after_enq:
  assumes "contents q = []"
  shows "\<exists>q'. deq (enq x q) = Inr (x, q') \<and> contents q' = []"
  using deq_Cons [of "enq x q" x "[]"] assms by (simp add: contents_enq)

text \<open>Taking \<open>n\<close> messages gives the first \<open>n\<close> in arrival order.\<close>

fun drain :: "nat \<Rightarrow> 'q \<Rightarrow> 'e + ('a list \<times> 'q)" where
  "drain 0 q = Inr ([], q)"
| "drain (Suc n) q =
     bindR (deq q) (\<lambda>(x, q'). bindR (drain n q') (\<lambda>(xs, q''). Inr (x # xs, q'')))"

lemma drain_prefix:
  "n \<le> length (contents q) \<Longrightarrow>
   \<exists>q'. drain n q = Inr (take n (contents q), q') \<and> contents q' = drop n (contents q)"
proof (induction n arbitrary: q)
  case 0
  then show ?case by simp
next
  case (Suc n)
  then obtain x xs where q: "contents q = x # xs" by (cases "contents q") auto
  then obtain q1 where q1: "deq q = Inr (x, q1)" "contents q1 = xs" using deq_Cons by blast
  with Suc.IH [of q1] Suc.prems q show ?case by auto
qed

end

subsection \<open>A keyed store\<close>

lemma find_snoc: "find P (xs @ [x]) = (case find P xs of None \<Rightarrow> if P x then Some x else None | r \<Rightarrow> r)"
  by (induction xs) auto

text \<open>
  \<open>same\<close> says when two keys name the same slot (for the configuration, keys are compared without
  regard to case); \<open>set\<close> reports whether it stored the value.
\<close>

locale kv_store =
  fixes inv :: "'s \<Rightarrow> bool"
    and get :: "'s \<Rightarrow> 'k \<Rightarrow> 'v option"
    and set_to :: "'s \<Rightarrow> 'k \<Rightarrow> 'v \<Rightarrow> 's \<times> bool"
    and same :: "'k \<Rightarrow> 'k \<Rightarrow> bool"
    and ok_key :: "'k \<Rightarrow> bool"
    and ok_val :: "'v \<Rightarrow> bool"
  assumes set_inv: "inv s \<Longrightarrow> ok_key k \<Longrightarrow> ok_val v \<Longrightarrow> set_to s k v = (s', b) \<Longrightarrow> inv s'"
    and get_set: "inv s \<Longrightarrow> ok_key k \<Longrightarrow> ok_val v \<Longrightarrow> set_to s k v = (s', True) \<Longrightarrow>
          ok_key k' \<Longrightarrow> get s' k' = (if same k k' then Some v else get s k')"
    and set_fail: "inv s \<Longrightarrow> ok_key k \<Longrightarrow> ok_val v \<Longrightarrow> set_to s k v = (s', False) \<Longrightarrow> s' = s"
    and same_refl: "same k k"
    and same_sym: "same k k' \<Longrightarrow> same k' k"
    and same_trans: "same k k' \<Longrightarrow> same k' k'' \<Longrightarrow> same k k''"
begin

lemma get_set_same:
  "inv s \<Longrightarrow> ok_key k \<Longrightarrow> ok_val v \<Longrightarrow> set_to s k v = (s', True) \<Longrightarrow> get s' k = Some v"
  using get_set same_refl by simp

lemma get_set_other:
  "inv s \<Longrightarrow> ok_key k \<Longrightarrow> ok_val v \<Longrightarrow> set_to s k v = (s', b) \<Longrightarrow> ok_key k' \<Longrightarrow> \<not> same k k' \<Longrightarrow>
   get s' k' = get s k'"
  using get_set [of s k v s' k'] set_fail [of s k v s'] by (cases b) auto

text \<open>Setting a list of bindings in order; the last successful write to a slot is the one read.\<close>

fun set_all :: "'s \<Rightarrow> ('k \<times> 'v) list \<Rightarrow> 's \<times> bool" where
  "set_all s [] = (s, True)"
| "set_all s ((k, v) # kvs) =
     (case set_to s k v of (s', True) \<Rightarrow> set_all s' kvs | (s', False) \<Rightarrow> (s', False))"

lemma set_all_last:
  assumes "inv s" "\<forall>(k, v)\<in>set kvs. ok_key k \<and> ok_val v" "set_all s kvs = (s', True)" "ok_key k'"
  shows "inv s' \<and> get s' k' =
    (case find (\<lambda>(k, v). same k k') (rev kvs) of Some (k, v) \<Rightarrow> Some v | None \<Rightarrow> get s k')"
  using assms
proof (induction kvs arbitrary: s)
  case Nil
  then show ?case by simp
next
  case (Cons kv kvs)
  obtain k v where kv: "kv = (k, v)" by force
  with Cons.prems obtain s1 where s1: "set_to s k v = (s1, True)" "set_all s1 kvs = (s', True)"
    by (auto split: prod.splits bool.splits)
  from Cons.prems kv s1 have "inv s1" by (auto intro: set_inv)
  moreover have "get s1 k' = (if same k k' then Some v else get s k')"
    using get_set [OF Cons.prems(1) _ _ s1(1) Cons.prems(4)] Cons.prems(2) kv by auto
  ultimately show ?case
    using Cons.IH [of s1] Cons.prems kv s1 by (auto simp: find_snoc split: option.splits)
qed

end

subsection \<open>Encoders and decoders\<close>

locale codec =
  fixes valid :: "'a \<Rightarrow> bool"
    and enc :: "'a \<Rightarrow> 'e + 'b"
    and dec :: "'b \<Rightarrow> 'e + 'a"
  assumes enc_total: "valid x \<Longrightarrow> \<exists>y. enc x = Inr y"
    and dec_enc: "valid x \<Longrightarrow> enc x = Inr y \<Longrightarrow> dec y = Inr x"
begin

lemma transfer: "valid x \<Longrightarrow> bindR (enc x) dec = Inr x"
  using enc_total dec_enc by fastforce

lemma enc_inject: "valid x \<Longrightarrow> valid y \<Longrightarrow> enc x = Inr z \<Longrightarrow> enc y = Inr z \<Longrightarrow> x = y"
  using dec_enc [of x z] dec_enc [of y z] by simp

end

subsection \<open>A sender that retries\<close>

text \<open>
  \<open>obs i\<close> is what attempt \<open>i\<close> meets (the status at that moment, the outcome of the library's send),
  \<open>good\<close> says when an attempt delivers, and \<open>bound\<close> is the number of attempts after which the sender
  gives up.
\<close>

locale retry_sender =
  fixes send :: "(nat \<Rightarrow> 'o) \<Rightarrow> bool"
    and good :: "'o \<Rightarrow> bool"
    and bound :: nat
  assumes send_iff: "send obs \<longleftrightarrow> (\<exists>i < bound. good (obs i))"
begin

lemma send_never: "\<forall>i < bound. \<not> good (obs i) \<Longrightarrow> \<not> send obs"
  by (simp add: send_iff)

lemma send_prefix: "\<forall>i < bound. obs i = obs' i \<Longrightarrow> send obs \<longleftrightarrow> send obs'"
  by (auto simp: send_iff)

lemma send_now: "0 < bound \<Longrightarrow> good (obs 0) \<Longrightarrow> send obs"
  by (auto simp: send_iff)

lemma send_later: "send (\<lambda>i. obs (Suc i)) \<Longrightarrow> \<not> good (obs bound) \<Longrightarrow> send obs"
  by (metis Suc_lessI send_iff)

end

end
