(* ===== verification/JsonRoundtrip.thy ===== *)
theory JsonRoundtrip
  imports JsonDump Interfaces
begin

text \<open>
  \<open>parse\<close> reads back what \<open>dump\<close> writes: first for strings (every escape the serializer produces is
  undone by \<open>scan_string\<close>), then for numbers and literals, then for whole documents by following the
  parser's loop over the serialized text.
\<close>

subsection \<open>Strings\<close>

lemma byte_hex_digit [simp]: "m < 16 \<Longrightarrow> byte (hex_digit m) = (if m < 10 then 48 + m else 87 + m)"
  by (auto simp: hex_digit_def)

lemma codepoint_digit_step:
  "m < 16 \<Longrightarrow> codepoint_digits (f # fs) (hex_digit m # s) cp = codepoint_digits fs s (cp + m * 2 ^ f)"
  by (auto simp: Let_def push_bit_eq_mult)

lemma get_codepoint_hex:
  "a < 16 \<Longrightarrow> b < 16 \<Longrightarrow> c < 16 \<Longrightarrow> d < 16 \<Longrightarrow>
   get_codepoint (map hex_digit [a, b, c, d] @ r) = Some (a * 4096 + b * 256 + c * 16 + d, r)"
  by (simp add: get_codepoint_def codepoint_digit_step del: codepoint_digits.simps(3))

lemma get_codepoint_u_escape:
  assumes "n < 2 ^ 16"
  shows "get_codepoint (map hex_digit [n div 4096 mod 16, n div 256 mod 16, n div 16 mod 16, n mod 16] @ r) = Some (n, r)"
proof -
  have "n div 4096 mod 16 = n div 4096" using assms by simp
  moreover have "n = n div 16 * 16 + n mod 16" by simp
  moreover have "n div 16 = n div 256 * 16 + n div 16 mod 16"
    using div_mult_mod_eq [of "n div 16" 16] by (simp add: div_mult2_eq [symmetric])
  moreover have "n div 256 = n div 4096 * 16 + n div 256 mod 16"
    using div_mult_mod_eq [of "n div 256" 16] by (simp add: div_mult2_eq [symmetric])
  ultimately have "n div 4096 mod 16 * 4096 + n div 256 mod 16 * 256 + n div 16 mod 16 * 16 + n mod 16 = n"
    by linarith
  moreover have "get_codepoint (map hex_digit [n div 4096 mod 16, n div 256 mod 16, n div 16 mod 16, n mod 16] @ r) =
      Some (n div 4096 mod 16 * 4096 + n div 256 mod 16 * 256 + n div 16 mod 16 * 16 + n mod 16, r)"
    by (rule get_codepoint_hex) (rule mod_less_divisor, simp)+
  ultimately show ?thesis by (simp only:)
qed

lemma scan_char_u_escape:
  assumes "n < 0x80"
  shows "scan_char (u_escape n @ r) = More [char_of n] r"
  using get_codepoint_u_escape [of n r] assms
  by (simp add: scan_char_def u_escape_def scan_escape_def scan_unicode_escape_def codepoint_bytes_def)

lemma byte_escape_iff:
  "byte c = 8 \<longleftrightarrow> c = CHR 0x08" "byte c = 9 \<longleftrightarrow> c = CHR 0x09" "byte c = 10 \<longleftrightarrow> c = CHR 0x0A"
  "byte c = 12 \<longleftrightarrow> c = CHR 0x0C" "byte c = 13 \<longleftrightarrow> c = CHR 0x0D" "byte c = 34 \<longleftrightarrow> c = CHR 0x22"
  "byte c = 92 \<longleftrightarrow> c = CHR 0x5C"
  by (simp_all add: of_char_eq_iff [where ?'a = nat, symmetric])

lemma scan_char_special:
  assumes "c \<in> {CHR 0x08, CHR 0x09, CHR 0x0A, CHR 0x0C, CHR 0x0D, CHR 0x22, CHR 0x5C}"
  shows "scan_char (esc_char c @ r) = More [c] r"
  using assms
  by (elim insertE emptyE) (simp_all add: esc_char_def escape_codepoint_def scan_char_def scan_escape_def)

lemma scan_char_esc_ascii:
  assumes "byte c < 0x80"
  shows "scan_char (esc_char c @ r) = More [c] r"
proof (cases "c \<in> {CHR 0x08, CHR 0x09, CHR 0x0A, CHR 0x0C, CHR 0x0D, CHR 0x22, CHR 0x5C}")
  case True
  then show ?thesis by (rule scan_char_special)
next
  case False
  show ?thesis
  proof (cases "byte c \<le> 0x1F")
    case True
    with False have "esc_char c = u_escape (byte c)"
      by (auto simp: esc_char_def escape_codepoint_def byte_escape_iff)
    then show ?thesis using scan_char_u_escape [OF assms, of r] by simp
  next
    case plain: False
    with False assms have "esc_char c = [c]"
      by (auto simp: esc_char_def escape_codepoint_def byte_escape_iff)
    moreover have "is_ascii_byte (byte c)" "\<not> is_control_byte (byte c)"
    proof -
      have "byte c \<noteq> 34" "byte c \<noteq> 92" using False by (auto simp: byte_escape_iff)
      with plain assms show "is_ascii_byte (byte c)" "\<not> is_control_byte (byte c)"
        by (auto simp: is_ascii_byte_def is_control_byte_def)
    qed
    ultimately show ?thesis using False by (simp add: scan_char_def)
  qed
qed

lemma scan_string_More: "scan_char s = More a r \<Longrightarrow> scan_string b s = scan_string (b @ a) r"
  by (simp add: scan_string.simps [of b s])

lemma scan_string_esc:
  "utf8_valid s \<Longrightarrow> scan_string b (esc_string s @ CHR 0x22 # r) = (value_string (b @ s), r)"
proof (induction s arbitrary: b rule: length_induct)
  case (1 s)
  show ?case
  proof (cases s)
    case Nil
    then show ?thesis by (simp add: scan_string.simps [of b] scan_char_def)
  next
    case (Cons c t)
    show ?thesis
    proof (cases "byte c < 0x80")
      case True
      have "scan_string b (esc_char c @ (esc_string t @ CHR 0x22 # r)) =
          scan_string (b @ [c]) (esc_string t @ CHR 0x22 # r)"
        by (rule scan_string_More [OF scan_char_esc_ascii [OF True]])
      moreover have "utf8_valid t" using 1(2) Cons True by (simp add: utf8_valid_ascii)
      ultimately show ?thesis using 1(1) Cons by simp
    next
      case False
      then obtain rs added t' where u: "utf8_ranges (byte c) = Some rs"
        "next_byte_in_range rs [] t = Some (added, t')" "utf8_valid t'"
        using 1(2) Cons by (auto simp: utf8_valid.simps [of "c # t"] split: option.splits)
      from next_byte_in_range_append [OF u(2)] have t: "t = added @ t'" by blast
      note p = utf8_ranges_pending [OF u(1)]
      have e: "esc_string (c # added) = c # added"
        using next_byte_in_range_high [OF p u(2)] False by (intro esc_string_high) auto
      have n: "next_byte_in_range rs [c] (added @ z) = Some (c # added, z)" for z
        using next_byte_in_range_append [OF u(2), of "[c]" z] by simp
      have "\<not> is_ascii_byte (byte c)" "\<not> is_control_byte (byte c)" "c \<noteq> CHR 0x22" "c \<noteq> CHR 0x5C"
        using False by (auto simp: is_ascii_byte_def is_control_byte_def)
      then have "scan_char ((c # added) @ z) = More (c # added) z" for z
        using n u(1) by (simp add: scan_char_def)
      note m = scan_string_More [OF this, of b "esc_string t' @ CHR 0x22 # r"]
      have "esc_string s = esc_string (c # added) @ esc_string t'" by (simp add: Cons t)
      with m have "scan_string b (esc_string s @ CHR 0x22 # r) =
          scan_string (b @ c # added) (esc_string t' @ CHR 0x22 # r)" unfolding e by simp
      moreover have "length t' < length s" using Cons t by simp
      ultimately show ?thesis using 1(1) u(3) Cons t by simp
    qed
  qed
qed
subsection \<open>Numbers\<close>

text \<open>What may follow a value in a serialized document.\<close>

definition ends_value :: "string \<Rightarrow> bool" where
  "ends_value r = (case r of [] \<Rightarrow> True | c # s \<Rightarrow> c = CHR '','' \<or> c = CHR ''}'' \<or> c = CHR '']'' \<or> c = nul)"

lemma ends_value_simps [simp]:
  "ends_value []" "ends_value (CHR '','' # s)" "ends_value (CHR ''}'' # s)" "ends_value (CHR '']'' # s)"
  "ends_value (nul # s)"
  by (simp_all add: ends_value_def)

lemma ends_value_Cons:
  assumes "ends_value (c # s)"
  shows "\<not> is_digit c \<and> c \<noteq> CHR ''.'' \<and> c \<noteq> CHR ''e'' \<and> c \<noteq> CHR ''E''"
  using assms by (auto simp: ends_value_def is_digit_def) (simp_all add: nul_def)

lemma scan_number_any1_end:
  "ends_value r \<Longrightarrow> scan_number_any1 ty b r = Some (b, ty, r)"
  by (cases r) (auto dest: ends_value_Cons)

lemma scan_number_any1_digits:
  "\<forall>c\<in>set ds. is_digit c \<Longrightarrow> ends_value r \<Longrightarrow> scan_number_any1 ty b (ds @ r) = Some (b @ ds, ty, r)"
  by (induction ds arbitrary: b) (auto simp: scan_number_any1_end)

lemma scan_number_zero_end: "ends_value r \<Longrightarrow> scan_number_zero ty b r = Some (b, ty, r)"
  by (cases r) (auto simp: scan_number_zero_def dest: ends_value_Cons)

lemma nat_str_0: "nat_str 0 = ''0''"
  by (simp add: nat_str.simps digit_char_simps)

lemma digit_char_pos: "0 < n \<Longrightarrow> n < 10 \<Longrightarrow> digit_char n \<noteq> CHR ''0''"
  by (metis digit_val_digit_char digit_char_simps(1) less_numeral_extra(3) zero_less_numeral)

lemma nat_str_pos:
  assumes "0 < n"
  obtains c ds where "nat_str n = c # ds" "is_digit c" "c \<noteq> CHR ''0''" "\<forall>c\<in>set ds. is_digit c"
proof -
  have "hd (nat_str n) \<noteq> CHR ''0''" using assms
  proof (induction n rule: nat_str.induct)
    case (1 n)
    show ?case
    proof (cases "n < 10")
      case True
      with 1 show ?thesis by (simp add: nat_str.simps [of n] digit_char_pos)
    next
      case False
      with 1 show ?thesis by (simp add: nat_str.simps [of n])
    qed
  qed
  moreover obtain c ds where "nat_str n = c # ds" by (cases "nat_str n") auto
  ultimately show ?thesis using that nat_str_digits [of _ n] by auto
qed

lemma scan_digits:
  assumes "ends_value r" "0 < n"
  shows "\<exists>c ds. nat_str n = c # ds \<and> is_digit c \<and> c \<noteq> CHR ''0'' \<and>
    scan_number_any1 ty b (ds @ r) = Some (b @ ds, ty, r)"
proof -
  obtain c ds where d: "nat_str n = c # ds" "is_digit c" "c \<noteq> CHR ''0''" "\<forall>c\<in>set ds. is_digit c"
    using nat_str_pos [OF assms(2)] by blast
  from scan_number_any1_digits [OF d(4) assms(1)] d show ?thesis by blast
qed

lemma scan_digit_switch:
  assumes "is_digit c"
  shows "scan (c # r) = scan_number c r"
proof -
  have ne: "c \<noteq> k" if "\<not> is_digit k" for k using that assms by auto
  have "c \<noteq> CHR ''[''" "c \<noteq> CHR '']''" "c \<noteq> CHR ''{''" "c \<noteq> CHR ''}''" "c \<noteq> CHR '':''" "c \<noteq> CHR '',''"
    "c \<noteq> CHR ''t''" "c \<noteq> CHR ''f''" "c \<noteq> CHR ''n''" "c \<noteq> CHR 0x22" "\<not> is_json_space c"
    unfolding is_json_space_def de_Morgan_disj by ((rule ne, simp add: is_digit_def)+ | intro conjI)+
  then show ?thesis using assms by (simp add: scan_def scan_switch_def)
qed

lemma scan_unsigned:
  assumes "n < 2 ^ 64" "ends_value r"
  shows "scan (nat_str n @ r) = (value_unsigned n, r)"
proof -
  have conv: "scan_number_done (nat_str n) NUnsigned = value_unsigned n"
    using strtol10_to_string [of "int n"] assms(1) by (simp add: scan_number_done_def to_string_def)
  show ?thesis
  proof (cases "n = 0")
    case True
    then show ?thesis
      using scan_number_zero_end [OF assms(2), of NUnsigned "''0''"] conv
      by (simp add: nat_str_0 scan_digit_switch scan_number_def is_digit_def)
  next
    case False
    then have n: "0 < n" by simp
    from nat_str_pos [OF n] obtain c ds where c: "nat_str n = c # ds" "is_digit c" "c \<noteq> CHR ''0''" by blast
    from scan_digits [OF assms(2), of n NUnsigned "[c]"] False c
    have "scan_number_any1 NUnsigned [c] (ds @ r) = Some (nat_str n, NUnsigned, r)" by auto
    moreover have "c \<noteq> CHR ''-''" using c by (auto simp: is_digit_def)
    ultimately show ?thesis using c conv by (simp add: scan_digit_switch scan_number_def)
  qed
qed

lemma scan_negative:
  assumes "- (2 ^ 63) \<le> i" "i < 0" "ends_value r"
  shows "scan (to_string i @ r) = (value_integer i, r)"
proof -
  let ?n = "nat (- i)"
  have conv: "scan_number_done (to_string i) NInteger = value_integer i"
    using assms by (simp add: scan_number_done_def long_min_def long_max_def)
  have n: "0 < ?n" using assms(2) by simp
  from nat_str_pos [OF n] obtain c ds where c: "nat_str ?n = c # ds" "is_digit c" "c \<noteq> CHR ''0''" by blast
  from scan_digits [OF assms(3) n, of NInteger "[CHR ''-'', c]"] c
  have "scan_number_any1 NInteger [CHR ''-'', c] (ds @ r) = Some (to_string i, NInteger, r)"
    using assms(2) by (auto simp: to_string_def)
  with c conv assms(2) show ?thesis
    by (simp add: to_string_def scan_def scan_switch_def is_json_space_def scan_number_def
        scan_number_minus_def)
qed

lemma scan_literals:
  "scan (''null'' @ r) = (literal_null, r)" "scan (''true'' @ r) = (literal_true, r)"
  "scan (''false'' @ r) = (literal_false, r)"
  by (simp_all add: scan_def scan_switch_def is_json_space_def is_digit_def)

lemma scan_quoted:
  "utf8_valid s \<Longrightarrow> scan (CHR 0x22 # esc_string s @ CHR 0x22 # r) = (value_string s, r)"
  using scan_string_esc [of s "[]" r] by (simp add: scan_def scan_switch_def is_json_space_def is_digit_def)

lemma scan_structural:
  "scan (CHR ''['' # r) = (begin_array, r)" "scan (CHR '']'' # r) = (end_array, r)"
  "scan (CHR ''{'' # r) = (begin_object, r)" "scan (CHR ''}'' # r) = (end_object, r)"
  "scan (CHR '':'' # r) = (name_separator, r)" "scan (CHR '','' # r) = (value_separator, r)"
  by (simp_all add: scan_def scan_switch_def is_json_space_def)

subsection \<open>Documents\<close>

text \<open>
  The documents \<open>parse\<close> can build and \<open>dump\<close> writes exactly: no doubles, 64-bit integers in the
  representation the lexer chooses, UTF-8 strings, and members in key order without repetition.
\<close>

fun wf_json :: "json \<Rightarrow> bool" and wf_elements :: "json list \<Rightarrow> bool"
  and wf_members :: "(string \<times> json) list \<Rightarrow> bool" where
  "wf_json JNull = True"
| "wf_json (JBool b) = True"
| "wf_json (JUnsigned n) = (n < 2 ^ 64)"
| "wf_json (JInteger i) = (- (2 ^ 63) \<le> i \<and> i < 0)"
| "wf_json (JFloat q) = False"
| "wf_json (JString s) = utf8_valid s"
| "wf_json (JArray vs) = wf_elements vs"
| "wf_json (JObject m) = (sorted_keys m \<and> wf_members m)"
| "wf_elements [] = True"
| "wf_elements (v # vs) = (wf_json v \<and> wf_elements vs)"
| "wf_members [] = True"
| "wf_members ((k, v) # m) = (utf8_valid k \<and> wf_json v \<and> wf_members m)"

text \<open>The loop entered with a token at hand, and entered at the evaluation of the state.\<close>

definition parse_from :: "frame list \<times> json \<Rightarrow> token \<times> string \<Rightarrow> (json \<times> string) res" where
  "parse_from d ts = sax_parse_internal
     \<lparr>skip_to_state_evaluation = False, doc = d, last_token = fst ts, input = snd ts\<rparr>"

definition evaluate_from :: "frame list \<times> json \<Rightarrow> string \<Rightarrow> (json \<times> string) res" where
  "evaluate_from d s = sax_parse_internal
     \<lparr>skip_to_state_evaluation = True, doc = d, last_token = end_of_input, input = s\<rparr>"

lemma evaluate_from_root: "evaluate_from ([], v) s = Inr (v, s)"
  by (simp add: evaluate_from_def sax_parse_internal.simps [of "pstate.make _ _ _ _", unfolded pstate.make_def]
      parse_step_def)

lemma parse_from_value:
  assumes "parse_value d t s = Inr (Inr (d', s'))"
  shows "parse_from d (t, s) = evaluate_from d' s'"
proof -
  have "parse_step \<lparr>skip_to_state_evaluation = False, doc = d, last_token = t, input = s\<rparr> =
      parse_step \<lparr>skip_to_state_evaluation = True, doc = d', last_token = end_of_input, input = s'\<rparr>"
    using assms by (simp add: parse_step_def)
  then show ?thesis
    unfolding parse_from_def evaluate_from_def fst_conv snd_conv
    by (subst (1 2) sax_parse_internal.simps) simp
qed

lemma parse_from_goto:
  assumes "parse_value d t s = Inr (Inl (goto_parse d' ts'))"
  shows "parse_from d (t, s) = parse_from d' ts'"
  unfolding parse_from_def
  by (subst sax_parse_internal.simps) (use assms in \<open>simp add: parse_step_def goto_parse_def\<close>)

lemma evaluate_from_goto:
  assumes "evaluate_state d s = Inr (goto_parse d' ts')"
  shows "evaluate_from d s = parse_from d' ts'"
  unfolding parse_from_def evaluate_from_def
  by (subst sax_parse_internal.simps) (use assms in \<open>simp add: parse_step_def goto_parse_def\<close>)

lemma evaluate_from_evaluate:
  assumes "evaluate_state d s = Inr (goto_evaluate d' s')"
  shows "evaluate_from d s = evaluate_from d' s'"
  unfolding evaluate_from_def
  by (subst sax_parse_internal.simps) (use assms in \<open>simp add: parse_step_def goto_evaluate_def\<close>)

text \<open>What the punctuation of a document does to the loop.\<close>

lemma evaluate_array:
  "evaluate_from (In_array vs # fs, rt) (CHR '','' # s) = parse_from (In_array vs # fs, rt) (scan s)"
  "evaluate_from (In_array vs # fs, rt) (CHR '']'' # s) = evaluate_from (handle_value (JArray vs) (fs, rt)) s"
  by (rule evaluate_from_goto, simp add: scan_structural)
    (rule evaluate_from_evaluate, simp add: scan_structural)

lemma evaluate_object_end:
  "evaluate_from (In_object m k # fs, rt) (CHR ''}'' # s) = evaluate_from (handle_value (JObject m) (fs, rt)) s"
  by (rule evaluate_from_evaluate) (simp add: scan_structural)

lemma read_key_quoted: "read_key (value_string k) (CHR '':'' # s) = Inr (k, scan s)"
  by (simp add: read_key_def scan_structural)

lemma evaluate_object_next:
  "utf8_valid k' \<Longrightarrow>
   evaluate_from (In_object m k # fs, rt) (CHR '','' # CHR 0x22 # esc_string k' @ CHR 0x22 # CHR '':'' # s) =
   parse_from (In_object m k' # fs, rt) (scan s)"
  by (rule evaluate_from_goto) (simp add: scan_structural scan_quoted read_key_quoted)

lemma parse_object_first:
  "utf8_valid k \<Longrightarrow>
   parse_from (fs, rt) (begin_object, CHR 0x22 # esc_string k @ CHR 0x22 # CHR '':'' # s) =
   parse_from (In_object [] k # fs, rt) (scan s)"
  by (rule parse_from_goto) (simp add: parse_object_def scan_quoted read_key_quoted)

lemma parse_array_first:
  "fst (scan s) \<noteq> end_array \<Longrightarrow>
   parse_from (fs, rt) (begin_array, s) = parse_from (In_array [] # fs, rt) (scan s)"
  by (rule parse_from_goto) (auto simp: parse_array_def split: prod.splits)

lemma parse_empty:
  "parse_from d (begin_array, CHR '']'' # s) = evaluate_from (handle_value (JArray []) d) s"
  "parse_from d (begin_object, CHR ''}'' # s) = evaluate_from (handle_value (JObject []) d) s"
  by (rule parse_from_value, simp add: parse_array_def parse_object_def scan_structural)+

text \<open>The text of a value, of the elements of an array and of the members of an object.\<close>

definition value_text :: "json \<Rightarrow> string \<Rightarrow> bool" where
  "value_text v out \<longleftrightarrow> (\<forall>d rest. ends_value rest \<longrightarrow>
     fst (scan (out @ rest)) \<noteq> end_array \<and>
     parse_from d (scan (out @ rest)) = evaluate_from (handle_value v d) rest)"

definition elements_text :: "json list \<Rightarrow> string \<Rightarrow> bool" where
  "elements_text vs out \<longleftrightarrow> (\<forall>us fs rt rest.
     fst (scan (out @ CHR '']'' # rest)) \<noteq> end_array \<and>
     parse_from (In_array us # fs, rt) (scan (out @ CHR '']'' # rest)) =
     evaluate_from (handle_value (JArray (us @ vs)) (fs, rt)) rest)"

definition members_text :: "(string \<times> json) list \<Rightarrow> string \<Rightarrow> bool" where
  "members_text m out \<longleftrightarrow> (\<exists>k t. out = CHR 0x22 # esc_string k @ CHR 0x22 # CHR '':'' # t \<and> utf8_valid k \<and>
     (\<forall>pre fs rt rest. sorted_keys (pre @ m) \<longrightarrow>
        parse_from (In_object pre k # fs, rt) (scan (t @ CHR ''}'' # rest)) =
        evaluate_from (handle_value (JObject (pre @ m)) (fs, rt)) rest))"

lemma value_text_scalar:
  assumes "\<And>rest. ends_value rest \<Longrightarrow> scan (out @ rest) = (t, rest)" "t \<noteq> end_array"
    "\<And>d s. parse_value d t s = Inr (Inr (handle_value v d, s))"
  shows "value_text v out"
  unfolding value_text_def using assms parse_from_value by simp

lemma elements_text_Cons:
  assumes "value_text v out" "elements_text vs out'" 
  shows "elements_text (v # vs) (out @ CHR '','' # out')"
  unfolding elements_text_def
proof (intro allI)
  fix us fs rt rest
  note v = assms(1) [unfolded value_text_def, rule_format, of "CHR '','' # out' @ CHR '']'' # rest"]
  from v assms(2) [unfolded elements_text_def, rule_format, of rest "us @ [v]" fs rt]
  show "fst (scan ((out @ CHR '','' # out') @ CHR '']'' # rest)) \<noteq> end_array \<and>
    parse_from (In_array us # fs, rt) (scan ((out @ CHR '','' # out') @ CHR '']'' # rest)) =
    evaluate_from (handle_value (JArray (us @ v # vs)) (fs, rt)) rest"
    by (simp add: evaluate_array)
qed

lemma elements_text_single:
  assumes "value_text v out"
  shows "elements_text [v] out"
  unfolding elements_text_def
proof (intro allI)
  fix us fs rt rest
  from assms [unfolded value_text_def, rule_format, of "CHR '']'' # rest"]
  show "fst (scan (out @ CHR '']'' # rest)) \<noteq> end_array \<and>
    parse_from (In_array us # fs, rt) (scan (out @ CHR '']'' # rest)) =
    evaluate_from (handle_value (JArray (us @ [v])) (fs, rt)) rest"
    by (simp add: evaluate_array)
qed

lemma sorted_prefix_less: "sorted_keys (pre @ (k, v) # m) \<Longrightarrow> \<forall>x\<in>set pre. fst x < k"
  by (simp add: sorted_wrt_append)

lemma members_text_single:
  assumes "value_text v out" "utf8_valid k"
  shows "members_text [(k, v)] (CHR 0x22 # esc_string k @ CHR 0x22 # CHR '':'' # out)"
proof -
  have "parse_from (In_object pre k # fs, rt) (scan (out @ CHR ''}'' # rest)) =
      evaluate_from (handle_value (JObject (pre @ [(k, v)])) (fs, rt)) rest"
    if "sorted_keys (pre @ [(k, v)])" for pre fs rt rest
    using assms(1) [unfolded value_text_def, rule_format, of "CHR ''}'' # rest"]
      obj_put_snoc [OF sorted_prefix_less [OF that]]
    by (simp add: evaluate_object_end)
  with assms(2) show ?thesis unfolding members_text_def by blast
qed

lemma members_text_Cons:
  assumes "value_text v out" "utf8_valid k" "members_text m out'"
  shows "members_text ((k, v) # m)
    (CHR 0x22 # esc_string k @ CHR 0x22 # CHR '':'' # out @ CHR '','' # out')"
proof -
  from assms(3) obtain k' t where t: "out' = CHR 0x22 # esc_string k' @ CHR 0x22 # CHR '':'' # t" "utf8_valid k'"
    and next_t: "\<And>pre fs rt rest. sorted_keys (pre @ m) \<Longrightarrow>
        parse_from (In_object pre k' # fs, rt) (scan (t @ CHR ''}'' # rest)) =
        evaluate_from (handle_value (JObject (pre @ m)) (fs, rt)) rest"
    unfolding members_text_def by blast
  have "parse_from (In_object pre k # fs, rt) (scan ((out @ CHR '','' # out') @ CHR ''}'' # rest)) =
      evaluate_from (handle_value (JObject (pre @ (k, v) # m)) (fs, rt)) rest"
    if "sorted_keys (pre @ (k, v) # m)" for pre fs rt rest
    using assms(1) [unfolded value_text_def, rule_format, of "CHR '','' # out' @ CHR ''}'' # rest"]
      obj_put_snoc [OF sorted_prefix_less [OF that]] next_t [of "pre @ [(k, v)]" fs rt rest] that
    by (simp add: t evaluate_object_next)
  with assms(2) show ?thesis unfolding members_text_def by blast
qed

lemma dump_text:
  "wf_json v \<Longrightarrow> \<exists>out. dump df False v = Inr out \<and> value_text v out"
  "wf_elements vs \<Longrightarrow> vs \<noteq> [] \<Longrightarrow> \<exists>out. dump_elements df False vs = Inr out \<and> elements_text vs out"
  "wf_members m \<Longrightarrow> m \<noteq> [] \<Longrightarrow> \<exists>out. dump_members df False m = Inr out \<and> members_text m out"
proof (induction v and vs and m rule: wf_json_wf_elements_wf_members.induct)
  case 1
  then show ?case by (auto intro: value_text_scalar simp: scan_literals [simplified])
next
  case (2 b)
  then show ?case by (cases b) (auto intro: value_text_scalar simp: scan_literals [simplified])
next
  case (3 n)
  then show ?case by (auto intro: value_text_scalar simp: scan_unsigned)
next
  case (4 i)
  then show ?case by (auto intro: value_text_scalar simp: scan_negative)
next
  case (5 q)
  then show ?case by simp
next
  case (6 s)
  then show ?case by (auto intro: value_text_scalar simp: scan_quoted dump_escaped_eq)
next
  case (7 vs)
  show ?case
  proof (cases "vs = []")
    case True
    then show ?thesis by (simp add: value_text_def scan_structural parse_empty)
  next
    case False
    with 7 obtain out where out: "dump_elements df False vs = Inr out" "elements_text vs out" by auto
    have "value_text (JArray vs) (''['' @ out @ '']'')"
      unfolding value_text_def
    proof (intro allI impI)
      fix d :: "frame list \<times> json" and rest
      obtain fs rt where d: "d = (fs, rt)" by force
      from out(2) [unfolded elements_text_def, rule_format, of rest "[]" fs rt]
      show "fst (scan ((''['' @ out @ '']'') @ rest)) \<noteq> end_array \<and>
        parse_from d (scan ((''['' @ out @ '']'') @ rest)) = evaluate_from (handle_value (JArray vs) d) rest"
        by (simp add: d scan_structural parse_array_first)
    qed
    with out False show ?thesis by simp
  qed
next
  case (8 m)
  show ?case
  proof (cases "m = []")
    case True
    then show ?thesis by (simp add: value_text_def scan_structural parse_empty)
  next
    case False
    with 8 obtain out where out: "dump_members df False m = Inr out" "members_text m out" by auto
    have "value_text (JObject m) (''{'' @ out @ ''}'')"
      unfolding value_text_def
    proof (intro allI impI)
      fix d :: "frame list \<times> json" and rest
      obtain fs rt where d: "d = (fs, rt)" by force
      from out(2) obtain k t where t: "out = CHR 0x22 # esc_string k @ CHR 0x22 # CHR '':'' # t" "utf8_valid k"
        "parse_from (In_object [] k # fs, rt) (scan (t @ CHR ''}'' # rest)) =
          evaluate_from (handle_value (JObject ([] @ m)) (fs, rt)) rest"
        unfolding members_text_def using 8(2) by fastforce
      then show "fst (scan ((''{'' @ out @ ''}'') @ rest)) \<noteq> end_array \<and>
        parse_from d (scan ((''{'' @ out @ ''}'') @ rest)) = evaluate_from (handle_value (JObject m) d) rest"
        by (simp add: d scan_structural parse_object_first)
    qed
    with out False show ?thesis by simp
  qed
next
  case 9
  then show ?case by simp
next
  case (10 v vs)
  then obtain o1 where o1: "dump df False v = Inr o1" "value_text v o1" by auto
  show ?case
  proof (cases "vs = []")
    case True
    with o1 show ?thesis by (simp add: elements_text_single)
  next
    case False
    with 10 obtain o2 where "dump_elements df False vs = Inr o2" "elements_text vs o2" by auto
    with o1 False show ?thesis by (simp add: elements_text_Cons)
  qed
next
  case 11
  then show ?case by simp
next
  case (12 k v m)
  then obtain o1 where o1: "dump df False v = Inr o1" "value_text v o1" by auto
  show ?case
  proof (cases "m = []")
    case True
    with o1 12 show ?thesis by (simp add: members_text_single dump_escaped_eq)
  next
    case False
    with 12 obtain o2 where "dump_members df False m = Inr o2" "members_text m o2" by auto
    with o1 12 False show ?thesis by (simp add: members_text_Cons dump_escaped_eq)
  qed
qed

text \<open>A document starts with no byte order mark.\<close>

lemma scan_first_scan: "s \<noteq> [] \<Longrightarrow> byte (hd s) \<noteq> 0xEF \<Longrightarrow> scan_first s = scan s"
  by (cases s) (auto simp: scan_first_def skip_bom_def)

lemma hd_nat_str_ascii: "byte (hd (nat_str n)) < 0x80"
  using nat_str_digits [of "hd (nat_str n)" n] by (auto simp: is_digit_def)

lemma dump_starts_ascii:
  "wf_json v \<Longrightarrow> dump df False v = Inr out \<Longrightarrow> out \<noteq> [] \<and> byte (hd out) < 0x80"
  by (cases v) (auto simp: to_string_def hd_nat_str_ascii split: if_splits)

lemma scan_Nil: "scan [] = (end_of_input, [])"
  by (simp add: scan_def)

lemma scan_nul: "fst (scan (nul # s)) = end_of_input"
  by (simp add: scan_def scan_switch_def is_json_space_def nul_def is_digit_def)

text \<open>What follows the value must end it and be the end of the input for the lexer.\<close>

lemma dump_then_parse_rest:
  assumes "wf_json v" "ends_value rest" "fst (scan rest) = end_of_input"
  shows "\<exists>s. dump df False v = Inr s \<and> json_parse (s @ rest) = Inr v"
proof -
  from dump_text(1) [OF assms(1)] obtain s where s: "dump df False v = Inr s" "value_text v s" by blast
  obtain t r where t: "scan (s @ rest) = (t, r)" by force
  have "scan_first (s @ rest) = scan (s @ rest)"
    using dump_starts_ascii [OF assms(1) s(1)] by (intro scan_first_scan) auto
  moreover have "parse_from ([], JNull) (scan (s @ rest)) = Inr (v, rest)"
    using s(2) [unfolded value_text_def, rule_format, OF assms(2), of "([], JNull)"] by (simp add: evaluate_from_root)
  ultimately have "json_parse (s @ rest) = Inr v"
    using assms(3) by (simp add: json_parse_def parse_from_def t)
  with s show ?thesis by blast
qed

lemma dump_then_parse: "wf_json v \<Longrightarrow> \<exists>s. dump df False v = Inr s \<and> json_parse s = Inr v"
  using dump_then_parse_rest [of v "[]" df] by (simp add: scan_Nil)

lemma parse_dumped: "wf_json v \<Longrightarrow> dump df False v = Inr s \<Longrightarrow> json_parse s = Inr v"
  using dump_then_parse [of v df] by auto

interpretation json_text: codec wf_json "dump df False" json_parse for df
proof unfold_locales
  show "wf_json v \<Longrightarrow> \<exists>s. dump df False v = Inr s" for v
    using dump_then_parse [of v df] by blast
qed (rule parse_dumped)

text \<open>A string that is not UTF-8 cannot be serialized: type error 316.\<close>

lemma dump_string_error: "dump df False (JString s) = Inl (Json_exception 316) \<longleftrightarrow> \<not> utf8_valid s"
  by (simp add: dump_escaped_eq)

text \<open>Escaped strings hold no NUL byte.\<close>

lemma hex_digit_nul: "m < 16 \<Longrightarrow> hex_digit m \<noteq> nul"
proof
  assume "m < 16" "hex_digit m = nul"
  then have "byte (hex_digit m) = byte nul" by simp
  with \<open>m < 16\<close> show False by (simp add: nul_def split: if_splits)
qed

lemma nul_notin_esc_char: "nul \<notin> set (esc_char c)"
proof (cases "byte c \<le> 0x1F")
  case True
  then have "esc_char c = u_escape (byte c) \<or> set (esc_char c) \<subseteq> {CHR 0x5C, CHR ''b'', CHR ''t'', CHR ''n'', CHR ''f'', CHR ''r''}"
    by (auto simp: esc_char_def escape_codepoint_def)
  then show ?thesis by (auto simp: u_escape_def hex_digit_nul eq_commute [of nul]) (auto simp: nul_def hex_digit_nul)
next
  case False
  then have "c \<noteq> nul" by (auto simp: nul_def)
  with False show ?thesis by (auto simp: esc_char_def escape_codepoint_def) (simp_all add: nul_def)
qed

lemma nul_notin_esc_string: "nul \<notin> set (esc_string s)"
  by (induction s) (auto simp: nul_notin_esc_char)

text \<open>An escape adds no byte between the quotes and the digits: such a byte of the output stands in the string.\<close>

lemma esc_char_added: "d \<in> set (esc_char c) \<Longrightarrow> 0x22 < byte d \<Longrightarrow> byte d < 0x30 \<Longrightarrow> d = c"
proof (cases "byte c \<le> 0x1F")
  case True
  moreover have "\<not> byte (hex_digit m) < 0x30" if "m < 16" for m using that by simp
  ultimately show "d \<in> set (esc_char c) \<Longrightarrow> 0x22 < byte d \<Longrightarrow> byte d < 0x30 \<Longrightarrow> ?thesis"
    by (auto simp: esc_char_def escape_codepoint_def u_escape_def split: if_splits)
next
  case False
  then show "d \<in> set (esc_char c) \<Longrightarrow> 0x22 < byte d \<Longrightarrow> byte d < 0x30 \<Longrightarrow> ?thesis"
    by (auto simp: esc_char_def escape_codepoint_def split: if_splits)
qed

lemma hash_notin_esc_string: "CHR 0x23 \<notin> set s \<Longrightarrow> CHR 0x23 \<notin> set (esc_string s)"
  using esc_char_added [of "CHR 0x23"] by (induction s) auto

lemma bytes_after_nul_are_ignored:
  assumes "wf_json v"
  shows "\<exists>s. dump df False v = Inr s \<and> json_parse (s @ nul # junk) = Inr v"
  using assms scan_nul by (intro dump_then_parse_rest) simp_all

end
