(* ===== verification/Models.thy ===== *)
theory Models
  imports Pdu JsonRoundtrip Interfaces
begin

text \<open>
  The message bodies of \<open>src/CommonLibraries/json\<close>: one record per quicktype class, with its
  \<open>to_json\<close> and \<open>from_json\<close>. \<open>to_json\<close> starts from an empty object and assigns members by
  \<open>operator[]\<close>; \<open>from_json\<close> reads them with \<open>at(..).get<std::string>()\<close> and throws on the first
  that is missing or not a string.
\<close>

subsection \<open>Constants\<close>

definition ActionCarEnterence :: string where "ActionCarEnterence = ''CarEnterence''"
definition ActionCarStatusUpdate :: string where "ActionCarStatusUpdate = ''CarStatusUpdate''"
definition ActionGateRegistration :: string where "ActionGateRegistration = ''GateRegistration''"

definition RS_Accept :: string where "RS_Accept = ''Accept''"
definition RS_Full :: string where "RS_Full = ''Full''"
definition RS_Exist :: string where "RS_Exist = ''Exist''"
definition RS_Reject :: string where "RS_Reject = ''Reject''"
definition HS_Yes :: string where "HS_Yes = ''Yes''"
definition HS_No :: string where "HS_No = ''No''"

definition GT_NotSet :: int where "GT_NotSet = - 1"
definition GT_Enterence :: int where "GT_Enterence = 0"
definition GT_Exiting :: int where "GT_Exiting = 1"

definition RV_SUCCESS :: int where "RV_SUCCESS = 0"
definition RV_FAILED :: int where "RV_FAILED = - 1"

lemmas result_defs = RS_Accept_def RS_Full_def RS_Exist_def RS_Reject_def
lemmas action_defs = ActionCarEnterence_def ActionCarStatusUpdate_def ActionGateRegistration_def
lemmas gate_type_defs = GT_NotSet_def GT_Enterence_def GT_Exiting_def

text \<open>\<open>j[key] = value\<close> for a string value, on a document that is an object.\<close>

definition json_set :: "string \<Rightarrow> string \<Rightarrow> json \<Rightarrow> json" where
  "json_set key v j = (case j of JObject m \<Rightarrow> JObject (obj_put key (JString v) m) | _ \<Rightarrow> j)"

definition json_object :: json where "json_object = JObject []"

subsection \<open>GateRegistration\<close>

record GateRegistration =
  gr_gateName :: string
  gr_gateType :: string

definition to_json_GateRegistration :: "GateRegistration \<Rightarrow> json" where
  "to_json_GateRegistration x =
     json_set ''GateType'' (gr_gateType x) (json_set ''GateName'' (gr_gateName x) json_object)"

definition from_json_GateRegistration :: "json \<Rightarrow> GateRegistration res" where
  "from_json_GateRegistration j =
     bindR (at_string j ''GateName'') (\<lambda>n.
     bindR (at_string j ''GateType'') (\<lambda>t.
     Inr \<lparr>gr_gateName = n, gr_gateType = t\<rparr>))"

subsection \<open>GateRegistrationResponse\<close>

record GateRegistrationResponse =
  grr_result :: string

definition to_json_GateRegistrationResponse :: "GateRegistrationResponse \<Rightarrow> json" where
  "to_json_GateRegistrationResponse x = json_set ''Result'' (grr_result x) json_object"

definition from_json_GateRegistrationResponse :: "json \<Rightarrow> GateRegistrationResponse res" where
  "from_json_GateRegistrationResponse j =
     bindR (at_string j ''Result'') (\<lambda>r. Inr \<lparr>grr_result = r\<rparr>)"

subsection \<open>CarEnterence\<close>

record CarEnterence =
  ce_carPlate :: string
  ce_handicap :: string
  ce_enteranceTime :: string
  ce_enterenceGate :: string

definition to_json_CarEnterence :: "CarEnterence \<Rightarrow> json" where
  "to_json_CarEnterence x =
     json_set ''enterenceGate'' (ce_enterenceGate x)
      (json_set ''enteranceTime'' (ce_enteranceTime x)
       (json_set ''handicap'' (ce_handicap x)
        (json_set ''CarPlate'' (ce_carPlate x) json_object)))"

definition from_json_CarEnterence :: "json \<Rightarrow> CarEnterence res" where
  "from_json_CarEnterence j =
     bindR (at_string j ''CarPlate'') (\<lambda>p.
     bindR (at_string j ''handicap'') (\<lambda>h.
     bindR (at_string j ''enteranceTime'') (\<lambda>t.
     bindR (at_string j ''enterenceGate'') (\<lambda>g.
     Inr \<lparr>ce_carPlate = p, ce_handicap = h, ce_enteranceTime = t, ce_enterenceGate = g\<rparr>))))"

subsection \<open>CarEnterenceResponse\<close>

record CarEnterenceResponse =
  cer_result :: string
  cer_comment :: string

definition to_json_CarEnterenceResponse :: "CarEnterenceResponse \<Rightarrow> json" where
  "to_json_CarEnterenceResponse x =
     json_set ''comment'' (cer_comment x) (json_set ''result'' (cer_result x) json_object)"

definition from_json_CarEnterenceResponse :: "json \<Rightarrow> CarEnterenceResponse res" where
  "from_json_CarEnterenceResponse j =
     bindR (at_string j ''result'') (\<lambda>r.
     bindR (at_string j ''comment'') (\<lambda>c.
     Inr \<lparr>cer_result = r, cer_comment = c\<rparr>))"

subsection \<open>CarStatusUpdate\<close>

record CarStatusUpdate =
  csu_exitingGate :: string
  csu_carPlate :: string

definition to_json_CarStatusUpdate :: "CarStatusUpdate \<Rightarrow> json" where
  "to_json_CarStatusUpdate x =
     json_set ''CarPlate'' (csu_carPlate x) (json_set ''exitingGate'' (csu_exitingGate x) json_object)"

definition from_json_CarStatusUpdate :: "json \<Rightarrow> CarStatusUpdate res" where
  "from_json_CarStatusUpdate j =
     bindR (at_string j ''exitingGate'') (\<lambda>g.
     bindR (at_string j ''CarPlate'') (\<lambda>p.
     Inr \<lparr>csu_exitingGate = g, csu_carPlate = p\<rparr>))"

subsection \<open>CarStatusUpdateResponse\<close>

record CarStatusUpdateResponse =
  csr_status :: string
  csr_payable :: string
  csr_curreny :: string
  csr_comment :: string

definition to_json_CarStatusUpdateResponse :: "CarStatusUpdateResponse \<Rightarrow> json" where
  "to_json_CarStatusUpdateResponse x =
     json_set ''comment'' (csr_comment x)
      (json_set ''curreny'' (csr_curreny x)
       (json_set ''payable'' (csr_payable x)
        (json_set ''status'' (csr_status x) json_object)))"

definition from_json_CarStatusUpdateResponse :: "json \<Rightarrow> CarStatusUpdateResponse res" where
  "from_json_CarStatusUpdateResponse j =
     bindR (at_string j ''status'') (\<lambda>s.
     bindR (at_string j ''payable'') (\<lambda>p.
     bindR (at_string j ''curreny'') (\<lambda>c.
     bindR (at_string j ''comment'') (\<lambda>m.
     Inr \<lparr>csr_status = s, csr_payable = p, csr_curreny = c, csr_comment = m\<rparr>))))"

subsection \<open>Reading back a document\<close>

text \<open>The members of an object document, as the readers see them.\<close>

definition members :: "json \<Rightarrow> string \<Rightarrow> json option" where
  "members j = (case j of JObject m \<Rightarrow> map_of m | _ \<Rightarrow> Map.empty)"

definition is_object :: "json \<Rightarrow> bool" where
  "is_object j \<longleftrightarrow> (\<exists>m. j = JObject m \<and> sorted_keys m)"

named_theorems doc_simps "documents built by assignment"

lemma is_object_json_set [doc_simps]: "is_object j \<Longrightarrow> is_object (json_set k v j)"
  by (auto simp: is_object_def json_set_def sorted_obj_put)

lemma is_object_json_object [doc_simps]: "is_object json_object"
  by (simp add: is_object_def json_object_def)

lemma members_json_set [doc_simps]:
  "is_object j \<Longrightarrow> members (json_set k v j) = (members j)(k \<mapsto> JString v)"
  by (auto simp: is_object_def json_set_def members_def map_of_obj_put)

lemma at_string_members [doc_simps]:
  "is_object j \<Longrightarrow> at_string j k =
     (case members j k of None \<Rightarrow> Inl (Json_exception 403) | Some v \<Rightarrow> get_string v)"
  by (auto simp: is_object_def members_def at_string_def json_at_def split: option.splits)

lemma get_string_JString [doc_simps]: "get_string (JString s) = Inr s"
  by (simp add: get_string_def)

text \<open>The documents the program writes: an object of strings, its keys in byte order.\<close>

lemma to_json_sorted:
  "to_json_GateRegistration g =
     JObject [(''GateName'', JString (gr_gateName g)), (''GateType'', JString (gr_gateType g))]"
  "to_json_GateRegistrationResponse gr = JObject [(''Result'', JString (grr_result gr))]"
  "to_json_CarEnterence c =
     JObject [(''CarPlate'', JString (ce_carPlate c)), (''enteranceTime'', JString (ce_enteranceTime c)),
       (''enterenceGate'', JString (ce_enterenceGate c)), (''handicap'', JString (ce_handicap c))]"
  "to_json_CarEnterenceResponse cr =
     JObject [(''comment'', JString (cer_comment cr)), (''result'', JString (cer_result cr))]"
  "to_json_CarStatusUpdate s =
     JObject [(''CarPlate'', JString (csu_carPlate s)), (''exitingGate'', JString (csu_exitingGate s))]"
  "to_json_CarStatusUpdateResponse sr =
     JObject [(''comment'', JString (csr_comment sr)), (''curreny'', JString (csr_curreny sr)),
       (''payable'', JString (csr_payable sr)), (''status'', JString (csr_status sr))]"
  by (simp_all add: to_json_GateRegistration_def to_json_GateRegistrationResponse_def
      to_json_CarEnterence_def to_json_CarEnterenceResponse_def to_json_CarStatusUpdate_def
      to_json_CarStatusUpdateResponse_def json_set_def json_object_def less_list_code less_char_def)

subsection \<open>Bodies as text\<close>

text \<open>
  \<open>j.dump()\<close>. The documents of this program hold strings only, so what stands for \<open>dump_float\<close> is
  never used (\<open>j_dump_float_irrelevant\<close>).
\<close>

definition j_dump :: "json \<Rightarrow> string res" where
  "j_dump j = dump (\<lambda>_. []) False j"

lemma dump_float_irrelevant:
  "wf_json v \<Longrightarrow> dump df ea v = dump df' ea v"
  "wf_elements vs \<Longrightarrow> dump_elements df ea vs = dump_elements df' ea vs"
  "wf_members m \<Longrightarrow> dump_members df ea m = dump_members df' ea m"
  by (induction v and vs and m rule: wf_json_wf_elements_wf_members.induct) (simp_all cong: if_cong)

lemma j_dump_float_irrelevant: "wf_json v \<Longrightarrow> dump df False v = j_dump v"
  unfolding j_dump_def by (rule dump_float_irrelevant)

text \<open>
  A message class: its document is read back field by field, and serializes whenever its fields are
  UTF-8. Then the text of a body is a code for the object.
\<close>

locale document =
  fixes to_json :: "'a \<Rightarrow> json"
    and from_json :: "json \<Rightarrow> 'a res"
    and utf8_fields :: "'a \<Rightarrow> bool"
  assumes read_back: "from_json (to_json x) = Inr x"
    and wf_document: "utf8_fields x \<longleftrightarrow> wf_json (to_json x)"
    and dumps_iff: "is_ok (j_dump (to_json x)) \<longleftrightarrow> wf_json (to_json x)"
    and dump_error: "j_dump (to_json x) = Inl e \<Longrightarrow> e = Json_exception 316"
    and dump_no_nul: "j_dump (to_json x) = Inr s \<Longrightarrow> nul \<notin> set s"
begin

lemma body_dumps: "utf8_fields x \<longleftrightarrow> (\<exists>s. j_dump (to_json x) = Inr s)"
  using wf_document dumps_iff by (auto simp: is_ok_def)

lemma body_dump_cases: "j_dump (to_json x) = Inl (Json_exception 316) \<longleftrightarrow> \<not> utf8_fields x"
  using body_dumps [of x] dump_error by (cases "j_dump (to_json x)") auto

lemma body_parses:
  assumes "j_dump (to_json x) = Inr s"
  shows "json_parse s = Inr (to_json x)"
proof -
  have "wf_json (to_json x)" using assms dumps_iff by (auto simp: is_ok_def)
  with assms parse_dumped show ?thesis unfolding j_dump_def by blast
qed

lemma body_read: "j_dump (to_json x) = Inr s \<Longrightarrow> bindR (json_parse s) from_json = Inr x"
  by (simp add: body_parses read_back)

end

sublocale document \<subseteq> body: codec utf8_fields "\<lambda>x. j_dump (to_json x)" "\<lambda>s. bindR (json_parse s) from_json"
  by unfold_locales (auto simp: body_dumps body_read)

lemma j_dump_strings:
  "is_ok (j_dump (JObject m)) \<longleftrightarrow> wf_members m" if "\<forall>kv\<in>set m. \<exists>s. snd kv = JString s"
proof -
  have "is_ok (dump_members df False m) \<longleftrightarrow> wf_members m" for df
    using that by (induction m) (auto simp: dump_escaped_eq is_ok_def Let_def split: if_splits)
  then show ?thesis by (auto simp: j_dump_def is_ok_def)
qed

lemma j_dump_strings_error:
  assumes "\<forall>kv\<in>set m. \<exists>s. snd kv = JString s" "j_dump (JObject m) = Inl e"
  shows "e = Json_exception 316"
proof -
  have "dump_members df False m = Inl e \<Longrightarrow> e = Json_exception 316" for df
    using assms(1) by (induction m)
      (auto simp: dump_escaped_eq bindR_eq_Inl Let_def split: if_splits)
  with assms(2) show ?thesis by (auto simp: j_dump_def bindR_eq_Inl split: if_splits)
qed

lemma dump_members_no_nul:
  "\<forall>kv\<in>set m. \<exists>s. snd kv = JString s \<Longrightarrow> dump_members df False m = Inr t \<Longrightarrow> nul \<notin> set t"
proof (induction m arbitrary: t)
  case Nil
  then show ?case by simp
next
  case (Cons kv m)
  obtain k v where kv: "kv = (k, JString v)" using Cons.prems(1) by (cases kv) auto
  have n: "nul \<noteq> CHR 0x22" "nul \<noteq> CHR '':''" "nul \<noteq> CHR '',''" by (simp_all add: nul_def)
  from Cons.prems(2) kv show ?case
    using Cons.IH Cons.prems(1) n
    by (auto simp: dump_escaped_eq Let_def nul_notin_esc_string split: if_splits)
qed

lemma j_dump_no_nul:
  assumes "\<forall>kv\<in>set m. \<exists>s. snd kv = JString s" "j_dump (JObject m) = Inr t"
  shows "nul \<notin> set t"
  using assms dump_members_no_nul [OF assms(1)]
  by (auto simp: j_dump_def nul_def split: if_splits)

lemma dump_members_no_hash:
  "\<forall>(k, v)\<in>set m. \<exists>s. v = JString s \<and> CHR 0x23 \<notin> set k \<and> CHR 0x23 \<notin> set s \<Longrightarrow>
   dump_members df False m = Inr t \<Longrightarrow> CHR 0x23 \<notin> set t"
proof (induction m arbitrary: t)
  case (Cons kv m)
  obtain k v where "kv = (k, JString v)" using Cons.prems(1) by (cases kv) auto
  with Cons show ?case
    by (auto simp: dump_escaped_eq Let_def hash_notin_esc_string split: if_splits)
qed simp

lemma j_dump_no_hash:
  assumes "\<forall>(k, v)\<in>set m. \<exists>s. v = JString s \<and> CHR 0x23 \<notin> set k \<and> CHR 0x23 \<notin> set s"
    "j_dump (JObject m) = Inr t"
  shows "CHR 0x23 \<notin> set t"
  using assms(2) dump_members_no_hash [OF assms(1)] by (auto simp: j_dump_def split: if_splits)

text \<open>Fields that are UTF-8.\<close>

definition utf8_GateRegistration :: "GateRegistration \<Rightarrow> bool" where
  "utf8_GateRegistration x \<longleftrightarrow> utf8_valid (gr_gateName x) \<and> utf8_valid (gr_gateType x)"

definition utf8_GateRegistrationResponse :: "GateRegistrationResponse \<Rightarrow> bool" where
  "utf8_GateRegistrationResponse x \<longleftrightarrow> utf8_valid (grr_result x)"

definition utf8_CarEnterence :: "CarEnterence \<Rightarrow> bool" where
  "utf8_CarEnterence x \<longleftrightarrow> utf8_valid (ce_carPlate x) \<and> utf8_valid (ce_handicap x) \<and>
     utf8_valid (ce_enteranceTime x) \<and> utf8_valid (ce_enterenceGate x)"

definition utf8_CarEnterenceResponse :: "CarEnterenceResponse \<Rightarrow> bool" where
  "utf8_CarEnterenceResponse x \<longleftrightarrow> utf8_valid (cer_result x) \<and> utf8_valid (cer_comment x)"

definition utf8_CarStatusUpdate :: "CarStatusUpdate \<Rightarrow> bool" where
  "utf8_CarStatusUpdate x \<longleftrightarrow> utf8_valid (csu_exitingGate x) \<and> utf8_valid (csu_carPlate x)"

definition utf8_CarStatusUpdateResponse :: "CarStatusUpdateResponse \<Rightarrow> bool" where
  "utf8_CarStatusUpdateResponse x \<longleftrightarrow> utf8_valid (csr_status x) \<and> utf8_valid (csr_payable x) \<and>
     utf8_valid (csr_curreny x) \<and> utf8_valid (csr_comment x)"

lemmas utf8_fields_defs = utf8_GateRegistration_def utf8_GateRegistrationResponse_def
  utf8_CarEnterence_def utf8_CarEnterenceResponse_def utf8_CarStatusUpdate_def
  utf8_CarStatusUpdateResponse_def

text \<open>The keys of the bodies are ASCII.\<close>

lemma utf8_valid_all_ascii: "\<forall>c\<in>set s. byte c < 0x80 \<Longrightarrow> utf8_valid s"
  by (induction s) (simp_all add: utf8_valid_ascii)

lemma utf8_valid_keys [simp]:
  "utf8_valid ''GateName''" "utf8_valid ''GateType''" "utf8_valid ''Result''" "utf8_valid ''CarPlate''"
  "utf8_valid ''handicap''" "utf8_valid ''enteranceTime''" "utf8_valid ''enterenceGate''"
  "utf8_valid ''result''" "utf8_valid ''comment''" "utf8_valid ''exitingGate''" "utf8_valid ''status''"
  "utf8_valid ''payable''" "utf8_valid ''curreny''"
  by (rule utf8_valid_all_ascii, simp)+

lemmas document_simps = to_json_sorted utf8_fields_defs less_list_code less_char_def doc_simps

lemma wf_document_GateRegistration: "utf8_GateRegistration x \<longleftrightarrow> wf_json (to_json_GateRegistration x)"
  by (auto simp: document_simps)

lemma wf_document_GateRegistrationResponse: "utf8_GateRegistrationResponse x \<longleftrightarrow> wf_json (to_json_GateRegistrationResponse x)"
  by (auto simp: document_simps)

lemma wf_document_CarEnterence: "utf8_CarEnterence x \<longleftrightarrow> wf_json (to_json_CarEnterence x)"
  by (auto simp: document_simps)

lemma wf_document_CarEnterenceResponse: "utf8_CarEnterenceResponse x \<longleftrightarrow> wf_json (to_json_CarEnterenceResponse x)"
  by (auto simp: document_simps)

lemma wf_document_CarStatusUpdate: "utf8_CarStatusUpdate x \<longleftrightarrow> wf_json (to_json_CarStatusUpdate x)"
  by (auto simp: document_simps)

lemma wf_document_CarStatusUpdateResponse: "utf8_CarStatusUpdateResponse x \<longleftrightarrow> wf_json (to_json_CarStatusUpdateResponse x)"
  by (auto simp: document_simps)

text \<open>Every message class is a document in this sense.\<close>

interpretation gr: document to_json_GateRegistration from_json_GateRegistration utf8_GateRegistration
proof unfold_locales
  show "from_json_GateRegistration (to_json_GateRegistration x) = Inr x" for x
    by (simp add: to_json_GateRegistration_def from_json_GateRegistration_def doc_simps)
  show "is_ok (j_dump (to_json_GateRegistration x)) \<longleftrightarrow> wf_json (to_json_GateRegistration x)" for x
    using wf_document_GateRegistration [of x] by (simp add: to_json_sorted j_dump_strings)
  show "j_dump (to_json_GateRegistration x) = Inl e \<Longrightarrow> e = Json_exception 316" for x e
    unfolding to_json_sorted by (rule j_dump_strings_error) auto
  show "j_dump (to_json_GateRegistration x) = Inr s \<Longrightarrow> nul \<notin> set s" for x s
    unfolding to_json_sorted by (rule j_dump_no_nul) auto
qed (rule wf_document_GateRegistration)

interpretation grr: document to_json_GateRegistrationResponse from_json_GateRegistrationResponse utf8_GateRegistrationResponse
proof unfold_locales
  show "from_json_GateRegistrationResponse (to_json_GateRegistrationResponse x) = Inr x" for x
    by (simp add: to_json_GateRegistrationResponse_def from_json_GateRegistrationResponse_def doc_simps)
  show "is_ok (j_dump (to_json_GateRegistrationResponse x)) \<longleftrightarrow> wf_json (to_json_GateRegistrationResponse x)" for x
    using wf_document_GateRegistrationResponse [of x] by (simp add: to_json_sorted j_dump_strings)
  show "j_dump (to_json_GateRegistrationResponse x) = Inl e \<Longrightarrow> e = Json_exception 316" for x e
    unfolding to_json_sorted by (rule j_dump_strings_error) auto
  show "j_dump (to_json_GateRegistrationResponse x) = Inr s \<Longrightarrow> nul \<notin> set s" for x s
    unfolding to_json_sorted by (rule j_dump_no_nul) auto
qed (rule wf_document_GateRegistrationResponse)

interpretation ce: document to_json_CarEnterence from_json_CarEnterence utf8_CarEnterence
proof unfold_locales
  show "from_json_CarEnterence (to_json_CarEnterence x) = Inr x" for x
    by (simp add: to_json_CarEnterence_def from_json_CarEnterence_def doc_simps)
  show "is_ok (j_dump (to_json_CarEnterence x)) \<longleftrightarrow> wf_json (to_json_CarEnterence x)" for x
    using wf_document_CarEnterence [of x] by (simp add: to_json_sorted j_dump_strings)
  show "j_dump (to_json_CarEnterence x) = Inl e \<Longrightarrow> e = Json_exception 316" for x e
    unfolding to_json_sorted by (rule j_dump_strings_error) auto
  show "j_dump (to_json_CarEnterence x) = Inr s \<Longrightarrow> nul \<notin> set s" for x s
    unfolding to_json_sorted by (rule j_dump_no_nul) auto
qed (rule wf_document_CarEnterence)

interpretation cer: document to_json_CarEnterenceResponse from_json_CarEnterenceResponse utf8_CarEnterenceResponse
proof unfold_locales
  show "from_json_CarEnterenceResponse (to_json_CarEnterenceResponse x) = Inr x" for x
    by (simp add: to_json_CarEnterenceResponse_def from_json_CarEnterenceResponse_def doc_simps)
  show "is_ok (j_dump (to_json_CarEnterenceResponse x)) \<longleftrightarrow> wf_json (to_json_CarEnterenceResponse x)" for x
    using wf_document_CarEnterenceResponse [of x] by (simp add: to_json_sorted j_dump_strings)
  show "j_dump (to_json_CarEnterenceResponse x) = Inl e \<Longrightarrow> e = Json_exception 316" for x e
    unfolding to_json_sorted by (rule j_dump_strings_error) auto
  show "j_dump (to_json_CarEnterenceResponse x) = Inr s \<Longrightarrow> nul \<notin> set s" for x s
    unfolding to_json_sorted by (rule j_dump_no_nul) auto
qed (rule wf_document_CarEnterenceResponse)

interpretation csu: document to_json_CarStatusUpdate from_json_CarStatusUpdate utf8_CarStatusUpdate
proof unfold_locales
  show "from_json_CarStatusUpdate (to_json_CarStatusUpdate x) = Inr x" for x
    by (simp add: to_json_CarStatusUpdate_def from_json_CarStatusUpdate_def doc_simps)
  show "is_ok (j_dump (to_json_CarStatusUpdate x)) \<longleftrightarrow> wf_json (to_json_CarStatusUpdate x)" for x
    using wf_document_CarStatusUpdate [of x] by (simp add: to_json_sorted j_dump_strings)
  show "j_dump (to_json_CarStatusUpdate x) = Inl e \<Longrightarrow> e = Json_exception 316" for x e
    unfolding to_json_sorted by (rule j_dump_strings_error) auto
  show "j_dump (to_json_CarStatusUpdate x) = Inr s \<Longrightarrow> nul \<notin> set s" for x s
    unfolding to_json_sorted by (rule j_dump_no_nul) auto
qed (rule wf_document_CarStatusUpdate)

interpretation csr: document to_json_CarStatusUpdateResponse from_json_CarStatusUpdateResponse utf8_CarStatusUpdateResponse
proof unfold_locales
  show "from_json_CarStatusUpdateResponse (to_json_CarStatusUpdateResponse x) = Inr x" for x
    by (simp add: to_json_CarStatusUpdateResponse_def from_json_CarStatusUpdateResponse_def doc_simps)
  show "is_ok (j_dump (to_json_CarStatusUpdateResponse x)) \<longleftrightarrow> wf_json (to_json_CarStatusUpdateResponse x)" for x
    using wf_document_CarStatusUpdateResponse [of x] by (simp add: to_json_sorted j_dump_strings)
  show "j_dump (to_json_CarStatusUpdateResponse x) = Inl e \<Longrightarrow> e = Json_exception 316" for x e
    unfolding to_json_sorted by (rule j_dump_strings_error) auto
  show "j_dump (to_json_CarStatusUpdateResponse x) = Inr s \<Longrightarrow> nul \<notin> set s" for x s
    unfolding to_json_sorted by (rule j_dump_no_nul) auto
qed (rule wf_document_CarStatusUpdateResponse)

text \<open>The readers fail only with exceptions.\<close>

lemma from_json_error:
  "from_json_GateRegistration j = Inl e \<Longrightarrow> is_std_exception e"
  "from_json_GateRegistrationResponse j = Inl e \<Longrightarrow> is_std_exception e"
  "from_json_CarEnterence j = Inl e \<Longrightarrow> is_std_exception e"
  "from_json_CarEnterenceResponse j = Inl e \<Longrightarrow> is_std_exception e"
  "from_json_CarStatusUpdate j = Inl e \<Longrightarrow> is_std_exception e"
  "from_json_CarStatusUpdateResponse j = Inl e \<Longrightarrow> is_std_exception e"
  by (auto simp: from_json_GateRegistration_def from_json_GateRegistrationResponse_def
      from_json_CarEnterence_def from_json_CarEnterenceResponse_def from_json_CarStatusUpdate_def
      from_json_CarStatusUpdateResponse_def bindR_eq_Inl dest: at_string_error)

end
