(* ===== verification/Config.thy ===== *)
theory Config
  imports CppString Interfaces "HOL-Library.Char_ord"
begin

text \<open>
  The configuration: \<open>utils\<close> (\<open>src/CommonLibraries/utils.cpp\<close>) over the look-up and update of
  \<open>CSimpleIniA\<close> (\<open>includes/SimpleIni.h\<close>), whose keys compare without regard to ASCII case. The entries
  a file is loaded with are an argument; reading and writing the file are not modelled here.
\<close>

subsection \<open>Keys\<close>

text \<open>\<open>SI_GenericNoCase\<close>; \<open>char\<close> is signed on the platforms the program is built for.\<close>

definition char_long :: "char \<Rightarrow> int" where
  "char_long c = (if (of_char c :: nat) < 128 then int (of_char c) else int (of_char c) - 256)"

definition locase :: "char \<Rightarrow> char" where
  "locase ch = (if char_long ch < 65 \<or> 90 < char_long ch then ch else char_of (of_char ch + 32 :: nat))"

fun si_less :: "string \<Rightarrow> string \<Rightarrow> bool" where
  "si_less [] r = (r \<noteq> [])"
| "si_less (c # l) [] = False"
| "si_less (c # l) (d # r) =
     (let cmp = char_long (locase c) - char_long (locase d) in
      if cmp \<noteq> 0 then cmp < 0 else si_less l r)"

text \<open>What \<open>std::multimap::find\<close> takes for equal.\<close>

definition same_key :: "string \<Rightarrow> string \<Rightarrow> bool" where
  "same_key k k' \<longleftrightarrow> \<not> si_less k k' \<and> \<not> si_less k' k"

lemma char_long_inject: "char_long c = char_long d \<longleftrightarrow> c = d"
proof
  have *: "a = b" if "(if a < 128 then int a else int a - 256) = (if b < 128 then int b else int b - 256)"
    "a < 256" "b < 256" for a b :: nat
    using that by (auto split: if_splits)
  assume "char_long c = char_long d"
  then have "(of_char c :: nat) = of_char d" unfolding char_long_def by (rule *) simp_all
  then show "c = d" by simp
qed simp

lemma si_less_irrefl: "map locase k = map locase k' \<Longrightarrow> \<not> si_less k k'"
  by (induction k k' rule: si_less.induct) (auto simp: Let_def)

lemma same_key_iff: "same_key k k' \<longleftrightarrow> map locase k = map locase k'"
proof
  show "same_key k k' \<Longrightarrow> map locase k = map locase k'"
  proof (induction k k' rule: si_less.induct)
    case (3 c l d r)
    then have "char_long (locase c) = char_long (locase d)"
      by (auto simp: same_key_def Let_def split: if_splits)
    with 3 show ?case by (auto simp: same_key_def Let_def char_long_inject)
  qed (auto simp: same_key_def)
qed (simp add: same_key_def si_less_irrefl)

lemma same_key_equiv:
  "same_key k k" "same_key k k' \<Longrightarrow> same_key k' k" "same_key k k' \<Longrightarrow> same_key k' k'' \<Longrightarrow> same_key k k''"
  by (auto simp: same_key_iff)

subsection \<open>\<open>CSimpleIniA\<close>: one value per key, sections and keys in load order\<close>

type_synonym ini = "(string \<times> (string \<times> string) list) list"

fun ini_find :: "string \<Rightarrow> (string \<times> 'a) list \<Rightarrow> 'a option" where
  "ini_find k [] = None"
| "ini_find k ((k', v) # m) = (if same_key k k' then Some v else ini_find k m)"

definition ini_GetValue :: "ini \<Rightarrow> string \<Rightarrow> string \<Rightarrow> string option" where
  "ini_GetValue m sect key =
     (case ini_find sect m of None \<Rightarrow> None | Some kvs \<Rightarrow> ini_find key kvs)"

text \<open>The element an iterator of \<open>find\<close> stands for is updated, or a new one is inserted.\<close>

fun ini_update :: "string \<Rightarrow> ('a option \<Rightarrow> 'a) \<Rightarrow> (string \<times> 'a) list \<Rightarrow> (string \<times> 'a) list" where
  "ini_update k f [] = [(k, f None)]"
| "ini_update k f ((k', v) # m) =
     (if same_key k k' then (k', f (Some v)) # m else (k', v) # ini_update k f m)"

text \<open>\<open>AddEntry\<close> without a comment and without multiple keys: \<open>SetValue\<close>.\<close>

definition ini_SetValue :: "ini \<Rightarrow> string \<Rightarrow> string \<Rightarrow> string \<Rightarrow> ini" where
  "ini_SetValue m sect key val =
     ini_update sect (\<lambda>kvs. ini_update key (\<lambda>_. val) (case kvs of None \<Rightarrow> [] | Some kvs \<Rightarrow> kvs)) m"

lemma ini_find_update:
  "ini_find k' (ini_update k f m) = (if same_key k' k then Some (f (ini_find k' m)) else ini_find k' m)"
proof (induction m)
  case Nil
  then show ?case by simp
next
  case (Cons kv m)
  obtain k0 v where kv: "kv = (k0, v)" by force
  show ?case
    using Cons unfolding kv by (cases "same_key k' k"; cases "same_key k k0"; cases "same_key k' k0") (auto simp: same_key_iff)
qed

lemma ini_find_same: "same_key k k' \<Longrightarrow> ini_find k m = ini_find k' m"
  by (induction m) (auto simp: same_key_iff)

lemma ini_Get_Set:
  "ini_GetValue (ini_SetValue m s k v) s k' = (if same_key k k' then Some v else ini_GetValue m s k')"
  by (auto simp: ini_GetValue_def ini_SetValue_def ini_find_update same_key_iff split: option.splits)

lemma ini_Get_Set_section:
  "\<not> same_key s s' \<Longrightarrow> ini_GetValue (ini_SetValue m s k v) s' k' = ini_GetValue m s' k'"
  by (simp add: ini_GetValue_def ini_SetValue_def ini_find_update same_key_iff eq_commute)

subsection \<open>\<open>utils\<close>\<close>

record utils =
  m_ConfigPath :: string
  m_ConfigValid :: bool
  m_Ini :: ini

text \<open>The constructor; \<open>loaded\<close> is what \<open>LoadFile\<close> stored, \<open>None\<close> when it failed.\<close>

definition utils_new :: "string \<Rightarrow> ini option \<Rightarrow> utils" where
  "utils_new ConfigPath loaded =
     \<lparr>m_ConfigPath = ConfigPath, m_ConfigValid = (loaded \<noteq> None),
      m_Ini = (case loaded of None \<Rightarrow> [] | Some m \<Rightarrow> m)\<rparr>"

definition GetValueFromConfigFile :: "utils \<Rightarrow> string \<Rightarrow> string" where
  "GetValueFromConfigFile u key =
     (if \<not> m_ConfigValid u then []
      else case ini_GetValue (m_Ini u) [] (c_str key) of Some v \<Rightarrow> v | None \<Rightarrow> [])"

text \<open>A failure to save the file is reported only.\<close>

definition SetValueFromConfigFile :: "utils \<Rightarrow> string \<Rightarrow> string \<Rightarrow> utils" where
  "SetValueFromConfigFile u key val =
     (if \<not> m_ConfigValid u then u
      else u\<lparr>m_Ini := ini_SetValue (m_Ini u) [] (c_str key) (c_str val)\<rparr>)"

text \<open>The keys of the server and of the gates.\<close>

definition PMS_WebSocketPort :: string where "PMS_WebSocketPort = ''WebSocketPort''"
definition PMS_HandicapSlotCount :: string where "PMS_HandicapSlotCount = ''HandicapSlotCount''"
definition PMS_NormalSlotCount :: string where "PMS_NormalSlotCount = ''NormalSlotCount''"
definition PMS_Currency :: string where "PMS_Currency = ''Currency''"
definition PMS_PricePerMin :: string where "PMS_PricePerMin = ''PricePerMin''"
definition PMS_FreeDurationinMin :: string where "PMS_FreeDurationinMin = ''FreeDurationinMin''"

definition PMC_WebsocketURL :: string where "PMC_WebsocketURL = ''WebsocketURL''"
definition PMC_ClientURI :: string where "PMC_ClientURI = ''ClientURI''"
definition PMC_GateName :: string where "PMC_GateName = ''GateName''"
definition PMC_GateType :: string where "PMC_GateType = ''GateType''"
definition PMC_RegistratinResult :: string where "PMC_RegistratinResult = ''RegistratinResult''"

lemmas config_keys = PMS_WebSocketPort_def PMS_HandicapSlotCount_def PMS_NormalSlotCount_def
  PMS_Currency_def PMS_PricePerMin_def PMS_FreeDurationinMin_def PMC_WebsocketURL_def PMC_ClientURI_def
  PMC_GateName_def PMC_GateType_def PMC_RegistratinResult_def

subsection \<open>A keyed store\<close>

definition cfg_get :: "utils \<Rightarrow> string \<Rightarrow> string option" where
  "cfg_get u k = (if m_ConfigValid u then ini_GetValue (m_Ini u) [] (c_str k) else None)"

definition cfg_set :: "utils \<Rightarrow> string \<Rightarrow> string \<Rightarrow> utils \<times> bool" where
  "cfg_set u k v = (SetValueFromConfigFile u k v, m_ConfigValid u)"

definition c_string :: "string \<Rightarrow> bool" where "c_string s \<longleftrightarrow> nul \<notin> set s"

lemma GetValueFromConfigFile_get: "GetValueFromConfigFile u k = (case cfg_get u k of Some v \<Rightarrow> v | None \<Rightarrow> [])"
  by (simp add: GetValueFromConfigFile_def cfg_get_def)

lemma m_ConfigValid_Set [simp]: "m_ConfigValid (SetValueFromConfigFile u k v) = m_ConfigValid u"
  by (simp add: SetValueFromConfigFile_def)

lemma cfg_get_set:
  "m_ConfigValid u \<Longrightarrow> c_string k \<Longrightarrow> c_string v \<Longrightarrow> c_string k' \<Longrightarrow>
   cfg_get (SetValueFromConfigFile u k v) k' = (if same_key k k' then Some v else cfg_get u k')"
  by (simp add: cfg_get_def SetValueFromConfigFile_def ini_Get_Set c_string_def c_str_id)

interpretation cfg: kv_store "\<lambda>_. True" cfg_get cfg_set same_key c_string c_string
proof unfold_locales
  fix u k v u' k'
  assume "c_string k" "c_string v" "cfg_set u k v = (u', True)" "c_string k'"
  then show "cfg_get u' k' = (if same_key k k' then Some v else cfg_get u k')"
    by (auto simp: cfg_set_def cfg_get_set)
next
  fix u k v u'
  assume "cfg_set u k v = (u', False)"
  then show "u' = u" by (auto simp: cfg_set_def SetValueFromConfigFile_def)
qed (auto intro: same_key_equiv)

text \<open>Writing and reading a setting through the interface of \<open>utils\<close>.\<close>

lemma GetValue_SetValue:
  assumes "m_ConfigValid u" "c_string k" "c_string v" "c_string k'"
  shows "GetValueFromConfigFile (SetValueFromConfigFile u k v) k' =
    (if same_key k k' then v else GetValueFromConfigFile u k')"
  using cfg_get_set [OF assms] by (simp add: GetValueFromConfigFile_get)

lemma invalid_config: "\<not> m_ConfigValid u \<Longrightarrow> GetValueFromConfigFile u k = [] \<and> SetValueFromConfigFile u k v = u"
  by (simp add: GetValueFromConfigFile_def SetValueFromConfigFile_def)

end
