(* ===== verification/Calendar.thy ===== *)
theory Calendar
  imports Prelude "HOL-Library.Signed_Division"
begin

text \<open>
  The civil calendar of the bundled \<open>date.h\<close>: \<open>year_month_day::to_days\<close>, \<open>from_days\<close> and \<open>ok\<close>. The
  divisions are those of C++, which truncate. The arithmetic is first stated on all integers, which is
  also the calendar of the C library; \<open>to_days\<close> and \<open>from_days\<close> are it on the \<open>short\<close> a \<open>date::year\<close> keeps
  and the \<open>int\<close> of a day count.
\<close>

definition is_leap :: "int \<Rightarrow> bool" where
  "is_leap y \<longleftrightarrow> y smod 4 = 0 \<and> (y smod 100 \<noteq> 0 \<or> y smod 400 = 0)"

text \<open>\<open>year_month_day_last::day()\<close>.\<close>

definition last_day :: "int \<Rightarrow> int \<Rightarrow> int" where
  "last_day y m =
     (if m \<noteq> 2 \<or> \<not> is_leap y then [31, 28, 31, 30, 31, 30, 31, 31, 30, 31, 30, 31] ! nat (m - 1) else 29)"

definition year_min :: int where "year_min = - 32767"
definition year_max :: int where "year_max = 32767"

definition ymd_ok :: "int \<Rightarrow> int \<Rightarrow> int \<Rightarrow> bool" where
  "ymd_ok y m d \<longleftrightarrow> (year_min \<le> y \<and> y \<le> year_max \<and> 1 \<le> m \<and> m \<le> 12) \<and> 1 \<le> d \<and> d \<le> last_day y m"

definition days_from_civil :: "int \<Rightarrow> int \<Rightarrow> int \<Rightarrow> int" where
  "days_from_civil y0 m d =
     (let y = y0 - (if m \<le> 2 then 1 else 0);
          era = (if 0 \<le> y then y else y - 399) sdiv 400;
          yoe = y - era * 400;
          doy = (153 * (if 2 < m then m - 3 else m + 9) + 2) div 5 + d - 1;
          doe = yoe * 365 + yoe div 4 - yoe div 100 + doy
      in era * 146097 + doe - 719468)"

definition civil_from_days :: "int \<Rightarrow> int \<times> int \<times> int" where
  "civil_from_days dp =
     (let z = dp + 719468;
          era = (if 0 \<le> z then z else z - 146096) sdiv 146097;
          doe = z - era * 146097;
          yoe = (doe - doe div 1460 + doe div 36524 - doe div 146096) div 365;
          y = yoe + era * 400;
          doy = doe - (365 * yoe + yoe div 4 - yoe div 100);
          mp = (5 * doy + 2) div 153;
          d = doy - (153 * mp + 2) div 5 + 1;
          m = (if mp < 10 then mp + 3 else mp - 9)
      in (y + (if m \<le> 2 then 1 else 0), m, d))"

text \<open>
  \<open>date::year\<close> keeps its number in a \<open>short\<close>. The days of a \<open>year_month_day\<close> count from its year, and the
  year made of a day count is cut to 16 bits; \<open>from_days\<close> adds in \<open>int\<close>, where an overflow is undefined.
\<close>

definition short_of :: "int \<Rightarrow> int" where
  "short_of y = sint (of_int y :: 16 word)"

definition to_days :: "int \<Rightarrow> int \<Rightarrow> int \<Rightarrow> int" where
  "to_days y m d = days_from_civil (short_of y) m d"

definition ymd_from_days :: "int \<Rightarrow> int \<times> int \<times> int" where
  "ymd_from_days dp = (case civil_from_days dp of (y, m, d) \<Rightarrow> (short_of y, m, d))"

definition from_days :: "int \<Rightarrow> (int \<times> int \<times> int) res" where
  "from_days dp =
     (let z = dp + 719468 in
      if z < 2 ^ 31 \<and> - (2 ^ 31) \<le> (if 0 \<le> z then z else z - 146096) then Inr (ymd_from_days dp)
      else Inl UB_overflow)"

subsection \<open>Eras\<close>

lemma sdiv_floor:
  assumes "0 < (n::int)" "c = n - 1"
  shows "(if 0 \<le> a then a else a - c) sdiv n = a div n"
proof (cases "0 \<le> a")
  case True
  with assms show ?thesis by (cases "a = 0") (simp_all add: signed_divide_int_def)
next
  case False
  then have "(a - c) sdiv n = - ((n - 1 - a) div n)"
    using assms by (simp add: signed_divide_int_def)
  also have "\<dots> = a div n"
  proof -
    have "(n - 1 - a) div n = - (a div n)"
    proof (rule int_div_pos_eq [of _ _ _ "n - 1 - a mod n"])
      show "n - 1 - a = n * (- (a div n)) + (n - 1 - a mod n)"
        using mult_div_mod_eq [of n a] by (simp add: algebra_simps)
      show "0 \<le> n - 1 - a mod n" using pos_mod_bound [of n a] assms by linarith
      show "n - 1 - a mod n < n" using pos_mod_sign [of n a] assms by linarith
    qed
    then show ?thesis by simp
  qed
  finally show ?thesis using False by simp
qed

lemma smod_0_iff: "0 < (n::int) \<Longrightarrow> y smod n = 0 \<longleftrightarrow> y mod n = 0"
  by (cases "y = 0") (simp_all add: signed_modulo_int_def mod_eq_0_iff_dvd sgn_eq_0_iff)

lemma is_leap_iff: "is_leap y \<longleftrightarrow> 4 dvd y \<and> (\<not> 100 dvd y \<or> 400 dvd y)"
  by (simp add: is_leap_def smod_0_iff mod_eq_0_iff_dvd)

subsection \<open>The year of an era\<close>

definition year_start :: "int \<Rightarrow> int" where
  "year_start yoe = 365 * yoe + yoe div 4 - yoe div 100"

text \<open>The last day of a year that starts in March; the era's last year ends with 29 February.\<close>

definition year_end :: "int \<Rightarrow> int" where
  "year_end yoe = year_start yoe + (if is_leap (yoe + 1) then 365 else 364)"

definition yoe_num :: "int \<Rightarrow> int" where
  "yoe_num doe = doe - doe div 1460 + doe div 36524 - doe div 146096"

lemma yoe_num_step:
  assumes "0 \<le> doe" "doe < 146096"
  shows "yoe_num doe \<le> yoe_num (doe + 1)"
proof (cases "doe = 146095")
  case True
  then show ?thesis by (simp add: yoe_num_def)
next
  case False
  with assms have "doe div 146096 = 0" "(doe + 1) div 146096 = 0" by simp_all
  moreover have "doe div 36524 \<le> (doe + 1) div 36524" by (rule zdiv_mono1) simp_all
  moreover have "(doe + 1) div 1460 \<le> doe div 1460 + 1"
  proof -
    have "(doe + 1) div 1460 \<le> (doe + 1 * 1460) div 1460" by (rule zdiv_mono1) simp_all
    also have "\<dots> = doe div 1460 + 1" by (subst div_mult_self1) simp_all
    finally show ?thesis .
  qed
  ultimately show ?thesis unfolding yoe_num_def by linarith
qed

lemma yoe_num_mono:
  assumes "0 \<le> a" "a \<le> b" "b \<le> 146096"
  shows "yoe_num a \<le> yoe_num b"
proof -
  have "b \<le> 146096 \<Longrightarrow> yoe_num a \<le> yoe_num b"
    using assms(2)
  proof (induction b rule: int_ge_induct)
    case base
    then show ?case by simp
  next
    case (step i)
    then show ?case using yoe_num_step [of i] assms(1) by simp
  qed
  with assms(3) show ?thesis by simp
qed

lemma years_table:
  "list_all (\<lambda>y. 365 * y \<le> yoe_num (year_start y) \<and> yoe_num (year_end y) < 365 * (y + 1)) [0..399]"
  by code_simp

lemma years_next_table: "list_all (\<lambda>y. year_end y + 1 = year_start (y + 1)) [0..398]"
  by code_simp

lemma year_of_doe:
  assumes "0 \<le> doe" "doe \<le> 146096"
  shows "\<exists>y. 0 \<le> y \<and> y \<le> 399 \<and> year_start y \<le> doe \<and> doe \<le> year_end y"
proof -
  have "Y \<le> 399 \<Longrightarrow> doe \<le> year_end Y \<Longrightarrow> ?thesis" if "0 \<le> Y" for Y
    using that
  proof (induction Y rule: int_ge_induct)
    case base
    with assms show ?case by (intro exI [of _ 0]) (simp add: year_start_def)
  next
    case (step Y)
    have "year_end Y + 1 = year_start (Y + 1)"
      using years_next_table step by (simp add: list_all_iff)
    then show ?case using step by (cases "doe \<le> year_end Y") (auto intro!: exI [of _ "Y + 1"])
  qed
  from this [of 399] assms(2) show ?thesis by (simp add: year_end_def year_start_def is_leap_iff)
qed

lemma yoe_of_doe:
  assumes "0 \<le> y" "y \<le> 399" "year_start y \<le> doe" "doe \<le> year_end y"
  shows "yoe_num doe div 365 = y"
proof -
  have t: "365 * y \<le> yoe_num (year_start y)" "yoe_num (year_end y) < 365 * (y + 1)"
    using years_table assms(1,2) by (auto simp: list_all_iff)
  have s0: "0 \<le> year_start y"
    using assms(1) zdiv_mono2 [of y 4 100] by (simp add: year_start_def)
  have e: "year_end y \<le> 146096"
  proof (cases "y = 399")
    case True
    then show ?thesis by (simp add: year_end_def year_start_def is_leap_iff)
  next
    case False
    have "y div 4 \<le> 99" "0 \<le> y div 100" using assms(1,2) by linarith+
    then have "year_start y \<le> 365 * y + 99" by (simp add: year_start_def)
    with False assms(2) show ?thesis by (simp add: year_end_def)
  qed
  have "365 * y \<le> yoe_num doe" "yoe_num doe < 365 * (y + 1)"
    using t yoe_num_mono [OF s0 assms(3)] yoe_num_mono [of doe "year_end y"] assms(3,4) s0 e by linarith+
  then show ?thesis by (intro int_div_pos_eq [of _ _ _ "yoe_num doe - 365 * y"]) auto
qed

subsection \<open>The month of a year that starts in March\<close>

definition month_start :: "int \<Rightarrow> int" where
  "month_start mp = (153 * mp + 2) div 5"

definition month_length :: "int \<Rightarrow> int" where
  "month_length mp = [31, 30, 31, 30, 31, 31, 30, 31, 30, 31, 31, 29] ! nat mp"

lemma months_table:
  "list_all (\<lambda>mp. list_all (\<lambda>d. (5 * (month_start mp + d - 1) + 2) div 153 = mp) [1..month_length mp]) [0..11]"
  by code_simp

lemma days_table:
  "list_all (\<lambda>doy. let mp = (5 * doy + 2) div 153; d = doy - month_start mp + 1 in
     0 \<le> mp \<and> mp \<le> 11 \<and> 1 \<le> d \<and> d \<le> month_length mp) [0..365]"
  by code_simp

lemma month_of_doy:
  assumes "0 \<le> mp" "mp \<le> 11" "1 \<le> d" "d \<le> month_length mp"
  shows "(5 * (month_start mp + d - 1) + 2) div 153 = mp"
  using months_table assms by (auto simp: list_all_iff)

lemma doy_month:
  assumes "0 \<le> doy" "doy \<le> 365" "mp = (5 * doy + 2) div 153"
  shows "0 \<le> mp \<and> mp \<le> 11 \<and> 1 \<le> doy - month_start mp + 1 \<and> doy - month_start mp + 1 \<le> month_length mp"
  using days_table assms by (auto simp: list_all_iff Let_def)

lemma month_start_bound: "0 \<le> mp \<Longrightarrow> mp \<le> 10 \<Longrightarrow> month_start mp + month_length mp \<le> 337"
  and month_start_11: "month_start 11 = 337" "month_length 11 = 29"
proof -
  have "list_all (\<lambda>mp. month_start mp + month_length mp \<le> 337) [0..10]" by code_simp
  then show "0 \<le> mp \<Longrightarrow> mp \<le> 10 \<Longrightarrow> month_start mp + month_length mp \<le> 337" by (auto simp: list_all_iff)
  show "month_start 11 = 337" "month_length 11 = 29" by (simp_all add: month_start_def month_length_def)
qed

text \<open>The shifted month of a month, and back.\<close>

definition shift_month :: "int \<Rightarrow> int" where
  "shift_month m = (if 2 < m then m - 3 else m + 9)"

definition unshift_month :: "int \<Rightarrow> int" where
  "unshift_month mp = (if mp < 10 then mp + 3 else mp - 9)"

lemma unshift_shift: "1 \<le> m \<Longrightarrow> m \<le> 12 \<Longrightarrow> unshift_month (shift_month m) = m"
  by (auto simp: shift_month_def unshift_month_def)

lemma shift_unshift: "0 \<le> mp \<Longrightarrow> mp \<le> 11 \<Longrightarrow> shift_month (unshift_month mp) = mp"
  by (auto simp: shift_month_def unshift_month_def)

lemma last_day_month_length:
  assumes "1 \<le> m" "m \<le> 12"
  shows "last_day y m = (if m = 2 then (if is_leap y then 29 else 28) else month_length (shift_month m))"
proof -
  have "list_all (\<lambda>m. m = 2 \<or> [31, 28, 31, 30, 31, 30, 31, 31, 30, 31, 30, 31] ! nat (m - 1)
      = month_length (shift_month m)) [1..12]" by code_simp
  with assms have "m = 2 \<or> [31, 28, 31, 30, 31, 30, 31, 31, 30, 31, 30, 31] ! nat (m - 1)
      = month_length (shift_month m)" unfolding list_all_iff by simp
  then show ?thesis by (auto simp: last_day_def)
qed

subsection \<open>Both conversions, in terms of era, year, and day of the year\<close>

definition day_number :: "int \<Rightarrow> int \<Rightarrow> int \<Rightarrow> int" where
  "day_number era yoe doy = era * 146097 + (year_start yoe + doy) - 719468"

lemma is_leap_era: "is_leap (yoe + 400 * era + 1) = is_leap (yoe + 1)"
proof -
  have "4 dvd yoe + 400 * era + 1 \<longleftrightarrow> 4 dvd yoe + 1" "100 dvd yoe + 400 * era + 1 \<longleftrightarrow> 100 dvd yoe + 1"
    "400 dvd yoe + 400 * era + 1 \<longleftrightarrow> 400 dvd yoe + 1"
  proof -
    have e: "yoe + 400 * era + 1 = (yoe + 1) + (100 * era) * 4" "yoe + 400 * era + 1 = (yoe + 1) + (4 * era) * 100"
      "yoe + 400 * era + 1 = (yoe + 1) + era * 400" by simp_all
    show "4 dvd yoe + 400 * era + 1 \<longleftrightarrow> 4 dvd yoe + 1" unfolding e(1) by (rule dvd_add_times_triv_right_iff)
    show "100 dvd yoe + 400 * era + 1 \<longleftrightarrow> 100 dvd yoe + 1" unfolding e(2) by (rule dvd_add_times_triv_right_iff)
    show "400 dvd yoe + 400 * era + 1 \<longleftrightarrow> 400 dvd yoe + 1" unfolding e(3) by (rule dvd_add_times_triv_right_iff)
  qed
  then show ?thesis by (simp add: is_leap_iff)
qed

lemma to_days_number:
  "days_from_civil y0 m d =
     (let y = y0 - (if m \<le> 2 then 1 else 0)
      in day_number (y div 400) (y mod 400) (month_start (shift_month m) + d - 1))"
proof -
  define y where "y = y0 - (if m \<le> 2 then 1 else 0)"
  have "(if 0 \<le> y then y else y - 399) sdiv 400 = y div 400" by (rule sdiv_floor) simp_all
  moreover have "y - y div 400 * 400 = y mod 400" by (simp add: minus_div_mult_eq_mod)
  ultimately show ?thesis
    unfolding days_from_civil_def y_def [symmetric]
    by (simp add: Let_def day_number_def year_start_def month_start_def shift_month_def)
qed

lemma from_days_number:
  assumes "0 \<le> yoe" "yoe \<le> 399" "0 \<le> doy" "year_start yoe + doy \<le> year_end yoe"
  shows "civil_from_days (day_number era yoe doy) =
     (let mp = (5 * doy + 2) div 153; m = unshift_month mp
      in (yoe + era * 400 + (if m \<le> 2 then 1 else 0), m, doy - month_start mp + 1))"
proof -
  let ?doe = "year_start yoe + doy"
  have s0: "0 \<le> year_start yoe"
    using assms(1) zdiv_mono2 [of yoe 4 100] by (simp add: year_start_def)
  have e: "year_end yoe \<le> 146096"
  proof (cases "yoe = 399")
    case True
    then show ?thesis by (simp add: year_end_def year_start_def is_leap_iff)
  next
    case False
    have "yoe div 4 \<le> 99" "0 \<le> yoe div 100" using assms(1,2) by linarith+
    then have "year_start yoe \<le> 365 * yoe + 99" by (simp add: year_start_def)
    with False assms(2) show ?thesis by (simp add: year_end_def)
  qed
  let ?z = "day_number era yoe doy + 719468"
  have z: "?z = ?doe + 146097 * era" by (simp add: day_number_def)
  have doe: "0 \<le> ?doe" "?doe < 146097" using s0 e assms(3,4) by linarith+
  have era: "(if 0 \<le> ?z then ?z else ?z - 146096) sdiv 146097 = era"
  proof -
    have "?z div 146097 = era" unfolding z using doe by simp
    moreover have "(if 0 \<le> ?z then ?z else ?z - 146096) sdiv 146097 = ?z div 146097"
      by (rule sdiv_floor) simp_all
    ultimately show ?thesis by simp
  qed
  have dz: "?z - era * 146097 = ?doe" using z by simp
  have yoe: "yoe_num ?doe div 365 = yoe" using yoe_of_doe [of yoe ?doe] assms by simp
  have doy: "?doe - (365 * yoe + yoe div 4 - yoe div 100) = doy" by (simp add: year_start_def)
  show ?thesis
    unfolding civil_from_days_def Let_def era dz yoe_num_def [symmetric] yoe doy
    by (simp add: unshift_month_def month_start_def)
qed

lemma from_to_date:
  assumes m: "1 \<le> m" "m \<le> 12" and d: "1 \<le> d" "d \<le> last_day y m"
  shows "civil_from_days (days_from_civil y m d) = (y, m, d)"
proof -
  let ?y = "y - (if m \<le> 2 then 1 else 0)" and ?mp = "shift_month m"
  let ?doy = "month_start ?mp + d - 1"
  have mp: "0 \<le> ?mp" "?mp \<le> 11" using m by (auto simp: shift_month_def)
  have ml: "d \<le> month_length ?mp"
    using d(2) last_day_month_length [OF m, of y] by (auto simp: shift_month_def month_start_11 split: if_splits)
  have s0: "0 \<le> month_start ?mp" using mp by (simp add: month_start_def)
  have fits: "year_start (?y mod 400) + ?doy \<le> year_end (?y mod 400)"
  proof (cases "m = 2")
    case True
    have "?y mod 400 + 400 * (?y div 400) + 1 = y" using True by simp
    then have "is_leap y = is_leap (?y mod 400 + 1)" using is_leap_era by metis
    moreover have "?mp = 11" using True by (simp add: shift_month_def)
    ultimately show ?thesis
      using d last_day_month_length [OF m, of y] True by (auto simp: year_end_def month_start_11)
  next
    case False
    then have "?mp \<le> 10" using m by (auto simp: shift_month_def)
    from month_start_bound [OF mp(1) this] ml show ?thesis by (simp add: year_end_def)
  qed
  have "civil_from_days (days_from_civil y m d) =
      (let mp' = (5 * ?doy + 2) div 153; m' = unshift_month mp'
       in (?y mod 400 + ?y div 400 * 400 + (if m' \<le> 2 then 1 else 0), m', ?doy - month_start mp' + 1))"
    unfolding to_days_number Let_def
    by (subst from_days_number) (use fits s0 d in \<open>simp_all add: Let_def\<close>)
  also have "\<dots> = (y, m, d)"
    using month_of_doy [OF mp d(1) ml] unshift_shift [OF m] mod_div_mult_eq [of ?y 400] by (simp add: Let_def)
  finally show ?thesis .
qed

theorem from_to_days: "ymd_ok y m d \<Longrightarrow> civil_from_days (days_from_civil y m d) = (y, m, d)"
  by (auto simp: ymd_ok_def intro: from_to_date)

text \<open>Every day number is the number of its date, and the date is valid when its year is in range.\<close>

lemma from_days_cases:
  obtains era yoe doy where "0 \<le> yoe" "yoe \<le> 399" "0 \<le> doy" "year_start yoe + doy \<le> year_end yoe"
    "z = day_number era yoe doy"
proof -
  let ?doe = "(z + 719468) mod 146097"
  have "0 \<le> ?doe" "?doe \<le> 146096" using pos_mod_bound [of 146097 "z + 719468"] by simp_all
  from year_of_doe [OF this] obtain y where
    y: "0 \<le> y" "y \<le> 399" "year_start y \<le> ?doe" "?doe \<le> year_end y" by blast
  have "z = day_number ((z + 719468) div 146097) y (?doe - year_start y)"
    using div_mult_mod_eq [of "z + 719468" 146097] by (simp add: day_number_def)
  with y show ?thesis by (intro that [of y "?doe - year_start y"]) auto
qed

lemma from_days_date:
  assumes "civil_from_days z = (y, m, d)"
  shows "1 \<le> m \<and> m \<le> 12 \<and> 1 \<le> d \<and> d \<le> last_day y m \<and> days_from_civil y m d = z"
proof -
  obtain era yoe doy where z: "0 \<le> yoe" "yoe \<le> 399" "0 \<le> doy" "year_start yoe + doy \<le> year_end yoe"
    "z = day_number era yoe doy" by (rule from_days_cases)
  define mp where "mp = (5 * doy + 2) div 153"
  have "doy \<le> 365" using z(4) by (simp add: year_end_def split: if_splits)
  note doy = doy_month [OF z(3) this mp_def]
  have "(y, m, d) = (yoe + era * 400 + (if unshift_month mp \<le> 2 then 1 else 0), unshift_month mp,
      doy - month_start mp + 1)"
    using assms from_days_number [OF z(1-4), of era] unfolding z(5) mp_def Let_def by (simp only:)
  then have ymd: "m = unshift_month mp" "y = yoe + era * 400 + (if m \<le> 2 then 1 else 0)"
    "d = doy - month_start mp + 1" by simp_all
  have m: "1 \<le> m" "m \<le> 12" using doy ymd(1) by (auto simp: unshift_month_def split: if_splits)
  have sh: "shift_month m = mp" using doy ymd(1) by (simp add: shift_unshift)
  have leap: "is_leap y = is_leap (yoe + 1)" if "m \<le> 2"
    using ymd(2) that is_leap_era [of yoe era] by (simp add: algebra_simps)
  have "d \<le> last_day y m"
  proof (cases "m = 2")
    case True
    then have "mp = 11" using sh by (simp add: shift_month_def)
    with z(4) ymd(3) leap True show ?thesis
      unfolding last_day_month_length [OF m] by (auto simp: year_end_def month_start_11 split: if_splits)
  next
    case False
    with doy ymd(3) sh show ?thesis unfolding last_day_month_length [OF m] by simp
  qed
  moreover have "days_from_civil y m d = z"
  proof -
    have "y - (if m \<le> 2 then 1 else 0) = yoe + 400 * era" using ymd(2) by simp
    then have "days_from_civil y m d = day_number ((yoe + 400 * era) div 400) ((yoe + 400 * era) mod 400) doy"
      by (simp add: to_days_number Let_def sh ymd(3))
    then show ?thesis using z(1,2,5) by simp
  qed
  ultimately show ?thesis using m doy ymd(3) by simp
qed

theorem to_from_days: "(case civil_from_days z of (y, m, d) \<Rightarrow> days_from_civil y m d) = z"
  using from_days_date [of z] by (cases "civil_from_days z") auto

subsection \<open>The years a \<open>short\<close> can hold\<close>

lemma short_of_id: "- 32768 \<le> y \<Longrightarrow> y \<le> 32767 \<Longrightarrow> short_of y = y"
  by (simp add: short_of_def signed_of_int signed_take_bit_int_eq_self)

lemma to_days_ok: "ymd_ok y m d \<Longrightarrow> to_days y m d = days_from_civil y m d"
  by (simp add: to_days_def short_of_id ymd_ok_def year_min_def year_max_def)

text \<open>The day number without eras: years that start in March, and the day of such a year.\<close>

definition march_days :: "int \<Rightarrow> int" where
  "march_days y = 365 * y + y div 4 - y div 100 + y div 400 - 719468"

lemma march_year: "march_days y + 365 \<le> march_days (y + 1)"
proof -
  have "(y + 1) div 100 - y div 100 \<le> (y + 1) div 4 - y div 4"
  proof -
    have c: "x div 100 = x div 4 div 25" for x :: int by (simp add: zdiv_zmult2_eq [symmetric])
    have "y div 4 \<le> (y + 1) div 4" by (rule zdiv_mono1) simp_all
    moreover have "(y + 1) div 4 \<le> (y + 4) div 4" by (rule zdiv_mono1) simp_all
    ultimately have "(y + 1) div 4 = y div 4 \<or> (y + 1) div 4 = y div 4 + 1" by auto
    moreover have "(q + 1) div 25 \<le> q div 25 + 1" for q :: int
      using zdiv_mono1 [of "q + 1" "q + 25" 25] by simp
    ultimately show ?thesis unfolding c by auto
  qed
  moreover have "y div 400 \<le> (y + 1) div 400" by (rule zdiv_mono1) simp_all
  ultimately show ?thesis by (simp add: march_days_def)
qed

lemma march_days_mono: "y \<le> y' \<Longrightarrow> march_days y \<le> march_days y'"
proof (induction y' rule: int_ge_induct)
  case (step y')
  with march_year [of y'] show ?case by simp
qed simp

lemma days_from_civil_march:
  "days_from_civil y0 m d = march_days (y0 - (if m \<le> 2 then 1 else 0)) + month_start (shift_month m) + d - 1"
proof -
  define y where "y = y0 - (if m \<le> 2 then 1 else 0)"
  define q r where "q = y div 400" and "r = y mod 400"
  have y: "y = r + q * 400" by (simp add: q_def r_def)
  have "(r + (100 * q) * 4) div 4 = 100 * q + r div 4" by (subst div_mult_self1) simp_all
  moreover have "(r + (4 * q) * 100) div 100 = 4 * q + r div 100" by (subst div_mult_self1) simp_all
  moreover have "y = r + (100 * q) * 4" "y = r + (4 * q) * 100" using y by simp_all
  ultimately have "y div 4 = 100 * q + r div 4" "y div 100 = 4 * q + r div 100" by metis+
  then have "march_days y = day_number q r 0"
    by (simp add: march_days_def day_number_def year_start_def q_def [symmetric]) (simp add: y)
  then show ?thesis
    unfolding to_days_number Let_def y_def [symmetric] q_def [symmetric] r_def [symmetric]
    by (simp add: day_number_def)
qed

lemma day_of_march_year:
  assumes "1 \<le> m" "m \<le> 12" "1 \<le> d" "d \<le> last_day y m"
  shows "0 \<le> month_start (shift_month m) + d - 1" "month_start (shift_month m) + d - 1 \<le> 365"
    and "2 < m \<Longrightarrow> month_start (shift_month m) + d - 1 \<le> 305"
    and "m \<le> 2 \<Longrightarrow> 306 \<le> month_start (shift_month m) + d - 1"
proof -
  have "list_all (\<lambda>m. 0 \<le> month_start (shift_month m) \<and>
      month_start (shift_month m) + (if m = 2 then 29 else month_length (shift_month m)) \<le> (if m \<le> 2 then 366 else 306) \<and>
      (m \<le> 2 \<longrightarrow> 306 \<le> month_start (shift_month m))) [1..12]" by code_simp
  with assms(1,2) have t: "0 \<le> month_start (shift_month m)"
    "month_start (shift_month m) + (if m = 2 then 29 else month_length (shift_month m)) \<le> (if m \<le> 2 then 366 else 306)"
    "m \<le> 2 \<longrightarrow> 306 \<le> month_start (shift_month m)" unfolding list_all_iff by auto
  have "d \<le> (if m = 2 then 29 else month_length (shift_month m))"
    using assms(4) last_day_month_length [OF assms(1,2), of y] by (auto split: if_splits)
  with t assms(3) show "0 \<le> month_start (shift_month m) + d - 1" "month_start (shift_month m) + d - 1 \<le> 365"
    "2 < m \<Longrightarrow> month_start (shift_month m) + d - 1 \<le> 305"
    "m \<le> 2 \<Longrightarrow> 306 \<le> month_start (shift_month m) + d - 1" by (auto split: if_splits)
qed

text \<open>A valid date lies in a year of the range exactly when its day number lies between the first and the last one.\<close>

lemma days_bounds:
  "days_from_civil (Y + 1) 1 1 = march_days Y + 306" "days_from_civil Y 12 31 = march_days Y + 305"
  by (simp_all add: days_from_civil_march month_start_def shift_month_def)

lemma day_before_year:
  assumes "1 \<le> m" "m \<le> 12" "1 \<le> d" "d \<le> last_day y m" "y \<le> Y"
  shows "days_from_civil y m d \<le> days_from_civil Y 12 31"
proof (cases "m \<le> 2")
  case True
  have "march_days (y - 1) \<le> march_days (Y - 1)" using assms(5) by (intro march_days_mono) simp
  moreover have "march_days (Y - 1) + 365 \<le> march_days Y" using march_year [of "Y - 1"] by simp
  ultimately show ?thesis using day_of_march_year(2) [OF assms(1-4)] True
    unfolding days_bounds(2) by (simp add: days_from_civil_march)
next
  case False
  then show ?thesis using day_of_march_year(3) [OF assms(1-4)] march_days_mono [OF assms(5)]
    unfolding days_bounds(2) by (simp add: days_from_civil_march)
qed

lemma day_after_year:
  assumes "1 \<le> m" "m \<le> 12" "1 \<le> d" "d \<le> last_day y m" "Y \<le> y"
  shows "days_from_civil Y 1 1 \<le> days_from_civil y m d"
proof (cases "m \<le> 2")
  case True
  have "march_days (Y - 1) \<le> march_days (y - 1)" using assms(5) by (intro march_days_mono) simp
  then show ?thesis using day_of_march_year(4) [OF assms(1-4)] True days_bounds(1) [of "Y - 1"]
    by (simp add: days_from_civil_march)
next
  case False
  have "march_days (Y - 1) + 365 \<le> march_days Y" using march_year [of "Y - 1"] by simp
  then show ?thesis using day_of_march_year(1) [OF assms(1-4)] False march_days_mono [OF assms(5)] days_bounds(1) [of "Y - 1"]
    by (simp add: days_from_civil_march)
qed

lemma year_in_range:
  assumes "1 \<le> m" "m \<le> 12" "1 \<le> d" "d \<le> last_day y m"
  shows "year_min \<le> y \<and> y \<le> year_max \<longleftrightarrow>
    to_days year_min 1 1 \<le> days_from_civil y m d \<and> days_from_civil y m d \<le> to_days year_max 12 31"
proof -
  have e: "to_days year_min 1 1 = days_from_civil year_min 1 1" "to_days year_max 12 31 = days_from_civil year_max 12 31"
    by (simp_all add: to_days_def short_of_id year_min_def year_max_def)
  have gap: "days_from_civil Y 12 31 < days_from_civil (Y + 1) 1 1" for Y by (simp add: days_bounds)
  show ?thesis
    unfolding e
    using day_before_year [OF assms, of year_max] day_after_year [OF assms, of year_min] gap [of year_max] gap [of "year_min - 1"]
      day_before_year [OF assms, of "year_min - 1"] day_after_year [OF assms, of "year_max + 1"]
    by (cases "year_min \<le> y"; cases "y \<le> year_max") auto
qed

lemma first_and_last_day: "to_days year_min 1 1 = - 12687428" "to_days year_max 12 31 = 11248737"
  by (simp_all add: to_days_def short_of_id year_min_def year_max_def) (code_simp+)

lemma from_days_date_range:
  assumes "to_days year_min 1 1 \<le> z" "z \<le> to_days year_max 12 31"
  shows "from_days z = Inr (y, m, d) \<longleftrightarrow> ymd_ok y m d \<and> to_days y m d = z"
proof -
  obtain y' m' d' where c: "civil_from_days z = (y', m', d')" by (cases "civil_from_days z") auto
  note date = from_days_date [OF c]
  have ok: "ymd_ok y' m' d'" using year_in_range [of m' d' y'] date assms by (simp add: ymd_ok_def)
  have f: "from_days z = Inr (y', m', d')"
  proof -
    have "- 12687428 \<le> z" "z \<le> 11248737" using assms by (simp_all only: first_and_last_day)
    moreover have "short_of y' = y'" using ok by (simp add: ymd_ok_def short_of_id year_min_def year_max_def)
    ultimately show ?thesis by (simp add: from_days_def Let_def ymd_from_days_def c)
  qed
  show ?thesis
  proof
    assume "from_days z = Inr (y, m, d)"
    with f date ok show "ymd_ok y m d \<and> to_days y m d = z" by (simp add: to_days_ok)
  next
    assume yz: "ymd_ok y m d \<and> to_days y m d = z"
    then have "civil_from_days z = (y, m, d)" using from_to_days [of y m d] by (auto simp: to_days_ok)
    with c f show "from_days z = Inr (y, m, d)" by simp
  qed
qed

lemma from_days_past_range: "from_days (to_days year_max 12 31 + 1) = Inr (- 32768, 1, 1)"
  unfolding first_and_last_day by code_simp

end
