(* ===== verification/Clock.thy ===== *)
theory Clock
  imports Calendar Binary64
begin

text \<open>
  The time functions of \<open>src/CommonLibraries/json/Base.hpp\<close> over the bundled \<open>date.h\<close>: reading
  \<open>%FT%TZ\<close> and \<open>%FT%T%Ez\<close>, writing \<open>%FT%TZ\<close>, and the conversion to seconds by \<open>strptime\<close> and \<open>mktime\<close>.
  An input stream is the list of characters not read yet; \<open>None\<close> is a stream whose \<open>failbit\<close> is set.
  \<open>mktime\<close> depends on the time zone of the host and is a parameter, and so is what the stack holds where
  \<open>GetTimeByString\<close> puts its \<open>struct tm\<close>, which it does not initialise.
\<close>

subsection \<open>Reading fields\<close>

text \<open>\<open>read_unsigned(is, m, M)\<close>.\<close>

fun read_unsigned_loop :: "nat \<Rightarrow> nat \<Rightarrow> nat \<Rightarrow> string \<Rightarrow> nat \<times> nat \<times> string" where
  "read_unsigned_loop M x count [] = (x, count, [])"
| "read_unsigned_loop M x count (c # s) =
     (if \<not> is_digit c then (x, count, c # s)
      else let count' = count + 1; x' = take_bit 32 (10 * x + digit_val c) in
        if count' = M then (x', count', s) else read_unsigned_loop M x' count' s)"

definition read_unsigned :: "nat \<Rightarrow> nat \<Rightarrow> string \<Rightarrow> (int \<times> string) option" where
  "read_unsigned m M s =
     (case read_unsigned_loop M 0 0 s of (x, count, r) \<Rightarrow> if count < m then None else Some (int x, r))"

definition read_signed :: "nat \<Rightarrow> nat \<Rightarrow> string \<Rightarrow> (int \<times> string) option" where
  "read_signed m M s =
     (case s of
        c # r \<Rightarrow>
          if is_digit c then read_unsigned (max m 1) M s
          else if c = CHR ''-'' then map_option (\<lambda>(x, r'). (- x, r')) (read_unsigned (max m 1) M r)
          else if c = CHR ''+'' then read_unsigned (max m 1) M r
          else if 0 < m then None else Some (0, s)
      | [] \<Rightarrow> if 0 < m then None else Some (0, s))"

definition read_char :: "char \<Rightarrow> string \<Rightarrow> string option" where
  "read_char a s = (case s of c # r \<Rightarrow> if c = a then Some r else None | [] \<Rightarrow> None)"

text \<open>x87 \<open>long double\<close>: 64 significant bits, rounded to nearest, ties to even.\<close>

definition fl80 :: "rat \<Rightarrow> rat" where
  "fl80 q = (if q = 0 then 0
     else let u = 2 powi max (flog2 \<bar>q\<bar> - 63) (- 16445) in of_int (rne (q / u)) * u)"

text \<open>\<open>read_long_double(is, m, M)\<close>: integer part, fraction and the number of its digits.\<close>

fun read_long_double_loop ::
    "nat \<Rightarrow> bool \<Rightarrow> nat \<Rightarrow> nat \<Rightarrow> nat \<Rightarrow> nat \<Rightarrow> string \<Rightarrow> nat \<times> nat \<times> nat \<times> nat \<times> string" where
  "read_long_double_loop M parsing_fraction count i f fcount [] = (i, f, fcount, count, [])"
| "read_long_double_loop M parsing_fraction count i f fcount (c # s) =
     (if c = CHR ''.'' \<and> \<not> parsing_fraction then
        (if count + 1 = M then (i, f, fcount, count + 1, s)
         else read_long_double_loop M True (count + 1) i f fcount s)
      else if \<not> is_digit c then (i, f, fcount, count, c # s)
      else let i' = (if parsing_fraction then i else take_bit 64 (10 * i + digit_val c));
               f' = (if parsing_fraction then take_bit 64 (10 * f + digit_val c) else f);
               fcount' = (if parsing_fraction then fcount + 1 else fcount)
           in if count + 1 = M then (i', f', fcount', count + 1, s)
              else read_long_double_loop M parsing_fraction (count + 1) i' f' fcount' s)"

definition read_long_double :: "nat \<Rightarrow> nat \<Rightarrow> string \<Rightarrow> (rat \<times> string) option" where
  "read_long_double m M s =
     (case read_long_double_loop M False 0 0 0 0 s of (i, f, fcount, count, r) \<Rightarrow>
        if count < m then None
        else Some (fl80 (of_nat i + fl80 (of_nat f / 10 ^ fcount)), r))"

text \<open>\<open>round_i<milliseconds>(duration<long double>{S})\<close>.\<close>

definition round_ms :: "rat \<Rightarrow> int" where
  "round_ms S = rne (fl80 (S * 1000))"

subsection \<open>\<open>from_stream\<close> for the two formats\<close>

text \<open>\<open>%F\<close>: year, month, day.\<close>

definition parse_F :: "string \<Rightarrow> ((int \<times> int \<times> int) \<times> string) option" where
  "parse_F s =
     Option.bind (read_signed 1 4 s) (\<lambda>(Y, s).
     Option.bind (read_char (CHR ''-'') s) (\<lambda>s.
     Option.bind (read_unsigned 1 2 s) (\<lambda>(m, s).
     Option.bind (read_char (CHR ''-'') s) (\<lambda>s.
     Option.bind (read_unsigned 1 2 s) (\<lambda>(d, s). Some ((Y, m, d), s))))))"

text \<open>\<open>%T\<close> on milliseconds: hour, minute, milliseconds of the minute.\<close>

definition parse_T :: "string \<Rightarrow> ((int \<times> int \<times> int) \<times> string) option" where
  "parse_T s =
     Option.bind (read_unsigned 1 2 s) (\<lambda>(H, s).
     Option.bind (read_char (CHR '':'') s) (\<lambda>s.
     Option.bind (read_unsigned 1 2 s) (\<lambda>(M, s).
     Option.bind (read_char (CHR '':'') s) (\<lambda>s.
     Option.bind (read_long_double 1 6 s) (\<lambda>(S, s). Some ((H, M, round_ms S), s))))))"

text \<open>\<open>%Ez\<close>: the offset in minutes.\<close>

definition parse_Ez :: "string \<Rightarrow> (int \<times> string) option" where
  "parse_Ez s =
     (let neg = (s \<noteq> [] \<and> hd s = CHR ''-'') in
      Option.bind (read_signed 1 2 s) (\<lambda>(tH, s).
      Option.bind
        (case s of
           c # r \<Rightarrow>
             if c = CHR '':'' then
               map_option (\<lambda>(tM, r'). (60 * \<bar>tH\<bar> + tM, r')) (read_unsigned 2 2 r)
             else Some (60 * \<bar>tH\<bar>, s)
         | [] \<Rightarrow> Some (60 * \<bar>tH\<bar>, s))
        (\<lambda>(toff, s). Some (if neg then - toff else toff, s))))"

text \<open>
  The fields become a \<open>sys_time<milliseconds>\<close> if the date is valid and the time of day is in its
  conventional range.
\<close>

definition sys_time_of :: "int \<times> int \<times> int \<Rightarrow> int \<times> int \<times> int \<Rightarrow> int \<Rightarrow> int option" where
  "sys_time_of ymd hms off =
     (case (ymd, hms) of ((Y, m, d), (H, M, s)) \<Rightarrow>
        if \<not> ymd_ok Y m d \<or> \<not> (H < 24 \<and> M < 60 \<and> s < 60000) then None
        else Some (to_days Y m d * 86400000 - off * 60000 + (H * 3600000 + M * 60000 + s)))"

definition parse_FTZ :: "string \<Rightarrow> int option" where
  "parse_FTZ s =
     Option.bind (parse_F s) (\<lambda>(ymd, s).
     Option.bind (read_char (CHR ''T'') s) (\<lambda>s.
     Option.bind (parse_T s) (\<lambda>(hms, s).
     Option.bind (read_char (CHR ''Z'') s) (\<lambda>_. sys_time_of ymd hms 0))))"

definition parse_FTEz :: "string \<Rightarrow> int option" where
  "parse_FTEz s =
     Option.bind (parse_F s) (\<lambda>(ymd, s).
     Option.bind (read_char (CHR ''T'') s) (\<lambda>s.
     Option.bind (parse_T s) (\<lambda>(hms, s).
     Option.bind (parse_Ez s) (\<lambda>(off, _). sys_time_of ymd hms off))))"

subsection \<open>Writing\<close>

text \<open>\<open>os << n\<close> with a width and fill \<open>'0'\<close>, right-adjusted.\<close>

definition put_width :: "nat \<Rightarrow> int \<Rightarrow> string" where
  "put_width w n = replicate (w - length (to_string n)) (CHR ''0'') @ to_string n"

definition format_fields :: "int \<Rightarrow> int \<Rightarrow> int \<Rightarrow> int \<Rightarrow> int \<Rightarrow> int \<Rightarrow> string" where
  "format_fields Y m d H M S =
     put_width 4 Y @ ''-'' @ put_width 2 m @ ''-'' @ put_width 2 d @ ''T'' @
     put_width 2 H @ '':'' @ put_width 2 M @ '':'' @ put_width 2 S @ ''Z''"

text \<open>
  \<open>date::format("%FT%TZ", t)\<close> for seconds since the epoch; \<open>None\<close> when the stream throws. The days of a
  time that was read are an \<open>int\<close> in which \<open>from_days\<close> does not overflow (\<open>parsed_days_fit\<close>).
\<close>

definition format_FTZ :: "int \<Rightarrow> string option" where
  "format_FTZ t =
     (case ymd_from_days (t div 86400) of (Y, m, d) \<Rightarrow>
        let tod = t mod 86400 in
        if \<not> ymd_ok Y m d then None
        else Some (format_fields Y m d (tod div 3600) (tod div 60 mod 60) (tod mod 60)))"

text \<open>\<open>GetUTCTime\<close>: the second format is tried when the first fails; every exception gives \<open>""\<close>.\<close>

definition GetUTCTime :: "string \<Rightarrow> string" where
  "GetUTCTime timeStr =
     (case (case parse_FTZ timeStr of Some tp \<Rightarrow> Some tp | None \<Rightarrow> parse_FTEz timeStr) of
        None \<Rightarrow> []
      | Some tp \<Rightarrow> (case format_FTZ (tp div 1000) of None \<Rightarrow> [] | Some s \<Rightarrow> s))"

subsection \<open>\<open>strptime\<close> and \<open>mktime\<close>\<close>

record tm =
  tm_year :: int   \<comment> \<open>the year itself, not the years since 1900\<close>
  tm_mon :: int    \<comment> \<open>1 to 12\<close>
  tm_mday :: int
  tm_hour :: int
  tm_min :: int
  tm_sec :: int
  tm_wday :: int
  tm_yday :: int
  tm_isdst :: int

text \<open>
  What the time functions find outside the program: \<open>mktime\<close> with the zone of the host, and the contents of
  the stack where the \<open>struct tm\<close> of the first, second, ... call of \<open>GetTimeByString\<close> lies.
\<close>

record libc_time =
  lib_mktime :: "tm \<Rightarrow> int"
  stack_tm :: "nat \<Rightarrow> tm"

text \<open>One numeric conversion of \<open>strptime\<close>: at most \<open>n\<close> digits, within bounds.\<close>

fun get_digits :: "nat \<Rightarrow> int \<Rightarrow> int \<Rightarrow> string \<Rightarrow> int \<times> string" where
  "get_digits 0 to val s = (val, s)"
| "get_digits (Suc n) to val [] = (val, [])"
| "get_digits (Suc n) to val (c # s) =
     (if val * 10 \<le> to \<and> is_digit c then get_digits n to (val * 10 + int (digit_val c)) s else (val, c # s))"

definition get_number :: "int \<Rightarrow> int \<Rightarrow> nat \<Rightarrow> string \<Rightarrow> (int \<times> string) option" where
  "get_number from to n s =
     (let s' = dropWhile isspace s in
      if s' = [] \<or> \<not> is_digit (hd s') then None
      else case get_digits n to 0 s' of (val, r) \<Rightarrow>
        if val < from \<or> to < val then None else Some (val, r))"

text \<open>
  \<open>strptime(s, "%Y-%m-%dT%H:%M:%S%Z", &tm)\<close>; \<open>%Z\<close> cannot fail and sets no field. \<open>tm_isdst\<close> keeps what it
  was; so do \<open>tm_wday\<close> and \<open>tm_yday\<close> here, which \<open>mktime\<close> does not read.
\<close>

definition strptime :: "tm \<Rightarrow> string \<Rightarrow> tm option" where
  "strptime tm s =
     Option.bind (get_number 0 9999 4 s) (\<lambda>(Y, s).
     Option.bind (read_char (CHR ''-'') s) (\<lambda>s.
     Option.bind (get_number 1 12 2 s) (\<lambda>(m, s).
     Option.bind (read_char (CHR ''-'') s) (\<lambda>s.
     Option.bind (get_number 1 31 2 s) (\<lambda>(d, s).
     Option.bind (read_char (CHR ''T'') s) (\<lambda>s.
     Option.bind (get_number 0 23 2 s) (\<lambda>(H, s).
     Option.bind (read_char (CHR '':'') s) (\<lambda>s.
     Option.bind (get_number 0 59 2 s) (\<lambda>(M, s).
     Option.bind (read_char (CHR '':'') s) (\<lambda>s.
     Option.bind (get_number 0 61 2 s) (\<lambda>(S, s).
       Some (tm\<lparr>tm_year := Y, tm_mon := m, tm_mday := d, tm_hour := H, tm_min := M, tm_sec := S\<rparr>))))))))))))"

text \<open>\<open>s.find(c)\<close> as the rest of the string from there; \<open>npos\<close> is \<open>None\<close>.\<close>

definition from_char :: "char \<Rightarrow> string \<Rightarrow> string option" where
  "from_char c s = (case dropWhile (\<lambda>x. x \<noteq> c) s of [] \<Rightarrow> None | r \<Rightarrow> Some r)"

definition atoi :: "string \<Rightarrow> int" where
  "atoi s = (case strtol10 (c_str s) of None \<Rightarrow> 0
     | Some i \<Rightarrow> sint (word_of_int (max long_min (min long_max i)) :: 32 word))"

text \<open>The hour after the offset of the text has been taken into account; the day is not corrected.\<close>

definition offset_text :: "string \<Rightarrow> string" where
  "offset_text timeStr =
     (let time = (case from_char (CHR ''T'') timeStr of Some r \<Rightarrow> tl r | None \<Rightarrow> timeStr) in
      case from_char (CHR ''+'') time of Some r \<Rightarrow> r
      | None \<Rightarrow> (case from_char (CHR ''-'') time of Some r \<Rightarrow> r | None \<Rightarrow> []))"

text \<open>\<open>offset\<close> without its last colon when it has the six characters of \<open>[-/+]hh:mm\<close>.\<close>

definition drop_colon :: "string \<Rightarrow> string" where
  "drop_colon offset =
     (if length offset = 6 then
        (if CHR '':'' \<in> set offset then
           rev (tl (dropWhile (\<lambda>c. c \<noteq> CHR '':'') (rev offset))) @
           rev (takeWhile (\<lambda>c. c \<noteq> CHR '':'') (rev offset))
         else offset @ offset)
      else offset)"

definition adjust_hour :: "string \<Rightarrow> int \<Rightarrow> int" where
  "adjust_hour timeStr hour =
     (let offset = offset_text timeStr in
      if offset = [] then hour
      else let hour' = hour + (- 1) * (atoi (drop_colon offset) sdiv 100) in
        if 23 < hour' then hour' smod 23 else if hour' < 0 then hour' + 24 else hour')"

text \<open>Only the day of the year is moved along with it.\<close>

definition adjust_yday :: "string \<Rightarrow> int \<Rightarrow> int \<Rightarrow> int" where
  "adjust_yday timeStr hour yday =
     (let offset = offset_text timeStr in
      if offset = [] then yday
      else let hour' = hour + (- 1) * (atoi (drop_colon offset) sdiv 100) in
        if 23 < hour' then yday + 1 else if hour' < 0 then yday - 1 else yday)"

definition GetTimeByString :: "(tm \<Rightarrow> int) \<Rightarrow> tm \<Rightarrow> string \<Rightarrow> int" where
  "GetTimeByString mktime uninit timeStr =
     (case strptime uninit (c_str timeStr) of
        None \<Rightarrow> 0
      | Some tm \<Rightarrow> mktime (tm\<lparr>tm_hour := adjust_hour timeStr (tm_hour tm) + 2,
          tm_yday := adjust_yday timeStr (tm_hour tm) (tm_yday tm)\<rparr>))"

definition GetTimeinSeconds :: "(tm \<Rightarrow> int) \<Rightarrow> tm \<Rightarrow> string \<Rightarrow> int" where
  "GetTimeinSeconds mktime uninit timeUTC =
     (if timeUTC = [] then 0 else GetTimeByString mktime uninit (GetUTCTime timeUTC))"

text \<open>\<open>strftime("%FT%TZ", gmtime(&now))\<close>.\<close>

definition strftime_FTZ :: "int \<Rightarrow> string" where
  "strftime_FTZ now =
     (case civil_from_days (now div 86400) of (Y, m, d) \<Rightarrow>
        let tod = now mod 86400 in
        format_fields Y m d (tod div 3600) (tod div 60 mod 60) (tod mod 60))"

definition ConvertSecondsToTime :: "int \<Rightarrow> string" where
  "ConvertSecondsToTime timeCounter = strftime_FTZ timeCounter"

definition GetCurrentUTCTime :: "int \<Rightarrow> string" where
  "GetCurrentUTCTime now = GetUTCTime (strftime_FTZ now)"

subsection \<open>Fixed-width numbers\<close>

lemma nat_str_small: "n < 10 \<Longrightarrow> nat_str n = [digit_char n]"
  by (simp add: nat_str.simps [of n])

lemma nat_str_step: "10 \<le> n \<Longrightarrow> nat_str n = nat_str (n div 10) @ [digit_char (n mod 10)]"
  by (simp add: nat_str.simps [of n])

lemma to_string_int: "to_string (int k) = nat_str k"
  by (simp add: to_string_def)

lemma put_width_2:
  assumes "k < 100"
  shows "put_width 2 (int k) = [digit_char (k div 10), digit_char (k mod 10)]"
proof (cases "k < 10")
  case True
  then show ?thesis by (simp add: put_width_def to_string_int nat_str_small)
next
  case False
  then have "nat_str k = [digit_char (k div 10), digit_char (k mod 10)]"
    using assms by (simp add: nat_str_step [of k] nat_str_small)
  then show ?thesis by (simp add: put_width_def to_string_int)
qed

lemma nat_str_3: "100 \<le> k \<Longrightarrow> nat_str k = nat_str (k div 100) @ [digit_char (k div 10 mod 10), digit_char (k mod 10)]"
proof -
  assume k: "100 \<le> k"
  have "10 \<le> k div 10" using div_le_mono [OF k, of 10] by simp
  then have "nat_str k = nat_str (k div 10 div 10) @ [digit_char (k div 10 mod 10), digit_char (k mod 10)]"
    using k by (simp add: nat_str_step [of k] nat_str_step [of "k div 10"])
  then show ?thesis by (simp add: div_mult2_eq [symmetric])
qed

lemma nat_str_4:
  assumes "1000 \<le> k"
  shows "nat_str k = nat_str (k div 1000) @
    [digit_char (k div 100 mod 10), digit_char (k div 10 mod 10), digit_char (k mod 10)]"
proof -
  have "10 \<le> k div 100" using div_le_mono [OF assms, of 100] by simp
  then have "nat_str (k div 100) = nat_str (k div 1000) @ [digit_char (k div 100 mod 10)]"
    by (simp add: nat_str_step [of "k div 100"] div_mult2_eq [symmetric])
  then show ?thesis using nat_str_3 [of k] assms by simp
qed

lemma replicate_few: "replicate 2 x = [x, x]" "replicate 3 x = [x, x, x]"
  by (simp_all add: numeral_2_eq_2 numeral_3_eq_3)

lemma put_width_4:
  assumes "k < 10000"
  shows "put_width 4 (int k) = [digit_char (k div 1000), digit_char (k div 100 mod 10),
    digit_char (k div 10 mod 10), digit_char (k mod 10)]"
proof -
  consider "k < 10" | "10 \<le> k" "k < 100" | "100 \<le> k" "k < 1000" | "1000 \<le> k" by linarith
  then show ?thesis
  proof cases
    case 1
    then show ?thesis by (simp add: put_width_def to_string_int nat_str_small replicate_few)
  next
    case 2
    then have "k div 10 < 10" by simp
    with 2 show ?thesis
      by (simp add: put_width_def to_string_int nat_str_step [of k] nat_str_small replicate_few)
  next
    case 3
    then have "k div 100 < 10" by simp
    with 3 show ?thesis
      by (simp add: put_width_def to_string_int nat_str_3 [of k] nat_str_small replicate_few)
  next
    case 4
    have "k div 1000 < 10" using assms by simp
    with 4 show ?thesis by (simp add: put_width_def to_string_int nat_str_4 [of k] nat_str_small)
  qed
qed

text \<open>The value of the digits, as the readers accumulate it.\<close>

lemma four_digits_value:
  "10 * (10 * (10 * (n div 1000) + n div 100 mod 10) + n div 10 mod 10) + n mod 10 = (n::nat)"
proof -
  have "10 * (n div 1000) + n div 100 mod 10 = n div 100" "10 * (n div 100) + n div 10 mod 10 = n div 10"
    using mult_div_mod_eq [of 10 "n div 10"] mult_div_mod_eq [of 10 "n div 100"]
    by (simp_all add: div_mult2_eq [symmetric])
  then show ?thesis by simp
qed

lemma digit_char_not_dot [simp]: "n < 10 \<Longrightarrow> digit_char n \<noteq> CHR ''.''"
proof -
  assume "n < 10"
  then have "is_digit (digit_char n)" by simp
  moreover have "\<not> is_digit CHR ''.''" by (simp add: is_digit_def)
  ultimately show ?thesis by metis
qed

lemma read_unsigned_loop_step:
  "n < 10 \<Longrightarrow> 10 * x + n < 2 ^ 32 \<Longrightarrow> read_unsigned_loop M x count (digit_char n # s) =
    (if count + 1 = M then (10 * x + n, count + 1, s) else read_unsigned_loop M (10 * x + n) (count + 1) s)"
  by (simp add: Let_def take_bit_nat_eq_self)

lemma read_unsigned_digits_2:
  "a < 10 \<Longrightarrow> b < 10 \<Longrightarrow> read_unsigned 1 2 (digit_char a # digit_char b # r) = Some (int (10 * a + b), r)"
  by (simp add: read_unsigned_def read_unsigned_loop_step del: read_unsigned_loop.simps(2))

lemma read_unsigned_digits_4:
  "a < 10 \<Longrightarrow> b < 10 \<Longrightarrow> c < 10 \<Longrightarrow> d < 10 \<Longrightarrow>
   read_unsigned 1 4 (digit_char a # digit_char b # digit_char c # digit_char d # r) =
     Some (int (10 * (10 * (10 * a + b) + c) + d), r)"
  by (simp add: read_unsigned_def read_unsigned_loop_step del: read_unsigned_loop.simps(2))

lemma digits_less [simp]: "k < 100 \<Longrightarrow> k div 10 < (10::nat)" "k < 10000 \<Longrightarrow> k div 1000 < 10"
  by simp_all

lemma read_unsigned_2: "k < 100 \<Longrightarrow> read_unsigned 1 2 (put_width 2 (int k) @ r) = Some (int k, r)"
  using read_unsigned_digits_2 [of "k div 10" "k mod 10" r]
  by (simp only: put_width_2 digits_less append.simps mult_div_mod_eq mod_less_divisor zero_less_numeral)

lemma read_signed_4: "k < 10000 \<Longrightarrow> read_signed 1 4 (put_width 4 (int k) @ r) = Some (int k, r)"
  using read_unsigned_digits_4 [of "k div 1000" "k div 100 mod 10" "k div 10 mod 10" "k mod 10" r]
  unfolding four_digits_value
  by (simp only: put_width_4 digits_less append.simps mod_less_divisor zero_less_numeral)
    (simp add: read_signed_def)

lemma get_digits_step:
  "0 < n \<Longrightarrow> val * 10 \<le> to \<Longrightarrow> m < 10 \<Longrightarrow>
   get_digits n to val (digit_char m # s) = get_digits (n - 1) to (val * 10 + int m) s"
  by (cases n) simp_all

lemma isspace_digit_char [simp]: "n < 10 \<Longrightarrow> \<not> isspace (digit_char n)"
proof -
  assume n: "n < 10"
  have "\<not> isspace (hd (nat_str n))" by (rule nat_str_not_sign(3))
  with n show ?thesis by (simp add: nat_str_small)
qed

lemma get_number_digits_2:
  "a < 10 \<Longrightarrow> b < 10 \<Longrightarrow> from \<le> int (10 * a + b) \<Longrightarrow> int (10 * a + b) \<le> to \<Longrightarrow>
   get_number from to 2 (digit_char a # digit_char b # r) = Some (int (10 * a + b), r)"
  by (simp add: get_number_def get_digits_step mult.commute del: get_digits.simps(3))

lemma get_number_digits_4:
  "a < 10 \<Longrightarrow> b < 10 \<Longrightarrow> c < 10 \<Longrightarrow> d < 10 \<Longrightarrow>
   get_number 0 9999 4 (digit_char a # digit_char b # digit_char c # digit_char d # r) =
     Some (int (10 * (10 * (10 * a + b) + c) + d), r)"
  by (simp add: get_number_def get_digits_step mult.commute del: get_digits.simps(3))

lemma get_number_2:
  "k < 100 \<Longrightarrow> from \<le> int k \<Longrightarrow> int k \<le> to \<Longrightarrow> get_number from to 2 (put_width 2 (int k) @ r) = Some (int k, r)"
  using get_number_digits_2 [of "k div 10" "k mod 10" "from" to r]
  by (simp only: put_width_2 digits_less append.simps mult_div_mod_eq mod_less_divisor zero_less_numeral)

lemma get_number_4: "k < 10000 \<Longrightarrow> get_number 0 9999 4 (put_width 4 (int k) @ r) = Some (int k, r)"
  using get_number_digits_4 [of "k div 1000" "k div 100 mod 10" "k div 10 mod 10" "k mod 10" r]
  unfolding four_digits_value
  by (simp only: put_width_4 digits_less append.simps mod_less_divisor zero_less_numeral)

lemma fl80_int:
  assumes "0 \<le> i" "i < 2 ^ 63"
  shows "fl80 (of_int i) = of_int i"
proof (cases "i = 0")
  case True
  then show ?thesis by (simp add: fl80_def)
next
  case False
  let ?q = "rat_of_int i"
  have pos: "0 < ?q" using False assms(1) by simp
  have "?q < of_int (2 ^ 63)" using assms(2) by (simp only: of_int_less_iff)
  then have "?q < 2 powi 63" by simp
  moreover have "2 powi (flog2 ?q) \<le> ?q" by (rule flog2_bounds [OF pos])
  ultimately have "2 powi (flog2 ?q) < (2::rat) powi 63" by (rule le_less_trans [rotated])
  then have "flog2 ?q < 63" by (rule powi_less_cancel)
  moreover define e where "e = max (flog2 \<bar>?q\<bar> - 63) (- 16445)"
  moreover have "\<bar>?q\<bar> = ?q" using pos by (rule abs_of_pos)
  ultimately have "e \<le> 0" by simp
  then obtain n where n: "e = - int n" by (metis nonpos_int_cases)
  have "?q / 2 powi e = of_int (i * 2 ^ n)" by (simp add: n power_int_minus divide_inverse)
  then have "of_int (rne (?q / 2 powi e)) * 2 powi e = ?q / 2 powi e * (2 powi e :: rat)"
    by (simp only: rne_of_int)
  also have "\<dots> = ?q" by simp
  finally show ?thesis using False unfolding fl80_def e_def [symmetric] by simp
qed

lemma fl80_0 [simp]: "fl80 0 = 0"
  by (simp add: fl80_def)

lemma read_long_double_loop_step:
  "n < 10 \<Longrightarrow> 10 * i + n < 2 ^ 64 \<Longrightarrow> count + 1 \<noteq> M \<Longrightarrow>
   read_long_double_loop M False count i f fc (digit_char n # s) =
     read_long_double_loop M False (count + 1) (10 * i + n) f fc s"
  by (simp add: Let_def take_bit_nat_eq_self)

lemma is_digit_Z: "\<not> is_digit CHR ''Z''"
  by (simp add: is_digit_def)

lemma read_seconds_digits:
  assumes "a < 10" "b < 10"
  shows "read_long_double 1 6 (digit_char a # digit_char b # CHR ''Z'' # r) =
    Some (of_nat (10 * a + b), CHR ''Z'' # r)"
proof -
  have "fl80 (of_nat (10 * a + b)) = of_nat (10 * a + b)"
    using fl80_int [of "int (10 * a + b)"] assms by simp
  moreover have "read_long_double_loop 6 False 0 0 0 0 (digit_char a # digit_char b # CHR ''Z'' # r) =
      (10 * a + b, 0, 0, 2, CHR ''Z'' # r)"
    using assms by (simp add: read_long_double_loop_step is_digit_Z del: read_long_double_loop.simps(2))
      (simp add: is_digit_Z)
  ultimately show ?thesis by (simp add: read_long_double_def)
qed

lemma read_seconds:
  "k < 100 \<Longrightarrow> read_long_double 1 6 (put_width 2 (int k) @ CHR ''Z'' # r) = Some (of_nat k, CHR ''Z'' # r)"
  using read_seconds_digits [of "k div 10" "k mod 10" r]
  by (simp only: put_width_2 digits_less append.simps mult_div_mod_eq mod_less_divisor zero_less_numeral)

lemma round_ms_seconds: "k < 100 \<Longrightarrow> round_ms (of_nat k) = 1000 * int k"
  using fl80_int [of "1000 * int k"] rne_of_int [of "1000 * int k"] by (simp add: round_ms_def mult.commute)

subsection \<open>Writing and reading back\<close>

text \<open>The first second of the year 10000.\<close>

definition end_of_9999 :: int where "end_of_9999 = 253402300800"

lemma from_days_year:
  assumes "civil_from_days z = (y, m, d)" "0 \<le> z" "z < 2932897"
  shows "1600 \<le> y \<and> y \<le> 9999"
proof -
  obtain era yoe doy where n: "0 \<le> yoe" "yoe \<le> 399" "0 \<le> doy" "year_start yoe + doy \<le> year_end yoe"
    "z = day_number era yoe doy" by (rule from_days_cases)
  define mp where "mp = (5 * doy + 2) div 153"
  have y: "m = unshift_month mp" "y = yoe + era * 400 + (if m \<le> 2 then 1 else 0)"
    using assms(1) from_days_number [OF n(1-4), of era] unfolding n(5) mp_def Let_def by auto
  have s0: "0 \<le> year_start yoe" using n(1) zdiv_mono2 [of yoe 4 100] by (simp add: year_start_def)
  have e: "year_end yoe \<le> 146096"
  proof (cases "yoe = 399")
    case True
    then show ?thesis by (simp add: year_end_def year_start_def is_leap_iff)
  next
    case False
    have "yoe div 4 \<le> 99" "0 \<le> yoe div 100" using n(1,2) by linarith+
    then have "year_start yoe \<le> 365 * yoe + 99" by (simp add: year_start_def)
    with False n(2) show ?thesis by (simp add: year_end_def)
  qed
  have z: "z + 719468 = era * 146097 + (year_start yoe + doy)" using n(5) by (simp add: day_number_def)
  have era: "4 \<le> era" "era \<le> 24" using z s0 e n(3,4) assms(2,3) by linarith+
  have "m \<noteq> 1 \<and> m \<noteq> 2" if "era = 24" "yoe = 399"
  proof -
    have "doy < 306" using z assms(3) that by (simp add: year_start_def)
    then have "mp < 10" unfolding mp_def by simp
    moreover have "0 \<le> mp" using n(3) by (simp add: mp_def)
    ultimately show ?thesis using y(1) by (auto simp: unshift_month_def)
  qed
  moreover have "1 \<le> m" using from_days_date [OF assms(1)] by simp
  ultimately show ?thesis using y(2) era n(1,2) by (cases "era = 24 \<and> yoe = 399") auto
qed

lemma format_FTZ_fields:
  assumes "0 \<le> t" "t < end_of_9999"
  obtains Y m d H M S :: nat where
    "Y < 10000" "ymd_ok (int Y) (int m) (int d)" "H < 24" "M < 60" "S < 60"
    "format_FTZ t = Some (format_fields (int Y) (int m) (int d) (int H) (int M) (int S))"
    "strftime_FTZ t = format_fields (int Y) (int m) (int d) (int H) (int M) (int S)"
    "t = days_from_civil (int Y) (int m) (int d) * 86400 + int H * 3600 + int M * 60 + int S"
proof -
  obtain y m d where ymd: "civil_from_days (t div 86400) = (y, m, d)" by (cases "civil_from_days (t div 86400)") auto
  have z: "0 \<le> t div 86400" "t div 86400 < 2932897"
    using assms by (simp_all add: end_of_9999_def)
  note year = from_days_year [OF ymd z] and date = from_days_date [OF ymd]
  have ok: "ymd_ok y m d" using year date by (simp add: ymd_ok_def year_min_def year_max_def)
  define tod where "tod = t mod 86400"
  have tod: "0 \<le> tod" "tod < 86400" by (simp_all add: tod_def)
  have hms: "tod = tod div 3600 * 3600 + tod div 60 mod 60 * 60 + tod mod 60"
  proof -
    have "tod = tod div 60 * 60 + tod mod 60" by simp
    moreover have "tod div 60 = tod div 3600 * 60 + tod div 60 mod 60"
      using div_mult_mod_eq [of "tod div 60" 60] by (simp add: zdiv_zmult2_eq [symmetric])
    ultimately show ?thesis by linarith
  qed
  define H M S where "H = tod div 3600" and "M = tod div 60 mod 60" and "S = tod mod 60"
  have h: "0 \<le> H" "H < 24" "0 \<le> M" "M < 60" "0 \<le> S" "S < 60" using tod by (simp_all add: H_def M_def S_def)
  have "tod = H * 3600 + M * 60 + S" using hms by (simp only: H_def M_def S_def)
  moreover have "t = days_from_civil y m d * 86400 + tod" using date by (simp add: tod_def)
  ultimately have t: "t = days_from_civil y m d * 86400 + H * 3600 + M * 60 + S" by simp
  have f: "format_FTZ t = Some (format_fields y m d H M S)" "strftime_FTZ t = format_fields y m d H M S"
    using ymd ok by (simp_all add: format_FTZ_def strftime_FTZ_def ymd_from_days_def ymd_ok_def short_of_id
        year_min_def year_max_def Let_def H_def M_def S_def tod_def)
  have n: "int (nat y) = y" "int (nat m) = m" "int (nat d) = d" "int (nat H) = H" "int (nat M) = M" "int (nat S) = S"
    using year date h by simp_all
  show ?thesis
    by (rule that [of "nat y" "nat m" "nat d" "nat H" "nat M" "nat S"])
      (use ok year h t f in \<open>simp_all only: n nat_less_iff\<close>, simp_all add: nat_less_iff)
qed

lemma ymd_ok_bounds: "ymd_ok (int Y) (int m) (int d) \<Longrightarrow> 1 \<le> m \<and> m \<le> 12 \<and> 1 \<le> d \<and> d \<le> 31"
proof -
  assume "ymd_ok (int Y) (int m) (int d)"
  then have m: "1 \<le> int m" "int m \<le> 12" and d: "1 \<le> int d" "int d \<le> last_day (int Y) (int m)"
    by (auto simp: ymd_ok_def)
  have "list_all (\<lambda>mp. month_length mp \<le> 31) [0..11]" by code_simp
  moreover have "0 \<le> shift_month (int m)" "shift_month (int m) \<le> 11" using m by (auto simp: shift_month_def)
  ultimately have "month_length (shift_month (int m)) \<le> 31" by (simp add: list_all_iff)
  then have "last_day (int Y) (int m) \<le> 31" unfolding last_day_month_length [OF m] by simp
  with m d show ?thesis by linarith
qed

text \<open>A formatted time is read back to the millisecond.\<close>

lemma parse_F_put:
  assumes "Y < 10000" "m < 100" "d < 100"
  shows "parse_F (put_width 4 (int Y) @ ''-'' @ put_width 2 (int m) @ ''-'' @ put_width 2 (int d) @ r) =
    Some ((int Y, int m, int d), r)"
  using assms by (simp add: parse_F_def read_signed_4 read_unsigned_2 read_char_def del: One_nat_def)

lemma parse_T_put:
  assumes "H < 100" "M < 100" "S < 100"
  shows "parse_T (put_width 2 (int H) @ '':'' @ put_width 2 (int M) @ '':'' @ put_width 2 (int S) @ CHR ''Z'' # r) =
    Some ((int H, int M, 1000 * int S), CHR ''Z'' # r)"
  using assms by (simp add: parse_T_def read_unsigned_2 read_char_def read_seconds round_ms_seconds del: One_nat_def)

lemma parse_FTZ_format:
  assumes "Y < 10000" "ymd_ok (int Y) (int m) (int d)" "H < 24" "M < 60" "S < 60"
  shows "parse_FTZ (format_fields (int Y) (int m) (int d) (int H) (int M) (int S)) =
    Some (1000 * (days_from_civil (int Y) (int m) (int d) * 86400 + int H * 3600 + int M * 60 + int S))"
proof -
  note b = ymd_ok_bounds [OF assms(2)]
  have F: "parse_F (format_fields (int Y) (int m) (int d) (int H) (int M) (int S)) =
      Some ((int Y, int m, int d), CHR ''T'' # put_width 2 (int H) @ '':'' @ put_width 2 (int M) @ '':'' @
        put_width 2 (int S) @ ''Z'')"
    unfolding format_fields_def using parse_F_put [of Y m d] assms(1) b by simp
  have T: "parse_T (put_width 2 (int H) @ '':'' @ put_width 2 (int M) @ '':'' @ put_width 2 (int S) @ ''Z'') =
      Some ((int H, int M, 1000 * int S), ''Z'')"
    using parse_T_put [of H M S "[]"] assms by simp
  show ?thesis using assms
    unfolding parse_FTZ_def F by (simp add: read_char_def T [simplified] sys_time_of_def to_days_ok algebra_simps)
qed

text \<open>\<open>GetUTCTime\<close> leaves a formatted time as it is.\<close>

lemma GetUTCTime_format:
  assumes "0 \<le> t" "t < end_of_9999"
  shows "GetUTCTime (strftime_FTZ t) = strftime_FTZ t"
proof -
  obtain Y m d H M S :: nat where f: "Y < 10000" "ymd_ok (int Y) (int m) (int d)" "H < 24" "M < 60" "S < 60"
    "format_FTZ t = Some (format_fields (int Y) (int m) (int d) (int H) (int M) (int S))"
    "strftime_FTZ t = format_fields (int Y) (int m) (int d) (int H) (int M) (int S)"
    "t = days_from_civil (int Y) (int m) (int d) * 86400 + int H * 3600 + int M * 60 + int S"
    by (rule format_FTZ_fields [OF assms])
  have "parse_FTZ (strftime_FTZ t) = Some (1000 * t)"
    unfolding f(7) using parse_FTZ_format [OF f(1-5)] f(8) by simp
  then show ?thesis by (simp add: GetUTCTime_def f(6,7))
qed

subsection \<open>Seconds of a formatted time\<close>

lemma strptime_format:
  assumes "Y < 10000" "ymd_ok (int Y) (int m) (int d)" "H < 24" "M < 60" "S < 60"
  shows "strptime tm (format_fields (int Y) (int m) (int d) (int H) (int M) (int S)) =
    Some (tm\<lparr>tm_year := int Y, tm_mon := int m, tm_mday := int d, tm_hour := int H, tm_min := int M, tm_sec := int S\<rparr>)"
  using assms ymd_ok_bounds [OF assms(2)]
  by (simp add: strptime_def format_fields_def get_number_4 get_number_2 read_char_def)

lemma put_width_digits: "c \<in> set (put_width w (int n)) \<Longrightarrow> is_digit c"
  by (auto simp: put_width_def to_string_int is_digit_def dest: nat_str_digits split: if_splits)

lemma put_width_notin: "\<not> is_digit c \<Longrightarrow> c \<notin> set (put_width w (int n))"
  using put_width_digits by blast

lemma from_char_append:
  assumes "c \<notin> set a"
  shows "from_char c (a @ c # r) = Some (c # r)"
proof -
  have "dropWhile (\<lambda>x. x \<noteq> c) (a @ c # r) = c # r"
    by (rule dropWhile_append_stop) (use assms in auto)
  then show ?thesis by (simp only: from_char_def list.case)
qed

lemma from_char_None:
  assumes "c \<notin> set a"
  shows "from_char c a = None"
proof -
  have "dropWhile (\<lambda>x. x \<noteq> c) a = []" using assms by auto
  then show ?thesis by (simp only: from_char_def list.case)
qed

lemma not_digits [simp]: "\<not> is_digit (CHR ''T'')" "\<not> is_digit (CHR ''+'')" "\<not> is_digit (CHR ''-'')"
  "\<not> is_digit nul"
  by (simp_all add: is_digit_def nul_def)

lemma offset_text_format:
  "offset_text (format_fields (int Y) (int m) (int d) (int H) (int M) (int S)) = []"
proof -
  have "CHR ''T'' \<notin> set (put_width 4 (int Y) @ ''-'' @ put_width 2 (int m) @ ''-'' @ put_width 2 (int d))"
    by (simp add: put_width_notin)
  from from_char_append [OF this, of "put_width 2 (int H) @ '':'' @ put_width 2 (int M) @ '':'' @ put_width 2 (int S) @ ''Z''"]
  have T: "from_char (CHR ''T'') (format_fields (int Y) (int m) (int d) (int H) (int M) (int S)) =
      Some (CHR ''T'' # put_width 2 (int H) @ '':'' @ put_width 2 (int M) @ '':'' @ put_width 2 (int S) @ ''Z'')"
    by (simp add: format_fields_def)
  let ?time = "put_width 2 (int H) @ '':'' @ put_width 2 (int M) @ '':'' @ put_width 2 (int S) @ ''Z''"
  have "from_char (CHR ''+'') ?time = None" "from_char (CHR ''-'') ?time = None"
    by (rule from_char_None, simp add: put_width_notin)+
  then show ?thesis unfolding offset_text_def T by simp
qed

lemma c_str_format:
  "c_str (format_fields (int Y) (int m) (int d) (int H) (int M) (int S)) =
     format_fields (int Y) (int m) (int d) (int H) (int M) (int S)"
proof (rule c_str_id)
  have "nul \<notin> set (put_width w (int n))" for w n by (rule put_width_notin) simp
  then show "nul \<notin> set (format_fields (int Y) (int m) (int d) (int H) (int M) (int S))"
    by (simp add: format_fields_def) (simp add: nul_def)
qed

text \<open>
  What is relied on of \<open>mktime\<close>: in a zone with a fixed offset it counts the seconds of the calendar,
  also for the hours 24 and 25 that \<open>tm_hour + 2\<close> can give. A positive \<open>tm_isdst\<close> claims summer time, which
  such a zone does not have: what a library makes of it is a constant number of seconds (an hour in glibc,
  none in others). \<open>zone_mktime\<close> is such a function.
\<close>

definition dst_shift :: "int \<Rightarrow> tm \<Rightarrow> int" where
  "dst_shift dst t = (if 0 < tm_isdst t then dst else 0)"

definition zone_mktime :: "int \<Rightarrow> int \<Rightarrow> tm \<Rightarrow> int" where
  "zone_mktime off dst t =
     days_from_civil (tm_year t) (tm_mon t) (tm_mday t) * 86400 + tm_hour t * 3600 + tm_min t * 60 + tm_sec t -
     off - dst_shift dst t"

definition fixed_zone :: "(tm \<Rightarrow> int) \<Rightarrow> int \<Rightarrow> int \<Rightarrow> bool" where
  "fixed_zone mktime off dst \<longleftrightarrow>
     (\<forall>t. ymd_ok (tm_year t) (tm_mon t) (tm_mday t) \<longrightarrow> 0 \<le> tm_hour t \<longrightarrow> tm_hour t \<le> 25 \<longrightarrow>
        0 \<le> tm_min t \<longrightarrow> tm_min t < 60 \<longrightarrow> 0 \<le> tm_sec t \<longrightarrow> tm_sec t < 60 \<longrightarrow> mktime t = zone_mktime off dst t)"

lemma fixed_zone_zone_mktime: "fixed_zone (zone_mktime off dst) off dst"
  by (simp add: fixed_zone_def)

lemma strftime_FTZ_not_Nil: "strftime_FTZ t \<noteq> []"
  by (simp add: strftime_FTZ_def format_fields_def Let_def split: prod.splits)

lemma GetTimeByString_format:
  assumes "fixed_zone mktime off dst" "0 \<le> t" "t < end_of_9999"
  shows "GetTimeByString mktime uninit (strftime_FTZ t) = t + 7200 - off - dst_shift dst uninit"
proof -
  obtain Y m d H M S :: nat where f: "Y < 10000" "ymd_ok (int Y) (int m) (int d)" "H < 24" "M < 60" "S < 60"
    "format_FTZ t = Some (format_fields (int Y) (int m) (int d) (int H) (int M) (int S))"
    "strftime_FTZ t = format_fields (int Y) (int m) (int d) (int H) (int M) (int S)"
    "t = days_from_civil (int Y) (int m) (int d) * 86400 + int H * 3600 + int M * 60 + int S"
    by (rule format_FTZ_fields [OF assms(2,3)])
  let ?tm = "uninit\<lparr>tm_year := int Y, tm_mon := int m, tm_mday := int d, tm_min := int M, tm_sec := int S, tm_hour := int H + 2\<rparr>"
  have "GetTimeByString mktime uninit (strftime_FTZ t) = mktime ?tm"
    unfolding f(7) GetTimeByString_def c_str_format strptime_format [OF f(1-5)]
    by (simp add: adjust_hour_def adjust_yday_def offset_text_format)
  also have "\<dots> = zone_mktime off dst ?tm"
    using assms(1) f(2-5) unfolding fixed_zone_def by simp
  finally show ?thesis using f(8) by (simp add: zone_mktime_def dst_shift_def)
qed

text \<open>
  The seconds the program computes for a time stamp it wrote itself: the true ones, shifted by the
  zone, by the two hours \<open>GetTimeByString\<close> adds, and by what \<open>mktime\<close> makes of the flag on the stack.
\<close>

lemma GetTimeinSeconds_stamp:
  assumes "fixed_zone mktime off dst" "0 \<le> t" "t < end_of_9999"
  shows "GetTimeinSeconds mktime uninit (GetCurrentUTCTime t) = t + 7200 - off - dst_shift dst uninit"
  using GetTimeByString_format [OF assms] GetUTCTime_format [OF assms(2,3)] strftime_FTZ_not_Nil [of t]
  by (simp add: GetTimeinSeconds_def GetCurrentUTCTime_def)

lemma elapsed_stamps:
  assumes "fixed_zone mktime off dst" "0 \<le> t" "t < end_of_9999" "0 \<le> t'" "t' < end_of_9999"
  shows "GetTimeinSeconds mktime u' (GetCurrentUTCTime t') - GetTimeinSeconds mktime u (GetCurrentUTCTime t) =
    t' - t + dst_shift dst u - dst_shift dst u'"
  using GetTimeinSeconds_stamp [OF assms(1-3)] GetTimeinSeconds_stamp [OF assms(1,4,5)] by simp

text \<open>A text no format accepts counts as the epoch: no seconds at all.\<close>

lemma GetTimeinSeconds_bad: "GetUTCTime s = [] \<Longrightarrow> GetTimeinSeconds mktime uninit s = 0"
  by (simp add: GetTimeinSeconds_def GetTimeByString_def strptime_def get_number_def c_str_def)

text \<open>The day count of a time that was read: no field is negative, and an offset is below four days.\<close>

lemma parsed_days_fit:
  assumes "sys_time_of (Y, m, d) (H, M, s) off = Some tp" "0 \<le> H" "0 \<le> M" "0 \<le> s" "\<bar>off\<bar> \<le> 5760"
  shows "from_days (tp div 1000 div 86400) = Inr (ymd_from_days (tp div 1000 div 86400))"
proof -
  from assms(1) have ok: "ymd_ok Y m d" and t: "H < 24" "M < 60" "s < 60000"
    and tp: "tp = to_days Y m d * 86400000 - off * 60000 + (H * 3600000 + M * 60000 + s)"
    by (auto simp: sys_time_of_def split: if_splits)
  from ok have "to_days year_min 1 1 \<le> to_days Y m d \<and> to_days Y m d \<le> to_days year_max 12 31"
    unfolding to_days_ok [OF ok] by (subst year_in_range [symmetric]) (auto simp: ymd_ok_def)
  then have "- 12687428 \<le> to_days Y m d" "to_days Y m d \<le> 11248737" unfolding first_and_last_day by auto
  then have "- 12700000 * 86400000 \<le> tp" "tp \<le> 12700000 * 86400000" using t assms(2-5) unfolding tp by linarith+
  moreover have "tp div 1000 div 86400 = tp div 86400000" by (simp add: zdiv_zmult2_eq [symmetric])
  ultimately have "- 12700000 \<le> tp div 1000 div 86400" "tp div 1000 div 86400 \<le> 12700000"
    using zdiv_mono1 [of "- 12700000 * 86400000" tp 86400000] zdiv_mono1 [of tp "12700000 * 86400000" 86400000] by simp_all
  then show ?thesis by (simp add: from_days_def Let_def)
qed

end
