(* ===== verification/MessageManager.thy ===== *)
theory MessageManager
  imports Pdu Interfaces
begin

text \<open>
  \<open>src/CommonLibraries/MessageManager.cpp\<close>: one queue of calls and one of responses, filled by the
  websocket thread (\<open>AddMessage\<close>) and emptied by the handler thread (\<open>GetCALLMessage\<close>) and by the
  gate that waits for its response (\<open>GetResponseMessage\<close>).
\<close>

record WSMessage =
  ws_uri :: string
  ws_type :: string
  ws_payload :: string

record MessageManager =
  ocppCALLMessageQueue :: "WSMessage list"
  ocppCALLRESULTMessageQueue :: "WSMessage list"

definition MessageManager_new :: MessageManager where
  "MessageManager_new = \<lparr>ocppCALLMessageQueue = [], ocppCALLRESULTMessageQueue = []\<rparr>"

definition GetCALLMessageSize :: "MessageManager \<Rightarrow> nat" where
  "GetCALLMessageSize mm = length (ocppCALLMessageQueue mm)"

definition push_call :: "WSMessage \<Rightarrow> MessageManager \<Rightarrow> MessageManager" where
  "push_call m mm = mm\<lparr>ocppCALLMessageQueue := ocppCALLMessageQueue mm @ [m]\<rparr>"

definition push_result :: "WSMessage \<Rightarrow> MessageManager \<Rightarrow> MessageManager" where
  "push_result m mm = mm\<lparr>ocppCALLRESULTMessageQueue := ocppCALLRESULTMessageQueue mm @ [m]\<rparr>"

text \<open>The two message type strings of the file (\<open>#define CALL "0"\<close>, \<open>#define CALLRESULT "1"\<close>).\<close>

definition CALL_str :: string where "CALL_str = ''0''"
definition CALLRESULT_str :: string where "CALLRESULT_str = ''1''"

text \<open>\<open>AddMessage\<close>: raw messages are \<open>type#uri#payload\<close>; the third piece is the payload.\<close>

definition AddMessage :: "MessageManager \<Rightarrow> string \<Rightarrow> (MessageManager \<times> bool) res" where
  "AddMessage mm rawMessage =
     (let rawMessageItems = split_on (CHR 0x23) rawMessage in
      bindR (vec_at rawMessageItems 0) (\<lambda>type.
      bindR (vec_at rawMessageItems 1) (\<lambda>uri.
      bindR (vec_at rawMessageItems 2) (\<lambda>payload.
        if 0 < length payload then
          bindR (substr payload 1 (size_sub (length payload) 2)) (\<lambda>incoming.
          bindR (vec_at (split_on (CHR '','') incoming) 0) (\<lambda>messageType.
            let message = \<lparr>ws_uri = uri, ws_type = type, ws_payload = payload\<rparr> in
            if messageType = CALL_str then Inr (push_call message mm, True)
            else if messageType = CALLRESULT_str then Inr (push_result message mm, True)
            else Inr (mm, False)))
        else Inr (mm, False)))))"

text \<open>\<open>GetCALLMessage\<close> reads and erases \<open>begin()\<close>; on an empty queue that is undefined.\<close>

definition GetCALLMessage :: "MessageManager \<Rightarrow> (WSMessage \<times> MessageManager) res" where
  "GetCALLMessage mm =
     (case ocppCALLMessageQueue mm of
        [] \<Rightarrow> Inl UB_index
      | m # ms \<Rightarrow> Inr (m, mm\<lparr>ocppCALLMessageQueue := ms\<rparr>))"

text \<open>The id the client finds in a response: the second item without its first and last byte.\<close>

definition response_id :: "string \<Rightarrow> string res" where
  "response_id message =
     bindR (vec_at (split_on (CHR '','') message) 1) (\<lambda>tmp.
       substr tmp 1 (size_sub (length tmp) 2))"

text \<open>One pass over the response queue: the first message with the id, and the queue without it.\<close>

fun scan_responses :: "string \<Rightarrow> WSMessage list \<Rightarrow> (string \<times> WSMessage list) option res" where
  "scan_responses messageId [] = Inr None"
| "scan_responses messageId (m # ms) =
     bindR (response_id (ws_payload m)) (\<lambda>i.
       if i = messageId then Inr (Some (ws_payload m, ms))
       else bindR (scan_responses messageId ms) (\<lambda>r.
         Inr (map_option (\<lambda>(p, rest). (p, m # rest)) r)))"

definition GET_RESULT_TIMEOUT :: int where "GET_RESULT_TIMEOUT = 5"

text \<open>
  \<open>GetResponseMessage\<close> polls. Each element of the schedule is one turn of the \<open>do\<close> loop: the
  responses the websocket thread appends before that pass, and the clock read at its end. The
  outcome is \<open>None\<close> while the schedule ends before the loop does.
\<close>

fun GetResponseMessage ::
  "string \<Rightarrow> int \<Rightarrow> (WSMessage list \<times> int) list \<Rightarrow> MessageManager \<Rightarrow> (string \<times> MessageManager) option res" where
  "GetResponseMessage messageId startTime [] mm = Inr None"
| "GetResponseMessage messageId startTime ((arrived, now) # polls) mm =
     (let mm' = fold push_result arrived mm in
      bindR (scan_responses messageId (ocppCALLRESULTMessageQueue mm')) (\<lambda>r.
        case r of
          Some (message, rest) \<Rightarrow>
            Inr (Some (message, mm'\<lparr>ocppCALLRESULTMessageQueue := rest\<rparr>))
        | None \<Rightarrow>
            if now - startTime < GET_RESULT_TIMEOUT
            then GetResponseMessage messageId startTime polls mm'
            else Inr (Some ([], mm'))))"

subsection \<open>Calls: a FIFO mailbox\<close>

lemma push_call_simps [simp]:
  "ocppCALLMessageQueue (push_call m mm) = ocppCALLMessageQueue mm @ [m]"
  "ocppCALLRESULTMessageQueue (push_call m mm) = ocppCALLRESULTMessageQueue mm"
  by (simp_all add: push_call_def)

lemma push_result_simps [simp]:
  "ocppCALLMessageQueue (push_result m mm) = ocppCALLMessageQueue mm"
  "ocppCALLRESULTMessageQueue (push_result m mm) = ocppCALLRESULTMessageQueue mm @ [m]"
  by (simp_all add: push_result_def)

lemma fold_push_result [simp]:
  "ocppCALLMessageQueue (fold push_result ms mm) = ocppCALLMessageQueue mm"
  "ocppCALLRESULTMessageQueue (fold push_result ms mm) = ocppCALLRESULTMessageQueue mm @ ms"
  by (induction ms arbitrary: mm) auto

interpretation callq: fifo ocppCALLMessageQueue push_call GetCALLMessage GetCALLMessageSize
  by unfold_locales (auto simp: GetCALLMessage_def GetCALLMessageSize_def)

lemma GetCALLMessage_nonempty:
  "0 < GetCALLMessageSize mm \<Longrightarrow> \<exists>m mm'. GetCALLMessage mm = Inr (m, mm')"
  using callq.deq_safe [of mm] by auto

lemma GetCALLMessage_frame:
  "GetCALLMessage mm = Inr (m, mm') \<Longrightarrow>
   ocppCALLMessageQueue mm = m # ocppCALLMessageQueue mm' \<and>
   ocppCALLRESULTMessageQueue mm' = ocppCALLRESULTMessageQueue mm"
  by (auto simp: GetCALLMessage_def split: list.splits)

subsection \<open>Routing\<close>

text \<open>The raw message of \<open>on_message\<close>: type and uri hold no \<open>#\<close>.\<close>

definition raw_message :: "string \<Rightarrow> string \<Rightarrow> string \<Rightarrow> string" where
  "raw_message ty uri payload = ty @ CHR 0x23 # uri @ CHR 0x23 # payload"

lemma split_raw:
  assumes "CHR 0x23 \<notin> set ty" "CHR 0x23 \<notin> set uri"
  shows "split_on (CHR 0x23) (raw_message ty uri payload) = ty # uri # split_on (CHR 0x23) payload"
  unfolding raw_message_def using assms by (simp add: split_on_append)

text \<open>The kind of a payload: the first comma-separated item inside its brackets.\<close>

definition payload_kind :: "string \<Rightarrow> string" where
  "payload_kind p = hd (split_on (CHR '','') (take (size_sub (length p) 2) (drop 1 p)))"

lemma AddMessage_raw:
  assumes "CHR 0x23 \<notin> set ty" "CHR 0x23 \<notin> set uri" "CHR 0x23 \<notin> set p" "p \<noteq> []"
  shows "AddMessage mm (raw_message ty uri p) =
    (let m = \<lparr>ws_uri = uri, ws_type = ty, ws_payload = p\<rparr> in
     Inr (if payload_kind p = CALL_str then (push_call m mm, True)
          else if payload_kind p = CALLRESULT_str then (push_result m mm, True)
          else (mm, False)))"
proof -
  obtain x xs where p: "p = x # xs" using assms(4) by (cases p) auto
  obtain t ts where ts: "split_on (CHR '','') (take (size_sub (length p) 2) (drop 1 p)) = t # ts"
    using split_on_not_Nil by (metis list.exhaust)
  show ?thesis
    using assms ts p
    by (auto simp: AddMessage_def split_raw split_on_no_delim substr_def payload_kind_def Let_def)
qed

text \<open>In general the payload kept is only the part before the first \<open>#\<close>.\<close>

lemma split_on_Cons_hd: "split_on d s = takeWhile (\<lambda>c. c \<noteq> d) s # tl (split_on d s)"
  using split_on_hd [of d s] split_on_not_Nil [of d s] by (metis list.collapse)

lemma AddMessage_raw_cut:
  assumes "CHR 0x23 \<notin> set ty" "CHR 0x23 \<notin> set uri"
  shows "AddMessage mm (raw_message ty uri p) =
    AddMessage mm (raw_message ty uri (takeWhile (\<lambda>c. c \<noteq> CHR 0x23) p))"
proof -
  let ?q = "takeWhile (\<lambda>c. c \<noteq> CHR 0x23) p"
  have q: "CHR 0x23 \<notin> set ?q" by (metis (full_types) set_takeWhileD)
  have "split_on (CHR 0x23) (raw_message ty uri p) = ty # uri # ?q # tl (split_on (CHR 0x23) p)"
    using split_raw [OF assms, of p] split_on_Cons_hd [of "CHR 0x23" p] by simp
  moreover have "split_on (CHR 0x23) (raw_message ty uri ?q) = [ty, uri, ?q]"
    using split_raw [OF assms, of ?q] split_on_no_delim [OF q] by simp
  ultimately show ?thesis by (simp add: AddMessage_def)
qed

lemma AddMessage_total:
  assumes "CHR 0x23 \<notin> set ty" "CHR 0x23 \<notin> set uri"
  shows "is_ok (AddMessage mm (raw_message ty uri p))"
proof (cases "takeWhile (\<lambda>c. c \<noteq> CHR 0x23) p = []")
  case True
  have "AddMessage mm (raw_message ty uri []) = Inr (mm, False)"
    by (simp add: AddMessage_def split_raw [OF assms])
  then show ?thesis using AddMessage_raw_cut [OF assms, of mm p] True by simp
next
  case False
  moreover have "CHR 0x23 \<notin> set (takeWhile (\<lambda>c. c \<noteq> CHR 0x23) p)"
    by (metis (full_types) set_takeWhileD)
  ultimately show ?thesis
    using AddMessage_raw_cut [OF assms, of mm p] AddMessage_raw [OF assms, of _ mm] by (simp add: Let_def)
qed

lemma payload_kind_bracket: "payload_kind (x # b @ [y]) = hd (split_on (CHR '','') b)"
  by (simp add: payload_kind_def)

lemma payload_kind_call: "payload_kind (AddBase rnd JM mt_CALL A mid) = CALL_str"
proof -
  have "AddBase rnd JM mt_CALL A mid = CHR ''['' #
      (''0'' @ CHR '','' # quoted (nat_str rnd) @ CHR '','' # quoted A @ CHR '','' # JM) @ [CHR '']'']"
    by (simp add: AddBase_CALL)
  then show ?thesis by (simp only: payload_kind_bracket split_on_hd CALL_str_def) simp
qed

lemma payload_kind_respond: "payload_kind (AddBase rnd JM mt_RESPOND A mid) = CALLRESULT_str"
proof -
  have "AddBase rnd JM mt_RESPOND A mid = CHR ''['' #
      (''1'' @ CHR '','' # quoted mid @ CHR '','' # JM) @ [CHR '']'']"
    by (simp add: AddBase_RESPOND)
  then show ?thesis by (simp only: payload_kind_bracket split_on_hd CALLRESULT_str_def) simp
qed

lemma kind_neq [simp]: "CALLRESULT_str \<noteq> CALL_str" "CALL_str \<noteq> CALLRESULT_str"
  by (simp_all add: CALL_str_def CALLRESULT_str_def)

subsection \<open>Responses: found by id\<close>

text \<open>
  A response that echoes the id of a call as it stood in the call's items (quotes included) is
  found under exactly that id: the envelope adds a second pair of quotes, which the scan removes.
\<close>

lemma response_id_respond:
  assumes "CHR '','' \<notin> set mid"
  shows "response_id (AddBase rnd JM mt_RESPOND A mid) = Inr mid"
  using split_respond [OF assms, of rnd JM A] by (simp add: response_id_def substr_def quoted_def)

lemma scan_responses_Some:
  assumes "scan_responses i q = Inr (Some (p, rest))"
  shows "\<exists>q1 m q2. q = q1 @ m # q2 \<and> rest = q1 @ q2 \<and> p = ws_payload m \<and>
    response_id (ws_payload m) = Inr i \<and> (\<forall>m'\<in>set q1. response_id (ws_payload m') \<noteq> Inr i)"
  using assms
proof (induction q arbitrary: rest)
  case Nil
  then show ?case by simp
next
  case (Cons m ms)
  then obtain j where j: "response_id (ws_payload m) = Inr j" by auto
  show ?case
  proof (cases "j = i")
    case True
    with Cons.prems j show ?thesis by (intro exI [of _ "[]"] exI [of _ m] exI [of _ ms]) auto
  next
    case False
    with Cons.prems j obtain rest' where r: "scan_responses i ms = Inr (Some (p, rest'))" "rest = m # rest'"
      by auto
    from Cons.IH [OF r(1)] obtain q1 n q2 where "ms = q1 @ n # q2" "rest' = q1 @ q2" "p = ws_payload n"
      "response_id (ws_payload n) = Inr i" "\<forall>m'\<in>set q1. response_id (ws_payload m') \<noteq> Inr i" by blast
    with False j r(2) show ?thesis
      by (intro exI [of _ "m # q1"] exI [of _ n] exI [of _ q2]) auto
  qed
qed

lemma scan_responses_None:
  "scan_responses i q = Inr None \<longleftrightarrow>
     (\<forall>m\<in>set q. \<exists>j. response_id (ws_payload m) = Inr j \<and> j \<noteq> i)"
proof (induction q)
  case Nil
  then show ?case by simp
next
  case (Cons m ms)
  then show ?case by (cases "response_id (ws_payload m)") auto
qed

lemma scan_responses_found:
  assumes "\<forall>m\<in>set q1. \<exists>j. response_id (ws_payload m) = Inr j \<and> j \<noteq> i"
    and "response_id (ws_payload m) = Inr i"
  shows "scan_responses i (q1 @ m # q2) = Inr (Some (ws_payload m, q1 @ q2))"
  using assms by (induction q1) auto

text \<open>Every response in the queue can be scanned: none makes the polling thread fail.\<close>

definition well_formed_result :: "WSMessage \<Rightarrow> bool" where
  "well_formed_result m \<longleftrightarrow> is_ok (response_id (ws_payload m))"

lemma scan_responses_ok: "\<forall>m\<in>set q. well_formed_result m \<Longrightarrow> is_ok (scan_responses i q)"
proof (induction q)
  case Nil
  then show ?case by simp
next
  case (Cons m ms)
  then obtain j where "response_id (ws_payload m) = Inr j" by (auto simp: well_formed_result_def is_ok_def)
  with Cons show ?case by (auto simp: is_ok_def)
qed

lemma GetResponse_found_now:
  assumes "\<forall>m\<in>set q1. \<exists>j. response_id (ws_payload m) = Inr j \<and> j \<noteq> i"
    and "response_id (ws_payload m) = Inr i"
    and "ocppCALLRESULTMessageQueue mm @ arrived = q1 @ m # q2"
  shows "GetResponseMessage i t0 ((arrived, now) # polls) mm =
    Inr (Some (ws_payload m, fold push_result arrived mm\<lparr>ocppCALLRESULTMessageQueue := q1 @ q2\<rparr>))"
  using scan_responses_found [OF assms(1,2), of q2] assms(3) by (simp add: Let_def)

text \<open>The wait ends: once the clock has advanced by the timeout, the call has returned.\<close>

lemma GetResponse_terminates:
  assumes "\<forall>m\<in>set (ocppCALLRESULTMessageQueue mm). well_formed_result m"
    and "\<forall>(arrived, now)\<in>set polls. \<forall>m\<in>set arrived. well_formed_result m"
    and "\<exists>(arrived, now)\<in>set polls. t0 + GET_RESULT_TIMEOUT \<le> now"
  shows "\<exists>r. GetResponseMessage i t0 polls mm = Inr (Some r)"
  using assms
proof (induction polls arbitrary: mm)
  case Nil
  then show ?case by simp
next
  case (Cons poll polls)
  obtain arrived now where poll: "poll = (arrived, now)" by force
  let ?mm = "fold push_result arrived mm"
  have wf: "\<forall>m\<in>set (ocppCALLRESULTMessageQueue ?mm). well_formed_result m"
    using Cons.prems(1,2) poll by auto
  then obtain r where r: "scan_responses i (ocppCALLRESULTMessageQueue ?mm) = Inr r"
    using scan_responses_ok [OF wf, of i] by (auto simp: is_ok_def)
  show ?case
  proof (cases "r = None \<and> now - t0 < GET_RESULT_TIMEOUT")
    case True
    with Cons.prems(3) poll have "\<exists>(arrived, now)\<in>set polls. t0 + GET_RESULT_TIMEOUT \<le> now" by auto
    with Cons.IH [of ?mm] wf Cons.prems(2) have "\<exists>r. GetResponseMessage i t0 polls ?mm = Inr (Some r)"
      by auto
    with True r poll show ?thesis by (simp add: Let_def)
  next
    case False
    with r poll show ?thesis by (auto simp: Let_def split: option.splits)
  qed
qed

text \<open>
  What a wait has seen: the responses that were there or have arrived by the first \<open>k\<close> polls, and the
  ones among them that answer the call.
\<close>

definition has_id :: "string \<Rightarrow> WSMessage \<Rightarrow> bool" where
  "has_id i m \<longleftrightarrow> response_id (ws_payload m) = Inr i"

definition arrived_by :: "MessageManager \<Rightarrow> (WSMessage list \<times> int) list \<Rightarrow> nat \<Rightarrow> WSMessage list" where
  "arrived_by mm polls k = ocppCALLRESULTMessageQueue mm @ concat (map fst (take k polls))"

lemma arrived_by_Cons:
  "arrived_by mm ((arrived, now) # polls) (Suc k) = arrived_by (fold push_result arrived mm) polls k"
  by (simp add: arrived_by_def)

lemma fold_push_result_eq:
  "fold push_result ms mm = mm\<lparr>ocppCALLRESULTMessageQueue := ocppCALLRESULTMessageQueue mm @ ms\<rparr>"
  by (induction ms arbitrary: mm) (auto simp: push_result_def)

lemma fold_push_result_update:
  "fold push_result ms mm\<lparr>ocppCALLRESULTMessageQueue := q\<rparr> = mm\<lparr>ocppCALLRESULTMessageQueue := q\<rparr>"
  by (simp add: fold_push_result_eq)

lemma has_id_not_empty: "has_id i m \<Longrightarrow> ws_payload m \<noteq> []"
  by (auto simp: has_id_def response_id_def)

text \<open>
  The polls before the last one found no answer, in time; the last one takes the first answer there is
  out of the queue, or finds none and the time over. Nothing else changes.
\<close>

definition poll_ends ::
  "string \<Rightarrow> int \<Rightarrow> (WSMessage list \<times> int) list \<Rightarrow> MessageManager \<Rightarrow> nat \<Rightarrow> string \<Rightarrow> MessageManager \<Rightarrow> bool" where
  "poll_ends i t0 polls mm k p mm' \<longleftrightarrow>
     (if p = [] then
        t0 + GET_RESULT_TIMEOUT \<le> snd (polls ! k) \<and> (\<forall>m\<in>set (arrived_by mm polls (Suc k)). \<not> has_id i m) \<and>
        mm' = mm\<lparr>ocppCALLRESULTMessageQueue := arrived_by mm polls (Suc k)\<rparr>
      else
        (\<exists>q1 m q2. arrived_by mm polls (Suc k) = q1 @ m # q2 \<and> (\<forall>m'\<in>set q1. \<not> has_id i m') \<and> has_id i m \<and>
           p = ws_payload m \<and> mm' = mm\<lparr>ocppCALLRESULTMessageQueue := q1 @ q2\<rparr>))"

definition poll_goes_on :: "string \<Rightarrow> int \<Rightarrow> (WSMessage list \<times> int) list \<Rightarrow> MessageManager \<Rightarrow> nat \<Rightarrow> bool" where
  "poll_goes_on i t0 polls mm j \<longleftrightarrow>
     snd (polls ! j) < t0 + GET_RESULT_TIMEOUT \<and> (\<forall>m\<in>set (arrived_by mm polls (Suc j)). \<not> has_id i m)"

lemma GetResponse_exact:
  assumes "GetResponseMessage i t0 polls mm = Inr (Some (p, mm'))"
  shows "\<exists>k<length polls. (\<forall>j<k. poll_goes_on i t0 polls mm j) \<and> poll_ends i t0 polls mm k p mm'"
  using assms
proof (induction polls arbitrary: mm)
  case Nil
  then show ?case by simp
next
  case (Cons poll polls)
  obtain arrived now where poll: "poll = (arrived, now)" by force
  let ?mm = "fold push_result arrived mm"
  have first: "arrived_by mm (poll # polls) (Suc 0) = ocppCALLRESULTMessageQueue ?mm"
    by (simp add: poll arrived_by_def)
  from Cons.prems poll obtain r where r: "scan_responses i (ocppCALLRESULTMessageQueue ?mm) = Inr r"
    by (auto simp: Let_def)
  show ?case
  proof (cases r)
    case (Some pr)
    obtain p' rest where pr: "pr = (p', rest)" by force
    with Cons.prems poll r Some have eq: "p = p'" "mm' = ?mm\<lparr>ocppCALLRESULTMessageQueue := rest\<rparr>"
      by (auto simp: Let_def)
    from scan_responses_Some [OF r [unfolded Some pr]] obtain q1 m q2 where
      q: "ocppCALLRESULTMessageQueue ?mm = q1 @ m # q2" "rest = q1 @ q2" "p' = ws_payload m" "has_id i m"
      "\<forall>m'\<in>set q1. \<not> has_id i m'" by (auto simp: has_id_def)
    have "p \<noteq> []" using has_id_not_empty [OF q(4)] eq(1) q(3) by simp
    moreover have "mm' = mm\<lparr>ocppCALLRESULTMessageQueue := q1 @ q2\<rparr>" using eq(2) q(2) by (simp add: fold_push_result_eq)
    ultimately have "poll_ends i t0 (poll # polls) mm 0 p mm'"
      using q eq(1) first unfolding poll_ends_def by auto
    then show ?thesis by (intro exI [of _ 0]) simp
  next
    case None
    then have none: "\<forall>m\<in>set (arrived_by mm (poll # polls) (Suc 0)). \<not> has_id i m"
      using r unfolding first None scan_responses_None has_id_def by fastforce
    show ?thesis
    proof (cases "now - t0 < GET_RESULT_TIMEOUT")
      case True
      with Cons.prems poll r None have "GetResponseMessage i t0 polls ?mm = Inr (Some (p, mm'))"
        by (simp add: Let_def)
      from Cons.IH [OF this] obtain k where k: "k < length polls" "\<forall>j<k. poll_goes_on i t0 polls ?mm j"
        "poll_ends i t0 polls ?mm k p mm'" by blast
      have shift: "arrived_by mm (poll # polls) (Suc (Suc j)) = arrived_by ?mm polls (Suc j)" for j
        by (simp only: poll arrived_by_Cons)
      have "poll_goes_on i t0 (poll # polls) mm j" if "j < Suc k" for j
      proof (cases j)
        case 0
        with True none poll show ?thesis by (simp add: poll_goes_on_def)
      next
        case (Suc j')
        with k(2) that show ?thesis by (simp add: poll_goes_on_def shift)
      qed
      moreover have "poll_ends i t0 (poll # polls) mm (Suc k) p mm'"
        using k(3) unfolding poll_ends_def shift fold_push_result_update by simp
      ultimately show ?thesis using k(1) by (intro exI [of _ "Suc k"]) simp
    next
      case False
      with Cons.prems poll r None have "p = []" "mm' = ?mm" by (auto simp: Let_def)
      moreover from this(2) have "mm' = mm\<lparr>ocppCALLRESULTMessageQueue := arrived_by mm (poll # polls) (Suc 0)\<rparr>"
        by (simp only: first) (simp add: fold_push_result_eq)
      ultimately have "poll_ends i t0 (poll # polls) mm 0 p mm'"
        using False none poll unfolding poll_ends_def by simp
      then show ?thesis by (intro exI [of _ 0]) simp
    qed
  qed
qed

lemma payload_is_cut_at_hash:
  assumes "CHR 0x23 \<notin> set ty" "CHR 0x23 \<notin> set uri" "p \<noteq> []" "hd p \<noteq> CHR 0x23"
  shows "AddMessage mm (raw_message ty uri p) =
    (let q = takeWhile (\<lambda>c. c \<noteq> CHR 0x23) p; m = \<lparr>ws_uri = uri, ws_type = ty, ws_payload = q\<rparr>
     in Inr (if payload_kind q = CALL_str then (push_call m mm, True)
             else if payload_kind q = CALLRESULT_str then (push_result m mm, True)
             else (mm, False)))"
proof -
  let ?q = "takeWhile (\<lambda>c. c \<noteq> CHR 0x23) p"
  have "CHR 0x23 \<notin> set ?q" by (metis (full_types) set_takeWhileD)
  moreover have "?q \<noteq> []" using assms(3,4) by (cases p) auto
  ultimately show ?thesis
    using AddMessage_raw_cut [OF assms(1,2), of mm p] AddMessage_raw [OF assms(1,2), of ?q mm] by (simp add: Let_def)
qed

end
