(* ===== verification/ParkServer.thy ===== *)
theory ParkServer
  imports Car Models Config Clock MessageManager
begin

text \<open>
  \<open>ParkManagerServer\<close> (\<open>src/ParkManager/ParkManagerServer.cpp\<close>): the gates that have registered, the
  free slots and the cars inside, and the handlers of the three calls. A handler returns the state it
  leaves behind and the text it hands to the websocket server; on an exception (or where the program
  has no defined behaviour) the state is the one at that point. Logging is left out.
\<close>

subsection \<open>State\<close>

text \<open>
  \<open>m_RegisteredCars\<close> maps a plate to a \<open>unique_ptr\<close>: \<open>Some None\<close> is an entry whose car was moved away.
\<close>

record ParkManagerServer =
  m_untils :: utils
  m_HandicapSlotCount :: "32 word"
  m_NormalSlotCount :: "32 word"
  m_HandicapSlotMax :: "32 word"
  m_NormalSlotMax :: "32 word"
  m_websocketPort :: "32 word"
  m_EnternceGates :: "string set"
  m_exitingGates :: "string set"
  m_RegisteredCars :: "string \<rightharpoonup> Car option"
  m_UnRegisteredCars :: "string \<rightharpoonup> Car option"

text \<open>The members in the order of their declaration; each \<open>stoi\<close> can throw.\<close>

definition ParkManagerServer_new :: "ini option \<Rightarrow> ParkManagerServer res" where
  "ParkManagerServer_new loaded =
     (let u = utils_new ''ServerConfig.ini'' loaded in
      bindR (stoi (GetValueFromConfigFile u PMS_HandicapSlotCount)) (\<lambda>h.
      bindR (stoi (GetValueFromConfigFile u PMS_NormalSlotCount)) (\<lambda>n.
      bindR (stoi (GetValueFromConfigFile u PMS_WebSocketPort)) (\<lambda>p.
        Inr \<lparr>m_untils = u, m_HandicapSlotCount = word_of_int h, m_NormalSlotCount = word_of_int n,
             m_HandicapSlotMax = word_of_int h, m_NormalSlotMax = word_of_int n,
             m_websocketPort = word_of_int p, m_EnternceGates = {}, m_exitingGates = {},
             m_RegisteredCars = Map.empty, m_UnRegisteredCars = Map.empty\<rparr>))))"

text \<open>\<open>std::string Response(AddBase(j.dump(), RESPOND, "", messageId).c_str())\<close>.\<close>

definition Respond :: "string \<Rightarrow> json \<Rightarrow> string res" where
  "Respond messageId j =
     bindR (j_dump j) (\<lambda>s. Inr (c_str (AddBase 0 s mt_RESPOND [] messageId)))"

subsection \<open>Gate registration\<close>

text \<open>\<open>GateType = stoi(...)\<close>; what \<open>stoi\<close> throws leaves it \<open>-1\<close>.\<close>

definition gate_type_of :: "string \<Rightarrow> int" where
  "gate_type_of s = (case stoi s of Inr t \<Rightarrow> t | Inl _ \<Rightarrow> - 1)"

definition register_gate :: "string \<Rightarrow> int \<Rightarrow> ParkManagerServer \<Rightarrow> ParkManagerServer \<times> string" where
  "register_gate GateName GateType s =
     (if GateType = GT_Enterence then
        (if GateName \<notin> m_EnternceGates s
         then (s\<lparr>m_EnternceGates := insert GateName (m_EnternceGates s)\<rparr>, RS_Accept)
         else (s, RS_Exist))
      else if GateType = GT_Exiting then
        (if GateName \<notin> m_exitingGates s
         then (s\<lparr>m_exitingGates := insert GateName (m_exitingGates s)\<rparr>, RS_Accept)
         else (s, RS_Exist))
      else (s, RS_Reject))"

definition OnGateRegistration :: "ParkManagerServer \<Rightarrow> string \<Rightarrow> ParkManagerServer \<times> string res" where
  "OnGateRegistration s inp =
     (case handleIncomingMsg inp mt_CALL of
        Inl e \<Rightarrow> (s, Inl e)
      | Inr (messageId, JsonString) \<Rightarrow>
          (case bindR (json_parse JsonString) from_json_GateRegistration of
             Inl e \<Rightarrow> (s, Inl e)
           | Inr GateRegist \<Rightarrow>
               (case register_gate (gr_gateName GateRegist) (gate_type_of (gr_gateType GateRegist)) s of
                  (s', res) \<Rightarrow>
                    (s', Respond messageId (to_json_GateRegistrationResponse \<lparr>grr_result = res\<rparr>)))))"

subsection \<open>Entering\<close>

text \<open>
  The slot given to a car, 0 for none: the new counters and the handicap status kept with the car.
  The counters wrap as \<open>unsigned int\<close>, the slot is the \<open>int\<close> of the same bits.
\<close>

definition allocate_slot :: "string \<Rightarrow> ParkManagerServer \<Rightarrow> int \<times> string \<times> ParkManagerServer" where
  "allocate_slot Handicap s =
     (if Handicap = HS_Yes \<and> m_HandicapSlotCount s \<noteq> 0 then
        (sint (m_NormalSlotMax s + m_HandicapSlotCount s), Handicap,
         s\<lparr>m_HandicapSlotCount := m_HandicapSlotCount s - 1\<rparr>)
      else if m_NormalSlotCount s \<noteq> 0 then
        (sint (m_NormalSlotCount s), HS_No, s\<lparr>m_NormalSlotCount := m_NormalSlotCount s - 1\<rparr>)
      else (0, Handicap, s))"

text \<open>The text written into \<open>char buffer[250]\<close>; \<open>%s\<close> prints up to the first NUL.\<close>

definition welcome_text :: "utils \<Rightarrow> string \<Rightarrow> string \<Rightarrow> int \<Rightarrow> string \<Rightarrow> string" where
  "welcome_text u plate gate slot time =
     ''Welcome '' @ c_str plate @ '' ,Gate '' @ c_str gate @
     '' will be opened for you, first '' @ c_str (GetValueFromConfigFile u PMS_FreeDurationinMin) @
     '' minutes of your stay is free of charge then its only '' @
     c_str (GetValueFromConfigFile u PMS_PricePerMin) @ c_str (GetValueFromConfigFile u PMS_Currency) @
     '' per min proceed to slot number '' @ to_string slot @ '' entering time '' @ c_str time"

definition no_gate_text :: string where
  "no_gate_text = ''Can not access, gate not registered''"

definition full_text :: string where
  "full_text = ''sorry the Parking is full''"

text \<open>The body of \<open>OnCarEnterence\<close> once the request is read; \<open>rnd\<close> is what \<open>random()\<close> returns.\<close>

definition enter_car :: "nat \<Rightarrow> CarEnterence \<Rightarrow> ParkManagerServer \<Rightarrow> ParkManagerServer \<times> CarEnterenceResponse" where
  "enter_car rnd CarEnter s =
     (if ce_enterenceGate CarEnter \<notin> m_EnternceGates s then
        (s, \<lparr>cer_result = RS_Reject, cer_comment = no_gate_text\<rparr>)
      else
        (case allocate_slot (ce_handicap CarEnter) s of (slot, Handicap, s') \<Rightarrow>
           if slot \<noteq> 0 then
             (let NewEntryCar = Car_new (of_nat rnd) (ce_carPlate CarEnter) (ce_enteranceTime CarEnter)
                                  (ce_enterenceGate CarEnter) Handicap;
                  buffer = snprintf_to 250 (welcome_text (m_untils s') (ce_carPlate CarEnter)
                             (ce_enterenceGate CarEnter) slot (m_EnterenceTime NewEntryCar))
              in (s'\<lparr>m_RegisteredCars := (m_RegisteredCars s')(m_Plate NewEntryCar \<mapsto> Some NewEntryCar)\<rparr>,
                  \<lparr>cer_result = RS_Accept, cer_comment = buffer\<rparr>))
           else (s', \<lparr>cer_result = RS_Full, cer_comment = full_text\<rparr>)))"

definition OnCarEnterence :: "nat \<Rightarrow> ParkManagerServer \<Rightarrow> string \<Rightarrow> ParkManagerServer \<times> string res" where
  "OnCarEnterence rnd s inp =
     (case handleIncomingMsg inp mt_CALL of
        Inl e \<Rightarrow> (s, Inl e)
      | Inr (messageId, JsonString) \<Rightarrow>
          (case bindR (json_parse JsonString) from_json_CarEnterence of
             Inl e \<Rightarrow> (s, Inl e)
           | Inr CarEnter \<Rightarrow>
               (case enter_car rnd CarEnter s of
                  (s', resp) \<Rightarrow> (s', Respond messageId (to_json_CarEnterenceResponse resp)))))"

subsection \<open>Leaving\<close>

text \<open>\<open>stoi(FreeDurationinMin) * 60\<close> as an \<open>int\<close>.\<close>

definition free_seconds :: "int \<Rightarrow> int res" where
  "free_seconds freeMin =
     (if int_min \<le> freeMin * 60 \<and> freeMin * 60 \<le> int_max then Inr (freeMin * 60) else Inl UB_overflow)"

text \<open>The price of a stay: nothing for the free minutes, then by the price per minute for the whole minutes beyond them.\<close>

definition payable_of :: "utils \<Rightarrow> int \<Rightarrow> string res" where
  "payable_of u Duration =
     bindR (stoi (GetValueFromConfigFile u PMS_FreeDurationinMin)) (\<lambda>freeMin.
     bindR (free_seconds freeMin) (\<lambda>freeSec.
       if freeSec < Duration then
         (let PricePerMin = atof (GetValueFromConfigFile u PMS_PricePerMin) in
          bindR (round_to_int (double_mul PricePerMin (fl64 (of_int (Duration sdiv 60 - freeMin))))) (\<lambda>ToPay.
            Inr (to_string ToPay)))
       else Inr ''0''))"

definition unknown_car_text :: string where
  "unknown_car_text =
     ''How did you get in ?? you are not registered , calling the police ....just kidding :D bye bye''"

definition bye_text :: string where
  "bye_text = '' bye bye come again :D''"

text \<open>The slot goes back to its counter; only a normal car is moved out of \<open>m_RegisteredCars\<close>.\<close>

definition release_slot :: "string \<Rightarrow> Car \<Rightarrow> ParkManagerServer \<Rightarrow> ParkManagerServer" where
  "release_slot plate car s =
     (if m_Handicap car = HS_Yes then s\<lparr>m_HandicapSlotCount := m_HandicapSlotCount s + 1\<rparr>
      else s\<lparr>m_NormalSlotCount := m_NormalSlotCount s + 1,
             m_UnRegisteredCars := (m_UnRegisteredCars s)(plate \<mapsto> Some car),
             m_RegisteredCars := (m_RegisteredCars s)(plate \<mapsto> None)\<rparr>)"

text \<open>
  The body of \<open>OnCarStatusUpdate\<close>: the exit gate is looked up but the outcome is only logged.
  \<open>now\<close> is \<open>time(0)\<close>; each of the two conversions has a \<open>struct tm\<close> of its own on the stack.
\<close>

definition exit_car ::
    "libc_time \<Rightarrow> int \<Rightarrow> CarStatusUpdate \<Rightarrow> ParkManagerServer \<Rightarrow> ParkManagerServer \<times> CarStatusUpdateResponse res" where
  "exit_car lib now CarStatusUp s =
     (let plate = csu_carPlate CarStatusUp;
          curreny = GetValueFromConfigFile (m_untils s) PMS_Currency;
          response = (\<lambda>payable comment.
            \<lparr>csr_status = RS_Exist, csr_payable = payable, csr_curreny = curreny, csr_comment = comment\<rparr>)
      in case m_RegisteredCars s plate of
           None \<Rightarrow> (s, Inr (response ''0'' unknown_car_text))
         | Some None \<Rightarrow> (s, Inl UB_null)
         | Some (Some car) \<Rightarrow>
             (let CT = GetTimeinSeconds (lib_mktime lib) (stack_tm lib 0) (GetCurrentUTCTime now);
                  ET = GetTimeinSeconds (lib_mktime lib) (stack_tm lib 1) (m_EnterenceTime car)
              in case payable_of (m_untils s) (CT - ET) of
                   Inl e \<Rightarrow> (s, Inl e)
                 | Inr payable \<Rightarrow> (release_slot plate car s, Inr (response payable bye_text))))"

definition OnCarStatusUpdate ::
    "libc_time \<Rightarrow> int \<Rightarrow> ParkManagerServer \<Rightarrow> string \<Rightarrow> ParkManagerServer \<times> string res" where
  "OnCarStatusUpdate lib now s inp =
     (case handleIncomingMsg inp mt_CALL of
        Inl e \<Rightarrow> (s, Inl e)
      | Inr (messageId, JsonString) \<Rightarrow>
          (case bindR (json_parse JsonString) from_json_CarStatusUpdate of
             Inl e \<Rightarrow> (s, Inl e)
           | Inr CarStatusUp \<Rightarrow>
               (case exit_car lib now CarStatusUp s of
                  (s', r) \<Rightarrow>
                    (s', bindR r (\<lambda>resp. Respond messageId (to_json_CarStatusUpdateResponse resp))))))"

subsection \<open>The handler thread\<close>

text \<open>What the handlers read of the outside during one turn of the loop.\<close>

record turn_env =
  env_random :: nat
  env_now :: int
  env_libc :: libc_time

text \<open>
  \<open>GateHanlder\<close> on one message: the first action whose quoted name occurs in the third item is
  served. The result is the text to send to the message's uri, \<open>None\<close> when nothing is sent.
\<close>

definition handle_call :: "turn_env \<Rightarrow> ParkManagerServer \<Rightarrow> WSMessage \<Rightarrow> ParkManagerServer \<times> string option res" where
  "handle_call env s m =
     (let requestItems = split_on (CHR '','') (ws_payload m);
          reply = (\<lambda>(s', r). (s', bindR r (\<lambda>t. Inr (Some t))))
      in case bindR (vec_at requestItems 1) (\<lambda>_. vec_at requestItems 2) of
           Inl e \<Rightarrow> (s, Inl e)
         | Inr action \<Rightarrow>
             if ws_type m = ''Server'' then
               (if contains action (quoted ActionGateRegistration) then
                  reply (OnGateRegistration s (ws_payload m))
                else if contains action (quoted ActionCarStatusUpdate) then
                  reply (OnCarStatusUpdate (env_libc env) (env_now env) s (ws_payload m))
                else if contains action (quoted ActionCarEnterence) then
                  reply (OnCarEnterence (env_random env) s (ws_payload m))
                else (s, Inr None))
             else (s, Inr None))"

text \<open>One turn of the loop: \<open>None\<close> when the queue was empty.\<close>

definition GateHanlder_turn ::
    "turn_env \<Rightarrow> ParkManagerServer \<Rightarrow> MessageManager \<Rightarrow>
     ParkManagerServer \<times> MessageManager \<times> (string \<times> string) option res" where
  "GateHanlder_turn env s mm =
     (if 0 < GetCALLMessageSize mm then
        (case GetCALLMessage mm of
           Inl e \<Rightarrow> (s, mm, Inl e)
         | Inr (m, mm') \<Rightarrow>
             (case handle_call env s m of
                (s', r) \<Rightarrow> (s', mm', bindR r (\<lambda>t. Inr (map_option (Pair (ws_uri m)) t)))))
      else (s, mm, Inr None))"

subsection \<open>What the handlers read and write\<close>

text \<open>The id of a call, as it stands among the items of the call.\<close>

definition call_id :: "nat \<Rightarrow> string" where
  "call_id r = quoted (nat_str r)"

lemma call_id_chars [simp]: "CHR '','' \<notin> set (call_id r)" "nul \<notin> set (call_id r)"
proof -
  have "\<not> is_digit nul" by (simp add: is_digit_def nul_def)
  then show "nul \<notin> set (call_id r)" using nat_str_digits [of nul r] by (auto simp: call_id_def) (simp add: nul_def)
qed (simp add: call_id_def)

lemma nul_notin_AddBase:
  "nul \<notin> set mid \<Longrightarrow> nul \<notin> set b \<Longrightarrow> nul \<notin> set (AddBase r b mt_RESPOND A mid)"
  by (simp add: AddBase_RESPOND) (simp add: nul_def)

context document
begin

text \<open>A response: echoed id, and the object it was made from.\<close>

lemma respond_text:
  assumes "nul \<notin> set mid" "j_dump (to_json x) = Inr b"
  shows "Respond mid (to_json x) = Inr (AddBase 0 b mt_RESPOND [] mid)"
  using assms dump_no_nul [OF assms(2)]
  by (simp add: Respond_def c_str_id nul_notin_AddBase)

lemma respond_ok_iff: "is_ok (Respond mid (to_json x)) \<longleftrightarrow> utf8_fields x"
  using body_dumps [of x] by (auto simp: Respond_def is_ok_def)

lemma respond_fail: "\<not> utf8_fields x \<Longrightarrow> Respond mid (to_json x) = Inl (Json_exception 316)"
  using body_dump_cases [of x] by (simp add: Respond_def)

lemma respond_read:
  assumes "nul \<notin> set mid" "CHR '','' \<notin> set mid" "Respond mid (to_json x) = Inr t"
  shows "response_id t = Inr mid \<and>
    (\<exists>b. handleIncomingMsg t mt_RESPOND = Inr (quoted mid, b) \<and> bindR (json_parse b) from_json = Inr x)"
proof -
  from assms(3) obtain b where b: "j_dump (to_json x) = Inr b" by (auto simp: Respond_def)
  with respond_text [OF assms(1) b] assms(3) have t: "t = AddBase 0 b mt_RESPOND [] mid" by simp
  show ?thesis
    unfolding t using body_read [OF b] handleIncomingMsg_respond [OF assms(2)] response_id_respond [OF assms(2)]
    by blast
qed

text \<open>A call is read back as its object.\<close>

lemma request_read:
  assumes "CHR '','' \<notin> set A" "j_dump (to_json x) = Inr b"
  shows "handleIncomingMsg (AddBase r b mt_CALL A mid) mt_CALL = Inr (call_id r, b) \<and>
    bindR (json_parse b) from_json = Inr x"
  using handleIncomingMsg_call [OF assms(1)] body_read [OF assms(2)] by (simp add: call_id_def)

end

lemma no_comma_actions [simp]:
  "CHR '','' \<notin> set ActionGateRegistration" "CHR '','' \<notin> set ActionCarEnterence"
  "CHR '','' \<notin> set ActionCarStatusUpdate"
  by (simp_all add: action_defs)

lemma OnGateRegistration_call:
  assumes "j_dump (to_json_GateRegistration x) = Inr b"
  shows "OnGateRegistration s (AddBase r b mt_CALL ActionGateRegistration mid) =
    (case register_gate (gr_gateName x) (gate_type_of (gr_gateType x)) s of
       (s', res) \<Rightarrow> (s', Respond (call_id r) (to_json_GateRegistrationResponse \<lparr>grr_result = res\<rparr>)))"
  using gr.request_read [OF no_comma_actions(1) assms, of r mid] by (auto simp: OnGateRegistration_def)

lemma OnCarEnterence_call:
  assumes "j_dump (to_json_CarEnterence x) = Inr b"
  shows "OnCarEnterence rnd s (AddBase r b mt_CALL ActionCarEnterence mid) =
    (case enter_car rnd x s of
       (s', resp) \<Rightarrow> (s', Respond (call_id r) (to_json_CarEnterenceResponse resp)))"
  using ce.request_read [OF no_comma_actions(2) assms, of r mid] by (auto simp: OnCarEnterence_def)

lemma OnCarStatusUpdate_call:
  assumes "j_dump (to_json_CarStatusUpdate x) = Inr b"
  shows "OnCarStatusUpdate lib now s (AddBase r b mt_CALL ActionCarStatusUpdate mid) =
    (case exit_car lib now x s of
       (s', q) \<Rightarrow> (s', bindR q (\<lambda>resp. Respond (call_id r) (to_json_CarStatusUpdateResponse resp))))"
  using csu.request_read [OF no_comma_actions(3) assms, of r mid] by (auto simp: OnCarStatusUpdate_def)

text \<open>Dispatch on the third item of a call.\<close>

lemma call_action:
  "CHR '','' \<notin> set A \<Longrightarrow>
   bindR (vec_at (split_on (CHR '','') (AddBase r b mt_CALL A mid)) 1)
     (\<lambda>_. vec_at (split_on (CHR '','') (AddBase r b mt_CALL A mid)) 2) = Inr (quoted A)"
  by (simp add: split_call)

lemma contains_actions [simp]:
  "contains (quoted ActionGateRegistration) (quoted ActionGateRegistration)"
  "contains (quoted ActionCarStatusUpdate) (quoted ActionCarStatusUpdate)"
  "contains (quoted ActionCarEnterence) (quoted ActionCarEnterence)"
  "\<not> contains (quoted ActionCarStatusUpdate) (quoted ActionGateRegistration)"
  "\<not> contains (quoted ActionCarEnterence) (quoted ActionGateRegistration)"
  "\<not> contains (quoted ActionCarEnterence) (quoted ActionCarStatusUpdate)"
  by (simp_all add: action_defs quoted_def)

lemma handle_call_GateRegistration:
  "handle_call env s \<lparr>ws_uri = uri, ws_type = ''Server'',
      ws_payload = AddBase r b mt_CALL ActionGateRegistration mid\<rparr> =
   (case OnGateRegistration s (AddBase r b mt_CALL ActionGateRegistration mid) of
      (s', q) \<Rightarrow> (s', bindR q (\<lambda>t. Inr (Some t))))"
  by (simp add: handle_call_def call_action Let_def del: One_nat_def)

lemma handle_call_CarStatusUpdate:
  "handle_call env s \<lparr>ws_uri = uri, ws_type = ''Server'',
      ws_payload = AddBase r b mt_CALL ActionCarStatusUpdate mid\<rparr> =
   (case OnCarStatusUpdate (env_libc env) (env_now env) s (AddBase r b mt_CALL ActionCarStatusUpdate mid) of
      (s', q) \<Rightarrow> (s', bindR q (\<lambda>t. Inr (Some t))))"
  by (simp add: handle_call_def call_action Let_def del: One_nat_def)

lemma handle_call_CarEnterence:
  "handle_call env s \<lparr>ws_uri = uri, ws_type = ''Server'',
      ws_payload = AddBase r b mt_CALL ActionCarEnterence mid\<rparr> =
   (case OnCarEnterence (env_random env) s (AddBase r b mt_CALL ActionCarEnterence mid) of
      (s', q) \<Rightarrow> (s', bindR q (\<lambda>t. Inr (Some t))))"
  by (simp add: handle_call_def call_action Let_def del: One_nat_def)

text \<open>The state after a call is the state before, or that of one of the three bodies.\<close>

definition body_step :: "turn_env \<Rightarrow> ParkManagerServer \<Rightarrow> ParkManagerServer \<Rightarrow> bool" where
  "body_step env s s' \<longleftrightarrow>
     (\<exists>name ty. s' = fst (register_gate name ty s)) \<or>
     (\<exists>x. s' = fst (enter_car (env_random env) x s)) \<or>
     (\<exists>x. s' = fst (exit_car (env_libc env) (env_now env) x s))"

lemma OnGateRegistration_state:
  "fst (OnGateRegistration s inp) = s \<or> (\<exists>name ty. fst (OnGateRegistration s inp) = fst (register_gate name ty s))"
  by (auto simp: OnGateRegistration_def split: sum.splits prod.splits) (metis fst_conv)

lemma OnCarEnterence_state:
  "fst (OnCarEnterence rnd s inp) = s \<or> (\<exists>x. fst (OnCarEnterence rnd s inp) = fst (enter_car rnd x s))"
  by (auto simp: OnCarEnterence_def split: sum.splits prod.splits) (metis fst_conv)

lemma OnCarStatusUpdate_state:
  "fst (OnCarStatusUpdate mk now s inp) = s \<or>
   (\<exists>x. fst (OnCarStatusUpdate mk now s inp) = fst (exit_car mk now x s))"
  by (auto simp: OnCarStatusUpdate_def split: sum.splits prod.splits) (metis fst_conv)

lemma handle_call_state:
  "fst (handle_call env s m) = s \<or> body_step env s (fst (handle_call env s m))"
proof -
  have "fst (handle_call env s m) \<in> {s, fst (OnGateRegistration s (ws_payload m)),
      fst (OnCarStatusUpdate (env_libc env) (env_now env) s (ws_payload m)),
      fst (OnCarEnterence (env_random env) s (ws_payload m))}"
    by (simp add: handle_call_def Let_def split: sum.splits prod.splits)
  then show ?thesis
    using OnGateRegistration_state [of s "ws_payload m"]
      OnCarStatusUpdate_state [of "env_libc env" "env_now env" s "ws_payload m"]
      OnCarEnterence_state [of "env_random env" s "ws_payload m"]
    unfolding body_step_def insert_iff empty_iff by metis
qed

subsection \<open>Where the handler reads past its items\<close>

text \<open>A call of three items or more is taken apart, and no handler reads past a vector; what else can go wrong.\<close>

lemma handleIncomingMsg_ok:
  assumes "3 \<le> length (split_on (CHR '','') inp)"
  shows "\<exists>mid b. handleIncomingMsg inp mt_CALL = Inr (mid, b)"
  using assms by (auto simp: handleIncomingMsg_def vec_at_def Let_def mt_CALL_def)

lemma read_body_error:
  "bindR (json_parse b) from_json_GateRegistration = Inl e \<Longrightarrow> is_std_exception e"
  "bindR (json_parse b) from_json_CarEnterence = Inl e \<Longrightarrow> is_std_exception e"
  "bindR (json_parse b) from_json_CarStatusUpdate = Inl e \<Longrightarrow> is_std_exception e"
  using json_parse_error from_json_error by (auto simp: bindR_eq_Inl)

lemma respond_error:
  "Respond mid (to_json_GateRegistrationResponse x) = Inl e \<Longrightarrow> is_std_exception e"
  "Respond mid (to_json_CarEnterenceResponse y) = Inl e \<Longrightarrow> is_std_exception e"
  "Respond mid (to_json_CarStatusUpdateResponse z) = Inl e \<Longrightarrow> is_std_exception e"
  by (auto simp: Respond_def bindR_eq_Inl dest!: grr.dump_error cer.dump_error csr.dump_error)

lemma round_to_int_error: "round_to_int d = Inl e \<Longrightarrow> e = UB_overflow"
  by (cases d) (auto simp: Let_def split: if_splits)

lemma payable_of_error: "payable_of u D = Inl e \<Longrightarrow> e \<noteq> UB_index"
  by (auto simp: payable_of_def free_seconds_def Let_def bindR_eq_Inl split: if_splits
      dest: stoi_error round_to_int_error)

lemma exit_car_error: "exit_car lib now x s = (s', Inl e) \<Longrightarrow> e \<noteq> UB_index"
  by (auto simp: exit_car_def Let_def split: option.splits sum.splits dest: payable_of_error)

lemma handlers_error:
  assumes "3 \<le> length (split_on (CHR '','') inp)"
  shows "snd (OnGateRegistration s inp) \<noteq> Inl UB_index" "snd (OnCarEnterence rnd s inp) \<noteq> Inl UB_index"
    "snd (OnCarStatusUpdate lib now s inp) \<noteq> Inl UB_index"
proof -
  from handleIncomingMsg_ok [OF assms] obtain mid b where h: "handleIncomingMsg inp mt_CALL = Inr (mid, b)" by blast
  show "snd (OnGateRegistration s inp) \<noteq> Inl UB_index" "snd (OnCarEnterence rnd s inp) \<noteq> Inl UB_index"
    by (auto simp: OnGateRegistration_def OnCarEnterence_def h split: sum.splits prod.splits
        dest: read_body_error respond_error)
  have "snd (exit_car lib now y s) \<noteq> Inl UB_index" for y
    using exit_car_error [of lib now y s "fst (exit_car lib now y s)"] by (cases "exit_car lib now y s") auto
  moreover have "bindR q (\<lambda>resp. Respond mid (to_json_CarStatusUpdateResponse resp)) \<noteq> Inl UB_index" if "q \<noteq> Inl UB_index" for q
    using that by (cases q) (auto dest: respond_error)
  ultimately have "bindR (snd (exit_car lib now y s)) (\<lambda>resp. Respond mid (to_json_CarStatusUpdateResponse resp)) \<noteq> Inl UB_index" for y
    by blast
  then show "snd (OnCarStatusUpdate lib now s inp) \<noteq> Inl UB_index"
    by (auto simp: OnCarStatusUpdate_def h case_prod_beta split: sum.splits dest: read_body_error)
qed

lemma handle_call_overread:
  "snd (handle_call env s m) = Inl UB_index \<longleftrightarrow> length (split_on (CHR '','') (ws_payload m)) < 3"
proof (cases "length (split_on (CHR '','') (ws_payload m)) < 3")
  case True
  then have "bindR (vec_at (split_on (CHR '','') (ws_payload m)) 1) (\<lambda>_. vec_at (split_on (CHR '','') (ws_payload m)) 2) =
      Inl UB_index" by (simp add: vec_at_def)
  with True show ?thesis by (simp add: handle_call_def)
next
  case False
  then have three: "3 \<le> length (split_on (CHR '','') (ws_payload m))" by simp
  then have items: "bindR (vec_at (split_on (CHR '','') (ws_payload m)) 1) (\<lambda>_. vec_at (split_on (CHR '','') (ws_payload m)) 2) =
      Inr (split_on (CHR '','') (ws_payload m) ! 2)" by (simp add: vec_at_def)
  have "snd (handle_call env s m) \<noteq> Inl UB_index"
    using handlers_error [OF three] unfolding handle_call_def Let_def items
    by (simp add: case_prod_beta bindR_eq_Inl)
  with False show ?thesis by simp
qed

text \<open>A call with an action the handler knows and a body that is no JSON throws out of the handler.\<close>

lemma handle_call_bad_body:
  assumes "ws_type m = ''Server''" "3 \<le> length (split_on (CHR '','') (ws_payload m))"
    and "contains (split_on (CHR '','') (ws_payload m) ! 2) (quoted ActionGateRegistration) \<or>
      contains (split_on (CHR '','') (ws_payload m) ! 2) (quoted ActionCarStatusUpdate) \<or>
      contains (split_on (CHR '','') (ws_payload m) ! 2) (quoted ActionCarEnterence)"
    and "handleIncomingMsg (ws_payload m) mt_CALL = Inr (mid, b)" "json_parse b = Inl e"
  shows "handle_call env s m = (s, Inl e)"
proof -
  have items: "bindR (vec_at (split_on (CHR '','') (ws_payload m)) 1) (\<lambda>_. vec_at (split_on (CHR '','') (ws_payload m)) 2) =
      Inr (split_on (CHR '','') (ws_payload m) ! 2)" using assms(2) by (simp add: vec_at_def)
  show ?thesis
    using assms(1,3) unfolding handle_call_def Let_def items
    by (auto simp: OnGateRegistration_def OnCarStatusUpdate_def OnCarEnterence_def assms(4,5))
qed

end
