(* ===== verification/ParkingLot.thy ===== *)
theory ParkingLot
  imports ParkServer
begin

text \<open>
  What the server's bodies promise, over the definitions of \<open>ParkServer\<close>: the invariant that ties the
  slot counter to the cars inside, an abstract parking lot that the entering and leaving bodies refine,
  and the price of a stay.
\<close>

subsection \<open>Counters\<close>

lemma sint_small:
  assumes "unat (w::32 word) < 2 ^ 31"
  shows "sint w = int (unat w)"
proof -
  have u: "uint w = int (unat w)" by (rule uint_nat)
  have "int (unat w) < int (2 ^ 31)" using assms by (simp only: of_nat_less_iff)
  then have "uint w < 2 ^ 31" unfolding u by simp
  then have "signed_take_bit 31 (uint w) = uint w"
    by (intro signed_take_bit_int_eq_self) (rule order_trans [OF _ uint_ge_0], simp_all)
  moreover have "sint w = signed_take_bit 31 (uint w)" by (simp only: sint_uint) simp
  ultimately show ?thesis using u by (simp only:)
qed

lemma unat_dec: "w \<noteq> 0 \<Longrightarrow> unat (w - 1 :: 32 word) = unat w - 1"
  by (rule unat_minus_one)

lemma unat_inc:
  assumes "unat w + 1 < 2 ^ 32"
  shows "unat (w + 1 :: 32 word) = unat w + 1"
proof -
  have "unat (w + 1) = (unat w + 1) mod 2 ^ 32" by (simp add: unat_word_ariths)
  with assms show ?thesis by (simp only: mod_less)
qed

lemma unat_sum:
  assumes "unat v + unat w < 2 ^ 31"
  shows "unat (v + w :: 32 word) = unat v + unat w"
proof -
  have "unat (v + w) = (unat v + unat w) mod 2 ^ 32" by (simp add: unat_word_ariths)
  moreover have "unat v + unat w < 2 ^ 32" using assms by (rule less_trans) simp
  ultimately show ?thesis by (simp only: mod_less)
qed

lemma unat_lt_32: "unat (w :: 32 word) < 2 ^ 32"
  using unsigned_less [of w] by simp

lemma unat_pos: "(w :: 32 word) \<noteq> 0 \<longleftrightarrow> 0 < unat w"
  by (simp add: unat_gt_0)

subsection \<open>The cars inside\<close>

text \<open>The car a plate stands for: the entry exists and its pointer is not null.\<close>

definition parked :: "ParkManagerServer \<Rightarrow> string \<Rightarrow> Car option" where
  "parked s p = (case m_RegisteredCars s p of Some (Some c) \<Rightarrow> Some c | _ \<Rightarrow> None)"

definition normal_cars :: "ParkManagerServer \<Rightarrow> string set" where
  "normal_cars s = {p. \<exists>c. parked s p = Some c \<and> m_Handicap c \<noteq> HS_Yes}"

definition handicap_cars :: "ParkManagerServer \<Rightarrow> string set" where
  "handicap_cars s = {p. \<exists>c. parked s p = Some c \<and> m_Handicap c = HS_Yes}"

definition lot_inv :: "ParkManagerServer \<Rightarrow> bool" where
  "lot_inv s \<longleftrightarrow>
     finite (dom (m_RegisteredCars s)) \<and>
     (\<forall>p c. parked s p = Some c \<longrightarrow>
        m_Plate c = p \<and> m_EnterenceGate c \<in> m_EnternceGates s \<and> m_Handicap c \<in> {HS_Yes, HS_No}) \<and>
     unat (m_NormalSlotCount s) + card (normal_cars s) \<le> unat (m_NormalSlotMax s)"

lemma status_distinct [simp]: "HS_Yes \<noteq> HS_No" "HS_No \<noteq> HS_Yes"
  by (simp_all add: HS_Yes_def HS_No_def)

lemma parked_Some: "parked s p = Some c \<longleftrightarrow> m_RegisteredCars s p = Some (Some c)"
  by (simp add: parked_def split: option.splits)

lemma finite_normal_cars: "lot_inv s \<Longrightarrow> finite (normal_cars s)"
  by (rule finite_subset [of _ "dom (m_RegisteredCars s)"])
    (auto simp: normal_cars_def parked_Some lot_inv_def)

lemma lot_inv_new: "ParkManagerServer_new loaded = Inr s \<Longrightarrow> lot_inv s"
  by (auto simp: ParkManagerServer_new_def Let_def lot_inv_def parked_def normal_cars_def)

text \<open>Putting a car in, and taking a normal car out.\<close>

lemma parked_put:
  "parked (s\<lparr>m_RegisteredCars := (m_RegisteredCars s)(p \<mapsto> v)\<rparr>) = (parked s)(p := v)"
  by (rule ext) (simp add: parked_def split: option.splits)

lemma parked_cong: "m_RegisteredCars s = m_RegisteredCars t \<Longrightarrow> parked s = parked t"
  by (rule ext) (simp add: parked_def)

lemma normal_cars_cong: "m_RegisteredCars s = m_RegisteredCars t \<Longrightarrow> normal_cars s = normal_cars t"
  unfolding normal_cars_def by (drule parked_cong) (simp only:)

text \<open>The outcomes of the allocation.\<close>

lemma allocate_slot_cases:
  obtains (handicap) "h = HS_Yes" "m_HandicapSlotCount s \<noteq> 0"
      "allocate_slot h s = (sint (m_NormalSlotMax s + m_HandicapSlotCount s), HS_Yes,
         s\<lparr>m_HandicapSlotCount := m_HandicapSlotCount s - 1\<rparr>)"
  | (normal) "h \<noteq> HS_Yes \<or> m_HandicapSlotCount s = 0" "m_NormalSlotCount s \<noteq> 0"
      "allocate_slot h s = (sint (m_NormalSlotCount s), HS_No,
         s\<lparr>m_NormalSlotCount := m_NormalSlotCount s - 1\<rparr>)"
  | (full) "h \<noteq> HS_Yes \<or> m_HandicapSlotCount s = 0" "m_NormalSlotCount s = 0"
      "allocate_slot h s = (0, h, s)"
proof -
  consider "h = HS_Yes \<and> m_HandicapSlotCount s \<noteq> 0"
    | "\<not> (h = HS_Yes \<and> m_HandicapSlotCount s \<noteq> 0)" "m_NormalSlotCount s \<noteq> 0"
    | "\<not> (h = HS_Yes \<and> m_HandicapSlotCount s \<noteq> 0)" "m_NormalSlotCount s = 0" by blast
  then show thesis
  proof cases
    case 1
    then show thesis by (intro handicap) (simp_all add: allocate_slot_def)
  next
    case 2
    then show thesis by (intro normal) (auto simp: allocate_slot_def)
  next
    case 3
    then show thesis by (intro full) (auto simp: allocate_slot_def)
  qed
qed

subsection \<open>The invariant is kept\<close>

lemma lot_inv_counters:
  "lot_inv s \<Longrightarrow> lot_inv (s\<lparr>m_HandicapSlotCount := h\<rparr>)"
  "lot_inv s \<Longrightarrow> unat n + card (normal_cars s) \<le> unat (m_NormalSlotMax s) \<Longrightarrow> lot_inv (s\<lparr>m_NormalSlotCount := n\<rparr>)"
  by (simp_all add: lot_inv_def parked_def normal_cars_def)

lemma lot_inv_register: "lot_inv s \<Longrightarrow> lot_inv (fst (register_gate name ty s))"
  by (auto simp: register_gate_def lot_inv_def parked_def normal_cars_def)

lemma lot_inv_put:
  assumes inv: "lot_inv s" and c: "m_Plate c = p" "m_EnterenceGate c \<in> m_EnternceGates s"
    and kind: "m_Handicap c = HS_Yes \<or>
      m_Handicap c = HS_No \<and> unat (m_NormalSlotCount s) + card (normal_cars s) < unat (m_NormalSlotMax s)"
  shows "lot_inv (s\<lparr>m_RegisteredCars := (m_RegisteredCars s)(p \<mapsto> Some c)\<rparr>)"
proof -
  let ?s = "s\<lparr>m_RegisteredCars := (m_RegisteredCars s)(p \<mapsto> Some c)\<rparr>"
  have sub: "normal_cars ?s \<subseteq> (if m_Handicap c = HS_Yes then normal_cars s else insert p (normal_cars s))"
    by (auto simp: normal_cars_def parked_put)
  note fin = finite_normal_cars [OF inv]
  have "card (normal_cars ?s) \<le> (if m_Handicap c = HS_Yes then card (normal_cars s) else Suc (card (normal_cars s)))"
    using card_mono [OF _ sub] fin finite_card_insert_le [OF fin, of p] by (auto split: if_splits)
  then have "unat (m_NormalSlotCount s) + card (normal_cars ?s) \<le> unat (m_NormalSlotMax s)"
    using kind inv by (auto simp: lot_inv_def split: if_splits)
  then show ?thesis using inv c kind by (auto simp: lot_inv_def parked_put)
qed

lemma lot_inv_enter: 
  assumes "lot_inv s"
  shows "lot_inv (fst (enter_car rnd x s))"
proof (cases "ce_enterenceGate x \<in> m_EnternceGates s")
  case gate: True
  show ?thesis
  proof (cases rule: allocate_slot_cases [of "ce_handicap x" s])
    case handicap
    note inv = lot_inv_counters(1) [OF assms, of "m_HandicapSlotCount s - 1"]
    show ?thesis
      using gate inv lot_inv_put [OF inv, of "Car_new _ _ _ (ce_enterenceGate x) HS_Yes", OF refl]
      by (simp add: enter_car_def handicap(3) Let_def)
  next
    case normal
    have less: "unat (m_NormalSlotCount s - 1) + card (normal_cars s) < unat (m_NormalSlotMax s)"
      using assms normal(2) unfolding unat_dec [OF normal(2)] unat_pos lot_inv_def by linarith
    note inv = lot_inv_counters(2) [OF assms less_imp_le [OF less]]
    have same: "normal_cars (s\<lparr>m_NormalSlotCount := m_NormalSlotCount s - 1\<rparr>) = normal_cars s"
      by (rule normal_cars_cong) simp
    show ?thesis
      using gate inv less lot_inv_put [OF inv, of "Car_new _ _ _ (ce_enterenceGate x) HS_No", OF refl]
      by (simp add: enter_car_def normal(3) Let_def same)
  next
    case full
    with assms gate show ?thesis by (simp add: enter_car_def)
  qed
qed (use assms in \<open>simp add: enter_car_def\<close>)

lemma parked_release:
  "parked (release_slot p c s) = (if m_Handicap c = HS_Yes then parked s else (parked s)(p := None))"
  by (rule ext) (simp add: release_slot_def parked_def)

lemma normal_cars_release:
  "m_Handicap c \<noteq> HS_Yes \<Longrightarrow> normal_cars (release_slot p c s) = normal_cars s - {p}"
  by (auto simp: normal_cars_def parked_release)

lemma lot_inv_release:
  assumes inv: "lot_inv s" and p: "parked s p = Some c"
  shows "lot_inv (release_slot p c s)"
proof (cases "m_Handicap c = HS_Yes")
  case True
  with lot_inv_counters(1) [OF inv] show ?thesis by (simp add: release_slot_def)
next
  case False
  with p have "p \<in> normal_cars s" by (simp add: normal_cars_def)
  with finite_normal_cars [OF inv] have card: "Suc (card (normal_cars s - {p})) = card (normal_cars s)"
    by (rule card_Suc_Diff1)
  with inv have b: "unat (m_NormalSlotCount s) + 1 + card (normal_cars s - {p}) \<le> unat (m_NormalSlotMax s)"
    by (simp add: lot_inv_def)
  with unat_lt_32 [of "m_NormalSlotMax s"] have "unat (m_NormalSlotCount s + 1) = unat (m_NormalSlotCount s) + 1"
    by (intro unat_inc) linarith
  with b inv False show ?thesis
    unfolding lot_inv_def normal_cars_release [OF False]
    by (auto simp: parked_release) (simp_all add: release_slot_def)
qed

lemma lot_inv_exit: 
  assumes "lot_inv s"
  shows "lot_inv (fst (exit_car mk now x s))"
proof (cases "m_RegisteredCars s (csu_carPlate x)")
  case (Some e)
  with assms show ?thesis
    by (cases e) (auto simp: exit_car_def Let_def parked_Some intro: lot_inv_release split: sum.splits)
qed (use assms in \<open>simp add: exit_car_def\<close>)

lemma lot_inv_body: "body_step env s s' \<Longrightarrow> lot_inv s \<Longrightarrow> lot_inv s'"
  by (auto simp: body_step_def lot_inv_register lot_inv_enter lot_inv_exit)

lemma lot_inv_handle_call: "lot_inv s \<Longrightarrow> lot_inv (fst (handle_call env s m))"
  using handle_call_state [of env s m] lot_inv_body by metis

lemma lot_inv_turn: "lot_inv s \<Longrightarrow> lot_inv (fst (GateHanlder_turn env s mm))"
  using lot_inv_handle_call [of s env]
  by (auto simp: GateHanlder_turn_def split: sum.splits prod.splits) (metis fst_conv)

subsection \<open>The parking lot the bodies implement\<close>

text \<open>
  The specification: natural numbers for the counters, for each known plate where its car is, and what
  a driver is told. \<open>LeftPlace\<close> is an entry the server keeps for a car that is gone.
\<close>

datatype place = NormalPlace | HandicapPlace | LeftPlace
datatype admission = Refused | NoRoom | Slot nat
datatype departure = Stranger | Crash | Goodbye

record lot =
  free_normal :: nat
  free_handicap :: nat
  normal_capacity :: nat
  open_gates :: "string set"
  places :: "string \<rightharpoonup> place"

definition lot_enter :: "string \<Rightarrow> string \<Rightarrow> bool \<Rightarrow> lot \<Rightarrow> lot \<times> admission" where
  "lot_enter gate plate handicap l =
     (if gate \<notin> open_gates l then (l, Refused)
      else if handicap \<and> 0 < free_handicap l then
        (l\<lparr>free_handicap := free_handicap l - 1, places := (places l)(plate \<mapsto> HandicapPlace)\<rparr>,
         Slot (normal_capacity l + free_handicap l))
      else if 0 < free_normal l then
        (l\<lparr>free_normal := free_normal l - 1, places := (places l)(plate \<mapsto> NormalPlace)\<rparr>, Slot (free_normal l))
      else (l, NoRoom))"

definition lot_leave :: "string \<Rightarrow> lot \<Rightarrow> lot \<times> departure" where
  "lot_leave plate l =
     (case places l plate of
        None \<Rightarrow> (l, Stranger)
      | Some LeftPlace \<Rightarrow> (l, Crash)
      | Some HandicapPlace \<Rightarrow> (l\<lparr>free_handicap := free_handicap l + 1\<rparr>, Goodbye)
      | Some NormalPlace \<Rightarrow>
          (l\<lparr>free_normal := free_normal l + 1, places := (places l)(plate \<mapsto> LeftPlace)\<rparr>, Goodbye))"

definition place_of :: "Car option \<Rightarrow> place" where
  "place_of e = (case e of None \<Rightarrow> LeftPlace
     | Some c \<Rightarrow> if m_Handicap c = HS_Yes then HandicapPlace else NormalPlace)"

definition lot_of :: "ParkManagerServer \<Rightarrow> lot" where
  "lot_of s = \<lparr>free_normal = unat (m_NormalSlotCount s), free_handicap = unat (m_HandicapSlotCount s),
     normal_capacity = unat (m_NormalSlotMax s), open_gates = m_EnternceGates s,
     places = map_option place_of \<circ> m_RegisteredCars s\<rparr>"

text \<open>What the server answers for each outcome.\<close>

fun admission_response :: "utils \<Rightarrow> CarEnterence \<Rightarrow> admission \<Rightarrow> CarEnterenceResponse" where
  "admission_response u x Refused = \<lparr>cer_result = RS_Reject, cer_comment = no_gate_text\<rparr>"
| "admission_response u x NoRoom = \<lparr>cer_result = RS_Full, cer_comment = full_text\<rparr>"
| "admission_response u x (Slot n) =
     \<lparr>cer_result = RS_Accept,
      cer_comment = snprintf_to 250
        (welcome_text u (ce_carPlate x) (ce_enterenceGate x) (int n) (ce_enteranceTime x))\<rparr>"

text \<open>Slot numbers fit \<open>int\<close>.\<close>

definition counters_small :: "ParkManagerServer \<Rightarrow> bool" where
  "counters_small s \<longleftrightarrow> unat (m_NormalSlotMax s) + unat (m_HandicapSlotCount s) < 2 ^ 31"

lemma map_option_upd: "map_option g \<circ> m(k \<mapsto> v) = (map_option g \<circ> m)(k \<mapsto> g v)"
  by (rule ext) simp

lemma place_of_simps [simp]:
  "place_of None = LeftPlace"
  "place_of (Some c) = (if m_Handicap c = HS_Yes then HandicapPlace else NormalPlace)"
  by (simp_all add: place_of_def)

lemma lot_of_register [simp]:
  "open_gates (lot_of s) = m_EnternceGates s" "places (lot_of s) = map_option place_of \<circ> m_RegisteredCars s"
  "free_normal (lot_of s) = unat (m_NormalSlotCount s)" "free_handicap (lot_of s) = unat (m_HandicapSlotCount s)"
  "normal_capacity (lot_of s) = unat (m_NormalSlotMax s)"
  by (simp_all add: lot_of_def)

lemma normal_count_small: "lot_inv s \<Longrightarrow> counters_small s \<Longrightarrow> unat (m_NormalSlotCount s) < 2 ^ 31"
  unfolding lot_inv_def counters_small_def by linarith

lemma enter_car_accept:
  assumes "ce_enterenceGate x \<in> m_EnternceGates s" "allocate_slot (ce_handicap x) s = (int n, H, s')" "0 < n"
  shows "enter_car rnd x s =
    (s'\<lparr>m_RegisteredCars := (m_RegisteredCars s')(ce_carPlate x \<mapsto>
        Some (Car_new (of_nat rnd) (ce_carPlate x) (ce_enteranceTime x) (ce_enterenceGate x) H))\<rparr>,
     admission_response (m_untils s') x (Slot n))"
  using assms by (simp add: enter_car_def Let_def)

lemma enter_car_refines:
  fixes x :: CarEnterence
  assumes inv: "lot_inv s" and small: "counters_small s"
  defines "spec \<equiv> lot_enter (ce_enterenceGate x) (ce_carPlate x) (ce_handicap x = HS_Yes) (lot_of s)"
  shows "lot_of (fst (enter_car rnd x s)) = fst spec \<and>
    snd (enter_car rnd x s) = admission_response (m_untils s) x (snd spec)"
proof (cases "ce_enterenceGate x \<in> m_EnternceGates s")
  case gate: True
  show ?thesis
  proof (cases rule: allocate_slot_cases [of "ce_handicap x" s])
    case handicap
    let ?n = "unat (m_NormalSlotMax s) + unat (m_HandicapSlotCount s)"
    have "unat (m_NormalSlotMax s + m_HandicapSlotCount s) = ?n"
      using small unfolding counters_small_def by (rule unat_sum)
    with small have "sint (m_NormalSlotMax s + m_HandicapSlotCount s) = int ?n"
      using sint_small [of "m_NormalSlotMax s + m_HandicapSlotCount s"] by (simp only: counters_small_def)
    with handicap(3) have slot: "allocate_slot (ce_handicap x) s =
        (int ?n, HS_Yes, s\<lparr>m_HandicapSlotCount := m_HandicapSlotCount s - 1\<rparr>)" by (simp only:)
    have pos: "0 < unat (m_HandicapSlotCount s)" using handicap(2) by (simp only: unat_pos)
    then have "0 < ?n" by simp
    from enter_car_accept [OF gate slot this, of rnd] pos show ?thesis
      using gate handicap(1) unat_dec [OF handicap(2)]
      by (simp add: spec_def lot_enter_def lot_of_def map_option_upd)
  next
    case normal
    have "sint (m_NormalSlotCount s) = int (unat (m_NormalSlotCount s))"
      using normal_count_small [OF inv small] by (rule sint_small)
    with normal(3) have slot: "allocate_slot (ce_handicap x) s =
        (int (unat (m_NormalSlotCount s)), HS_No, s\<lparr>m_NormalSlotCount := m_NormalSlotCount s - 1\<rparr>)" by (simp only:)
    have pos: "0 < unat (m_NormalSlotCount s)" using normal(2) by (simp only: unat_pos)
    have "\<not> (ce_handicap x = HS_Yes \<and> 0 < unat (m_HandicapSlotCount s))"
      using normal(1) by (auto simp: unat_gt_0)
    with enter_car_accept [OF gate slot pos, of rnd] pos show ?thesis
      using gate unat_dec [OF normal(2)]
      by (auto simp: spec_def lot_enter_def lot_of_def map_option_upd)
  next
    case full
    with gate show ?thesis
      by (auto simp: spec_def lot_enter_def enter_car_def unat_gt_0)
  qed
qed (simp add: spec_def lot_enter_def enter_car_def)

text \<open>Leaving: the billing has to come to a price, and the handicap counter must not be at its last value.\<close>

definition departure_response :: "utils \<Rightarrow> string \<Rightarrow> departure \<Rightarrow> CarStatusUpdateResponse res" where
  "departure_response u payable d =
     (let answer = (\<lambda>p t. \<lparr>csr_status = RS_Exist, csr_payable = p,
                        csr_curreny = GetValueFromConfigFile u PMS_Currency, csr_comment = t\<rparr>)
      in case d of
           Stranger \<Rightarrow> Inr (answer ''0'' unknown_car_text)
         | Crash \<Rightarrow> Inl UB_null
         | Goodbye \<Rightarrow> Inr (answer payable bye_text))"

text \<open>The seconds the server bills a parked car for.\<close>

definition stay :: "libc_time \<Rightarrow> int \<Rightarrow> Car \<Rightarrow> int" where
  "stay lib now c =
     GetTimeinSeconds (lib_mktime lib) (stack_tm lib 0) (GetCurrentUTCTime now) -
     GetTimeinSeconds (lib_mktime lib) (stack_tm lib 1) (m_EnterenceTime c)"

lemma normal_count_inc:
  assumes "lot_inv s" "parked s p = Some c" "m_Handicap c \<noteq> HS_Yes"
  shows "unat (m_NormalSlotCount s + 1) = unat (m_NormalSlotCount s) + 1"
proof -
  have "p \<in> normal_cars s" using assms by (simp add: normal_cars_def)
  then have "0 < card (normal_cars s)" using finite_normal_cars [OF assms(1)] by (metis card_gt_0_iff empty_iff)
  with assms(1) unat_lt_32 [of "m_NormalSlotMax s"] show ?thesis
    unfolding lot_inv_def by (intro unat_inc) linarith
qed

lemma exit_car_refines:
  fixes x :: CarStatusUpdate
  assumes inv: "lot_inv s" and room: "unat (m_HandicapSlotCount s) + 1 < 2 ^ 32"
    and bill: "\<And>c. parked s (csu_carPlate x) = Some c \<Longrightarrow> payable_of (m_untils s) (stay lib now c) = Inr payable"
  defines "spec \<equiv> lot_leave (csu_carPlate x) (lot_of s)"
  shows "lot_of (fst (exit_car lib now x s)) = fst spec \<and>
    snd (exit_car lib now x s) = departure_response (m_untils s) payable (snd spec)"
proof (cases "m_RegisteredCars s (csu_carPlate x)")
  case None
  then show ?thesis by (simp add: spec_def lot_leave_def exit_car_def departure_response_def)
next
  case (Some e)
  show ?thesis
  proof (cases e)
    case None
    with Some show ?thesis by (simp add: spec_def lot_leave_def exit_car_def departure_response_def Let_def)
  next
    case (Some c)
    with \<open>m_RegisteredCars s _ = Some e\<close> have p: "m_RegisteredCars s (csu_carPlate x) = Some (Some c)" by simp
    then have parked: "parked s (csu_carPlate x) = Some c" by (simp add: parked_Some)
    from bill [OF this] p show ?thesis
      using normal_count_inc [OF inv parked] unat_inc [OF room]
      by (simp add: spec_def lot_leave_def exit_car_def departure_response_def Let_def stay_def
          release_slot_def lot_of_def map_option_upd)
  qed
qed

subsection \<open>No slot is lost as long as no plate enters twice\<close>

definition exact :: "ParkManagerServer \<Rightarrow> bool" where
  "exact s \<longleftrightarrow> unat (m_NormalSlotCount s) + card (normal_cars s) = unat (m_NormalSlotMax s)"

lemma exact_new: "ParkManagerServer_new loaded = Inr s \<Longrightarrow> exact s"
  by (auto simp: ParkManagerServer_new_def Let_def exact_def parked_def normal_cars_def)

lemma normal_cars_put:
  "normal_cars (s\<lparr>m_RegisteredCars := (m_RegisteredCars s)(p \<mapsto> Some c)\<rparr>) =
   (if m_Handicap c = HS_Yes then normal_cars s - {p} else insert p (normal_cars s))"
  by (auto simp: normal_cars_def parked_put)

text \<open>A car that takes a normal slot: the sum of free and taken slots drops by one if its plate was inside.\<close>

lemma enter_normal_sum:
  fixes x :: CarEnterence and rnd :: nat
  assumes inv: "lot_inv s" and gate: "ce_enterenceGate x \<in> m_EnternceGates s"
    and normal: "ce_handicap x \<noteq> HS_Yes \<or> m_HandicapSlotCount s = 0" "m_NormalSlotCount s \<noteq> 0"
  defines "s' \<equiv> fst (enter_car rnd x s)"
  shows "unat (m_NormalSlotCount s') + card (normal_cars s') =
    unat (m_NormalSlotCount s) + card (normal_cars s) - (if ce_carPlate x \<in> normal_cars s then 1 else 0)"
proof -
  have alloc: "allocate_slot (ce_handicap x) s =
      (sint (m_NormalSlotCount s), HS_No, s\<lparr>m_NormalSlotCount := m_NormalSlotCount s - 1\<rparr>)"
    using normal by (auto simp: allocate_slot_def)
  then have s': "s' = s\<lparr>m_NormalSlotCount := m_NormalSlotCount s - 1, m_RegisteredCars := (m_RegisteredCars s)(ce_carPlate x \<mapsto>
        Some (Car_new (of_nat rnd) (ce_carPlate x) (ce_enteranceTime x) (ce_enterenceGate x) HS_No))\<rparr>"
    using gate normal(2) by (simp add: s'_def enter_car_def Let_def signed_eq_0_iff)
  let ?t = "s\<lparr>m_NormalSlotCount := m_NormalSlotCount s - 1\<rparr>"
  have t: "normal_cars ?t = normal_cars s" by (rule normal_cars_cong) simp
  have "normal_cars s' = insert (ce_carPlate x) (normal_cars s)"
    using normal_cars_put [of ?t "ce_carPlate x" "Car_new _ _ _ _ HS_No"] unfolding s' t [symmetric] by simp
  moreover have "Suc (unat (m_NormalSlotCount s')) = unat (m_NormalSlotCount s)"
    using normal(2) unat_dec [OF normal(2)] unfolding s' by (simp add: unat_gt_0)
  ultimately show ?thesis
    using finite_normal_cars [OF inv] by (auto simp: card_insert_if insert_absorb)
qed

lemma exact_enter:
  assumes inv: "lot_inv s" and ex: "exact s" and new: "ce_carPlate x \<notin> normal_cars s"
  shows "exact (fst (enter_car rnd x s))"
proof (cases "ce_enterenceGate x \<in> m_EnternceGates s")
  case gate: True
  have max: "m_NormalSlotMax (fst (enter_car rnd x s)) = m_NormalSlotMax s"
    by (simp add: enter_car_def allocate_slot_def Let_def)
  show ?thesis
  proof (cases rule: allocate_slot_cases [of "ce_handicap x" s])
    case handicap
    let ?t = "s\<lparr>m_HandicapSlotCount := m_HandicapSlotCount s - 1\<rparr>"
    have t: "normal_cars ?t = normal_cars s" by (rule normal_cars_cong) simp
    have "normal_cars (fst (enter_car rnd x s)) = normal_cars s"
      using gate new normal_cars_put [of ?t "ce_carPlate x" "Car_new _ _ _ _ HS_Yes"] t
      by (simp add: enter_car_def handicap(3) Let_def)
    with ex max gate show ?thesis by (simp add: exact_def enter_car_def handicap(3) Let_def)
  next
    case normal
    with enter_normal_sum [OF inv gate normal(1,2), of rnd] ex new max show ?thesis by (simp add: exact_def)
  next
    case full
    with gate ex show ?thesis by (simp add: enter_car_def)
  qed
qed (use ex in \<open>simp add: enter_car_def\<close>)

lemma exact_release:
  assumes inv: "lot_inv s" and ex: "exact s" and p: "parked s p = Some c"
  shows "exact (release_slot p c s)"
proof (cases "m_Handicap c = HS_Yes")
  case True
  have "normal_cars (release_slot p c s) = normal_cars s"
    by (rule normal_cars_cong) (simp add: release_slot_def True)
  with ex show ?thesis by (simp add: exact_def) (simp add: release_slot_def True)
next
  case False
  with p have "p \<in> normal_cars s" by (simp add: normal_cars_def)
  with finite_normal_cars [OF inv] have "Suc (card (normal_cars s - {p})) = card (normal_cars s)"
    by (rule card_Suc_Diff1)
  with ex normal_count_inc [OF inv p False] show ?thesis
    unfolding exact_def normal_cars_release [OF False] by (simp add: release_slot_def False)
qed

lemma exact_exit: "lot_inv s \<Longrightarrow> exact s \<Longrightarrow> exact (fst (exit_car mk now x s))"
  by (auto simp: exit_car_def Let_def parked_Some intro: exact_release split: option.splits sum.splits)

lemma exact_register: "exact s \<Longrightarrow> exact (fst (register_gate name ty s))"
  by (auto simp: register_gate_def exact_def parked_def normal_cars_def)

subsection \<open>Slot numbers and stale entries\<close>

text \<open>A free slot is offered from 1 up to the maximum.\<close>

lemma normal_slot_bounds:
  assumes "lot_inv s" "counters_small s" "m_NormalSlotCount s \<noteq> 0" "h \<noteq> HS_Yes"
  shows "1 \<le> fst (allocate_slot h s) \<and> fst (allocate_slot h s) \<le> int (unat (m_NormalSlotMax s))"
proof -
  have "unat (m_NormalSlotCount s) \<le> unat (m_NormalSlotMax s)" using assms(1) by (simp add: lot_inv_def)
  moreover have "fst (allocate_slot h s) = int (unat (m_NormalSlotCount s))"
    using assms(3,4) sint_small [OF normal_count_small [OF assms(1,2)]] by (simp add: allocate_slot_def)
  moreover have "0 < unat (m_NormalSlotCount s)" using assms(3) by (simp only: unat_pos)
  ultimately show ?thesis by linarith
qed

text \<open>
  The slot number is the value of the counter: after another normal car has left, the next car is
  given the number of the car that entered last and is still inside.
\<close>

lemma slot_number_reused:
  fixes x :: CarEnterence and rnd :: nat
  assumes enter: "ce_enterenceGate x \<in> m_EnternceGates s" "ce_handicap x \<noteq> HS_Yes" "m_NormalSlotCount s \<noteq> 0"
    and other: "parked s p = Some c" "m_Handicap c \<noteq> HS_Yes" "p \<noteq> ce_carPlate x" and y: "h \<noteq> HS_Yes"
  defines "s1 \<equiv> fst (enter_car rnd x s)"
  defines "s2 \<equiv> release_slot p c s1"
  shows "parked s1 p = Some c \<and> ce_carPlate x \<in> normal_cars s2 \<and>
    fst (allocate_slot h s2) = fst (allocate_slot (ce_handicap x) s)"
proof -
  have s1: "s1 = s\<lparr>m_NormalSlotCount := m_NormalSlotCount s - 1, m_RegisteredCars := (m_RegisteredCars s)(ce_carPlate x \<mapsto>
        Some (Car_new (of_nat rnd) (ce_carPlate x) (ce_enteranceTime x) (ce_enterenceGate x) HS_No))\<rparr>"
    using enter by (simp add: s1_def enter_car_def Let_def signed_eq_0_iff allocate_slot_def)
  have "ce_carPlate x \<in> normal_cars s1" by (simp add: s1 normal_cars_def parked_def)
  then have "ce_carPlate x \<in> normal_cars s2"
    using other normal_cars_release [of c p s1] by (simp add: s2_def)
  moreover have "parked s1 p = Some c" using other by (simp add: s1 parked_def)
  moreover have "m_NormalSlotCount s2 = m_NormalSlotCount s" using other by (simp add: s2_def release_slot_def s1)
  ultimately show ?thesis using enter y by (simp add: allocate_slot_def)
qed

text \<open>A normal car that has left keeps an entry whose pointer is null.\<close>

lemma second_exit_null:
  "parked s (csu_carPlate x) = Some c \<Longrightarrow> m_Handicap c \<noteq> HS_Yes \<Longrightarrow>
   payable_of (m_untils s) (stay lib now c) = Inr payable \<Longrightarrow>
   exit_car lib' now' x (fst (exit_car lib now x s)) = (fst (exit_car lib now x s), Inl UB_null)"
  by (simp add: parked_Some exit_car_def Let_def stay_def release_slot_def)

text \<open>A handicap car stays registered: each of its exits frees one more slot.\<close>

lemma exit_handicap:
  assumes "parked s (csu_carPlate x) = Some c" "m_Handicap c = HS_Yes"
    "payable_of (m_untils s) (stay lib now c) = Inr payable"
  shows "fst (exit_car lib now x s) = s\<lparr>m_HandicapSlotCount := m_HandicapSlotCount s + 1\<rparr>"
  using assms by (simp add: parked_Some exit_car_def Let_def stay_def release_slot_def)

fun exits :: "CarStatusUpdate \<Rightarrow> (libc_time \<times> int) list \<Rightarrow> ParkManagerServer \<Rightarrow> ParkManagerServer" where
  "exits x [] s = s"
| "exits x ((lib, now) # turns) s = exits x turns (fst (exit_car lib now x s))"

lemma exits_handicap:
  assumes "parked s (csu_carPlate x) = Some c" "m_Handicap c = HS_Yes"
    "\<forall>(lib, now)\<in>set turns. is_ok (payable_of (m_untils s) (stay lib now c))"
  shows "exits x turns s =
    s\<lparr>m_HandicapSlotCount := m_HandicapSlotCount s + of_nat (length turns)\<rparr>"
  using assms
proof (induction turns arbitrary: s)
  case (Cons turn turns)
  obtain lib now where turn: "turn = (lib, now)" by force
  with Cons.prems(3) obtain q where q: "payable_of (m_untils s) (stay lib now c) = Inr q" by (auto simp: is_ok_def)
  let ?s = "s\<lparr>m_HandicapSlotCount := m_HandicapSlotCount s + 1\<rparr>"
  have "parked ?s (csu_carPlate x) = Some c" using Cons.prems(1) by (simp add: parked_def)
  with Cons.IH [of ?s] Cons.prems exit_handicap [OF Cons.prems(1,2) q] show ?case by (simp add: turn algebra_simps)
qed simp

subsection \<open>The price of a stay\<close>

text \<open>A configuration the server can bill with: whole free minutes, a finite price.\<close>

definition tariff :: "utils \<Rightarrow> int \<Rightarrow> rat \<Rightarrow> bool" where
  "tariff u freeMin price \<longleftrightarrow>
     stoi (GetValueFromConfigFile u PMS_FreeDurationinMin) = Inr freeMin \<and> 0 \<le> freeMin \<and> freeMin * 60 \<le> int_max \<and>
     atof (GetValueFromConfigFile u PMS_PricePerMin) = Fin price \<and> 0 \<le> price"

definition amount :: "rat \<Rightarrow> int \<Rightarrow> int" where
  "amount price minutes = round_away (fl64 (price * fl64 (of_int minutes)))"

lemma payable_free: "tariff u f p \<Longrightarrow> D \<le> f * 60 \<Longrightarrow> payable_of u D = Inr ''0''"
  by (simp add: payable_of_def tariff_def free_seconds_def int_min_def)

lemma sdiv_pos: "0 \<le> (D::int) \<Longrightarrow> D sdiv 60 = D div 60"
  by (cases "D = 0") (simp_all add: signed_divide_int_def)

lemma amount_nonneg: "0 \<le> p \<Longrightarrow> 0 \<le> m \<Longrightarrow> 0 \<le> amount p m"
  by (simp add: amount_def round_away_nonneg fl64_nonneg)

lemma amount_mono: "0 \<le> p \<Longrightarrow> 0 \<le> m \<Longrightarrow> m \<le> m' \<Longrightarrow> amount p m \<le> amount p m'"
  unfolding amount_def
  by (intro round_away_mono fl64_mono fl64_nonneg mult_left_mono mult_nonneg_nonneg) simp_all

lemma round_away_ge: "0 \<le> q \<Longrightarrow> q < of_int (round_away q) + 1"
proof -
  have "q + 1 / 2 < of_int \<lfloor>q + 1 / 2\<rfloor> + 1" by linarith
  then show "0 \<le> q \<Longrightarrow> ?thesis" by (simp add: round_away_def)
qed

lemma round_to_int_double:
  assumes "0 \<le> q" "round_away (fl64 q) \<le> int_max"
  shows "round_to_int (to_double q) = Inr (round_away (fl64 q))"
proof -
  have n: "0 \<le> fl64 q" using assms(1) by (rule fl64_nonneg)
  have "fl64 q < of_int (round_away (fl64 q)) + 1" using n by (rule round_away_ge)
  also have "\<dots> \<le> of_int int_max + 1" using assms(2) by simp
  also have "\<dots> \<le> 2 ^ 31" by (simp add: int_max_def)
  also have "\<dots> < (2 ^ 1024 :: rat)" by (rule power_strict_increasing) simp_all
  finally have "fl64 q < 2 ^ 1024" .
  moreover have "- (2 ^ 1024) < fl64 q" by (rule less_le_trans [OF _ n]) simp
  moreover have "int_min \<le> round_away (fl64 q)" using round_away_nonneg [OF n] by (simp add: int_min_def)
  ultimately show ?thesis using assms(2) by (simp add: to_double_def Let_def del: power_numeral)
qed

lemma payable_charged:
  assumes t: "tariff u f p" and D: "f * 60 < D" and fits: "amount p (D div 60 - f) \<le> int_max"
  shows "payable_of u D = Inr (to_string (amount p (D div 60 - f)))"
proof -
  have m: "0 \<le> D div 60 - f" using D by linarith
  have "0 \<le> D" using t D unfolding tariff_def by linarith
  moreover have "round_to_int (to_double (p * fl64 (of_int (D div 60 - f)))) = Inr (amount p (D div 60 - f))"
    using fits t m unfolding amount_def
    by (intro round_to_int_double mult_nonneg_nonneg fl64_nonneg) (simp_all add: tariff_def)
  ultimately show ?thesis
    using t D by (simp add: payable_of_def tariff_def free_seconds_def int_min_def sdiv_pos)
qed

text \<open>A price in whole units is exact.\<close>

lemma amount_whole:
  assumes "\<bar>m\<bar> \<le> 2 ^ 53" "\<bar>n * m\<bar> \<le> 2 ^ 53"
  shows "amount (of_int n) m = n * m"
proof -
  have "fl64 (of_int n * of_int m) = of_int (n * m)"
    using fl64_of_int [OF assms(2)] by (simp only: of_int_mult)
  then show ?thesis using fl64_of_int [OF assms(1)] by (simp only: amount_def round_away_of_int)
qed

text \<open>
  A car whose entering time is a client's stamp pays for the seconds that really went by, if the two
  flags \<open>tm_isdst\<close> on the stack have the same effect.
\<close>

lemma stay_stamped:
  assumes "m_EnterenceTime c = GetCurrentUTCTime t" "fixed_zone (lib_mktime lib) off dst"
    "0 \<le> t" "t < end_of_9999" "0 \<le> now" "now < end_of_9999"
  shows "stay lib now c = now - t + dst_shift dst (stack_tm lib 1) - dst_shift dst (stack_tm lib 0)"
  using elapsed_stamps [OF assms(2-6)] assms(1) by (simp add: stay_def)

text \<open>A longer stay never costs less.\<close>

definition price :: "int \<Rightarrow> rat \<Rightarrow> int \<Rightarrow> int" where
  "price f p D = (if f * 60 < D then amount p (D div 60 - f) else 0)"

lemma to_string_0: "to_string 0 = ''0''"
  by code_simp

lemma payable_price:
  assumes "tariff u f p" "price f p D \<le> int_max"
  shows "payable_of u D = Inr (to_string (price f p D))"
  using assms payable_free payable_charged by (auto simp: price_def to_string_0)

lemma price_mono:
  assumes "0 \<le> p" "D \<le> D'"
  shows "price f p D \<le> price f p D'"
proof (cases "f * 60 < D")
  case True
  then have "0 \<le> D div 60 - f" "D div 60 - f \<le> D' div 60 - f"
    using assms(2) by (linarith, simp add: zdiv_mono1)
  with True assms show ?thesis by (simp add: price_def amount_mono)
next
  case False
  have "f * 60 < D' \<Longrightarrow> 0 \<le> D' div 60 - f" by linarith
  with False assms(1) show ?thesis by (auto simp: price_def amount_nonneg)
qed

text \<open>The end of a whole minute: the price is that of the minute, whatever the seconds.\<close>

lemma price_minutes: "0 \<le> r \<Longrightarrow> r < 60 \<Longrightarrow> f < m \<Longrightarrow> price f p (m * 60 + r) = amount p (m - f)"
  by (simp add: price_def)

text \<open>A plate that is inside in a normal slot and enters again takes another slot, which no exit gives back.\<close>

lemma entering_twice_loses_a_slot:
  fixes x :: CarEnterence and rnd :: nat
  assumes "lot_inv s" "ce_enterenceGate x \<in> m_EnternceGates s" "ce_carPlate x \<in> normal_cars s"
    and "ce_handicap x \<noteq> HS_Yes \<or> m_HandicapSlotCount s = 0" "m_NormalSlotCount s \<noteq> 0"
  defines "s' \<equiv> fst (enter_car rnd x s)"
  shows "unat (m_NormalSlotCount s') + card (normal_cars s') + 1 = unat (m_NormalSlotCount s) + card (normal_cars s)"
proof -
  have "0 < unat (m_NormalSlotCount s)" using assms(5) by (simp only: unat_pos)
  with enter_normal_sum [OF assms(1,2,4,5), of rnd] assms(3) show ?thesis unfolding s'_def by simp
qed

end
