(* ===== verification/ShmObj.thy ===== *)
theory ShmObj
  imports CppString Interfaces
begin

text \<open>
  \<open>C_BoostShmObj\<close> (\<open>src/CommonLibraries/BoostShmObj.cpp\<close>): named values in a shared-memory array of
  fixed-size elements. The fields are kept as the byte arrays they are, so that a C string read from
  a field runs on into the memory after it when the field holds no NUL.
\<close>

definition MAXLEN_NAME :: nat where "MAXLEN_NAME = 50"
definition MAXLEN_VALUE :: nat where "MAXLEN_VALUE = 5000"
definition MAXNUMBER_OBJECTS :: nat where "MAXNUMBER_OBJECTS = 50"
definition SETVALUE_OK :: int where "SETVALUE_OK = 0"
definition SETVALUE_FAIL :: int where "SETVALUE_FAIL = 1"

record C_sharedObjectElement =
  el_name :: string
  el_value :: string

record C_BoostShmObj =
  m_pSharedObject :: "C_sharedObjectElement list"
  m_numberOfElements :: nat

subsection \<open>C strings in the array\<close>

text \<open>\<open>strncpy(dst, src, n)\<close>: the whole destination; NUL padding when \<open>src\<close> is shorter.\<close>

definition strncpy :: "nat \<Rightarrow> string \<Rightarrow> string" where
  "strncpy n src = take n src @ replicate (n - length src) nul"

text \<open>The bytes from a place in the array to its end, read as a C string.\<close>

definition c_read :: "string \<Rightarrow> string res" where
  "c_read m = (if nul \<in> set m then Inr (c_str m) else Inl UB_index)"

text \<open>\<open>strcmp(m, s) == 0\<close> for memory \<open>m\<close> and a C string \<open>s\<close>.\<close>

fun strcmp_eq :: "string \<Rightarrow> string \<Rightarrow> bool res" where
  "strcmp_eq [] s = Inl UB_index"
| "strcmp_eq (c # m) [] = Inr (c = nul)"
| "strcmp_eq (c # m) (d # s) = (if c = d then strcmp_eq m s else Inr False)"

definition flat :: "C_sharedObjectElement list \<Rightarrow> string" where
  "flat es = concat (map (\<lambda>e. el_name e @ el_value e) es)"

subsection \<open>Operations\<close>

definition zero_element :: C_sharedObjectElement where
  "zero_element = \<lparr>el_name = replicate MAXLEN_NAME nul, el_value = replicate MAXLEN_VALUE nul\<rparr>"

text \<open>The constructors; the memory is cleared even when another object has it mapped.\<close>

definition C_BoostShmObj_sized :: "nat \<Rightarrow> C_BoostShmObj" where
  "C_BoostShmObj_sized elementNumber =
     \<lparr>m_pSharedObject = replicate elementNumber zero_element, m_numberOfElements = elementNumber\<rparr>"

definition C_BoostShmObj_new :: C_BoostShmObj where
  "C_BoostShmObj_new = C_BoostShmObj_sized MAXNUMBER_OBJECTS"

definition write_element :: "string \<Rightarrow> string \<Rightarrow> C_sharedObjectElement" where
  "write_element valueName newValue =
     \<lparr>el_name = strncpy MAXLEN_NAME valueName, el_value = strncpy MAXLEN_VALUE newValue\<rparr>"

text \<open>The loop of \<open>SetValue\<close>; \<open>None\<close> when no element is free or has the name.\<close>

fun set_loop :: "C_sharedObjectElement list \<Rightarrow> string \<Rightarrow> string \<Rightarrow> C_sharedObjectElement list option res" where
  "set_loop [] valueName newValue = Inr None"
| "set_loop (e # es) valueName newValue =
     (if el_name e ! 0 = nul then Inr (Some (write_element valueName newValue # es))
      else bindR (strcmp_eq (flat (e # es)) valueName) (\<lambda>eq.
        if eq then Inr (Some (write_element valueName newValue # es))
        else bindR (set_loop es valueName newValue) (\<lambda>r. Inr (map_option (Cons e) r))))"

text \<open>\<open>sem_ok\<close>: whether \<open>sem_wait\<close> succeeded. The result is the return code and the object.\<close>

definition SetValue :: "bool \<Rightarrow> C_BoostShmObj \<Rightarrow> string \<Rightarrow> string \<Rightarrow> (int \<times> C_BoostShmObj) res" where
  "SetValue sem_ok shm valueName newValue =
     (if \<not> sem_ok then Inr (SETVALUE_FAIL, shm)
      else bindR (set_loop (m_pSharedObject shm) valueName newValue) (\<lambda>r.
        case r of Some es \<Rightarrow> Inr (SETVALUE_OK, shm\<lparr>m_pSharedObject := es\<rparr>)
        | None \<Rightarrow> Inr (SETVALUE_FAIL, shm)))"

text \<open>The loop of \<open>GetValue\<close>.\<close>

fun get_loop :: "C_sharedObjectElement list \<Rightarrow> string \<Rightarrow> string option res" where
  "get_loop [] valueName = Inr None"
| "get_loop (e # es) valueName =
     bindR (strcmp_eq (flat (e # es)) valueName) (\<lambda>eq.
       if eq then bindR (c_read (el_value e @ flat es)) (\<lambda>v. Inr (Some v))
       else get_loop es valueName)"

text \<open>\<open>value\<close> is the caller's string, untouched when the semaphore fails.\<close>

definition GetValue :: "bool \<Rightarrow> C_BoostShmObj \<Rightarrow> string \<Rightarrow> string \<Rightarrow> (int \<times> string) res" where
  "GetValue sem_ok shm valueName val =
     (if \<not> sem_ok then Inr (SETVALUE_FAIL, val)
      else bindR (get_loop (m_pSharedObject shm) valueName) (\<lambda>r.
        case r of Some v \<Rightarrow> Inr (SETVALUE_OK, v) | None \<Rightarrow> Inr (SETVALUE_FAIL, [])))"

definition SetInt :: "bool \<Rightarrow> C_BoostShmObj \<Rightarrow> string \<Rightarrow> int \<Rightarrow> (int \<times> C_BoostShmObj) res" where
  "SetInt sem_ok shm valueName newValue = SetValue sem_ok shm valueName (to_string newValue)"

definition GetInt :: "bool \<Rightarrow> C_BoostShmObj \<Rightarrow> string \<Rightarrow> int res" where
  "GetInt sem_ok shm valueName =
     bindR (GetValue sem_ok shm valueName []) (\<lambda>(r, v).
       if r = SETVALUE_OK then stoi v else Inr 0)"

text \<open>
  The program calls neither of the next two: how a stream prints a float and how \<open>std::stof\<close> reads one
  are arguments.
\<close>

definition SetFloat :: "('f \<Rightarrow> string) \<Rightarrow> bool \<Rightarrow> C_BoostShmObj \<Rightarrow> string \<Rightarrow> 'f \<Rightarrow> (int \<times> C_BoostShmObj) res" where
  "SetFloat print sem_ok shm valueName newValue = SetValue sem_ok shm valueName (print newValue)"

definition GetFloat :: "(string \<Rightarrow> 'f::zero res) \<Rightarrow> bool \<Rightarrow> C_BoostShmObj \<Rightarrow> string \<Rightarrow> 'f res" where
  "GetFloat stof sem_ok shm valueName =
     bindR (GetValue sem_ok shm valueName []) (\<lambda>(r, v).
       if r = SETVALUE_OK then stof v else Inr 0)"

text \<open>
  \<open>Remove\<close> takes the names of the memory and of its semaphore away; what is mapped stays. The state is
  the list of names of shared memory and of semaphores the system has.
\<close>

definition Remove :: "bool \<Rightarrow> string \<Rightarrow> string list \<times> string list \<Rightarrow> string list \<times> string list" where
  "Remove sem_ok m_name = (\<lambda>(memories, semaphores).
     if sem_ok then (removeAll m_name memories, removeAll (m_name @ ''::Guard'') semaphores)
     else (memories, semaphores))"

subsection \<open>Names and values that fit\<close>

definition fits :: "nat \<Rightarrow> string \<Rightarrow> bool" where
  "fits n s \<longleftrightarrow> nul \<notin> set s \<and> length s < n"

definition ok_name :: "string \<Rightarrow> bool" where "ok_name k \<longleftrightarrow> k \<noteq> [] \<and> fits MAXLEN_NAME k"
definition ok_value :: "string \<Rightarrow> bool" where "ok_value v \<longleftrightarrow> fits MAXLEN_VALUE v"

lemma strncpy_fits: "fits n s \<Longrightarrow> \<exists>m. strncpy n s = s @ nul # replicate m nul \<and> m + Suc (length s) = n"
proof -
  assume f: "fits n s"
  then obtain m where m: "n - length s = Suc m" using not0_implies_Suc [of "n - length s"] by (auto simp: fits_def)
  with f show ?thesis by (intro exI [of _ m]) (auto simp: strncpy_def fits_def)
qed

lemma length_strncpy [simp]: "length (strncpy n s) = n"
  by (simp add: strncpy_def)

lemma c_read_terminated: "nul \<notin> set s \<Longrightarrow> c_read (s @ nul # m) = Inr s"
  by (auto simp: c_read_def c_str_def intro!: takeWhile_append_stop)

lemma c_read_strncpy: "fits n s \<Longrightarrow> c_read (strncpy n s @ m) = Inr s"
  using strncpy_fits [of n s] by (auto simp: fits_def c_read_terminated)

lemma strcmp_eq_terminated:
  "nul \<notin> set s \<Longrightarrow> nul \<notin> set t \<Longrightarrow> strcmp_eq (s @ nul # m) t = Inr (s = t)"
proof (induction s arbitrary: t)
  case Nil
  then show ?case by (cases t) auto
next
  case (Cons c s)
  then show ?case by (cases t) auto
qed

lemma strcmp_eq_strncpy: "fits n s \<Longrightarrow> nul \<notin> set t \<Longrightarrow> strcmp_eq (strncpy n s @ m) t = Inr (s = t)"
  using strncpy_fits [of n s] by (auto simp: fits_def strcmp_eq_terminated)

lemma zero_element_write: "zero_element = write_element [] []"
  by (simp add: zero_element_def write_element_def strncpy_def)

lemma strcmp_eq_write:
  "fits MAXLEN_NAME k \<Longrightarrow> nul \<notin> set k' \<Longrightarrow> strcmp_eq (flat (write_element k v # es)) k' = Inr (k = k')"
  by (simp add: flat_def write_element_def strcmp_eq_strncpy)

lemma write_element_free:
  "fits MAXLEN_NAME k \<Longrightarrow> el_name (write_element k v) ! 0 = nul \<longleftrightarrow> k = []"
  by (cases k) (auto simp: write_element_def strncpy_def fits_def MAXLEN_NAME_def)

subsection \<open>The abstract store\<close>

text \<open>
  A well-formed array is a list of bindings with distinct, non-empty names, followed by cleared
  elements.
\<close>

definition represents :: "C_BoostShmObj \<Rightarrow> (string \<times> string) list \<Rightarrow> bool" where
  "represents shm kvs \<longleftrightarrow>
     m_pSharedObject shm = map (\<lambda>(k, v). write_element k v) kvs
       @ replicate (m_numberOfElements shm - length kvs) zero_element
     \<and> length kvs \<le> m_numberOfElements shm \<and> distinct (map fst kvs)
     \<and> (\<forall>(k, v)\<in>set kvs. ok_name k \<and> ok_value v)"

lemma represents_new: "represents (C_BoostShmObj_sized n) []"
  by (simp add: represents_def C_BoostShmObj_sized_def)

text \<open>What \<open>SetValue\<close> does to the bindings.\<close>

fun put :: "string \<Rightarrow> string \<Rightarrow> (string \<times> string) list \<Rightarrow> (string \<times> string) list" where
  "put k v [] = [(k, v)]"
| "put k v ((k', v') # kvs) = (if k = k' then (k, v) # kvs else (k', v') # put k v kvs)"

lemma map_of_put: "map_of (put k v kvs) = (map_of kvs)(k \<mapsto> v)"
  by (induction kvs) auto

lemma set_put: "fst ` set (put k v kvs) = insert k (fst ` set kvs)"
  by (induction k v kvs rule: put.induct) (simp_all add: insert_commute)

lemma put_keys: "set (put k v kvs) \<subseteq> insert (k, v) (set kvs)"
  by (induction k v kvs rule: put.induct) auto

lemma distinct_put: "distinct (map fst kvs) \<Longrightarrow> distinct (map fst (put k v kvs))"
  using set_put by (induction kvs) force+

lemma length_put: "length (put k v kvs) = (if k \<in> fst ` set kvs then length kvs else Suc (length kvs))"
  by (induction k v kvs rule: put.induct) simp_all

lemma set_loop_bindings:
  assumes "\<forall>(k, v)\<in>set kvs. ok_name k \<and> ok_value v" "ok_name k"
  shows "set_loop (map (\<lambda>(k, v). write_element k v) kvs @ replicate m zero_element) k v =
    Inr (if k \<in> fst ` set kvs then Some (map (\<lambda>(k, v). write_element k v) (put k v kvs) @ replicate m zero_element)
         else if m = 0 then None
         else Some (map (\<lambda>(k, v). write_element k v) (put k v kvs) @ replicate (m - 1) zero_element))"
  using assms
proof (induction kvs)
  case Nil
  then show ?case by (cases m) (auto simp: zero_element_write write_element_free fits_def MAXLEN_NAME_def)
next
  case (Cons kv kvs)
  obtain k' v' where kv: "kv = (k', v')" by force
  with Cons.prems have ok: "k' \<noteq> []" "fits MAXLEN_NAME k'" "nul \<notin> set k" by (auto simp: ok_name_def fits_def)
  show ?case using Cons kv ok by (auto simp: write_element_free strcmp_eq_write)
qed

lemma get_loop_bindings:
  assumes "\<forall>(k, v)\<in>set kvs. ok_name k \<and> ok_value v" "ok_name k"
  shows "get_loop (map (\<lambda>(k, v). write_element k v) kvs @ replicate m zero_element) k = Inr (map_of kvs k)"
  using assms
proof (induction kvs)
  case Nil
  then have "[] \<noteq> k" "nul \<notin> set k" by (auto simp: ok_name_def fits_def)
  then have "get_loop (replicate m zero_element) k = Inr None"
    by (induction m) (simp_all add: zero_element_write strcmp_eq_write fits_def MAXLEN_NAME_def)
  then show ?case by simp
next
  case (Cons kv kvs)
  obtain k' v' where kv: "kv = (k', v')" by force
  with Cons.prems have ok: "fits MAXLEN_NAME k'" "nul \<notin> set k" "fits MAXLEN_VALUE v'"
    by (auto simp: ok_name_def ok_value_def fits_def)
  show ?case
    using Cons kv ok c_read_strncpy [of MAXLEN_VALUE v']
    by (auto simp: strcmp_eq_write) (simp add: write_element_def)
qed

lemma SetValue_represents:
  assumes "represents shm kvs" "ok_name k" "ok_value v"
  shows "\<exists>shm'. SetValue True shm k v =
      Inr (if k \<in> fst ` set kvs \<or> length kvs < m_numberOfElements shm then SETVALUE_OK else SETVALUE_FAIL, shm') \<and>
    m_numberOfElements shm' = m_numberOfElements shm \<and>
    represents shm' (if k \<in> fst ` set kvs \<or> length kvs < m_numberOfElements shm then put k v kvs else kvs)"
proof -
  note r = assms(1) [unfolded represents_def]
  from r have "\<forall>(k, v)\<in>set kvs. ok_name k \<and> ok_value v" by blast
  note loop = set_loop_bindings [OF this assms(2), of "m_numberOfElements shm - length kvs" v]
  have ok: "\<forall>(k', v')\<in>set (put k v kvs). ok_name k' \<and> ok_value v'"
    using r assms(2,3) put_keys [of k v kvs] by blast
  show ?thesis
    using r loop ok by (auto simp: SetValue_def represents_def distinct_put length_put)
qed

lemma GetValue_represents:
  assumes "represents shm kvs" "ok_name k"
  shows "GetValue True shm k val =
    Inr (case map_of kvs k of Some v \<Rightarrow> (SETVALUE_OK, v) | None \<Rightarrow> (SETVALUE_FAIL, []))"
proof -
  note r = assms(1) [unfolded represents_def]
  then have "get_loop (m_pSharedObject shm) k = Inr (map_of kvs k)" using get_loop_bindings assms(2) by simp
  then show ?thesis by (simp add: GetValue_def split: option.splits)
qed

subsection \<open>A keyed store\<close>

definition shm_get :: "C_BoostShmObj \<Rightarrow> string \<Rightarrow> string option" where
  "shm_get shm k = (case GetValue True shm k [] of
     Inr (r, v) \<Rightarrow> if r = SETVALUE_OK then Some v else None | Inl _ \<Rightarrow> None)"

definition shm_set :: "C_BoostShmObj \<Rightarrow> string \<Rightarrow> string \<Rightarrow> C_BoostShmObj \<times> bool" where
  "shm_set shm k v = (case SetValue True shm k v of
     Inr (r, shm') \<Rightarrow> (shm', r = SETVALUE_OK) | Inl _ \<Rightarrow> (shm, False))"

definition shm_inv :: "C_BoostShmObj \<Rightarrow> bool" where
  "shm_inv shm \<longleftrightarrow> (\<exists>kvs. represents shm kvs)"

lemma codes [simp]: "SETVALUE_OK \<noteq> SETVALUE_FAIL" "SETVALUE_FAIL \<noteq> SETVALUE_OK"
  by (simp_all add: SETVALUE_OK_def SETVALUE_FAIL_def)

lemma shm_get_represents: "represents shm kvs \<Longrightarrow> ok_name k \<Longrightarrow> shm_get shm k = map_of kvs k"
  by (simp add: shm_get_def GetValue_represents split: option.splits)

lemma shm_set_represents:
  assumes "represents shm kvs" "ok_name k" "ok_value v" "shm_set shm k v = (shm', b)"
  shows "b \<longleftrightarrow> k \<in> fst ` set kvs \<or> length kvs < m_numberOfElements shm"
    and "represents shm' (if b then put k v kvs else kvs)"
    and "\<not> b \<Longrightarrow> shm' = shm"
    and "m_numberOfElements shm' = m_numberOfElements shm"
proof -
  let ?room = "k \<in> fst ` set kvs \<or> length kvs < m_numberOfElements shm"
  from SetValue_represents [OF assms(1-3)] obtain s where
    s: "SetValue True shm k v = Inr (if ?room then SETVALUE_OK else SETVALUE_FAIL, s)"
    "m_numberOfElements s = m_numberOfElements shm" "represents s (if ?room then put k v kvs else kvs)" by blast
  from s(1) assms(4) have b: "b \<longleftrightarrow> ?room" and s': "shm' = s" by (auto simp: shm_set_def split: if_splits)
  show "b \<longleftrightarrow> ?room" by (rule b)
  show "represents shm' (if b then put k v kvs else kvs)" using s(3) unfolding s' b .
  show "m_numberOfElements shm' = m_numberOfElements shm" using s(2) s' by simp
  show "\<not> b \<Longrightarrow> shm' = shm"
    using s(1) unfolding b s' by (auto simp: SetValue_def split: if_splits option.splits)
qed

interpretation shm: kv_store shm_inv shm_get shm_set "(=)" ok_name ok_value
proof unfold_locales
  fix s k v s' b
  assume "shm_inv s" "ok_name k" "ok_value v" "shm_set s k v = (s', b)"
  then show "shm_inv s'" unfolding shm_inv_def using shm_set_represents(2) by blast
next
  fix s k v s' k'
  assume a: "shm_inv s" "ok_name k" "ok_value v" "shm_set s k v = (s', True)" "ok_name k'"
  then obtain kvs where kvs: "represents s kvs" by (auto simp: shm_inv_def)
  from shm_set_represents(2) [OF this a(2-4)] have "represents s' (put k v kvs)" by simp
  then show "shm_get s' k' = (if k = k' then Some v else shm_get s k')"
    using kvs a(5) by (simp add: shm_get_represents map_of_put)
next
  fix s k v s'
  assume "shm_inv s" "ok_name k" "ok_value v" "shm_set s k v = (s', False)"
  then show "s' = s" unfolding shm_inv_def using shm_set_represents(3) by blast
qed auto

text \<open>
  What \<open>SetValue\<close> returns depends on the names in use alone: a name in the table is overwritten, a new one
  takes a free element, and only a new name in a full table is refused.
\<close>

definition shm_names :: "C_BoostShmObj \<Rightarrow> string set" where
  "shm_names shm = {k. ok_name k \<and> shm_get shm k \<noteq> None}"

lemma shm_names_represents:
  assumes "represents shm kvs"
  shows "shm_names shm = fst ` set kvs" "card (shm_names shm) = length kvs"
proof -
  have ok: "ok_name k" if "k \<in> fst ` set kvs" for k using assms that by (auto simp: represents_def)
  show names: "shm_names shm = fst ` set kvs"
  proof (rule set_eqI)
    fix k
    show "k \<in> shm_names shm \<longleftrightarrow> k \<in> fst ` set kvs"
      unfolding shm_names_def mem_Collect_eq
      using ok [of k] shm_get_represents [OF assms, of k] map_of_eq_None_iff [of kvs k] by metis
  qed
  have "distinct (map fst kvs)" using assms by (simp add: represents_def)
  then show "card (shm_names shm) = length kvs"
    unfolding names using distinct_card [of "map fst kvs"] by simp
qed

lemma SetValue_exact:
  assumes "shm_inv shm" "ok_name k" "ok_value v" "ok_name k'"
  shows "\<exists>shm'. shm_inv shm' \<and> m_numberOfElements shm' = m_numberOfElements shm \<and>
    (if shm_get shm k \<noteq> None \<or> card (shm_names shm) < m_numberOfElements shm
     then SetValue True shm k v = Inr (SETVALUE_OK, shm') \<and> shm_get shm' k' = (if k = k' then Some v else shm_get shm k')
     else SetValue True shm k v = Inr (SETVALUE_FAIL, shm') \<and> shm' = shm)"
proof -
  from assms(1) obtain kvs where kvs: "represents shm kvs" by (auto simp: shm_inv_def)
  let ?room = "k \<in> fst ` set kvs \<or> length kvs < m_numberOfElements shm"
  from SetValue_represents [OF kvs assms(2,3)] obtain shm' where
    s: "SetValue True shm k v = Inr (if ?room then SETVALUE_OK else SETVALUE_FAIL, shm')" by blast
  then have set: "shm_set shm k v = (shm', ?room)" by (auto simp: shm_set_def)
  have room: "shm_get shm k \<noteq> None \<or> card (shm_names shm) < m_numberOfElements shm \<longleftrightarrow> ?room"
    using shm_names_represents [OF kvs] assms(2) by (auto simp: shm_names_def)
  note inv = shm.set_inv [OF assms(1-3) set] and same = shm_set_represents(4) [OF kvs assms(2,3) set]
  show ?thesis
  proof (cases ?room)
    case True
    with set have "shm_set shm k v = (shm', True)" by simp
    from shm.get_set [OF assms(1-3) this assms(4)] True s inv same room show ?thesis by (intro exI [of _ shm']) simp
  next
    case False
    then have "shm' = shm" using shm_set_represents(3) [OF kvs assms(2,3) set] by simp
    with False s inv room show ?thesis by (intro exI [of _ shm']) simp
  qed
qed

lemma shm_names_new: "shm_names (C_BoostShmObj_sized n) = {}" "m_numberOfElements (C_BoostShmObj_sized n) = n"
  using shm_names_represents(1) [OF represents_new, of n] by (simp_all add: C_BoostShmObj_sized_def)

text \<open>Floats come back if their text is short enough and \<open>stof\<close> reads it; integers always.\<close>

lemma SetFloat_GetFloat:
  assumes "shm_inv shm" "ok_name k" "ok_value (print x)" "stof (print x) = Inr x"
    and "SetFloat print True shm k x = Inr (SETVALUE_OK, shm')"
  shows "GetFloat stof True shm' k = Inr x"
proof -
  from assms(1) obtain kvs where kvs: "represents shm kvs" by (auto simp: shm_inv_def)
  from assms(5) have "shm_set shm k (print x) = (shm', True)" by (simp add: SetFloat_def shm_set_def)
  from shm_set_represents(2) [OF kvs assms(2,3) this] have "represents shm' (put k (print x) kvs)" by simp
  from GetValue_represents [OF this assms(2)] assms(4) show ?thesis by (simp add: GetFloat_def map_of_put)
qed

lemma SetInt_GetInt:
  assumes "shm_inv shm" "ok_name k" "int_min \<le> i" "i \<le> int_max" "SetInt True shm k i = Inr (SETVALUE_OK, shm')"
  shows "GetInt True shm' k = Inr i"
proof -
  have "nul \<notin> set (to_string i)" by (auto dest: to_string_chars simp: nul_def is_digit_def)
  moreover have "length (to_string i) < MAXLEN_VALUE"
    using length_to_string [OF assms(3,4)] by (simp add: MAXLEN_VALUE_def)
  ultimately have v: "ok_value (to_string i)" by (simp add: ok_value_def fits_def)
  with SetFloat_GetFloat [of shm k to_string i stoi shm'] assms show ?thesis
    by (simp add: SetInt_def SetFloat_def GetInt_def GetFloat_def stoi_to_string)
qed

end
