(* ===== verification/WsServer.thy ===== *)
theory WsServer
  imports ShmObj MessageManager
begin

text \<open>
  \<open>WebSocketServer\<close> (\<open>src/ParkManager/WebSocketServer.cpp\<close>): the handlers the websocketpp endpoint calls
  when a connection opens, closes or delivers a message, and the operations the park manager calls. A
  connection handle is a number; what the endpoint reports (the uri of a connection, the error code of
  a send) is an argument. \<open>RunServer\<close> of \<open>ParkManagerServer.cpp\<close>, which watches the status these
  handlers publish in shared memory, is here too.
\<close>

subsection \<open>State\<close>

text \<open>\<open>enum WebSocketStatus\<close> (\<open>WebScoket.h\<close>).\<close>

definition INIT :: int where "INIT = 0"
definition CONNECTING :: int where "CONNECTING = 1"
definition OPEN :: int where "OPEN = 2"
definition FAILED :: int where "FAILED = 3"
definition CLOSE :: int where "CLOSE = 4"

lemmas status_defs = INIT_def CONNECTING_def OPEN_def FAILED_def CLOSE_def

record WebSocketServer =
  m_port :: int
  m_status :: int
  m_websocketMessage :: string
  m_connections :: "string \<rightharpoonup> nat"

definition status_key :: string where "status_key = ''WebsocketServerStatus''"

text \<open>\<open>uri + "#" + std::to_string(m_status)\<close>.\<close>

definition status_value :: "string \<Rightarrow> int \<Rightarrow> string" where
  "status_value uri st = uri @ CHR 0x23 # to_string st"

text \<open>Every handler ends by publishing the status; the return code of \<open>SetValue\<close> is not looked at.\<close>

definition publish :: "bool \<Rightarrow> string \<Rightarrow> C_BoostShmObj \<Rightarrow> C_BoostShmObj res" where
  "publish sem_ok v shm = bindR (SetValue sem_ok shm status_key (c_str v)) (\<lambda>(_, shm'). Inr shm')"

text \<open>The constructor maps the shared memory and, with that, clears it.\<close>

definition WebSocketServer_new :: "bool \<Rightarrow> int \<Rightarrow> WebSocketServer \<times> C_BoostShmObj res" where
  "WebSocketServer_new sem_ok port =
     (\<lparr>m_port = port, m_status = INIT, m_websocketMessage = [], m_connections = Map.empty\<rparr>,
      publish sem_ok (status_value [] INIT) C_BoostShmObj_new)"

subsection \<open>Handlers\<close>

text \<open>\<open>std::map::insert\<close> keeps an element that is there.\<close>

definition on_open :: "bool \<Rightarrow> string \<Rightarrow> nat \<Rightarrow> WebSocketServer \<Rightarrow> C_BoostShmObj \<Rightarrow> WebSocketServer \<times> C_BoostShmObj res" where
  "on_open sem_ok strUri hdl ws shm =
     (ws\<lparr>m_status := OPEN,
         m_connections := (if m_connections ws strUri = None then (m_connections ws)(strUri \<mapsto> hdl)
                           else m_connections ws)\<rparr>,
      publish sem_ok (status_value strUri OPEN) shm)"

definition on_close :: "bool \<Rightarrow> string \<Rightarrow> WebSocketServer \<Rightarrow> C_BoostShmObj \<Rightarrow> WebSocketServer \<times> C_BoostShmObj res" where
  "on_close sem_ok strUri ws shm =
     (ws\<lparr>m_status := CLOSE, m_connections := (m_connections ws)(strUri := None)\<rparr>,
      publish sem_ok (status_value strUri CLOSE) shm)"

text \<open>What a message adds to the queues; the flag \<open>AddMessage\<close> returns is not used.\<close>

definition on_message :: "string \<Rightarrow> string \<Rightarrow> WebSocketServer \<Rightarrow> MessageManager \<Rightarrow> WebSocketServer \<times> MessageManager res" where
  "on_message strUri payload ws mm =
     (ws\<lparr>m_websocketMessage := payload\<rparr>,
      bindR (AddMessage mm (raw_message ''Server'' strUri payload)) (\<lambda>(mm', _). Inr mm'))"

text \<open>
  Only a client that asks for the subprotocol \<open>PMS\<close> is let in; \<open>select_ok\<close> is whether the endpoint
  accepts the selection.
\<close>

definition on_validate :: "bool \<Rightarrow> string list \<Rightarrow> bool" where
  "on_validate select_ok requested_subprotocols = (''PMS'' \<in> set requested_subprotocols \<and> select_ok)"

text \<open>\<open>Close\<close>: the state, and the handle the endpoint is told to close.\<close>

definition Close :: "string \<Rightarrow> WebSocketServer \<Rightarrow> WebSocketServer \<times> nat option" where
  "Close strUri ws =
     (case m_connections ws strUri of
        None \<Rightarrow> (ws, None)
      | Some hdl \<Rightarrow> (ws\<lparr>m_connections := (m_connections ws)(strUri := None)\<rparr>, Some hdl))"

subsection \<open>Sending\<close>

text \<open>
  One attempt sees the status of that moment (other threads write it while this one sleeps) and, if it
  is \<open>OPEN\<close>, what the endpoint's send returns: \<open>True\<close> for no error.
\<close>

type_synonym attempt = "int \<times> bool"

definition attempt_ok :: "attempt \<Rightarrow> bool" where
  "attempt_ok a \<longleftrightarrow> fst a = OPEN \<and> snd a"

text \<open>\<open>do { .. } while (i++ < retry)\<close>.\<close>

function send_loop :: "nat \<Rightarrow> (nat \<Rightarrow> attempt) \<Rightarrow> nat \<Rightarrow> bool" where
  "send_loop retry obs i =
     (if attempt_ok (obs i) then True
      else if i < retry then send_loop retry obs (Suc i) else False)"
  by pat_completeness auto
termination
  by (relation "measure (\<lambda>(retry, obs, i). retry - i)") auto

declare send_loop.simps [simp del]

definition SEND_RETRY :: nat where "SEND_RETRY = 5"

text \<open>\<open>SendMessage\<close>: whether it returned true, and the handle the text was handed to.\<close>

definition SendMessage :: "(nat \<Rightarrow> attempt) \<Rightarrow> string \<Rightarrow> WebSocketServer \<Rightarrow> bool \<times> nat option" where
  "SendMessage obs uri ws =
     (case m_connections ws uri of
        None \<Rightarrow> (False, None)
      | Some hdl \<Rightarrow> if send_loop SEND_RETRY obs 0 then (True, Some hdl) else (False, None))"

lemma send_loop_iff:
  "i \<le> retry \<Longrightarrow> send_loop retry obs i \<longleftrightarrow> (\<exists>j. i \<le> j \<and> j \<le> retry \<and> attempt_ok (obs j))"
proof (induction retry obs i rule: send_loop.induct)
  case (1 retry obs i)
  show ?case
  proof (cases "attempt_ok (obs i) \<or> i = retry")
    case True
    with "1.prems" show ?thesis
      by (auto simp: send_loop.simps [of retry obs i] dest: le_antisym)
  next
    case False
    then have "i < retry" using "1.prems" by simp
    with False 1 have "send_loop retry obs i \<longleftrightarrow> (\<exists>j. Suc i \<le> j \<and> j \<le> retry \<and> attempt_ok (obs j))"
      by (simp add: send_loop.simps [of retry obs i])
    also have "\<dots> \<longleftrightarrow> (\<exists>j. i \<le> j \<and> j \<le> retry \<and> attempt_ok (obs j))"
    proof
      assume "\<exists>j. i \<le> j \<and> j \<le> retry \<and> attempt_ok (obs j)"
      then obtain j where "i \<le> j" "j \<le> retry" "attempt_ok (obs j)" by blast
      moreover from this False have "j \<noteq> i" by blast
      ultimately show "\<exists>j. Suc i \<le> j \<and> j \<le> retry \<and> attempt_ok (obs j)" by (intro exI [of _ j]) simp
    qed (blast intro: Suc_leD)
    finally show ?thesis .
  qed
qed

text \<open>Five retries are six attempts.\<close>

interpretation sender: retry_sender "\<lambda>obs. send_loop SEND_RETRY obs 0" attempt_ok 6
proof
  have "j \<le> 5 \<longleftrightarrow> j < 6" for j :: nat by linarith
  then show "send_loop SEND_RETRY obs 0 \<longleftrightarrow> (\<exists>i<6. attempt_ok (obs i))" for obs
    by (simp add: send_loop_iff SEND_RETRY_def)
qed

lemma SendMessage_true_iff:
  "fst (SendMessage obs uri ws) \<longleftrightarrow>
     m_connections ws uri \<noteq> None \<and> (\<exists>i<6. attempt_ok (obs i))"
  using sender.send_iff by (auto simp: SendMessage_def split: option.splits)

lemma SendMessage_handle: "SendMessage obs uri ws = (True, h) \<Longrightarrow> h = m_connections ws uri"
  by (auto simp: SendMessage_def split: option.splits if_splits)

text \<open>The status is one variable for all connections.\<close>

lemma close_blocks_others:
  assumes "\<forall>i<6. fst (obs i) = m_status (fst (on_close sem_ok other ws shm))"
  shows "fst (SendMessage obs uri (fst (on_close sem_ok other ws shm))) = False"
proof -
  have "\<not> attempt_ok (obs i)" if "i < 6" for i
    using assms that by (simp add: attempt_ok_def on_close_def status_defs)
  then show ?thesis using SendMessage_true_iff by blast
qed

lemma reopen_keeps_handle:
  assumes "m_connections ws uri = Some h0" "\<exists>i<6. attempt_ok (obs i)"
  shows "SendMessage obs uri (fst (on_open sem_ok uri h1 ws shm)) = (True, Some h0)"
proof -
  let ?ws = "fst (on_open sem_ok uri h1 ws shm)"
  have c: "m_connections ?ws uri = Some h0" using assms(1) by (simp add: on_open_def)
  then have "fst (SendMessage obs uri ?ws)" using assms(2) by (simp add: SendMessage_true_iff)
  then show ?thesis using SendMessage_handle [of obs uri ?ws] c by (metis prod.collapse)
qed

subsection \<open>The published status\<close>

lemma status_key_ok: "ok_name status_key"
  by (simp add: ok_name_def fits_def status_key_def MAXLEN_NAME_def nul_def)

lemma to_string_status: "st \<in> {INIT, CONNECTING, OPEN, FAILED, CLOSE} \<Longrightarrow>
    to_string st \<in> {''0'', ''1'', ''2'', ''3'', ''4''}"
  by (auto simp: status_defs) (code_simp+)

text \<open>A uri short enough to be published together with its status.\<close>

definition ok_uri :: "string \<Rightarrow> bool" where
  "ok_uri uri \<longleftrightarrow> nul \<notin> set uri \<and> CHR 0x23 \<notin> set uri \<and> length uri + 2 < MAXLEN_VALUE"

lemma status_value_ok:
  assumes "ok_uri uri" "st \<in> {INIT, CONNECTING, OPEN, FAILED, CLOSE}"
  shows "ok_value (status_value uri st) \<and> c_str (status_value uri st) = status_value uri st"
proof -
  have "nul \<notin> set (status_value uri st)" "length (status_value uri st) = length uri + 2"
    using to_string_status [OF assms(2)] assms(1) by (auto simp: status_value_def ok_uri_def nul_def)
  with assms(1) show ?thesis by (simp add: ok_value_def fits_def ok_uri_def c_str_id)
qed

lemma publish_get:
  assumes "shm_inv shm" "ok_uri uri" "st \<in> {INIT, CONNECTING, OPEN, FAILED, CLOSE}"
  shows "\<exists>shm' b. publish True (status_value uri st) shm = Inr shm' \<and>
    shm_set shm status_key (status_value uri st) = (shm', b)"
proof -
  note v = status_value_ok [OF assms(2,3)]
  from assms(1) obtain kvs where "represents shm kvs" by (auto simp: shm_inv_def)
  from SetValue_represents [OF this status_key_ok conjunct1 [OF v]] show ?thesis
    by (auto simp: publish_def shm_set_def v)
qed

subsection \<open>\<open>RunServer\<close>\<close>

text \<open>
  One turn of the loop: the status last seen, the server, and the handle that is closed. \<open>stoi\<close> may
  throw, which ends the thread.
\<close>

definition RunServer_turn ::
    "bool \<Rightarrow> C_BoostShmObj \<Rightarrow> string \<Rightarrow> WebSocketServer \<Rightarrow> (string \<times> WebSocketServer \<times> nat option) res" where
  "RunServer_turn sem_ok shm m_currentServerStatus ws =
     bindR (GetValue sem_ok shm status_key []) (\<lambda>(_, serverStatusRaw).
       if serverStatusRaw = m_currentServerStatus then Inr (m_currentServerStatus, ws, None)
       else
         (let items = split_on (CHR 0x23) serverStatusRaw in
          if length items \<noteq> 2 then Inr (serverStatusRaw, ws, None)
          else bindR (stoi (c_str (items ! 1))) (\<lambda>serverStatus.
            if items ! 0 \<noteq> [] \<and> (serverStatus = CLOSE \<or> serverStatus = FAILED) then
              (case Close (items ! 0) ws of (ws', hdl) \<Rightarrow> Inr (serverStatusRaw, ws', hdl))
            else Inr (serverStatusRaw, ws, None))))"

lemma split_status:
  "ok_uri uri \<Longrightarrow> st \<in> {INIT, CONNECTING, OPEN, FAILED, CLOSE} \<Longrightarrow>
   split_on (CHR 0x23) (status_value uri st) = [uri, to_string st]"
  using to_string_status [of st]
  by (auto simp: status_value_def ok_uri_def split_on_append split_on_no_delim)

lemma stoi_status: "st \<in> {INIT, CONNECTING, OPEN, FAILED, CLOSE} \<Longrightarrow> stoi (c_str (to_string st)) = Inr st"
  by (auto simp: status_defs) (code_simp+)

text \<open>The turn after a published event.\<close>

lemma RunServer_turn_published:
  assumes "GetValue sem_ok shm status_key [] = Inr (r, status_value uri st)"
    and "ok_uri uri" "st \<in> {INIT, CONNECTING, OPEN, FAILED, CLOSE}"
  shows "RunServer_turn sem_ok shm cur ws =
    (if status_value uri st = cur then Inr (cur, ws, None)
     else if uri \<noteq> [] \<and> st \<in> {CLOSE, FAILED}
       then Inr (status_value uri st, fst (Close uri ws), snd (Close uri ws))
     else Inr (status_value uri st, ws, None))"
  using assms by (auto simp: RunServer_turn_def split_status stoi_status split: prod.splits)

lemma Close_eq: "Close uri ws = (ws\<lparr>m_connections := (m_connections ws)(uri := None)\<rparr>, m_connections ws uri)"
  by (cases "m_connections ws uri") (simp_all add: Close_def fun_upd_idem)

lemma publish_read:
  assumes "shm_inv shm" "ok_uri uri" "st \<in> {INIT, CONNECTING, OPEN, FAILED, CLOSE}"
    and "publish True (status_value uri st) shm = Inr shm'" "shm_get shm status_key \<noteq> None"
  shows "shm_inv shm' \<and> GetValue True shm' status_key [] = Inr (SETVALUE_OK, status_value uri st)"
proof -
  note v = conjunct1 [OF status_value_ok [OF assms(2,3)]]
  from assms(1) obtain kvs where kvs: "represents shm kvs" by (auto simp: shm_inv_def)
  from assms(5) shm_get_represents [OF kvs status_key_ok] have "status_key \<in> fst ` set kvs"
    by (metis map_of_eq_None_iff)
  moreover obtain b where b: "shm_set shm status_key (status_value uri st) = (shm', b)"
    using publish_get [OF assms(1-3)] assms(4) by auto
  ultimately have "b" using shm_set_represents(1) [OF kvs status_key_ok v b] by blast
  with shm_set_represents(2) [OF kvs status_key_ok v b]
  have r: "represents shm' (put status_key (status_value uri st) kvs)" by simp
  then show ?thesis
    using GetValue_represents [OF r status_key_ok] by (auto simp: shm_inv_def map_of_put)
qed

lemma server_sends_within_six_attempts:
  "SendMessage obs uri ws = (case m_connections ws uri of None \<Rightarrow> (False, None)
     | Some hdl \<Rightarrow> if \<exists>i<6. attempt_ok (obs i) then (True, Some hdl) else (False, None))"
  using sender.send_iff by (auto simp: SendMessage_def split: option.splits)

end
