(* ===== verification/WsClient.thy ===== *)
theory WsClient
  imports WsServer
begin

text \<open>
  \<open>WebSocketClient\<close> (\<open>src/ParkManagerClient/WebSocketClient.cpp\<close>): the gate's end of the connection. The
  handlers run on the thread of the websocketpp client, the operations on the gate's threads. What the
  library reports is an argument.
\<close>

record WebSocketClient =
  c_url :: string
  c_id :: string
  c_status :: int
  c_IsLC :: bool
  c_message :: string

definition client_key :: string where "client_key = ''WebsocketClientStatus''"
definition LC_key :: string where "LC_key = ''LCWebsocketStatus''"

definition publish_client :: "bool \<Rightarrow> string \<Rightarrow> string \<Rightarrow> C_BoostShmObj \<Rightarrow> C_BoostShmObj res" where
  "publish_client sem_ok key v shm = bindR (SetValue sem_ok shm key (c_str v)) (\<lambda>(_, shm'). Inr shm')"

text \<open>The constructor clears the shared memory of the gate.\<close>

definition WebSocketClient_new :: "bool \<Rightarrow> string \<Rightarrow> string \<Rightarrow> bool \<Rightarrow> WebSocketClient \<times> C_BoostShmObj res" where
  "WebSocketClient_new sem_ok url uri LocalController =
     (\<lparr>c_url = url, c_id = uri, c_status = INIT, c_IsLC = LocalController, c_message = []\<rparr>,
      publish_client sem_ok client_key (status_value uri INIT) C_BoostShmObj_new)"

text \<open>
  \<open>Connect\<close> in the two steps another thread can come between: the connection is requested, unless
  \<open>get_connection\<close> reports an error, and only then is the status set.
\<close>

definition Connect_request :: "bool \<Rightarrow> WebSocketClient \<Rightarrow> string option" where
  "Connect_request ec wc = (if ec then None else Some (c_url wc @ CHR ''/'' # c_id wc))"

definition Connect_status :: "WebSocketClient \<Rightarrow> WebSocketClient" where
  "Connect_status wc = wc\<lparr>c_status := CONNECTING\<rparr>"

definition Connect :: "bool \<Rightarrow> WebSocketClient \<Rightarrow> WebSocketClient" where
  "Connect ec wc = (case Connect_request ec wc of None \<Rightarrow> wc | Some csms \<Rightarrow> Connect_status wc)"

subsection \<open>Handlers\<close>

definition client_on_open :: "bool \<Rightarrow> WebSocketClient \<Rightarrow> C_BoostShmObj \<Rightarrow> WebSocketClient \<times> C_BoostShmObj res" where
  "client_on_open sem_ok wc shm =
     (wc\<lparr>c_status := OPEN\<rparr>,
      if \<not> c_IsLC wc then publish_client sem_ok client_key (status_value (c_id wc) OPEN) shm
      else publish_client sem_ok LC_key (to_string OPEN) shm)"

definition client_on_fail :: "bool \<Rightarrow> WebSocketClient \<Rightarrow> C_BoostShmObj \<Rightarrow> WebSocketClient \<times> C_BoostShmObj res" where
  "client_on_fail sem_ok wc shm =
     (wc\<lparr>c_status := FAILED\<rparr>, publish_client sem_ok client_key (status_value (c_id wc) FAILED) shm)"

definition client_on_close :: "bool \<Rightarrow> WebSocketClient \<Rightarrow> C_BoostShmObj \<Rightarrow> WebSocketClient \<times> C_BoostShmObj res" where
  "client_on_close sem_ok wc shm =
     (wc\<lparr>c_status := CLOSE\<rparr>, publish_client sem_ok client_key (status_value (c_id wc) CLOSE) shm)"

text \<open>Only a text frame has its payload taken.\<close>

definition client_on_message ::
    "bool \<Rightarrow> string \<Rightarrow> WebSocketClient \<Rightarrow> MessageManager \<Rightarrow> WebSocketClient \<times> MessageManager res" where
  "client_on_message is_text payload wc mm =
     (let m_message = (if is_text then payload else []);
          ty = (if \<not> c_IsLC wc then ''Client'' else ''LC'')
      in (wc\<lparr>c_message := m_message\<rparr>,
          bindR (AddMessage mm (raw_message ty (c_id wc) m_message)) (\<lambda>(mm', _). Inr mm')))"

subsection \<open>Sending\<close>

definition CLIENT_SEND_RETRY :: nat where "CLIENT_SEND_RETRY = 5"

definition client_SendMessage :: "(nat \<Rightarrow> attempt) \<Rightarrow> bool" where
  "client_SendMessage obs = send_loop CLIENT_SEND_RETRY obs 0"

interpretation client_sender: retry_sender client_SendMessage attempt_ok 6
proof
  show "client_SendMessage obs \<longleftrightarrow> (\<exists>i<6. attempt_ok (obs i))" for obs
    using sender.send_iff by (simp add: client_SendMessage_def CLIENT_SEND_RETRY_def SEND_RETRY_def)
qed

subsection \<open>The status of the client\<close>

text \<open>The events of a client's life, in the order the threads perform them.\<close>

datatype client_event = Ev_request | Ev_status | Ev_open | Ev_fail | Ev_close

fun client_step :: "client_event \<Rightarrow> WebSocketClient \<Rightarrow> WebSocketClient" where
  "client_step Ev_request wc = wc"
| "client_step Ev_status wc = Connect_status wc"
| "client_step Ev_open wc = wc\<lparr>c_status := OPEN\<rparr>"
| "client_step Ev_fail wc = wc\<lparr>c_status := FAILED\<rparr>"
| "client_step Ev_close wc = wc\<lparr>c_status := CLOSE\<rparr>"

lemma client_step_handlers:
  "fst (client_on_open sem_ok wc shm) = client_step Ev_open wc"
  "fst (client_on_fail sem_ok wc shm) = client_step Ev_fail wc"
  "fst (client_on_close sem_ok wc shm) = client_step Ev_close wc"
  "Connect False wc = client_step Ev_status (client_step Ev_request wc)"
  by (simp_all add: client_on_open_def client_on_fail_def client_on_close_def Connect_def Connect_request_def)

text \<open>
  The handler of an opened connection may run before \<open>Connect\<close> has set the status. The connection is
  then open and the status says \<open>CONNECTING\<close> until the next event: every send fails.
\<close>

lemma late_status_blocks_sends:
  assumes "\<forall>i<6. fst (obs i) = c_status (client_step Ev_status (client_step Ev_open (client_step Ev_request wc)))"
  shows "\<not> client_SendMessage obs"
  using assms by (intro client_sender.send_never) (simp add: attempt_ok_def Connect_status_def status_defs)

lemma open_after_status:
  "c_status (client_step Ev_open (client_step Ev_status (client_step Ev_request wc))) = OPEN"
  by simp

lemma client_message_queued:
  assumes "CHR 0x23 \<notin> set (c_id wc)" "CHR 0x23 \<notin> set p" "p \<noteq> []" "payload_kind p = CALLRESULT_str"
  shows "client_on_message True p wc mm =
    (wc\<lparr>c_message := p\<rparr>,
     Inr (push_result \<lparr>ws_uri = c_id wc, ws_type = (if c_IsLC wc then ''LC'' else ''Client''), ws_payload = p\<rparr> mm))"
  using assms by (auto simp: client_on_message_def AddMessage_raw Let_def)

end
