(* ===== verification/Gate.thy ===== *)
theory Gate
  imports WsClient Models Config Clock
begin

text \<open>
  \<open>Gate\<close> (\<open>src/ParkManagerClient/Gate.cpp\<close>): the client. An operation builds a request, hands it to the
  websocket client, waits for the response with the request's id and reads it. It returns the gate and
  the message manager it leaves behind with a code, or the exception that leaves it; \<open>None\<close> stands for
  a wait the given schedule does not end. Logging and the lock around the client are left out.
\<close>

subsection \<open>State\<close>

record Gate =
  g_untils :: utils
  m_WebsocketURL :: string
  m_ClientURI :: string
  m_GateName :: string
  m_GateType :: int
  m_NetworkProblem :: bool

record UpdateStatus =
  us_comment :: string
  us_payable :: string
  us_Status :: string

text \<open>The constructors differ in the path of the configuration; \<open>stoi\<close> can throw.\<close>

definition Gate_new :: "string \<Rightarrow> ini option \<Rightarrow> Gate res" where
  "Gate_new ConfigPath loaded =
     (let u = utils_new ConfigPath loaded in
      bindR (stoi (GetValueFromConfigFile u PMC_GateType)) (\<lambda>t.
        Inr \<lparr>g_untils = u, m_WebsocketURL = GetValueFromConfigFile u PMC_WebsocketURL,
             m_ClientURI = GetValueFromConfigFile u PMC_ClientURI,
             m_GateName = GetValueFromConfigFile u PMC_GateName,
             m_GateType = t, m_NetworkProblem = False\<rparr>))"

subsection \<open>A request and its response\<close>

text \<open>
  What an operation meets outside: the value of \<open>random()\<close>, the attempts of the send, the second the
  wait starts in, and the polls of the wait, each with the responses that arrived before it.
\<close>

record gate_env =
  x_random :: nat
  x_attempts :: "nat \<Rightarrow> attempt"
  x_start :: int
  x_polls :: "(WSMessage list \<times> int) list"

datatype reply = No_reply | Reply string

definition exchange ::
    "gate_env \<Rightarrow> string \<Rightarrow> Gate \<Rightarrow> MessageManager \<Rightarrow> Gate \<times> MessageManager \<times> reply option res" where
  "exchange x Request g mm =
     (if \<not> client_SendMessage (x_attempts x) then (g\<lparr>m_NetworkProblem := True\<rparr>, mm, Inr (Some No_reply))
      else
        (case bindR (vec_at (split_on (CHR '','') Request) 1) (\<lambda>messageId.
                GetResponseMessage messageId (x_start x) (x_polls x) mm) of
           Inl e \<Rightarrow> (g, mm, Inl e)
         | Inr None \<Rightarrow> (g, mm, Inr None)
         | Inr (Some (Respond, mm')) \<Rightarrow>
             if Respond = [] then (g\<lparr>m_NetworkProblem := True\<rparr>, mm', Inr (Some No_reply))
             else (g\<lparr>m_NetworkProblem := False\<rparr>, mm', Inr (Some (Reply Respond)))))"

text \<open>\<open>handleIncomingMsg\<close>, \<open>json::parse\<close> and \<open>from_json\<close> on a response.\<close>

definition read_response :: "(json \<Rightarrow> 'a res) \<Rightarrow> string \<Rightarrow> 'a res" where
  "read_response from_json Respond =
     bindR (handleIncomingMsg Respond mt_RESPOND) (\<lambda>(messageId, JsonString).
     bindR (json_parse JsonString) from_json)"

text \<open>
  The part the three operations share: the request from its body and action, the exchange, and what
  the caller makes of the response; \<open>failed\<close> is what it returns without one.
\<close>

definition call_server ::
    "gate_env \<Rightarrow> string \<Rightarrow> json \<Rightarrow> (json \<Rightarrow> 'a res) \<Rightarrow> 'b \<Rightarrow> ('a \<Rightarrow> Gate \<Rightarrow> Gate \<times> 'b) \<Rightarrow>
     Gate \<Rightarrow> MessageManager \<Rightarrow> Gate \<times> MessageManager \<times> 'b option res" where
  "call_server x Action body from_json failed accept g mm =
     (case j_dump body of
        Inl e \<Rightarrow> (g, mm, Inl e)
      | Inr dumped \<Rightarrow>
          (case exchange x (c_str (AddBase (x_random x) dumped mt_CALL Action [])) g mm of
             (g', mm', Inl e) \<Rightarrow> (g', mm', Inl e)
           | (g', mm', Inr None) \<Rightarrow> (g', mm', Inr None)
           | (g', mm', Inr (Some No_reply)) \<Rightarrow> (g', mm', Inr (Some failed))
           | (g', mm', Inr (Some (Reply Respond))) \<Rightarrow>
               (case read_response from_json Respond of
                  Inl e \<Rightarrow> (g', mm', Inl e)
                | Inr resp \<Rightarrow> (case accept resp g' of (g'', r) \<Rightarrow> (g'', mm', Inr (Some r))))))"

subsection \<open>Operations\<close>

definition is_registered :: "Gate \<Rightarrow> bool" where
  "is_registered g \<longleftrightarrow> GetValueFromConfigFile (g_untils g) PMC_RegistratinResult = to_string RV_SUCCESS"

text \<open>A positive answer is kept in the configuration.\<close>

definition registration_answer :: "GateRegistrationResponse \<Rightarrow> Gate \<Rightarrow> Gate \<times> int" where
  "registration_answer resp g =
     (if grr_result resp \<noteq> RS_Accept then (g, RV_FAILED)
      else (g\<lparr>g_untils := SetValueFromConfigFile (g_untils g) PMC_RegistratinResult (to_string RV_SUCCESS)\<rparr>,
            RV_SUCCESS))"

definition GateRegistrationCall :: "gate_env \<Rightarrow> Gate \<Rightarrow> MessageManager \<Rightarrow> Gate \<times> MessageManager \<times> int option res" where
  "GateRegistrationCall x g mm =
     (if m_GateType g = GT_NotSet then (g, mm, Inr (Some RV_FAILED))
      else if is_registered g then (g, mm, Inr (Some RV_SUCCESS))
      else call_server x ActionGateRegistration
             (to_json_GateRegistration \<lparr>gr_gateName = m_GateName g, gr_gateType = to_string (m_GateType g)\<rparr>)
             from_json_GateRegistrationResponse RV_FAILED registration_answer g mm)"

definition not_entrance_text :: string where
  "not_entrance_text = ''this gate is not entrance gate! '' @ [CHR 0x0A]"

text \<open>The code and the message for the driver; \<open>now\<close> is \<open>time(0)\<close>.\<close>

definition entering_answer :: "CarEnterenceResponse \<Rightarrow> Gate \<Rightarrow> Gate \<times> int \<times> string" where
  "entering_answer resp g =
     (if cer_result resp \<noteq> RS_Accept then (g, RV_FAILED, []) else (g, RV_SUCCESS, cer_comment resp))"

definition CarRegistration ::
    "gate_env \<Rightarrow> int \<Rightarrow> string \<Rightarrow> bool \<Rightarrow> Gate \<Rightarrow> MessageManager \<Rightarrow>
     Gate \<times> MessageManager \<times> (int \<times> string) option res" where
  "CarRegistration x now CarPlate Handicap g mm =
     (if m_GateType g \<noteq> GT_Enterence then (g, mm, Inr (Some (RV_FAILED, not_entrance_text)))
      else call_server x ActionCarEnterence
             (to_json_CarEnterence \<lparr>ce_carPlate = CarPlate, ce_handicap = (if Handicap then HS_Yes else HS_No),
                ce_enteranceTime = GetCurrentUTCTime now, ce_enterenceGate = m_GateName g\<rparr>)
             from_json_CarEnterenceResponse (RV_FAILED, []) entering_answer g mm)"

definition empty_update :: UpdateStatus where
  "empty_update = \<lparr>us_comment = [], us_payable = [], us_Status = []\<rparr>"

definition leaving_answer :: "CarStatusUpdateResponse \<Rightarrow> Gate \<Rightarrow> Gate \<times> int \<times> UpdateStatus" where
  "leaving_answer resp g =
     (if csr_status resp \<noteq> RS_Exist then (g, RV_FAILED, empty_update)
      else (g, RV_SUCCESS, \<lparr>us_comment = csr_comment resp, us_payable = csr_payable resp, us_Status = csr_status resp\<rparr>))"

definition CarStatusUpdateCall ::
    "gate_env \<Rightarrow> string \<Rightarrow> Gate \<Rightarrow> MessageManager \<Rightarrow> Gate \<times> MessageManager \<times> (int \<times> UpdateStatus) option res" where
  "CarStatusUpdateCall x CarPlate g mm =
     (if m_GateType g \<noteq> GT_Exiting
      then (g, mm, Inr (Some (RV_FAILED, \<lparr>us_comment = not_entrance_text, us_payable = [], us_Status = RS_Reject\<rparr>)))
      else call_server x ActionCarStatusUpdate
             (to_json_CarStatusUpdate \<lparr>csu_exitingGate = m_GateName g, csu_carPlate = CarPlate\<rparr>)
             from_json_CarStatusUpdateResponse (RV_FAILED, empty_update) leaving_answer g mm)"

text \<open>
  One turn of \<open>ConnectionHolder\<close>: after a failed exchange a new client is made, which also clears the
  shared memory of the gate.
\<close>

definition ConnectionHolder_turn ::
    "bool \<Rightarrow> bool \<Rightarrow> Gate \<Rightarrow> WebSocketClient \<Rightarrow> C_BoostShmObj \<Rightarrow> Gate \<times> WebSocketClient \<times> C_BoostShmObj res" where
  "ConnectionHolder_turn sem_ok ec g wc shm =
     (if m_NetworkProblem g then
        (case WebSocketClient_new sem_ok (m_WebsocketURL g) (m_ClientURI g) True of (wc', r) \<Rightarrow>
           (case r of
              Inl e \<Rightarrow> (g, wc, Inl e)
            | Inr shm' \<Rightarrow> (g\<lparr>m_NetworkProblem := False\<rparr>, Connect ec wc', Inr shm')))
      else (g, wc, Inr shm))"

subsection \<open>The exchange\<close>

lemma request_item:
  "CHR '','' \<notin> set A \<Longrightarrow> vec_at (split_on (CHR '','') (AddBase r b mt_CALL A mid)) (Suc 0) = Inr (quoted (nat_str r))"
  by (simp add: split_call)

text \<open>The first poll finds the response: it is taken out of the queue and read.\<close>

lemma exchange_now:
  assumes sent: "client_SendMessage (x_attempts x)" and A: "CHR '','' \<notin> set A"
    and polls: "x_polls x = (arrived, now) # polls"
    and queue: "ocppCALLRESULTMessageQueue mm @ arrived = q1 @ m # q2"
    and other: "\<forall>m\<in>set q1. \<exists>j. response_id (ws_payload m) = Inr j \<and> j \<noteq> quoted (nat_str (x_random x))"
    and hit: "response_id (ws_payload m) = Inr (quoted (nat_str (x_random x)))"
  shows "exchange x (AddBase (x_random x) b mt_CALL A mid) g mm =
    (g\<lparr>m_NetworkProblem := False\<rparr>, fold push_result arrived mm\<lparr>ocppCALLRESULTMessageQueue := q1 @ q2\<rparr>,
     Inr (Some (Reply (ws_payload m))))"
proof -
  have "ws_payload m \<noteq> []"
  proof
    assume "ws_payload m = []"
    with hit show False by (simp add: response_id_def)
  qed
  with GetResponse_found_now [OF other hit queue, of "x_start x" now polls] sent polls
  show ?thesis by (simp add: exchange_def request_item [OF A] del: GetResponseMessage.simps)
qed

lemma exchange_unsent:
  "\<not> client_SendMessage (x_attempts x) \<Longrightarrow> exchange x R g mm = (g\<lparr>m_NetworkProblem := True\<rparr>, mm, Inr (Some No_reply))"
  by (simp add: exchange_def)

text \<open>
  An exchange ends in one of three ways: the call could not be handed over, a response was found, or the
  timeout ran out, once the clock has advanced enough.
\<close>

lemma exchange_ends:
  fixes x i defines "i \<equiv> quoted (nat_str (x_random x))"
  assumes "CHR '','' \<notin> set A"
    and "\<forall>m\<in>set (ocppCALLRESULTMessageQueue mm). well_formed_result m"
    and "\<forall>(arrived, now)\<in>set (x_polls x). \<forall>m\<in>set arrived. well_formed_result m"
    and "\<exists>(arrived, now)\<in>set (x_polls x). x_start x + GET_RESULT_TIMEOUT \<le> now"
  shows "\<exists>p mm'. exchange x (AddBase (x_random x) b mt_CALL A mid) g mm =
      (g\<lparr>m_NetworkProblem := (p = [])\<rparr>, mm', Inr (Some (if p = [] then No_reply else Reply p))) \<and>
    (if client_SendMessage (x_attempts x)
     then \<exists>k<length (x_polls x). (\<forall>j<k. poll_goes_on i (x_start x) (x_polls x) mm j) \<and>
       poll_ends i (x_start x) (x_polls x) mm k p mm'
     else p = [] \<and> mm' = mm)"
proof (cases "client_SendMessage (x_attempts x)")
  case True
  from GetResponse_terminates [OF assms(3-5)] obtain p mm' where
    r: "GetResponseMessage i (x_start x) (x_polls x) mm = Inr (Some (p, mm'))"
    by (metis surj_pair)
  have "exchange x (AddBase (x_random x) b mt_CALL A mid) g mm =
      (g\<lparr>m_NetworkProblem := (p = [])\<rparr>, mm', Inr (Some (if p = [] then No_reply else Reply p)))"
    using True r by (cases "p = []") (simp_all add: exchange_def request_item [OF assms(2)] i_def)
  with GetResponse_exact [OF r] True show ?thesis by auto
qed (simp add: exchange_def)

text \<open>A registration that succeeded is in the configuration the gate keeps.\<close>

lemma exchange_keeps:
  "exchange x R g mm = (g', mm', r) \<Longrightarrow> g_untils g' = g_untils g \<and> m_GateType g' = m_GateType g"
  by (auto simp: exchange_def split: if_splits sum.splits option.splits)

lemma call_server_keeps:
  assumes "call_server x A b fj failed accept g mm = (g', mm', Inr (Some res))" "res \<noteq> failed"
  shows "\<exists>resp g1. accept resp g1 = (g', res) \<and> g_untils g1 = g_untils g \<and> m_GateType g1 = m_GateType g"
  using assms exchange_keeps [of x _ g mm]
  by (auto simp: call_server_def split: sum.splits prod.splits option.splits reply.splits) blast

lemma registration_persisted:
  assumes "GateRegistrationCall x g mm = (g', mm', Inr (Some RV_SUCCESS))" "m_ConfigValid (g_untils g)"
  shows "m_GateType g' = m_GateType g \<and> is_registered g'"
proof (cases "is_registered g")
  case True
  with assms show ?thesis by (auto simp: GateRegistrationCall_def split: if_splits)
next
  case False
  have ne: "RV_SUCCESS \<noteq> RV_FAILED" by (simp add: RV_SUCCESS_def RV_FAILED_def)
  with False assms(1) obtain b where
    "call_server x ActionGateRegistration b from_json_GateRegistrationResponse RV_FAILED registration_answer g mm =
      (g', mm', Inr (Some RV_SUCCESS))"
    by (auto simp: GateRegistrationCall_def split: if_splits)
  from call_server_keeps [OF this ne] obtain resp g1 where
    g1: "registration_answer resp g1 = (g', RV_SUCCESS)" "g_untils g1 = g_untils g" "m_GateType g1 = m_GateType g" by blast
  then have g': "g' = g1\<lparr>g_untils := SetValueFromConfigFile (g_untils g) PMC_RegistratinResult (to_string RV_SUCCESS)\<rparr>"
    using ne by (auto simp: registration_answer_def split: if_splits)
  have "c_string PMC_RegistratinResult" "c_string (to_string RV_SUCCESS)"
    by (simp_all add: c_string_def PMC_RegistratinResult_def nul_def RV_SUCCESS_def to_string_def nat_str.simps)
  with GetValue_SetValue [OF assms(2) this this(1)] g1(3) show ?thesis
    by (simp add: g' is_registered_def same_key_iff)
qed

end
