(* ===== verification/System.thy ===== *)
theory System
  imports ParkingLot Gate
begin

text \<open>
  The server process as a whole: the websocket thread, the handler thread and the watching thread as an
  interleaving of steps over one state, and one exchange between a gate and the server from the gate's
  call to its answer.
\<close>

subsection \<open>The threads of the server\<close>

text \<open>
  \<open>handler_on\<close> and \<open>watcher_on\<close> say whether the two threads of \<open>ParkManagerServer\<close> still run: an exception
  that leaves the loop ends the thread (\<open>std::async\<close> keeps it in the future), and nothing starts it again.
  Only what has defined behaviour is a step; \<open>server_undefined\<close> says where a thread may leave it, from
  where nothing is claimed any more. \<open>delivered\<close> lists the texts handed
  to a connection.
\<close>

record server =
  park :: ParkManagerServer
  mailbox :: MessageManager
  endpoint :: WebSocketServer
  shared :: C_BoostShmObj
  m_currentServerStatus :: string
  handler_on :: bool
  watcher_on :: bool
  delivered :: "(nat \<times> string) list"

text \<open>What the handler's answer becomes: \<open>SendMessage\<close> with the attempts it meets.\<close>

definition deliver :: "(nat \<Rightarrow> attempt) \<Rightarrow> (string \<times> string) option \<Rightarrow> WebSocketServer \<Rightarrow> (nat \<times> string) list" where
  "deliver obs out ws =
     (case out of
        None \<Rightarrow> []
      | Some (uri, text) \<Rightarrow>
          (case snd (SendMessage obs uri ws) of None \<Rightarrow> [] | Some hdl \<Rightarrow> [(hdl, text)]))"

text \<open>The constructor of \<open>ParkManagerServer\<close> with what it owns.\<close>

definition server_start :: "ini option \<Rightarrow> server res" where
  "server_start loaded =
     bindR (ParkManagerServer_new loaded) (\<lambda>s.
       (case WebSocketServer_new True (uint (m_websocketPort s)) of (ws, r) \<Rightarrow>
          bindR r (\<lambda>shm. Inr \<lparr>park = s, mailbox = MessageManager_new, endpoint = ws, shared = shm,
            m_currentServerStatus = [], handler_on = True, watcher_on = True, delivered = []\<rparr>)))"

inductive server_step :: "server \<Rightarrow> server \<Rightarrow> bool" where
  connection_opened:
    "on_open sem uri hdl (endpoint \<sigma>) (shared \<sigma>) = (ws, Inr shm) \<Longrightarrow>
     server_step \<sigma> (\<sigma>\<lparr>endpoint := ws, shared := shm\<rparr>)"
| connection_closed:
    "on_close sem uri (endpoint \<sigma>) (shared \<sigma>) = (ws, Inr shm) \<Longrightarrow>
     server_step \<sigma> (\<sigma>\<lparr>endpoint := ws, shared := shm\<rparr>)"
| message_arrived:
    "on_message uri payload (endpoint \<sigma>) (mailbox \<sigma>) = (ws, Inr mm) \<Longrightarrow>
     server_step \<sigma> (\<sigma>\<lparr>endpoint := ws, mailbox := mm\<rparr>)"
| handler_turn:
    "handler_on \<sigma> \<Longrightarrow> GateHanlder_turn env (park \<sigma>) (mailbox \<sigma>) = (s, mm, Inr out) \<Longrightarrow>
     server_step \<sigma> (\<sigma>\<lparr>park := s, mailbox := mm, delivered := delivered \<sigma> @ deliver obs out (endpoint \<sigma>)\<rparr>)"
| handler_failed:
    "handler_on \<sigma> \<Longrightarrow> GateHanlder_turn env (park \<sigma>) (mailbox \<sigma>) = (s, mm, Inl e) \<Longrightarrow> is_std_exception e \<Longrightarrow>
     server_step \<sigma> (\<sigma>\<lparr>park := s, mailbox := mm, handler_on := False\<rparr>)"
| watcher_turn:
    "watcher_on \<sigma> \<Longrightarrow>
     RunServer_turn sem (shared \<sigma>) (m_currentServerStatus \<sigma>) (endpoint \<sigma>) = Inr (cur, ws, hdl) \<Longrightarrow>
     server_step \<sigma> (\<sigma>\<lparr>m_currentServerStatus := cur, endpoint := ws\<rparr>)"
| watcher_failed:
    "watcher_on \<sigma> \<Longrightarrow>
     RunServer_turn sem (shared \<sigma>) (m_currentServerStatus \<sigma>) (endpoint \<sigma>) = Inl e \<Longrightarrow> is_std_exception e \<Longrightarrow>
     server_step \<sigma> (\<sigma>\<lparr>watcher_on := False\<rparr>)"

inductive server_undefined :: "server \<Rightarrow> exn \<Rightarrow> bool" where
  opening_undefined:
    "on_open sem uri hdl (endpoint \<sigma>) (shared \<sigma>) = (ws, Inl e) \<Longrightarrow> \<not> is_std_exception e \<Longrightarrow> server_undefined \<sigma> e"
| closing_undefined:
    "on_close sem uri (endpoint \<sigma>) (shared \<sigma>) = (ws, Inl e) \<Longrightarrow> \<not> is_std_exception e \<Longrightarrow> server_undefined \<sigma> e"
| message_undefined:
    "on_message uri payload (endpoint \<sigma>) (mailbox \<sigma>) = (ws, Inl e) \<Longrightarrow> \<not> is_std_exception e \<Longrightarrow> server_undefined \<sigma> e"
| handler_undefined:
    "handler_on \<sigma> \<Longrightarrow> GateHanlder_turn env (park \<sigma>) (mailbox \<sigma>) = (s, mm, Inl e) \<Longrightarrow> \<not> is_std_exception e \<Longrightarrow>
     server_undefined \<sigma> e"
| watcher_undefined:
    "watcher_on \<sigma> \<Longrightarrow>
     RunServer_turn sem (shared \<sigma>) (m_currentServerStatus \<sigma>) (endpoint \<sigma>) = Inl e \<Longrightarrow> \<not> is_std_exception e \<Longrightarrow>
     server_undefined \<sigma> e"

inductive_cases server_stepE: "server_step \<sigma> \<sigma>'"

inductive server_run :: "server \<Rightarrow> server \<Rightarrow> bool" where
  run_refl: "server_run \<sigma> \<sigma>"
| run_step: "server_run \<sigma> \<sigma>' \<Longrightarrow> server_step \<sigma>' \<sigma>'' \<Longrightarrow> server_run \<sigma> \<sigma>''"

subsection \<open>What every run keeps\<close>

lemma GateHanlder_turn_park: "GateHanlder_turn env s mm = (s', mm', r) \<Longrightarrow> lot_inv s \<Longrightarrow> lot_inv s'"
  using lot_inv_turn [of s env mm] by simp

lemma GateHanlder_turn_mail:
  assumes "GateHanlder_turn env s mm = (s', mm', r)"
  shows "ocppCALLRESULTMessageQueue mm' = ocppCALLRESULTMessageQueue mm \<and>
    ocppCALLMessageQueue mm' = drop 1 (ocppCALLMessageQueue mm)"
proof (cases "ocppCALLMessageQueue mm")
  case Nil
  with assms show ?thesis by (simp add: GateHanlder_turn_def GetCALLMessageSize_def)
next
  case (Cons m ms)
  with assms show ?thesis
    by (auto simp: GateHanlder_turn_def GetCALLMessageSize_def GetCALLMessage_def split: prod.splits)
qed

lemma AddMessage_calls:
  assumes "AddMessage mm raw = Inr (mm', b)"
  shows "ocppCALLMessageQueue mm' = ocppCALLMessageQueue mm \<or>
    (\<exists>m. ocppCALLMessageQueue mm' = ocppCALLMessageQueue mm @ [m] \<and> ws_type m = hd (split_on (CHR 0x23) raw))"
proof -
  obtain t ts where "split_on (CHR 0x23) raw = t # ts" by (metis list.exhaust split_on_not_Nil)
  with assms show ?thesis
    by (auto simp: AddMessage_def Let_def vec_at_Inr split: if_splits)
qed

lemma on_message_calls:
  assumes "on_message uri p ws mm = (ws', Inr mm')"
  shows "ocppCALLMessageQueue mm' = ocppCALLMessageQueue mm \<or>
    (\<exists>m. ocppCALLMessageQueue mm' = ocppCALLMessageQueue mm @ [m] \<and> ws_type m = ''Server'')"
proof -
  have "hd (split_on (CHR 0x23) (raw_message ''Server'' uri p)) = ''Server''"
    unfolding raw_message_def by (simp add: split_on_append)
  moreover from assms obtain b where "AddMessage mm (raw_message ''Server'' uri p) = Inr (mm', b)"
    by (auto simp: on_message_def)
  ultimately show ?thesis using AddMessage_calls by metis
qed

lemma Close_status: "m_status (fst (Close uri ws)) = m_status ws"
  by (simp add: Close_def split: option.splits)

lemma RunServer_turn_status:
  "RunServer_turn sem shm cur ws = Inr (cur', ws', h) \<Longrightarrow> m_status ws' = m_status ws"
  using Close_status [of _ ws]
  by (auto simp: RunServer_turn_def Let_def split: if_splits prod.splits) (metis fst_conv)+

text \<open>The invariant of the process, and what never changes once the handler has ended.\<close>

definition server_inv :: "server \<Rightarrow> bool" where
  "server_inv \<sigma> \<longleftrightarrow> lot_inv (park \<sigma>) \<and>
     (\<forall>m\<in>set (ocppCALLMessageQueue (mailbox \<sigma>)). ws_type m = ''Server'') \<and>
     m_status (endpoint \<sigma>) \<in> {INIT, OPEN, CLOSE}"

lemma server_inv_start: "server_start loaded = Inr \<sigma> \<Longrightarrow> server_inv \<sigma>"
  by (auto simp: server_start_def server_inv_def WebSocketServer_new_def MessageManager_new_def
      intro: lot_inv_new split: prod.splits)

lemma server_inv_step:
  assumes "server_step \<sigma> \<sigma>'" "server_inv \<sigma>"
  shows "server_inv \<sigma>'"
  using assms
proof (cases rule: server_step.cases)
  case (message_arrived uri payload ws mm)
  then show ?thesis
    using assms(2) on_message_calls [of uri payload "endpoint \<sigma>" "mailbox \<sigma>" ws mm]
    by (auto simp: server_inv_def) (auto simp: on_message_def)
next
  case (handler_turn env s mm out obs)
  then show ?thesis
    using assms(2) GateHanlder_turn_park GateHanlder_turn_mail [OF handler_turn(3)]
    by (auto simp: server_inv_def dest: in_set_dropD)
next
  case (handler_failed env s mm e)
  then show ?thesis
    using assms(2) GateHanlder_turn_park GateHanlder_turn_mail [OF handler_failed(3)]
    by (auto simp: server_inv_def dest: in_set_dropD)
next
  case (watcher_turn sem cur ws hdl)
  then show ?thesis using assms(2) RunServer_turn_status [OF watcher_turn(3)] by (simp add: server_inv_def)
qed (auto simp: server_inv_def on_open_def on_close_def)

lemma server_inv_run: "server_run \<sigma> \<sigma>' \<Longrightarrow> server_inv \<sigma> \<Longrightarrow> server_inv \<sigma>'"
  by (induction rule: server_run.induct) (auto intro: server_inv_step)

text \<open>No step changes the capacity.\<close>

lemma capacity_simps:
  "m_NormalSlotMax (fst (register_gate name ty s)) = m_NormalSlotMax s"
  "m_NormalSlotMax (fst (enter_car rnd x s)) = m_NormalSlotMax s"
  "m_NormalSlotMax (fst (exit_car mk now y s)) = m_NormalSlotMax s"
  by (simp_all add: register_gate_def enter_car_def allocate_slot_def exit_car_def release_slot_def Let_def
      split: option.split sum.split)

lemma capacity_body: "body_step env s s' \<Longrightarrow> m_NormalSlotMax s' = m_NormalSlotMax s"
  by (auto simp: body_step_def capacity_simps)

lemma capacity_turn:
  assumes "GateHanlder_turn env s mm = (s', mm', r)"
  shows "m_NormalSlotMax s' = m_NormalSlotMax s"
proof -
  have "m_NormalSlotMax (fst (handle_call env s m)) = m_NormalSlotMax s" for m
    using handle_call_state [of env s m] capacity_body by metis
  with assms show ?thesis by (auto simp: GateHanlder_turn_def split: if_splits sum.splits prod.splits) (metis fst_conv)
qed

lemma capacity_run: "server_run \<sigma> \<sigma>' \<Longrightarrow> m_NormalSlotMax (park \<sigma>') = m_NormalSlotMax (park \<sigma>)"
proof (induction rule: server_run.induct)
  case (run_step \<sigma> \<sigma>' \<sigma>'')
  from run_step.hyps(2) have "m_NormalSlotMax (park \<sigma>'') = m_NormalSlotMax (park \<sigma>')"
    by cases (auto dest: capacity_turn)
  with run_step.IH show ?case by simp
qed simp

text \<open>
  Once an exception has ended the handler thread no request is served again: the parking lot stays as
  it is, nothing is delivered, and calls only pile up.
\<close>

definition halted_after :: "server \<Rightarrow> server \<Rightarrow> bool" where
  "halted_after \<sigma> \<sigma>' \<longleftrightarrow> \<not> handler_on \<sigma>' \<and> park \<sigma>' = park \<sigma> \<and> delivered \<sigma>' = delivered \<sigma> \<and>
     prefix (ocppCALLMessageQueue (mailbox \<sigma>)) (ocppCALLMessageQueue (mailbox \<sigma>'))"

lemma halted_step:
  assumes "server_step \<sigma>' \<sigma>''" "halted_after \<sigma> \<sigma>'"
  shows "halted_after \<sigma> \<sigma>''"
  using assms
proof (cases rule: server_step.cases)
  case (message_arrived uri payload ws mm)
  then show ?thesis
    using assms(2) on_message_calls [of uri payload "endpoint \<sigma>'" "mailbox \<sigma>'" ws mm]
    by (auto simp: halted_after_def prefix_def)
qed (auto simp: halted_after_def)

lemma halted_run: "server_run \<sigma> \<sigma>' \<Longrightarrow> \<not> handler_on \<sigma> \<Longrightarrow> halted_after \<sigma> \<sigma>'"
proof (induction rule: server_run.induct)
  case (run_refl \<sigma>)
  then show ?case by (simp add: halted_after_def)
next
  case (run_step \<sigma> \<sigma>' \<sigma>'')
  then show ?case using halted_step by blast
qed

text \<open>The turn of the handler at a call, and its end at a call whose body is no JSON.\<close>

lemma handler_turn_call:
  "GateHanlder_turn env s (mm\<lparr>ocppCALLMessageQueue := m # ms\<rparr>) =
    (case handle_call env s m of (s', r) \<Rightarrow>
       (s', mm\<lparr>ocppCALLMessageQueue := ms\<rparr>, bindR r (\<lambda>t. Inr (map_option (Pair (ws_uri m)) t))))"
  by (simp add: GateHanlder_turn_def GetCALLMessageSize_def GetCALLMessage_def)

lemma handler_overread:
  "snd (snd (GateHanlder_turn env s mm)) = Inl UB_index \<longleftrightarrow>
     (\<exists>m ms. ocppCALLMessageQueue mm = m # ms \<and> length (split_on (CHR '','') (ws_payload m)) < 3)"
proof (cases "ocppCALLMessageQueue mm")
  case Nil
  then show ?thesis by (simp add: GateHanlder_turn_def GetCALLMessageSize_def)
next
  case (Cons m ms)
  then have "mm = mm\<lparr>ocppCALLMessageQueue := m # ms\<rparr>" by simp
  then have "snd (snd (GateHanlder_turn env s mm)) = bindR (snd (handle_call env s m)) (\<lambda>t. Inr (map_option (Pair (ws_uri m)) t))"
    using handler_turn_call [where env = env and s = s and mm = mm and m = m and ms = ms] by (simp split: prod.splits)
  then show ?thesis using handle_call_overread [of env s m] Cons by (simp add: bindR_eq_Inl)
qed

lemma bad_body_halts:
  assumes "handler_on \<sigma>" "ocppCALLMessageQueue (mailbox \<sigma>) = m # ms"
    and "\<And>env. handle_call env (park \<sigma>) m = (park \<sigma>, Inl e)" "is_std_exception e"
  shows "server_step \<sigma> (\<sigma>\<lparr>mailbox := (mailbox \<sigma>)\<lparr>ocppCALLMessageQueue := ms\<rparr>, handler_on := False\<rparr>)"
proof -
  have "mailbox \<sigma> = (mailbox \<sigma>)\<lparr>ocppCALLMessageQueue := m # ms\<rparr>" using assms(2) by simp
  then have "GateHanlder_turn env (park \<sigma>) (mailbox \<sigma>) =
      (park \<sigma>, (mailbox \<sigma>)\<lparr>ocppCALLMessageQueue := ms\<rparr>, Inl e)" for env
    using handler_turn_call [where mm = "mailbox \<sigma>" and m = m and ms = ms] assms(3) by simp
  from server_step.handler_failed [OF assms(1) this assms(4)] show ?thesis by simp
qed

subsection \<open>Runs in which no plate enters twice\<close>

inductive calm_run :: "ParkManagerServer \<Rightarrow> ParkManagerServer \<Rightarrow> bool" where
  calm_start: "calm_run s s"
| calm_register: "calm_run s s' \<Longrightarrow> calm_run s (fst (register_gate name ty s'))"
| calm_enter: "calm_run s s' \<Longrightarrow> ce_carPlate x \<notin> normal_cars s' \<Longrightarrow> calm_run s (fst (enter_car rnd x s'))"
| calm_exit: "calm_run s s' \<Longrightarrow> calm_run s (fst (exit_car lib now x s'))"

lemma calm_run_exact: "calm_run s s' \<Longrightarrow> lot_inv s \<Longrightarrow> exact s \<Longrightarrow> lot_inv s' \<and> exact s'"
  by (induction rule: calm_run.induct)
    (auto simp: lot_inv_register lot_inv_enter lot_inv_exit exact_register exact_enter exact_exit)

subsection \<open>One exchange, from the gate's call to its answer\<close>

lemma c_str_request:
  assumes "nul \<notin> set b" "nul \<notin> set A"
  shows "c_str (AddBase r b mt_CALL A mid) = AddBase r b mt_CALL A mid"
proof (rule c_str_id)
  have "nul \<notin> set (quoted (nat_str r))" using call_id_chars(2) [of r] by (simp add: call_id_def)
  with assms show "nul \<notin> set (AddBase r b mt_CALL A mid)"
    by (simp add: AddBase_CALL del: set_quoted) (simp add: nul_def)
qed

lemma nul_notin_actions [simp]:
  "nul \<notin> set ActionGateRegistration" "nul \<notin> set ActionCarEnterence" "nul \<notin> set ActionCarStatusUpdate"
  by (simp_all add: action_defs nul_def)

text \<open>The gate's half: the response to its request is the first one it finds.\<close>

lemma call_server_reply:
  assumes dump: "j_dump body = Inr b" "nul \<notin> set b" and A: "CHR '','' \<notin> set A" "nul \<notin> set A"
    and sent: "client_SendMessage (x_attempts x)" and polls: "x_polls x = ([m], t1) # polls"
    and empty: "ocppCALLRESULTMessageQueue gm = []"
    and hit: "response_id (ws_payload m) = Inr (call_id (x_random x))"
    and resp: "read_response from_json (ws_payload m) = Inr resp"
  shows "call_server x A body from_json failed accept g gm =
    (case accept resp (g\<lparr>m_NetworkProblem := False\<rparr>) of (g', r) \<Rightarrow> (g', gm, Inr (Some r)))"
proof -
  have "exchange x (AddBase (x_random x) b mt_CALL A []) g gm =
      (g\<lparr>m_NetworkProblem := False\<rparr>, fold push_result [m] gm\<lparr>ocppCALLRESULTMessageQueue := [] @ []\<rparr>,
       Inr (Some (Reply (ws_payload m))))"
    using hit empty by (intro exchange_now [OF sent A(1) polls]) (simp_all add: call_id_def)
  moreover have "fold push_result [m] gm\<lparr>ocppCALLRESULTMessageQueue := [] @ []\<rparr> = gm"
    using empty by (simp add: push_result_def)
  ultimately have "exchange x (AddBase (x_random x) b mt_CALL A []) g gm =
      (g\<lparr>m_NetworkProblem := False\<rparr>, gm, Inr (Some (Reply (ws_payload m))))" by (simp only:)
  then show ?thesis using resp by (simp add: call_server_def dump c_str_request [OF dump(2) A(2)] split: prod.splits)
qed

text \<open>The server's half: from the frame that arrives to the text it answers.\<close>

lemma request_queued:
  assumes "CHR 0x23 \<notin> set uri" "CHR 0x23 \<notin> set (AddBase r b mt_CALL A mid)"
  shows "on_message uri (AddBase r b mt_CALL A mid) ws mm =
    (ws\<lparr>m_websocketMessage := AddBase r b mt_CALL A mid\<rparr>,
     Inr (push_call \<lparr>ws_uri = uri, ws_type = ''Server'', ws_payload = AddBase r b mt_CALL A mid\<rparr> mm))"
proof -
  have "AddBase r b mt_CALL A mid \<noteq> []" by (simp add: AddBase_CALL)
  with assms show ?thesis
    using AddMessage_raw [of "''Server''" uri "AddBase r b mt_CALL A mid" mm]
    by (simp add: on_message_def Let_def payload_kind_call)
qed

lemma turn_on_call:
  assumes "ocppCALLMessageQueue mm = []" "handle_call env s m = (s', Inr (Some t))"
  shows "GateHanlder_turn env s (push_call m mm) = (s', mm, Inr (Some (ws_uri m, t)))"
proof -
  have "(push_call m mm)\<lparr>ocppCALLMessageQueue := []\<rparr> = mm" using assms(1) by (simp add: push_call_def)
  then show ?thesis
    using assms by (simp add: GateHanlder_turn_def GetCALLMessageSize_def GetCALLMessage_def)
qed

lemma response_queued:
  assumes "CHR 0x23 \<notin> set (c_id wc)" "CHR 0x23 \<notin> set (AddBase r b mt_RESPOND A mid)"
  shows "client_on_message True (AddBase r b mt_RESPOND A mid) wc gm =
    (wc\<lparr>c_message := AddBase r b mt_RESPOND A mid\<rparr>,
     Inr (push_result \<lparr>ws_uri = c_id wc, ws_type = (if c_IsLC wc then ''LC'' else ''Client''),
                       ws_payload = AddBase r b mt_RESPOND A mid\<rparr> gm))"
  using assms by (intro client_message_queued) (simp_all add: payload_kind_respond, simp add: AddBase_RESPOND)

context document
begin

text \<open>A response the server has made is read by the gate as the object it was made from.\<close>

lemma read_respond:
  assumes "Respond (call_id r) (to_json y) = Inr t"
  shows "response_id t = Inr (call_id r) \<and> read_response from_json t = Inr y"
proof -
  from respond_read [OF call_id_chars(2,1) assms] obtain b where
    "response_id t = Inr (call_id r)" "handleIncomingMsg t mt_RESPOND = Inr (quoted (call_id r), b)"
    "bindR (json_parse b) from_json = Inr y" by blast
  then show ?thesis by (simp add: read_response_def)
qed

lemma respond_total:
  assumes "utf8_fields y"
  shows "\<exists>t. Respond (call_id r) (to_json y) = Inr t"
  using respond_ok_iff [of "call_id r" y] assms by (simp add: is_ok_def)

end

lemma entering_served:
  assumes "j_dump (to_json_CarEnterence x) = Inr b"
    and "utf8_CarEnterenceResponse (snd (enter_car (env_random env) x s))"
  shows "\<exists>t. handle_call env s \<lparr>ws_uri = uri, ws_type = ''Server'',
        ws_payload = AddBase r b mt_CALL ActionCarEnterence mid\<rparr> =
      (fst (enter_car (env_random env) x s), Inr (Some t)) \<and>
    response_id t = Inr (call_id r) \<and>
    read_response from_json_CarEnterenceResponse t = Inr (snd (enter_car (env_random env) x s))"
proof -
  from cer.respond_total [OF assms(2)] obtain t where
    t: "Respond (call_id r) (to_json_CarEnterenceResponse (snd (enter_car (env_random env) x s))) = Inr t" by blast
  with cer.read_respond [OF this] show ?thesis
    by (auto simp: handle_call_CarEnterence OnCarEnterence_call [OF assms(1)] split: prod.splits)
qed

lemma leaving_served:
  assumes "j_dump (to_json_CarStatusUpdate x) = Inr b"
    and "snd (exit_car (env_libc env) (env_now env) x s) = Inr resp" "utf8_CarStatusUpdateResponse resp"
  shows "\<exists>t. handle_call env s \<lparr>ws_uri = uri, ws_type = ''Server'',
        ws_payload = AddBase r b mt_CALL ActionCarStatusUpdate mid\<rparr> =
      (fst (exit_car (env_libc env) (env_now env) x s), Inr (Some t)) \<and>
    response_id t = Inr (call_id r) \<and> read_response from_json_CarStatusUpdateResponse t = Inr resp"
proof -
  from csr.respond_total [OF assms(3)] obtain t where
    t: "Respond (call_id r) (to_json_CarStatusUpdateResponse resp) = Inr t" by blast
  with csr.read_respond [OF this] assms(2) show ?thesis
    by (auto simp: handle_call_CarStatusUpdate OnCarStatusUpdate_call [OF assms(1)] split: prod.splits)
qed

lemma registration_served:
  assumes "j_dump (to_json_GateRegistration x) = Inr b"
  shows "\<exists>t. handle_call env s \<lparr>ws_uri = uri, ws_type = ''Server'',
        ws_payload = AddBase r b mt_CALL ActionGateRegistration mid\<rparr> =
      (fst (register_gate (gr_gateName x) (gate_type_of (gr_gateType x)) s), Inr (Some t)) \<and>
    response_id t = Inr (call_id r) \<and>
    read_response from_json_GateRegistrationResponse t =
      Inr \<lparr>grr_result = snd (register_gate (gr_gateName x) (gate_type_of (gr_gateType x)) s)\<rparr>"
proof -
  have "utf8_GateRegistrationResponse \<lparr>grr_result = snd (register_gate (gr_gateName x) (gate_type_of (gr_gateType x)) s)\<rparr>"
    unfolding utf8_GateRegistrationResponse_def
    by (intro utf8_valid_all_ascii) (auto simp: result_defs register_gate_def split: if_splits)
  from grr.respond_total [OF this] obtain t where
    t: "Respond (call_id r) (to_json_GateRegistrationResponse
      \<lparr>grr_result = snd (register_gate (gr_gateName x) (gate_type_of (gr_gateType x)) s)\<rparr>) = Inr t" by blast
  with grr.read_respond [OF this] show ?thesis
    by (auto simp: handle_call_GateRegistration OnGateRegistration_call [OF assms] split: prod.splits)
qed

subsection \<open>Bodies that pass the raw message format\<close>

text \<open>\<open>AddMessage\<close> cuts a raw message at every \<open>#\<close>: a body whose fields hold none goes through whole.\<close>

definition plain_CarEnterence :: "CarEnterence \<Rightarrow> bool" where
  "plain_CarEnterence x \<longleftrightarrow> utf8_CarEnterence x \<and>
     CHR 0x23 \<notin> set (ce_carPlate x @ ce_handicap x @ ce_enteranceTime x @ ce_enterenceGate x)"

definition plain_CarStatusUpdate :: "CarStatusUpdate \<Rightarrow> bool" where
  "plain_CarStatusUpdate x \<longleftrightarrow> utf8_CarStatusUpdate x \<and> CHR 0x23 \<notin> set (csu_carPlate x @ csu_exitingGate x)"

definition plain_GateRegistration :: "GateRegistration \<Rightarrow> bool" where
  "plain_GateRegistration x \<longleftrightarrow> utf8_GateRegistration x \<and> CHR 0x23 \<notin> set (gr_gateName x @ gr_gateType x)"

lemma plain_dump:
  assumes "j = JObject m" "\<forall>(k, v)\<in>set m. \<exists>s. v = JString s \<and> CHR 0x23 \<notin> set k \<and> CHR 0x23 \<notin> set s"
    and "\<exists>b. j_dump j = Inr b"
  shows "\<exists>b. j_dump j = Inr b \<and> CHR 0x23 \<notin> set b"
  using assms j_dump_no_hash by blast

lemma plain_dump_CarEnterence: "plain_CarEnterence c \<Longrightarrow> \<exists>b. j_dump (to_json_CarEnterence c) = Inr b \<and> CHR 0x23 \<notin> set b"
  by (rule plain_dump [OF to_json_sorted(3)]) (simp_all add: plain_CarEnterence_def flip: ce.body_dumps)

lemma plain_dump_CarStatusUpdate: "plain_CarStatusUpdate c \<Longrightarrow> \<exists>b. j_dump (to_json_CarStatusUpdate c) = Inr b \<and> CHR 0x23 \<notin> set b"
  by (rule plain_dump [OF to_json_sorted(5)]) (simp_all add: plain_CarStatusUpdate_def flip: csu.body_dumps)

lemma plain_dump_GateRegistration: "plain_GateRegistration c \<Longrightarrow> \<exists>b. j_dump (to_json_GateRegistration c) = Inr b \<and> CHR 0x23 \<notin> set b"
  by (rule plain_dump [OF to_json_sorted(1)]) (simp_all add: plain_GateRegistration_def flip: gr.body_dumps)

lemma hash_notin_call: "CHR 0x23 \<notin> set b \<Longrightarrow> CHR 0x23 \<notin> set A \<Longrightarrow> CHR 0x23 \<notin> set (AddBase r b mt_CALL A mid)"
  by (auto simp: AddBase_CALL)

lemma hash_notin_actions [simp]:
  "CHR 0x23 \<notin> set ActionGateRegistration" "CHR 0x23 \<notin> set ActionCarEnterence" "CHR 0x23 \<notin> set ActionCarStatusUpdate"
  by (simp_all add: action_defs)

text \<open>A message that arrives on a connection, and the next turn of the handler.\<close>

definition serve ::
    "turn_env \<Rightarrow> string \<Rightarrow> string \<Rightarrow> WebSocketServer \<Rightarrow> ParkManagerServer \<Rightarrow> MessageManager \<Rightarrow>
     ParkManagerServer \<times> MessageManager \<times> (string \<times> string) option res" where
  "serve env uri payload ws s mm =
     (case on_message uri payload ws mm of
        (ws', Inl e) \<Rightarrow> (s, mm, Inl e)
      | (ws', Inr mm') \<Rightarrow> GateHanlder_turn env s mm')"

lemma serve_answer:
  assumes "CHR 0x23 \<notin> set uri" "CHR 0x23 \<notin> set b" "CHR 0x23 \<notin> set A" "ocppCALLMessageQueue mm = []"
    and "handle_call env s \<lparr>ws_uri = uri, ws_type = ''Server'', ws_payload = AddBase r b mt_CALL A mid\<rparr> = (s', Inr (Some t))"
  shows "serve env uri (AddBase r b mt_CALL A mid) ws s mm = (s', mm, Inr (Some (uri, t)))"
  using request_queued [OF assms(1) hash_notin_call [OF assms(2,3)]] turn_on_call [OF assms(4,5)]
  by (simp add: serve_def)

subsection \<open>What the gate asks and is told\<close>

text \<open>The body \<open>CarRegistration\<close> sends, and the code and the text it returns for each outcome.\<close>

lemma comma_notin_actions [simp]:
  "CHR '','' \<notin> set ActionGateRegistration" "CHR '','' \<notin> set ActionCarEnterence" "CHR '','' \<notin> set ActionCarStatusUpdate"
  by (simp_all add: action_defs)

definition gate_entry :: "int \<Rightarrow> string \<Rightarrow> bool \<Rightarrow> Gate \<Rightarrow> CarEnterence" where
  "gate_entry now plate handicap g =
     \<lparr>ce_carPlate = plate, ce_handicap = (if handicap then HS_Yes else HS_No),
      ce_enteranceTime = GetCurrentUTCTime now, ce_enterenceGate = m_GateName g\<rparr>"

lemma gate_entry_simps:
  "ce_enterenceGate (gate_entry now plate handicap g) = m_GateName g"
  "ce_carPlate (gate_entry now plate handicap g) = plate"
  "ce_handicap (gate_entry now plate handicap g) = HS_Yes \<longleftrightarrow> handicap"
  by (simp_all add: gate_entry_def HS_Yes_def HS_No_def)

fun gate_told :: "utils \<Rightarrow> CarEnterence \<Rightarrow> admission \<Rightarrow> int \<times> string" where
  "gate_told u e (Slot n) = (RV_SUCCESS, cer_comment (admission_response u e (Slot n)))"
| "gate_told u e a = (RV_FAILED, [])"

end
