(* ===== verification/JsonBuffer.thy ===== *)
theory JsonBuffer
  imports JsonDump
begin

text \<open>
  The serializer's fixed buffer: \<open>string_buffer\<close> has 512 bytes, and the code flushes it only after a
  complete character, when fewer than 13 bytes are free. These lemmas bound what it holds at every
  byte of every input, valid UTF-8 or not, in both escaping modes.
\<close>

text \<open>The bytes the characters of an escape take; \<open>snprintf\<close> adds a terminating NUL.\<close>

lemma length_u_escape [simp]: "length (u_escape n) = 6"
  by (simp add: u_escape_def)

lemma length_escape_codepoint: "length (escape_codepoint ea cp c) \<le> 12"
  by (simp add: escape_codepoint_def)

lemma length_escape_codepoint_plain: "cp \<le> 0x1F \<or> \<not> ea \<Longrightarrow> length (escape_codepoint ea cp c) \<le> 6"
  by (auto simp: escape_codepoint_def)

text \<open>
  While a character is incomplete the state waits for some ranges \<open>rs\<close>; at most three of its bytes
  have been copied without a flush.
\<close>

definition buffer_inv :: "dump_state \<Rightarrow> bool" where
  "buffer_inv st \<longleftrightarrow>
     d_state st = 0 \<and> length (string_buffer st) \<le> 499 \<or>
     (\<exists>rs\<in>set pending_ranges. d_state st = range_state rs \<and> length (string_buffer st) + length rs \<le> 503)"

lemma buffer_inv_init: "buffer_inv dump_init"
  by (simp add: buffer_inv_def dump_init_def UTF8_ACCEPT_def)

lemma pending_length: "rs \<in> set pending_ranges \<Longrightarrow> 1 \<le> length rs \<and> length rs \<le> 3"
  by (auto simp: pending_ranges_def)

lemma buffer_inv_length: "buffer_inv st \<Longrightarrow> length (string_buffer st) \<le> 502"
  unfolding buffer_inv_def using pending_length by fastforce

lemma length_dump_written_pending: "n \<noteq> 0 \<Longrightarrow> length (dump_written ea (n, cp) c) \<le> 1"
  by (simp add: dump_written_def UTF8_ACCEPT_def)

text \<open>The decoder's next state, in terms of the ranges awaited.\<close>

lemma decode_next:
  assumes "buffer_inv st" "decode (d_state st) (d_codepoint st) (byte c) = (n, cp)" "n \<noteq> 1" "n \<noteq> 0"
  shows "\<exists>rs\<in>set pending_ranges. n = range_state rs \<and> Suc (length (string_buffer st) + length rs) \<le> 503"
proof -
  from assms(1) consider "d_state st = 0" "length (string_buffer st) \<le> 499"
    | rs where "rs \<in> set pending_ranges" "d_state st = range_state rs" "length (string_buffer st) + length rs \<le> 503"
    unfolding buffer_inv_def by (elim disjE bexE conjE)
  then show ?thesis
  proof cases
    case 1
    have n: "n = lead_state (byte c)"
      using assms(2) next_from_accept [of "byte c"] 1(1) by (simp add: decode_def)
    with assms(3,4) obtain rs where rs: "utf8_ranges (byte c) = Some rs" "n = range_state rs"
      by (auto simp: lead_state_def split: if_splits option.splits)
    have "rs \<in> set pending_ranges" by (rule utf8_ranges_pending [OF rs(1)])
    moreover note pending_length [OF this]
    ultimately show ?thesis using 1(2) rs(2) by (intro bexI [of _ rs]) auto
  next
    case (2 rs)
    then obtain lo hi rs' where rs: "rs = (lo, hi) # rs'" by (auto simp: pending_ranges_def)
    have "n = (if lo \<le> byte c \<and> byte c \<le> hi then range_state rs' else 1)"
      using assms(2) next_from_pending [OF 2(1) [unfolded rs], of "byte c"]
      unfolding decode_def 2(2) rs by simp
    with assms(3) have n: "n = range_state rs'" by (auto split: if_splits)
    with assms(4) have "rs' \<noteq> []" by (auto simp: range_state_simps)
    with pending_tl 2(1) rs have "rs' \<in> set pending_ranges" by blast
    with n 2(3) rs show ?thesis by (intro bexI [of _ rs']) auto
  qed
qed

text \<open>With \<open>ensure_ascii\<close> nothing is copied while a character is incomplete.\<close>

definition mode_inv :: "bool \<Rightarrow> dump_state \<Rightarrow> bool" where
  "mode_inv ea st \<longleftrightarrow> (ea \<longrightarrow> length (string_buffer st) \<le> 499)"

text \<open>Every byte fits, the NUL of \<open>snprintf\<close> included.\<close>

lemma dump_written_fits:
  assumes "buffer_inv st" "mode_inv ea st"
  shows "length (string_buffer st) + length (dump_written ea (n, cp) c) + 1 \<le> 512"
proof (cases ea)
  case True
  then show ?thesis
    using assms(2) length_escape_codepoint [of ea cp c] by (auto simp: mode_inv_def dump_written_def)
next
  case False
  then show ?thesis
    using buffer_inv_length [OF assms(1)] length_escape_codepoint_plain [of cp ea c]
    by (auto simp: dump_written_def)
qed

lemma dump_step_inv:
  assumes "buffer_inv st" "mode_inv ea st" "dump_step ea st c = Inr st'"
  shows "buffer_inv st' \<and> mode_inv ea st'"
proof -
  obtain n cp where dec: "decode (d_state st) (d_codepoint st) (byte c) = (n, cp)" by force
  have n1: "n \<noteq> 1" using assms(3) dec by (auto simp: dump_step_def UTF8_ACCEPT_def UTF8_REJECT_def)
  let ?w = "string_buffer st @ dump_written ea (n, cp) c"
  show ?thesis
  proof (cases "n = 0")
    case True
    with assms(3) dec have st': "st' = flush_if_full (st\<lparr>d_state := n, d_codepoint := cp, string_buffer := ?w\<rparr>)"
      by (simp add: dump_step_def UTF8_ACCEPT_def)
    have "length (string_buffer st') \<le> 499" unfolding st' by (auto simp: flush_if_full_def)
    moreover have "d_state st' = 0" unfolding st' using True by simp
    ultimately show ?thesis by (simp add: buffer_inv_def mode_inv_def)
  next
    case False
    with assms(3) dec n1 have st': "st' = st\<lparr>d_state := n, d_codepoint := cp, string_buffer := ?w\<rparr>"
      by (simp add: dump_step_def UTF8_ACCEPT_def UTF8_REJECT_def)
    from decode_next [OF assms(1) dec n1 False] length_dump_written_pending [OF False, of ea cp c]
    have "buffer_inv st'" unfolding st' buffer_inv_def by fastforce
    moreover have "mode_inv ea st'"
      using assms(2) False unfolding st' by (auto simp: mode_inv_def dump_written_def UTF8_ACCEPT_def)
    ultimately show ?thesis by blast
  qed
qed

lemma dump_loop_inv:
  "buffer_inv st \<Longrightarrow> mode_inv ea st \<Longrightarrow> dump_loop ea st s = Inr st' \<Longrightarrow> buffer_inv st' \<and> mode_inv ea st'"
proof (induction s arbitrary: st)
  case Nil
  then show ?case by simp
next
  case (Cons c s)
  from Cons.prems obtain st1 where st1: "dump_step ea st c = Inr st1" "dump_loop ea st1 s = Inr st'" by auto
  note inv = dump_step_inv [OF Cons.prems(1,2) st1(1)]
  show ?case by (rule Cons.IH [OF _ _ st1(2)]) (use inv in blast)+
qed

end
