(* ===== verification/IniFile.thy ===== *)
theory IniFile
  imports Config
begin

text \<open>
  The configuration file itself (\<open>SimpleIni.h\<close>, \<open>CSimpleIniA\<close> with its default settings: no multiple
  keys, no multi-line values, no quotes, spaces around the equals sign): how \<open>LoadData\<close> takes the text
  apart and how \<open>Save\<close> writes it. The text is a list of bytes up to its first NUL.
\<close>

subsection \<open>Characters and lines\<close>

definition LF :: char where "LF = CHR 0x0A"
definition CR :: char where "CR = CHR 0x0D"

definition IsSpace :: "char \<Rightarrow> bool" where
  "IsSpace ch \<longleftrightarrow> ch = CHR 0x20 \<or> ch = CHR 0x09 \<or> ch = CR \<or> ch = LF"

definition IsComment :: "char \<Rightarrow> bool" where
  "IsComment ch \<longleftrightarrow> ch = CHR '';'' \<or> ch = CHR 0x23"

definition IsNewLineChar :: "char \<Rightarrow> bool" where
  "IsNewLineChar c \<longleftrightarrow> c = LF \<or> c = CR"

text \<open>One step over \<open>\r\n\<close> or a single character.\<close>

definition SkipNewLine :: "string \<Rightarrow> string" where
  "SkipNewLine s = (if prefix [CR, LF] s then drop 2 s else drop 1 s)"

definition line_of :: "string \<Rightarrow> string" where
  "line_of s = takeWhile (\<lambda>c. \<not> IsNewLineChar c) s"

definition after_line :: "string \<Rightarrow> string" where
  "after_line s = dropWhile (\<lambda>c. \<not> IsNewLineChar c) s"

text \<open>\<open>while (pTrail >= start && IsSpace(*pTrail)) --pTrail\<close>.\<close>

definition rstrip :: "string \<Rightarrow> string" where
  "rstrip s = rev (dropWhile IsSpace (rev s))"

definition at_comment :: "string \<Rightarrow> bool" where
  "at_comment s \<longleftrightarrow> s \<noteq> [] \<and> IsComment (hd s)"

lemma length_SkipNewLine: "s \<noteq> [] \<Longrightarrow> length (SkipNewLine s) < length s"
  by (cases s) (auto simp: SkipNewLine_def)

lemma length_SkipNewLine_Cons [simp]: "length (SkipNewLine (c # s)) < Suc (length s)"
  using length_SkipNewLine [of "c # s"] by simp

lemma length_after_line: "length (after_line s) \<le> length s"
  by (simp add: after_line_def length_dropWhile_le)

lemma comment_not_space: "IsComment c \<Longrightarrow> \<not> IsSpace c \<and> \<not> IsNewLineChar c"
  by (auto simp: IsComment_def IsSpace_def IsNewLineChar_def CR_def LF_def)

subsection \<open>Comments\<close>

text \<open>The blank lines ahead: how many newlines, and what follows the white space.\<close>

function blank_lines :: "string \<Rightarrow> nat \<times> string" where
  "blank_lines s =
     (case s of [] \<Rightarrow> (0, [])
      | c # r \<Rightarrow>
          if IsNewLineChar c then (case blank_lines (SkipNewLine s) of (n, t) \<Rightarrow> (Suc n, t))
          else if IsSpace c then blank_lines r else (0, s))"
  by pat_completeness auto
termination
  by (relation "measure length") auto

declare blank_lines.simps [simp del]

lemma blank_lines_length: "length (snd (blank_lines s)) \<le> length s"
proof (induction s rule: blank_lines.induct)
  case (1 s)
  show ?case
  proof (cases s)
    case Nil
    then show ?thesis by (simp add: blank_lines.simps [of "[]"])
  next
    case (Cons c r)
    then show ?thesis
      using 1 less_imp_le [OF length_SkipNewLine_Cons [of c r]]
      by (auto simp: blank_lines.simps [of "c # r"] case_prod_beta)
  qed
qed

lemma blank_lines_comment:
  assumes "at_comment (snd (blank_lines s))" "\<not> at_comment s"
  shows "length (snd (blank_lines s)) < length s"
proof (cases s)
  case Nil
  with assms show ?thesis by (simp add: at_comment_def blank_lines.simps [of "[]"])
next
  case (Cons c r)
  consider "IsNewLineChar c" | "\<not> IsNewLineChar c" "IsSpace c" | "\<not> IsNewLineChar c" "\<not> IsSpace c" by blast
  then show ?thesis
  proof cases
    case 1
    with Cons have "snd (blank_lines s) = snd (blank_lines (SkipNewLine s))"
      by (simp add: blank_lines.simps [of "c # r"] case_prod_beta)
    also have "length \<dots> \<le> length (SkipNewLine s)" by (rule blank_lines_length)
    also have "\<dots> < length s" using Cons by simp
    finally show ?thesis .
  next
    case 2
    with Cons have "blank_lines s = blank_lines r" by (simp add: blank_lines.simps [of "c # r"])
    with blank_lines_length [of r] Cons show ?thesis by simp
  next
    case 3
    with Cons have "blank_lines s = (0, s)" by (simp add: blank_lines.simps [of "c # r"])
    with assms show ?thesis by simp
  qed
qed

text \<open>
  \<open>LoadMultiLineText\<close> without a tag: the lines that start with a comment character, joined by single
  newlines, with the blank lines between them if they are allowed. The text is written over the
  consumed part of the buffer; \<open>acc\<close> is what it holds so far.
\<close>

function LoadMultiLineText :: "bool \<Rightarrow> string \<Rightarrow> string \<Rightarrow> string \<times> string" where
  "LoadMultiLineText allow_blank acc s =
     (if at_comment s then
        (let l = line_of s; r = after_line s in
         if r = [] then (acc @ l, [])
         else LoadMultiLineText allow_blank (acc @ l @ [LF]) (SkipNewLine r))
      else if allow_blank \<and> at_comment (snd (blank_lines s)) then
        LoadMultiLineText allow_blank (acc @ replicate (fst (blank_lines s)) LF) (snd (blank_lines s))
      else (butlast acc, s))"
  by pat_completeness auto
termination
proof (relation "measure (\<lambda>(allow, acc, s). length s)", goal_cases)
  case 1
  then show ?case by simp
next
  case (2 allow acc s l r)
  then have "length (SkipNewLine r) < length r" by (intro length_SkipNewLine)
  also have "\<dots> \<le> length s" using 2 length_after_line by simp
  finally show ?case by simp
next
  case (3 allow acc s)
  then show ?case using blank_lines_comment by simp
qed

declare LoadMultiLineText.simps [simp del]

lemma LoadMultiLineText_length: "length (snd (LoadMultiLineText b acc s)) \<le> length s"
proof (induction b acc s rule: LoadMultiLineText.induct)
  case (1 b acc s)
  consider "at_comment s" "after_line s = []" | "at_comment s" "after_line s \<noteq> []"
    | "\<not> at_comment s" "b \<and> at_comment (snd (blank_lines s))" | "\<not> at_comment s" "\<not> (b \<and> at_comment (snd (blank_lines s)))"
    by blast
  then show ?case
  proof cases
    case 2
    from 1(1) [OF 2(1) refl refl 2(2)] length_SkipNewLine [OF 2(2)] length_after_line [of s] 2
    show ?thesis by (simp add: LoadMultiLineText.simps [of b acc s] Let_def)
  next
    case 3
    from 1(2) [OF 3] blank_lines_length [of s] 3 show ?thesis
      by (subst LoadMultiLineText.simps) simp
  next
    case 4
    then have "LoadMultiLineText b acc s = (butlast acc, s)" by (subst LoadMultiLineText.simps) auto
    then show ?thesis by simp
  qed (simp add: LoadMultiLineText.simps [of b acc s] Let_def)
qed

lemma LoadMultiLineText_less:
  assumes "at_comment s"
  shows "length (snd (LoadMultiLineText b acc s)) < length s"
proof (cases "after_line s = []")
  case True
  with assms show ?thesis by (subst LoadMultiLineText.simps) (auto simp: Let_def at_comment_def)
next
  case False
  have "length (snd (LoadMultiLineText b (acc @ line_of s @ [LF]) (SkipNewLine (after_line s)))) \<le> length (SkipNewLine (after_line s))"
    by (rule LoadMultiLineText_length)
  also have "\<dots> < length (after_line s)" using False by (rule length_SkipNewLine)
  also have "\<dots> \<le> length s" by (rule length_after_line)
  finally show ?thesis using assms False by (subst LoadMultiLineText.simps) (simp add: Let_def)
qed

subsection \<open>Entries\<close>

lemma dropWhile_less: "xs \<noteq> [] \<Longrightarrow> P (hd xs) \<Longrightarrow> length (dropWhile P xs) < length xs"
  by (cases xs) (auto simp: length_dropWhile_le less_Suc_eq_le)

lemma hd_not_space: "dropWhile IsSpace s \<noteq> [] \<Longrightarrow> \<not> IsSpace (hd (dropWhile IsSpace s)) \<and> \<not> IsNewLineChar (hd (dropWhile IsSpace s))"
  using hd_dropWhile [of IsSpace s] by (auto simp: IsSpace_def IsNewLineChar_def)

text \<open>
  The name of the current section is a pointer into the buffer. It is \<open>Closed\<close> once a NUL has been
  written behind it; after a line that opens a section and does not close it the name runs on over the
  following text, up to the next NUL that is written.
\<close>

datatype section_ptr = Closed string | Open string

fun run_over :: "string \<Rightarrow> section_ptr \<Rightarrow> section_ptr" where
  "run_over t (Closed n) = Closed n"
| "run_over t (Open n) = Open (n @ t)"

fun end_at :: "string \<Rightarrow> section_ptr \<Rightarrow> section_ptr" where
  "end_at t (Closed n) = Closed n"
| "end_at t (Open n) = Closed (n @ t)"

fun section_name :: "section_ptr \<Rightarrow> string" where
  "section_name (Closed n) = n"
| "section_name (Open n) = n"

record ini_entry =
  en_section :: string
  en_key :: "string option"
  en_value :: string
  en_comment :: "string option"

text \<open>\<open>FindEntry\<close>: the next entry, the section pointer and the text behind it.\<close>

function FindEntry :: "section_ptr \<Rightarrow> string option \<Rightarrow> string \<Rightarrow> (ini_entry \<times> section_ptr \<times> string) option" where
  "FindEntry sp com s =
     (let s1 = dropWhile IsSpace s; sp1 = run_over (takeWhile IsSpace s) sp in
      if s1 = [] then None
      else if at_comment s1 then
        FindEntry (end_at (fst (LoadMultiLineText True [] s1)) sp1) (Some (fst (LoadMultiLineText True [] s1)))
          (snd (LoadMultiLineText True [] s1))
      else if hd s1 = CHR ''['' then
        (let s2 = dropWhile IsSpace (tl s1);
             name = takeWhile (\<lambda>c. c \<noteq> CHR '']'' \<and> \<not> IsNewLineChar c) s2;
             s3 = dropWhile (\<lambda>c. c \<noteq> CHR '']'' \<and> \<not> IsNewLineChar c) s2
         in if s3 \<noteq> [] \<and> hd s3 = CHR '']'' then
              Some (\<lparr>en_section = rstrip name, en_key = None, en_value = [], en_comment = com\<rparr>,
                    Closed (rstrip name), after_line (tl s3))
            else FindEntry (Open name) com s3)
      else
        (let key = takeWhile (\<lambda>c. c \<noteq> CHR ''='' \<and> \<not> IsNewLineChar c) s1;
             s2 = dropWhile (\<lambda>c. c \<noteq> CHR ''='' \<and> \<not> IsNewLineChar c) s1
         in if s2 = [] \<or> hd s2 \<noteq> CHR ''='' then FindEntry (run_over key sp1) com s2
            else if key = [] then FindEntry (run_over (line_of s1) sp1) com (after_line s1)
            else
              (let sp2 = end_at (rstrip key) sp1;
                   v = dropWhile (\<lambda>c. \<not> IsNewLineChar c \<and> IsSpace c) (tl s2)
               in Some (\<lparr>en_section = section_name sp2, en_key = Some (rstrip key),
                         en_value = rstrip (line_of v), en_comment = com\<rparr>,
                        sp2, if after_line v = [] then [] else SkipNewLine (after_line v)))))"
  by pat_completeness auto
termination
proof (relation "measure (\<lambda>(sp, com, s). length s)", goal_cases)
  case 1
  then show ?case by simp
next
  case (2 sp com s s1 sp1)
  then have "length (snd (LoadMultiLineText True [] s1)) < length s1" by (intro LoadMultiLineText_less)
  also have "\<dots> \<le> length s" using 2 by (simp add: length_dropWhile_le)
  finally show ?case by simp
next
  case (3 sp com s s1 sp1 s2 name s3)
  then have "length s3 \<le> length (tl s1)" by (metis length_dropWhile_le order_trans)
  also have "\<dots> < length s1" using 3 by simp
  also have "\<dots> \<le> length s" using 3 by (simp add: length_dropWhile_le)
  finally show ?case by simp
next
  case (4 sp com s s1 sp1 key s2)
  have "length s2 < length s1"
  proof -
    have "\<not> IsNewLineChar (hd s1)" using 4 hd_not_space [of s] by auto
    moreover have "hd s1 \<noteq> CHR ''=''"
    proof
      assume "hd s1 = CHR ''=''"
      then have "s2 = s1" using 4(3,7) by (cases s1) simp_all
      with \<open>hd s1 = _\<close> 4(3,8) show False by simp
    qed
    ultimately show ?thesis unfolding 4(7) using 4(3) by (intro dropWhile_less) simp_all
  qed
  also have "length s1 \<le> length s" using 4 by (simp add: length_dropWhile_le)
  finally show ?case by simp
next
  case (5 sp com s s1 sp1 key s2)
  have "\<not> IsNewLineChar (hd s1)" using 5 hd_not_space [of s] by auto
  then have "length (after_line s1) < length s1" using 5 by (simp add: after_line_def dropWhile_less)
  also have "\<dots> \<le> length s" using 5 by (simp add: length_dropWhile_le)
  finally show ?case by simp
qed

declare FindEntry.simps [simp del]

text \<open>Its branches, one by one.\<close>

lemma FindEntry_none: "dropWhile IsSpace s = [] \<Longrightarrow> FindEntry sp com s = None"
  by (subst FindEntry.simps) (simp only: Let_def refl if_True)

lemma FindEntry_comment:
  "dropWhile IsSpace s = s1 \<Longrightarrow> at_comment s1 \<Longrightarrow> LoadMultiLineText True [] s1 = (t, r) \<Longrightarrow>
   FindEntry sp com s = FindEntry (end_at t (run_over (takeWhile IsSpace s) sp)) (Some t) r"
  by (subst FindEntry.simps) (simp add: Let_def at_comment_def)

lemma FindEntry_section:
  assumes "dropWhile IsSpace s = CHR ''['' # s1" "dropWhile IsSpace s1 = s2"
    "takeWhile (\<lambda>c. c \<noteq> CHR '']'' \<and> \<not> IsNewLineChar c) s2 = name"
    "dropWhile (\<lambda>c. c \<noteq> CHR '']'' \<and> \<not> IsNewLineChar c) s2 = s3"
  shows "FindEntry sp com s =
    (if s3 \<noteq> [] \<and> hd s3 = CHR '']''
     then Some (\<lparr>en_section = rstrip name, en_key = None, en_value = [], en_comment = com\<rparr>,
                Closed (rstrip name), after_line (tl s3))
     else FindEntry (Open name) com s3)"
proof -
  have "\<not> at_comment (CHR ''['' # s1)" by (simp add: at_comment_def IsComment_def)
  with assms show ?thesis by (subst FindEntry.simps) (simp only: Let_def list.sel list.simps if_False refl if_True)
qed

lemma FindEntry_line:
  assumes "dropWhile IsSpace s = s1" "s1 \<noteq> []" "\<not> at_comment s1" "hd s1 \<noteq> CHR ''[''"
    "takeWhile (\<lambda>c. c \<noteq> CHR ''='' \<and> \<not> IsNewLineChar c) s1 = key"
    "dropWhile (\<lambda>c. c \<noteq> CHR ''='' \<and> \<not> IsNewLineChar c) s1 = s2"
    "dropWhile (\<lambda>c. \<not> IsNewLineChar c \<and> IsSpace c) (tl s2) = v"
    "run_over (takeWhile IsSpace s) sp = sp1"
  shows "FindEntry sp com s =
    (if s2 = [] \<or> hd s2 \<noteq> CHR ''='' then FindEntry (run_over key sp1) com s2
     else if key = [] then FindEntry (run_over (line_of s1) sp1) com (after_line s1)
     else Some (\<lparr>en_section = section_name (end_at (rstrip key) sp1), en_key = Some (rstrip key),
                  en_value = rstrip (line_of v), en_comment = com\<rparr>,
                end_at (rstrip key) sp1, if after_line v = [] then [] else SkipNewLine (after_line v)))"
  using assms by (subst FindEntry.simps) (simp only: Let_def if_False)

lemma FindEntry_length: "FindEntry sp com s = Some (e, sp', s') \<Longrightarrow> length s' < length s"
proof (induction "length s" arbitrary: sp com s rule: less_induct)
  case less
  define s1 where "s1 = dropWhile IsSpace s"
  have le: "length s1 \<le> length s" unfolding s1_def by (rule length_dropWhile_le)
  consider (none) "s1 = []" | (comment) "at_comment s1"
    | (sect) s0 where "s1 = CHR ''['' # s0"
    | (line) "s1 \<noteq> []" "\<not> at_comment s1" "hd s1 \<noteq> CHR ''[''" by (cases s1) auto
  then show ?case
  proof cases
    case none
    with FindEntry_none [of s sp com] less.prems show ?thesis unfolding s1_def by simp
  next
    case comment
    obtain t r where tr: "LoadMultiLineText True [] s1 = (t, r)" by force
    have "length r < length s" using LoadMultiLineText_less [OF comment, of True "[]"] tr le by simp
    with less FindEntry_comment [OF s1_def [symmetric] comment tr] show ?thesis by fastforce
  next
    case sect
    let ?P = "\<lambda>c. c \<noteq> CHR '']'' \<and> \<not> IsNewLineChar c"
    define s3 where "s3 = dropWhile ?P (dropWhile IsSpace s0)"
    have l3: "length s3 < length s" unfolding s3_def
      using sect le length_dropWhile_le [of ?P "dropWhile IsSpace s0"] length_dropWhile_le [of IsSpace s0] by simp
    note eq = FindEntry_section [OF _ refl refl s3_def [symmetric], of s sp com]
    show ?thesis
    proof (cases "s3 \<noteq> [] \<and> hd s3 = CHR '']''")
      case True
      with eq sect less.prems have "s' = after_line (tl s3)" unfolding s1_def by simp
      with length_after_line [of "tl s3"] l3 show ?thesis by simp
    next
      case False
      with eq sect less.prems have "FindEntry (Open (takeWhile ?P (dropWhile IsSpace s0))) com s3 = Some (e, sp', s')"
        unfolding s1_def by (simp only: if_False)
      with less.hyps [OF l3] l3 show ?thesis by fastforce
    qed
  next
    case line
    let ?P = "\<lambda>c. c \<noteq> CHR ''='' \<and> \<not> IsNewLineChar c"
    define key s2 v where "key = takeWhile ?P s1" and "s2 = dropWhile ?P s1"
      and "v = dropWhile (\<lambda>c. \<not> IsNewLineChar c \<and> IsSpace c) (tl s2)"
    have hd1: "\<not> IsNewLineChar (hd s1)" using hd_not_space [of s] line(1) unfolding s1_def by blast
    have l2: "length s2 < length s" if "s2 = [] \<or> hd s2 \<noteq> CHR ''=''"
    proof -
      have "hd s1 \<noteq> CHR ''=''" using that line(1) unfolding s2_def by (cases s1) auto
      with hd1 line(1) le dropWhile_less [of s1 ?P] show ?thesis unfolding s2_def by simp
    qed
    have la: "length (after_line s1) < length s"
      using hd1 line(1) le dropWhile_less [of s1 "\<lambda>c. \<not> IsNewLineChar c"] unfolding after_line_def by simp
    have eq: "FindEntry sp com s = Some (e, sp', s')" by (rule less.prems)
    note eq [unfolded FindEntry_line [OF s1_def [symmetric] line key_def [symmetric] s2_def [symmetric] v_def [symmetric] refl]]
    then consider "s2 = [] \<or> hd s2 \<noteq> CHR ''=''"
        "FindEntry (run_over key (run_over (takeWhile IsSpace s) sp)) com s2 = Some (e, sp', s')"
      | "FindEntry (run_over (line_of s1) (run_over (takeWhile IsSpace s) sp)) com (after_line s1) = Some (e, sp', s')"
      | "s2 \<noteq> []" "s' = (if after_line v = [] then [] else SkipNewLine (after_line v))"
      by (auto split: if_splits)
    then show ?thesis
    proof cases
      case 1
      with less.hyps [OF l2 [OF 1(1)]] l2 [OF 1(1)] show ?thesis by fastforce
    next
      case 2
      with less.hyps [OF la] la show ?thesis by fastforce
    next
      case 3
      have "length v < length s2" using 3(1) length_dropWhile_le [of "\<lambda>c. \<not> IsNewLineChar c \<and> IsSpace c" "tl s2"]
        unfolding v_def by (cases s2) auto
      moreover have "length s2 \<le> length s" using le length_dropWhile_le [of ?P s1] unfolding s2_def by simp
      ultimately show ?thesis
        using 3 length_after_line [of v] length_SkipNewLine [of "after_line v"] by (auto split: if_splits)
    qed
  qed
qed

subsection \<open>The table\<close>

text \<open>Sections and keys in load order, each with the comment it was first seen with.\<close>

type_synonym ini_keys = "(string \<times> string option \<times> string) list"
type_synonym ini_data = "(string \<times> string option \<times> ini_keys) list"

definition add_key :: "string \<Rightarrow> string \<Rightarrow> string option \<Rightarrow> ini_keys \<Rightarrow> ini_keys" where
  "add_key k v com = ini_update k (\<lambda>old. case old of None \<Rightarrow> (com, v) | Some (c, v') \<Rightarrow> (c, v))"

definition AddEntry :: "string \<Rightarrow> string option \<Rightarrow> string \<Rightarrow> string option \<Rightarrow> ini_data \<Rightarrow> ini_data" where
  "AddEntry sect key val com =
     ini_update sect (\<lambda>old.
       case (case old of None \<Rightarrow> (if key = None then com else None, []) | Some e \<Rightarrow> e) of (c, kvs) \<Rightarrow>
         (case key of None \<Rightarrow> (c, kvs) | Some k \<Rightarrow> (c, add_key k val com kvs)))"

record ini_file =
  m_pFileComment :: "string option"
  m_bStoreIsUtf8 :: bool
  m_loaded :: bool
  m_data :: ini_data

definition ini_empty :: ini_file where
  "ini_empty = \<lparr>m_pFileComment = None, m_bStoreIsUtf8 = False, m_loaded = False, m_data = []\<rparr>"

text \<open>The loop of \<open>LoadData\<close>.\<close>

function load_entries :: "section_ptr \<Rightarrow> string \<Rightarrow> ini_data \<Rightarrow> ini_data" where
  "load_entries sp s m =
     (case FindEntry sp None s of None \<Rightarrow> m
      | Some (e, sp', s') \<Rightarrow>
          load_entries sp' s' (AddEntry (en_section e) (en_key e) (en_value e) (en_comment e) m))"
  by pat_completeness auto
termination
  by (relation "measure (\<lambda>(sp, s, m). length s)") (auto dest: FindEntry_length)

declare load_entries.simps [simp del]

definition utf8_signature :: string where
  "utf8_signature = [CHR 0xEF, CHR 0xBB, CHR 0xBF]"

text \<open>\<open>FindFileComment\<close> takes a comment at the very start, up to the first line without one.\<close>

definition FindFileComment :: "ini_file \<Rightarrow> string \<Rightarrow> ini_file \<times> string" where
  "FindFileComment f s =
     (if m_pFileComment f \<noteq> None \<or> \<not> at_comment s then (f, s)
      else (case LoadMultiLineText False [] s of (t, r) \<Rightarrow> (f\<lparr>m_pFileComment := Some t\<rparr>, r)))"

definition LoadData :: "ini_file \<Rightarrow> string \<Rightarrow> ini_file" where
  "LoadData f a_pData =
     (let bom = prefix utf8_signature a_pData;
          f1 = (if bom \<and> \<not> m_loaded f then f\<lparr>m_bStoreIsUtf8 := True\<rparr> else f);
          s = (if bom then drop 3 a_pData else a_pData)
      in if s = [] then f1
         else (case FindFileComment f1 (c_str s) of (f2, r) \<Rightarrow>
                 f2\<lparr>m_loaded := True, m_data := load_entries (Closed []) r (m_data f2)\<rparr>))"

text \<open>\<open>LoadFile\<close> on the content of the file, \<open>None\<close> when it cannot be read.\<close>

definition LoadFile :: "ini_file \<Rightarrow> string option \<Rightarrow> ini_file option" where
  "LoadFile f content =
     (case content of None \<Rightarrow> None | Some text \<Rightarrow> if text = [] then Some f else Some (LoadData f text))"

subsection \<open>Saving\<close>

definition OutputMultiLineText :: "string \<Rightarrow> string" where
  "OutputMultiLineText t = (if t = [] then [] else concat (map (\<lambda>l. l @ [LF]) (split_on LF t)))"

fun save_keys :: "ini_keys \<Rightarrow> string" where
  "save_keys [] = []"
| "save_keys ((k, c, v) # kvs) =
     (case c of None \<Rightarrow> [] | Some t \<Rightarrow> LF # OutputMultiLineText t) @ k @ '' = '' @ v @ LF # save_keys kvs"

fun save_sections :: "bool \<Rightarrow> ini_data \<Rightarrow> string" where
  "save_sections bNeedNewLine [] = []"
| "save_sections bNeedNewLine ((n, c, kvs) # m) =
     (if bNeedNewLine then [LF, LF] else []) @
     (case c of None \<Rightarrow> [] | Some t \<Rightarrow> OutputMultiLineText t) @
     (if n \<noteq> [] then CHR ''['' # n @ [CHR '']'', LF] else []) @ save_keys kvs @ save_sections True m"

text \<open>The section without a name is moved to the front.\<close>

definition empty_first :: "ini_data \<Rightarrow> ini_data" where
  "empty_first m = filter (\<lambda>e. fst e = []) m @ filter (\<lambda>e. fst e \<noteq> []) m"

definition Save :: "bool \<Rightarrow> ini_file \<Rightarrow> string" where
  "Save a_bAddSignature f =
     (if m_bStoreIsUtf8 f \<and> a_bAddSignature then utf8_signature else []) @
     (case m_pFileComment f of None \<Rightarrow> [] | Some t \<Rightarrow> OutputMultiLineText t) @
     save_sections (m_pFileComment f \<noteq> None) (empty_first (m_data f))"

subsection \<open>The entries \<open>Config\<close> works on\<close>

definition erase :: "ini_data \<Rightarrow> ini" where
  "erase m = map (\<lambda>(n, c, kvs). (n, map (\<lambda>(k, c, v). (k, v)) kvs)) m"

lemma ini_update_map:
  assumes "\<And>x. g (f x) = f' (map_option g x)"
  shows "map (\<lambda>(k, v). (k, g v)) (ini_update k f m) = ini_update k f' (map (\<lambda>(k, v). (k, g v)) m)"
  using assms by (induction m) (auto split: option.splits)

text \<open>\<open>AddEntry\<close> with a key is the update of \<open>Config\<close>.\<close>

lemma erase_AddEntry: "erase (AddEntry s (Some k) v com m) = ini_SetValue (erase m) s k v"
proof -
  define g :: "string option \<times> ini_keys \<Rightarrow> (string \<times> string) list" where "g = (\<lambda>(c, kvs). map (\<lambda>(k, e). (k, snd e)) kvs)"
  have key: "map (\<lambda>(k, e). (k, snd e)) (add_key k v com kvs) = ini_update k (\<lambda>_. v) (map (\<lambda>(k, e). (k, snd e)) kvs)" for kvs
    unfolding add_key_def by (rule ini_update_map) (auto split: option.splits)
  have e: "erase = map (\<lambda>(n, e). (n, g e))" by (auto simp: erase_def g_def fun_eq_iff split_def)
  show ?thesis
    unfolding e AddEntry_def ini_SetValue_def
    by (rule ini_update_map) (auto simp: g_def key split: option.splits prod.splits)
qed

end
