(* ===== verification/IniRound.thy ===== *)
theory IniRound
  imports IniFile
begin

text \<open>
  What \<open>Save\<close> writes and \<open>LoadData\<close> reads back: for a table whose names, values and comments are in the
  form the file format can hold, the same table.
\<close>

subsection \<open>What the format can hold\<close>

definition plain_line :: "string \<Rightarrow> bool" where
  "plain_line s \<longleftrightarrow> nul \<notin> set s \<and> (\<forall>c\<in>set s. \<not> IsNewLineChar c)"

definition trimmed :: "string \<Rightarrow> bool" where
  "trimmed s \<longleftrightarrow> s = [] \<or> \<not> IsSpace (hd s) \<and> \<not> IsSpace (last s)"

definition good_comment :: "string \<Rightarrow> bool" where
  "good_comment t \<longleftrightarrow> t \<noteq> [] \<and> (\<forall>l\<in>set (split_on LF t). at_comment l \<and> plain_line l)"

definition good_key :: "string \<Rightarrow> bool" where
  "good_key k \<longleftrightarrow> k \<noteq> [] \<and> plain_line k \<and> trimmed k \<and> \<not> IsComment (hd k) \<and> hd k \<noteq> CHR ''['' \<and>
     CHR ''='' \<notin> set k \<and> hd k \<noteq> CHR 0xEF"

definition good_value :: "string \<Rightarrow> bool" where
  "good_value v \<longleftrightarrow> plain_line v \<and> trimmed v"

definition folded :: "(string \<times> 'a) list \<Rightarrow> string list" where
  "folded m = map (\<lambda>e. map locase (fst e)) m"

definition good_keys :: "ini_keys \<Rightarrow> bool" where
  "good_keys kvs \<longleftrightarrow> distinct (folded kvs) \<and>
     (\<forall>(k, c, v)\<in>set kvs. good_key k \<and> pred_option good_comment c \<and> good_value v)"

definition good_section :: "string \<times> string option \<times> ini_keys \<Rightarrow> bool" where
  "good_section = (\<lambda>(n, c, kvs). plain_line n \<and> trimmed n \<and> CHR '']'' \<notin> set n \<and> pred_option good_comment c \<and>
     good_keys kvs \<and> (n = [] \<longrightarrow> c = None \<and> kvs \<noteq> []))"

definition good_data :: "ini_data \<Rightarrow> bool" where
  "good_data m \<longleftrightarrow> distinct (folded m) \<and> (\<forall>e\<in>set m. good_section e)"

text \<open>Without a comment of the file the first section must have none, or it would be taken for that.\<close>

definition good_file :: "ini_file \<Rightarrow> bool" where
  "good_file f \<longleftrightarrow> good_data (m_data f) \<and> pred_option good_comment (m_pFileComment f) \<and>
     (m_pFileComment f = None \<longrightarrow> (case empty_first (m_data f) of [] \<Rightarrow> True | (n, c, kvs) # m \<Rightarrow> c = None))"

subsection \<open>Lines\<close>

lemma newline_simps [simp]:
  "IsNewLineChar LF" "IsSpace LF" "\<not> IsComment LF" "LF \<noteq> CR" "CR \<noteq> LF" "LF \<noteq> nul" "nul \<noteq> LF"
  by (simp_all add: IsNewLineChar_def IsSpace_def IsComment_def LF_def CR_def nul_def)

lemma SkipNewLine_LF [simp]: "SkipNewLine (LF # s) = s"
  by (simp add: SkipNewLine_def prefix_def)

lemma line_of_plain: "plain_line l \<Longrightarrow> line_of (l @ LF # s) = l \<and> after_line (l @ LF # s) = LF # s"
  by (simp add: plain_line_def line_of_def after_line_def takeWhile_append_stop dropWhile_append_stop)

lemma rstrip_trimmed: "trimmed s \<Longrightarrow> rstrip s = s"
  by (cases s rule: rev_cases) (auto simp: trimmed_def rstrip_def)

lemma rstrip_space: "IsSpace c \<Longrightarrow> rstrip (s @ [c]) = rstrip s"
  by (simp add: rstrip_def)

lemma comment_lines:
  assumes "ls \<noteq> []" "\<forall>l\<in>set ls. at_comment l \<and> plain_line l" "\<not> at_comment rest"
    and "\<not> (allow \<and> at_comment (snd (blank_lines rest)))"
  shows "LoadMultiLineText allow acc (concat (map (\<lambda>l. l @ [LF]) ls) @ rest) = (acc @ join_with LF ls, rest)"
  using assms(1,2)
proof (induction ls arbitrary: acc)
  case (Cons l ls)
  let ?s = "concat (map (\<lambda>l. l @ [LF]) ls) @ rest"
  have l: "at_comment l" "plain_line l" using Cons.prems by auto
  then have "at_comment (l @ LF # ?s)" by (cases l) (auto simp: at_comment_def)
  with line_of_plain [OF l(2), of ?s] have step:
    "LoadMultiLineText allow acc (l @ LF # ?s) = LoadMultiLineText allow (acc @ l @ [LF]) ?s"
    by (subst LoadMultiLineText.simps) (simp add: Let_def)
  show ?case
  proof (cases "ls = []")
    case True
    have "LoadMultiLineText allow (acc @ l @ [LF]) rest = (acc @ l, rest)"
      using assms(3,4) by (subst LoadMultiLineText.simps) (auto simp: butlast_append)
    with step True show ?thesis by simp
  next
    case False
    with Cons.IH [OF False, of "acc @ l @ [LF]"] Cons.prems(2) step show ?thesis by (simp add: join_with_Cons)
  qed
qed simp

lemma comment_text:
  assumes "good_comment t" "\<not> at_comment rest" "\<not> (allow \<and> at_comment (snd (blank_lines rest)))"
  shows "LoadMultiLineText allow [] (OutputMultiLineText t @ rest) = (t, rest)"
  using comment_lines [OF _ _ assms(2,3), of "split_on LF t" "[]"] assms(1)
  by (simp add: good_comment_def OutputMultiLineText_def)

lemma comment_starts: "good_comment t \<Longrightarrow> at_comment (OutputMultiLineText t @ s)"
proof -
  assume t: "good_comment t"
  obtain l ls where ls: "split_on LF t = l # ls" by (metis list.exhaust split_on_not_Nil)
  with t have "at_comment l" by (simp add: good_comment_def)
  with t ls show ?thesis by (cases l) (auto simp: good_comment_def OutputMultiLineText_def at_comment_def)
qed

subsection \<open>Entries\<close>

lemma FindEntry_Closed_skip: "FindEntry (Closed n) com s = FindEntry (Closed n) com (dropWhile IsSpace s)"
  by (subst (1 2) FindEntry.simps) (simp only: run_over.simps dropWhile_idem)

lemma FindEntry_LF [simp]: "FindEntry (Closed n) com (LF # s) = FindEntry (Closed n) com s"
  using FindEntry_Closed_skip [of n com "LF # s"] FindEntry_Closed_skip [of n com s] by simp

lemma key_start:
  assumes "good_key k"
  shows "dropWhile IsSpace (k @ s) = k @ s" "\<not> at_comment (k @ s)" "k @ s \<noteq> []" "hd (k @ s) \<noteq> CHR ''[''"
    "\<not> at_comment (snd (blank_lines (k @ s)))"
proof -
  obtain c r where k: "k = c # r" "\<not> IsSpace c" "\<not> IsComment c" "c \<noteq> CHR ''[''"
    using assms by (cases k) (auto simp: good_key_def trimmed_def)
  then show "dropWhile IsSpace (k @ s) = k @ s" "\<not> at_comment (k @ s)" "k @ s \<noteq> []" "hd (k @ s) \<noteq> CHR ''[''"
    by (simp_all add: at_comment_def)
  have "\<not> IsNewLineChar c" using k(2) by (auto simp: IsSpace_def IsNewLineChar_def)
  then have "blank_lines (k @ s) = (0, k @ s)" using k by (subst blank_lines.simps) simp
  then show "\<not> at_comment (snd (blank_lines (k @ s)))" using k by (simp add: at_comment_def)
qed

lemma key_line:
  assumes k: "good_key k" and v: "good_value v"
  shows "FindEntry (Closed n) com (k @ '' = '' @ v @ LF # rest) =
    Some (\<lparr>en_section = n, en_key = Some k, en_value = v, en_comment = com\<rparr>, Closed n, rest)"
proof -
  let ?P = "\<lambda>c. c \<noteq> CHR ''='' \<and> \<not> IsNewLineChar c"
  let ?s = "k @ '' = '' @ v @ LF # rest"
  have sp: "IsSpace (CHR 0x20)" "\<not> IsNewLineChar (CHR 0x20)" by (simp_all add: IsSpace_def IsNewLineChar_def LF_def CR_def)
  have "\<forall>c\<in>set (k @ '' ''). ?P c" using k sp(2) by (auto simp: good_key_def plain_line_def)
  then have tk: "takeWhile ?P ?s = k @ '' ''" "dropWhile ?P ?s = ''= '' @ v @ LF # rest"
    using takeWhile_append_stop [of "k @ '' ''" ?P "CHR ''=''"] dropWhile_append_stop [of "k @ '' ''" ?P "CHR ''=''"] by simp_all
  have dv: "dropWhile (\<lambda>c. \<not> IsNewLineChar c \<and> IsSpace c) (tl (''= '' @ v @ LF # rest)) = v @ LF # rest"
    using v sp by (cases v) (auto simp: good_value_def trimmed_def)
  have rs: "rstrip (k @ '' '') = k" using k sp(1) rstrip_space [of "CHR 0x20" k] by (simp add: good_key_def rstrip_trimmed)
  have vr: "line_of (v @ LF # rest) = v" "after_line (v @ LF # rest) = LF # rest" "rstrip v = v"
    using v line_of_plain [of v rest] by (simp_all add: good_value_def rstrip_trimmed)
  have "takeWhile IsSpace ?s = []" using k by (cases k) (auto simp: good_key_def trimmed_def)
  note start = key_start [OF k, of "'' = '' @ v @ LF # rest"]
  from FindEntry_line [OF start(1,3,2,4) tk dv refl, of "Closed n" com] show ?thesis by (simp add: rs vr)
qed

definition comment_out :: "string option \<Rightarrow> string" where
  "comment_out c = (case c of None \<Rightarrow> [] | Some t \<Rightarrow> OutputMultiLineText t)"

lemma comment_then:
  assumes "pred_option good_comment c" "\<not> at_comment s" "\<not> at_comment (snd (blank_lines s))"
  shows "FindEntry (Closed n) None (comment_out c @ s) = FindEntry (Closed n) c s"
proof (cases c)
  case (Some t)
  with assms(1) have t: "good_comment t" by simp
  have ds: "dropWhile IsSpace (OutputMultiLineText t @ s) = OutputMultiLineText t @ s"
    using comment_starts [OF t, of s] comment_not_space by (cases "OutputMultiLineText t @ s") (auto simp: at_comment_def)
  have "LoadMultiLineText True [] (OutputMultiLineText t @ s) = (t, s)"
    using comment_text [OF t assms(2)] assms(3) by blast
  from FindEntry_comment [OF ds comment_starts [OF t] this, of "Closed n" None] Some show ?thesis
    by (simp add: comment_out_def)
qed (simp add: comment_out_def)

subsection \<open>Loading what was saved\<close>

lemma load_entries_None: "FindEntry sp None s = None \<Longrightarrow> load_entries sp s m = m"
  by (subst load_entries.simps) simp

lemma load_entries_Some:
  "FindEntry sp None s = Some (e, sp', s') \<Longrightarrow>
   load_entries sp s m = load_entries sp' s' (AddEntry (en_section e) (en_key e) (en_value e) (en_comment e) m)"
  by (subst load_entries.simps) simp

lemma load_entries_LF [simp]: "load_entries (Closed n) (LF # s) m = load_entries (Closed n) s m"
  by (subst (1 2) load_entries.simps) simp

text \<open>A new key or section goes to the end of the table.\<close>

lemma ini_update_new:
  assumes "map locase k \<notin> set (folded m)"
  shows "ini_update k f m = m @ [(k, f None)]"
  using assms by (induction m) (auto simp: folded_def same_key_iff)

lemma ini_update_last:
  assumes "map locase k \<notin> set (folded m)"
  shows "ini_update k f (m @ [(k, x)]) = m @ [(k, f (Some x))]"
  using assms by (induction m) (auto simp: folded_def same_key_iff)

lemma AddEntry_section:
  "map locase n \<notin> set (folded m) \<Longrightarrow> AddEntry n None v c m = m @ [(n, c, [])]"
  by (simp add: AddEntry_def ini_update_new)

lemma AddEntry_key:
  assumes "map locase n \<notin> set (folded m)" "map locase k \<notin> set (folded kvs)"
  shows "AddEntry n (Some k) v c (m @ [(n, sc, kvs)]) = m @ [(n, sc, kvs @ [(k, c, v)])]"
  using assms by (simp add: AddEntry_def ini_update_last add_key_def ini_update_new)

lemma AddEntry_first_key: "AddEntry n (Some k) v c [] = [(n, None, [(k, c, v)])]"
  by (simp add: AddEntry_def add_key_def)

text \<open>One key line, with its comment.\<close>

lemma load_key:
  assumes "good_key k" "good_value v" "pred_option good_comment c"
  shows "load_entries (Closed n) (save_keys ((k, c, v) # kvs) @ rest) m =
    load_entries (Closed n) (save_keys kvs @ rest) (AddEntry n (Some k) v c m)"
proof -
  let ?s = "k @ '' = '' @ v @ LF # save_keys kvs @ rest"
  have "FindEntry (Closed n) None (comment_out c @ ?s) = FindEntry (Closed n) c ?s"
    by (rule comment_then [OF assms(3) key_start(2,5) [OF assms(1)]])
  also have "\<dots> = Some (\<lparr>en_section = n, en_key = Some k, en_value = v, en_comment = c\<rparr>, Closed n, save_keys kvs @ rest)"
    by (rule key_line [OF assms(1,2)])
  finally have "load_entries (Closed n) (comment_out c @ ?s) m =
      load_entries (Closed n) (save_keys kvs @ rest) (AddEntry n (Some k) v c m)" by (simp add: load_entries_Some)
  then show ?thesis by (cases c) (simp_all add: comment_out_def)
qed

lemma load_keys:
  assumes "good_keys (kvs0 @ kvs)" "map locase n \<notin> set (folded m)"
  shows "load_entries (Closed n) (save_keys kvs @ rest) (m @ [(n, sc, kvs0)]) =
    load_entries (Closed n) rest (m @ [(n, sc, kvs0 @ kvs)])"
  using assms(1)
proof (induction kvs arbitrary: kvs0)
  case (Cons e kvs)
  obtain k c v where e: "e = (k, c, v)" by (cases e) auto
  with Cons.prems have g: "good_key k" "good_value v" "pred_option good_comment c" "map locase k \<notin> set (folded kvs0)"
    by (auto simp: good_keys_def folded_def)
  have "good_keys ((kvs0 @ [(k, c, v)]) @ kvs)" using Cons.prems e by simp
  from Cons.IH [OF this] show ?case
    unfolding e load_key [OF g(1-3)] AddEntry_key [OF assms(2) g(4)] by simp
qed simp

text \<open>A section with a name: its header is found behind the comment.\<close>

lemma section_header:
  assumes "plain_line n" "trimmed n" "CHR '']'' \<notin> set n"
  shows "FindEntry sp com (CHR ''['' # n @ CHR '']'' # LF # rest) =
    Some (\<lparr>en_section = n, en_key = None, en_value = [], en_comment = com\<rparr>, Closed n, LF # rest)"
proof -
  let ?P = "\<lambda>c. c \<noteq> CHR '']'' \<and> \<not> IsNewLineChar c"
  have b: "\<not> IsSpace (CHR ''['')" "\<not> IsSpace (CHR '']'')" by (simp_all add: IsSpace_def LF_def CR_def)
  have "\<forall>c\<in>set n. ?P c" using assms by (auto simp: plain_line_def)
  then have n: "takeWhile ?P (n @ CHR '']'' # LF # rest) = n" "dropWhile ?P (n @ CHR '']'' # LF # rest) = CHR '']'' # LF # rest"
    using takeWhile_append_stop [of n ?P "CHR '']''"] dropWhile_append_stop [of n ?P "CHR '']''"] by simp_all
  have s1: "dropWhile IsSpace (CHR ''['' # n @ CHR '']'' # LF # rest) = CHR ''['' # n @ CHR '']'' # LF # rest" using b by simp
  have s2: "dropWhile IsSpace (n @ CHR '']'' # LF # rest) = n @ CHR '']'' # LF # rest"
    using assms(2) b by (cases n) (auto simp: trimmed_def)
  from FindEntry_section [OF s1 s2 n, of sp com] show ?thesis
    using assms(2) by (simp add: rstrip_trimmed after_line_def)
qed

lemma load_section:
  assumes "good_section (n, c, kvs)" "n \<noteq> []" "map locase n \<notin> set (folded m)"
  shows "load_entries (Closed n0) (comment_out c @ CHR ''['' # n @ [CHR '']'', LF] @ save_keys kvs @ rest) m =
    load_entries (Closed n) rest (m @ [(n, c, kvs)])"
proof -
  have g: "plain_line n" "trimmed n" "CHR '']'' \<notin> set n" "pred_option good_comment c" "good_keys kvs"
    using assms(1) by (simp_all add: good_section_def)
  let ?s = "CHR ''['' # n @ CHR '']'' # LF # save_keys kvs @ rest"
  have nb: "\<not> at_comment ?s" by (simp add: at_comment_def IsComment_def)
  have "\<not> IsSpace (CHR ''['')" "\<not> IsNewLineChar (CHR ''['')" by (simp_all add: IsSpace_def IsNewLineChar_def LF_def CR_def)
  then have "blank_lines ?s = (0, ?s)" by (subst blank_lines.simps) simp
  with nb have nb2: "\<not> at_comment (snd (blank_lines ?s))" by simp
  have "FindEntry (Closed n0) None (comment_out c @ ?s) = FindEntry (Closed n0) c ?s"
    by (rule comment_then [OF g(4) nb nb2])
  also have "\<dots> = Some (\<lparr>en_section = n, en_key = None, en_value = [], en_comment = c\<rparr>, Closed n, LF # save_keys kvs @ rest)"
    by (rule section_header [OF g(1-3)])
  finally have "load_entries (Closed n0) (comment_out c @ ?s) m = load_entries (Closed n) (save_keys kvs @ rest) (m @ [(n, c, [])])"
    using assms(3) by (simp add: load_entries_Some AddEntry_section)
  with load_keys [OF _ assms(3), of "[]" kvs rest c] g(5) show ?thesis by simp
qed

lemma load_sections:
  assumes "good_data (m @ ms)" "\<forall>e\<in>set ms. fst e \<noteq> []"
  shows "load_entries (Closed n0) (save_sections b ms) m = m @ ms"
  using assms
proof (induction ms arbitrary: m n0 b)
  case Nil
  have "FindEntry (Closed n0) None [] = None" by (rule FindEntry_none) simp
  then show ?case by (simp add: load_entries_None)
next
  case (Cons e ms)
  obtain n c kvs where e: "e = (n, c, kvs)" by (cases e) auto
  with Cons.prems have g: "good_section (n, c, kvs)" "n \<noteq> []" "map locase n \<notin> set (folded m)"
    by (auto simp: good_data_def folded_def)
  have "good_data ((m @ [(n, c, kvs)]) @ ms)" "\<forall>e\<in>set ms. fst e \<noteq> []" using Cons.prems e by auto
  note IH = Cons.IH [OF this]
  have "save_sections b (e # ms) = (if b then [LF, LF] else []) @
      comment_out c @ CHR ''['' # n @ [CHR '']'', LF] @ save_keys kvs @ save_sections True ms"
    using g(2) by (simp add: e comment_out_def)
  then have "load_entries (Closed n0) (save_sections b (e # ms)) m =
      load_entries (Closed n0) (comment_out c @ CHR ''['' # n @ [CHR '']'', LF] @ save_keys kvs @ save_sections True ms) m"
    by (simp only:) (simp split: if_split)
  also have "\<dots> = load_entries (Closed n) (save_sections True ms) (m @ [(n, c, kvs)])" by (rule load_section [OF g])
  also have "\<dots> = m @ (e # ms)" by (simp add: IH e)
  finally show ?case .
qed

text \<open>The section without a name comes first; it has no header.\<close>

lemma good_empty_first: "good_data m \<Longrightarrow> good_data (empty_first m)"
proof -
  assume g: "good_data m"
  have "distinct (filter (\<lambda>e. e = []) (folded m) @ filter (\<lambda>e. e \<noteq> []) (folded m))"
    using g by (auto simp: good_data_def)
  moreover have "folded (empty_first m) = filter (\<lambda>e. e = []) (folded m) @ filter (\<lambda>e. e \<noteq> []) (folded m)"
    by (simp add: folded_def empty_first_def filter_map o_def)
  ultimately show ?thesis using g by (auto simp: good_data_def empty_first_def)
qed

lemma empty_first_cases:
  assumes "good_data m"
  obtains "\<forall>e\<in>set (empty_first m). fst e \<noteq> []"
    | kvs ms where "empty_first m = ([], None, kvs) # ms" "kvs \<noteq> []" "good_keys kvs" "\<forall>e\<in>set ms. fst e \<noteq> []"
proof (cases "filter (\<lambda>e. fst e = []) m")
  case Nil
  then show ?thesis using that(1) by (simp add: empty_first_def)
next
  case (Cons e es)
  have "es = []"
  proof (cases es)
    case (Cons e' es')
    have "distinct (map (\<lambda>e. map locase (fst e)) (filter (\<lambda>e. fst e = []) m))"
      using assms distinct_map_filter [of "\<lambda>e. map locase (fst e)" m] by (simp add: good_data_def folded_def)
    moreover have "fst e = []" "fst e' = []"
      using \<open>filter _ m = e # es\<close> Cons filter_set [of "\<lambda>e. fst e = []" m] by (metis (mono_tags, lifting) list.set_intros mem_Collect_eq set_filter)+
    ultimately show ?thesis using \<open>filter _ m = e # es\<close> Cons by simp
  qed simp
  obtain n c kvs where e: "e = (n, c, kvs)" by (cases e) auto
  have "e \<in> set (filter (\<lambda>e. fst e = []) m)" using Cons by simp
  then have "e \<in> set m" "fst e = []" by simp_all
  from this(1) assms have "good_section e" by (simp add: good_data_def)
  with \<open>fst e = []\<close> have "n = []" "c = None" "kvs \<noteq> []" "good_keys kvs" by (simp_all add: e good_section_def)
  from \<open>n = []\<close> \<open>c = None\<close> have m: "empty_first m = ([], None, kvs) # filter (\<lambda>e. fst e \<noteq> []) m"
    unfolding empty_first_def Cons \<open>es = []\<close> e by simp
  have "\<forall>e\<in>set (filter (\<lambda>e. fst e \<noteq> []) m). fst e \<noteq> []" by simp
  with m \<open>kvs \<noteq> []\<close> \<open>good_keys kvs\<close> show ?thesis by (rule that(2))
qed

lemma load_saved_sections:
  assumes "good_data m"
  shows "load_entries (Closed []) (save_sections b (empty_first m)) [] = empty_first m"
proof (rule empty_first_cases [OF assms])
  assume "\<forall>e\<in>set (empty_first m). fst e \<noteq> []"
  with load_sections [of "[]" "empty_first m"] good_empty_first [OF assms] show ?thesis by simp
next
  fix kvs ms
  assume m: "empty_first m = ([], None, kvs) # ms" "kvs \<noteq> []" "good_keys kvs" "\<forall>e\<in>set ms. fst e \<noteq> []"
  obtain k c v kvs' where kvs: "kvs = (k, c, v) # kvs'" using m(2) by (cases kvs) auto
  with m(3) have g: "good_key k" "good_value v" "pred_option good_comment c" by (auto simp: good_keys_def)
  have "load_entries (Closed []) (save_sections b (empty_first m)) [] =
      load_entries (Closed []) (save_keys kvs @ save_sections True ms) []" by (simp add: m(1))
  also have "\<dots> = load_entries (Closed []) (save_keys kvs' @ save_sections True ms) [([], None, [(k, c, v)])]"
    unfolding kvs load_key [OF g] AddEntry_first_key ..
  also have "\<dots> = load_entries (Closed []) (save_sections True ms) [([], None, kvs)]"
    using load_keys [of "[(k, c, v)]" kvs' "[]" "[]"] m(3) by (simp add: kvs folded_def)
  also have "\<dots> = [([], None, kvs)] @ ms"
    using good_empty_first [OF assms] by (intro load_sections m(4)) (simp add: m(1))
  finally show ?thesis by (simp add: m(1))
qed

subsection \<open>The bytes of a saved file\<close>

lemma plain_no_nul: "plain_line s \<Longrightarrow> nul \<notin> set s"
  by (simp add: plain_line_def)

lemma comment_no_nul: "good_comment t \<Longrightarrow> nul \<notin> set (OutputMultiLineText t)"
  by (auto simp: good_comment_def OutputMultiLineText_def plain_line_def)

lemma keys_no_nul: "good_keys kvs \<Longrightarrow> nul \<notin> set (save_keys kvs)"
proof (induction kvs)
  case (Cons e kvs)
  obtain k c v where e: "e = (k, c, v)" by (cases e) auto
  have "nul \<noteq> CHR 0x20" "nul \<noteq> CHR ''=''" by (simp_all add: nul_def)
  moreover from Cons.prems have "good_keys kvs" "plain_line k" "plain_line v" "pred_option good_comment c"
    by (auto simp: e good_keys_def good_key_def good_value_def folded_def)
  ultimately show ?case using Cons.IH plain_no_nul comment_no_nul by (cases c) (auto simp: e)
qed simp

lemma sections_no_nul: "\<forall>e\<in>set m. good_section e \<Longrightarrow> nul \<notin> set (save_sections b m)"
proof (induction m arbitrary: b)
  case (Cons e m)
  obtain n c kvs where e: "e = (n, c, kvs)" by (cases e) auto
  have "nul \<noteq> CHR ''[''" "nul \<noteq> CHR '']''" by (simp_all add: nul_def)
  moreover from Cons.prems have "plain_line n" "pred_option good_comment c" "good_keys kvs" by (auto simp: e good_section_def)
  ultimately show ?case
    using Cons.IH [of True] Cons.prems plain_no_nul comment_no_nul keys_no_nul by (cases c) (auto simp: e)
qed simp

lemma key_start_bom: "good_key k \<Longrightarrow> \<not> prefix utf8_signature (k @ s)"
  by (cases k) (auto simp: good_key_def utf8_signature_def)

lemma comment_bom: "at_comment s \<Longrightarrow> \<not> prefix utf8_signature s"
  by (cases s) (auto simp: at_comment_def IsComment_def utf8_signature_def)

lemma LF_bom: "\<not> prefix utf8_signature (LF # s)"
  by (simp add: utf8_signature_def LF_def)

lemma saved_bom:
  assumes "good_data m"
  shows "\<not> prefix utf8_signature (save_sections b (empty_first m))"
proof (cases "save_sections b (empty_first m)")
  case Nil
  then show ?thesis by (simp add: utf8_signature_def)
next
  case (Cons x xs)
  then obtain n c kvs ms where m: "empty_first m = (n, c, kvs) # ms" by (cases "empty_first m") auto
  then have g: "good_section (n, c, kvs)" using good_empty_first [OF assms] by (simp add: good_data_def)
  show ?thesis
  proof (cases b)
    case True
    then show ?thesis using LF_bom by (simp add: m)
  next
    case False
    show ?thesis
    proof (cases c)
      case (Some t)
      with g have "good_comment t" by (simp add: good_section_def)
      from comment_bom [OF comment_starts [OF this]] False Some show ?thesis by (simp add: m)
    next
      case None
      show ?thesis
      proof (cases "n = []")
        case True
        with g obtain k kc v kvs' where kvs: "kvs = (k, kc, v) # kvs'" "good_key k"
          by (cases kvs) (auto simp: good_section_def good_keys_def)
        with None False True show ?thesis using LF_bom key_start_bom [OF kvs(2)] by (cases kc) (simp_all add: m)
      next
        case n: False
        with None False show ?thesis by (simp add: m utf8_signature_def)
      qed
    qed
  qed
qed

lemma at_comment_LF [simp]: "\<not> at_comment (LF # s)"
  by (simp add: at_comment_def)

text \<open>What the first section of a file without a comment of its own starts with is no comment.\<close>

lemma no_file_comment:
  assumes "good_data m" "case empty_first m of [] \<Rightarrow> True | (n, c, kvs) # m \<Rightarrow> c = None"
  shows "\<not> at_comment (save_sections False (empty_first m))"
proof (cases "empty_first m")
  case Nil
  then show ?thesis by (simp add: at_comment_def)
next
  case (Cons e ms)
  obtain n c kvs where e: "e = (n, c, kvs)" by (cases e) auto
  have c: "c = None" using assms(2) by (simp add: Cons e)
  have g: "good_section (n, c, kvs)" using good_empty_first [OF assms(1)] by (simp add: good_data_def Cons e)
  show ?thesis
  proof (cases "n = []")
    case True
    with g obtain k kc v kvs' where kvs: "kvs = (k, kc, v) # kvs'" "good_key k"
      by (cases kvs) (auto simp: good_section_def good_keys_def)
    with True show ?thesis using key_start(2) [OF kvs(2)] by (cases kc) (simp_all add: Cons e c)
  next
    case False
    then show ?thesis by (simp add: Cons e c at_comment_def IsComment_def)
  qed
qed

lemma LoadData_Save:
  assumes "good_file f"
  shows "m_data (LoadData ini_empty (Save True f)) = empty_first (m_data f) \<and>
    m_pFileComment (LoadData ini_empty (Save True f)) = m_pFileComment f \<and>
    m_bStoreIsUtf8 (LoadData ini_empty (Save True f)) = m_bStoreIsUtf8 f"
proof -
  let ?save = "save_sections (m_pFileComment f \<noteq> None) (empty_first (m_data f))"
  define body where "body = comment_out (m_pFileComment f) @ ?save"
  have g: "good_data (m_data f)" "pred_option good_comment (m_pFileComment f)" using assms by (simp_all add: good_file_def)
  have s: "Save True f = (if m_bStoreIsUtf8 f then utf8_signature else []) @ body"
    by (simp add: Save_def comment_out_def body_def)
  have nb: "\<not> prefix utf8_signature body"
    using saved_bom [OF g(1)] g(2) comment_bom [OF comment_starts]
    by (cases "m_pFileComment f") (auto simp: comment_out_def body_def)
  have "nul \<notin> set body"
    using sections_no_nul [of "empty_first (m_data f)"] good_empty_first [OF g(1)] g(2) comment_no_nul
    by (cases "m_pFileComment f") (auto simp: comment_out_def good_data_def body_def)
  note nn = c_str_id [OF this]
  have drop: "drop 3 (utf8_signature @ body) = body" by (simp add: utf8_signature_def)
  define f1 where "f1 = ini_empty\<lparr>m_bStoreIsUtf8 := m_bStoreIsUtf8 f\<rparr>"
  have f1: "LoadData ini_empty (Save True f) = (if body = [] then f1
      else (case FindFileComment f1 body of (f2, r) \<Rightarrow> f2\<lparr>m_loaded := True, m_data := load_entries (Closed []) r (m_data f2)\<rparr>))"
  proof (cases "m_bStoreIsUtf8 f")
    case True
    have p: "prefix utf8_signature (utf8_signature @ body)" by simp
    show ?thesis using True by (simp add: s LoadData_def Let_def p drop del: drop_append prefix_append same_prefix_prefix)
        (simp add: f1_def ini_empty_def nn)
  next
    case False
    with nb show ?thesis by (simp add: s LoadData_def Let_def f1_def ini_empty_def nn)
  qed
  have find: "FindFileComment f1 body = (f1\<lparr>m_pFileComment := m_pFileComment f\<rparr>, ?save)"
  proof (cases "m_pFileComment f")
    case None
    with no_file_comment [OF g(1)] assms show ?thesis
      by (simp add: FindFileComment_def body_def comment_out_def good_file_def f1_def ini_empty_def)
  next
    case (Some t)
    with g(2) have t: "good_comment t" by simp
    have "\<not> at_comment (save_sections True (empty_first (m_data f)))"
      by (cases "empty_first (m_data f)") (auto simp: at_comment_def)
    from comment_text [OF t this, of False] comment_starts [OF t] Some show ?thesis
      by (simp add: FindFileComment_def body_def comment_out_def f1_def ini_empty_def)
  qed
  have empty: "body = [] \<Longrightarrow> empty_first (m_data f) = [] \<and> m_pFileComment f = None"
  proof -
    assume b: "body = []"
    then have "m_pFileComment f = None" using g(2) comment_starts [of _ "[]"]
      by (cases "m_pFileComment f") (auto simp: comment_out_def at_comment_def body_def)
    moreover have "empty_first (m_data f) = []" using load_saved_sections [OF g(1), of "m_pFileComment f \<noteq> None"] b [unfolded body_def]
        load_entries_None [OF FindEntry_none, of "[]"] by simp
    ultimately show ?thesis by simp
  qed
  show ?thesis
  proof (cases "body = []")
    case True
    then show ?thesis using f1 empty by (simp add: f1_def ini_empty_def)
  next
    case False
    have "LoadData ini_empty (Save True f) = f1\<lparr>m_pFileComment := m_pFileComment f, m_loaded := True,
        m_data := load_entries (Closed []) (save_sections (m_pFileComment f \<noteq> None) (empty_first (m_data f))) []\<rparr>"
      unfolding f1 find using False by (simp add: f1_def ini_empty_def)
    with load_saved_sections [OF g(1)] show ?thesis by (simp add: f1_def)
  qed
qed

subsection \<open>A setting written to the file\<close>

lemma set_ini_update:
  "e \<in> set (ini_update k f m) \<Longrightarrow> e \<in> set m \<or>
    (\<exists>k' y. e = (k', f (Some y)) \<and> (k', y) \<in> set m) \<or> e = (k, f None)"
proof (induction m)
  case (Cons x m)
  then show ?case by (cases x) (auto split: if_splits)
qed simp

lemma folded_ini_update:
  "folded (ini_update k f m) = (if map locase k \<in> set (folded m) then folded m else folded m @ [map locase k])"
proof (induction m)
  case (Cons x m)
  then show ?case by (cases x) (auto simp: folded_def same_key_iff)
qed (simp add: folded_def)

lemma good_add_key:
  assumes "good_keys kvs" "good_key k" "good_value v"
  shows "good_keys (add_key k v None kvs)"
  using assms unfolding good_keys_def add_key_def
  by (auto simp: folded_ini_update dest!: set_ini_update split: option.splits)

lemma add_key_not_Nil [simp]: "add_key k v c kvs \<noteq> []"
  by (cases kvs) (auto simp: add_key_def split: if_splits)

lemma good_AddEntry:
  assumes "good_data m" "good_key k" "good_value v"
  shows "good_data (AddEntry [] (Some k) v None m)"
proof -
  have keys: "good_keys (add_key k v None kvs)" if "good_keys kvs" for kvs using good_add_key that assms by blast
  have "good_keys []" by (simp add: good_keys_def folded_def)
  with keys have new: "good_section ([], None, add_key k v None [])"
    by (simp add: good_section_def plain_line_def trimmed_def)
  have old: "good_section (n, c, add_key k v None kvs)" if "good_section (n, c, kvs)" for n c kvs
    using that keys by (auto simp: good_section_def)
  show ?thesis
    using assms(1) new old unfolding good_data_def AddEntry_def
    by (auto simp: folded_ini_update dest!: set_ini_update)
qed


definition set_setting :: "string \<Rightarrow> string \<Rightarrow> ini_file \<Rightarrow> ini_file" where
  "set_setting k v f = f\<lparr>m_data := AddEntry [] (Some k) v None (m_data f)\<rparr>"

lemma ini_find_Nil: "ini_find [] m \<noteq> None \<Longrightarrow> \<exists>e\<in>set m. fst e = []"
  by (induction m) (auto simp: same_key_iff split: if_splits)

lemma good_set_setting:
  assumes "good_file f" "good_key k" "good_value v"
  shows "good_file (set_setting k v f)"
proof -
  have g: "good_data (AddEntry [] (Some k) v None (m_data f))"
    using assms by (intro good_AddEntry) (simp_all add: good_file_def)
  let ?m = "AddEntry [] (Some k) v None (m_data f)"
  have "ini_find [] ?m \<noteq> None" by (simp add: AddEntry_def ini_find_update same_key_equiv)
  from ini_find_Nil [OF this] obtain e where e: "e \<in> set ?m" "fst e = []" by blast
  then obtain e' es where es: "filter (\<lambda>e. fst e = []) ?m = e' # es" by (metis (mono_tags, lifting) filter_empty_conv neq_Nil_conv)
  have "e' \<in> set (filter (\<lambda>e. fst e = []) ?m)" unfolding es by simp
  then have "e' \<in> set ?m" "fst e' = []" by simp_all
  with g es have "case empty_first ?m of [] \<Rightarrow> True | (n, c, kvs) # m \<Rightarrow> c = None"
    by (cases e') (auto simp: empty_first_def good_data_def good_section_def)
  with g assms show ?thesis by (simp add: good_file_def set_setting_def)
qed

lemma ini_find_filter:
  assumes "\<And>k' v. (k', v) \<in> set m \<Longrightarrow> same_key k k' \<Longrightarrow> P (k', v)"
  shows "ini_find k (filter P m) = ini_find k m"
  using assms by (induction m) auto

lemma ini_find_erase: "ini_find k (erase m) = map_option (\<lambda>(c, kvs). map (\<lambda>(k, c, v). (k, v)) kvs) (ini_find k m)"
  by (induction m) (auto simp: erase_def)

lemma ini_find_empty_first: "ini_find [] (empty_first m) = ini_find [] m"
proof -
  have app: "ini_find [] (a @ b) = (case ini_find [] a of None \<Rightarrow> ini_find [] b | Some x \<Rightarrow> Some x)" for a b :: ini_data
    by (induction a) auto
  have no: "ini_find [] (filter (\<lambda>e. fst e \<noteq> []) m) = None"
    by (induction m) (auto simp: same_key_iff)
  have "ini_find [] (filter (\<lambda>e. fst e = []) m) = ini_find [] m"
    by (rule ini_find_filter) (simp add: same_key_iff)
  with no show ?thesis unfolding empty_first_def app by (simp split: option.splits)
qed

lemma setting_saved:
  assumes "good_file f" "good_key k" "good_value v"
  shows "ini_GetValue (erase (m_data (LoadData ini_empty (Save True (set_setting k v f))))) [] k' =
    (if same_key k k' then Some v else ini_GetValue (erase (m_data f)) [] k')"
proof -
  note l = LoadData_Save [OF good_set_setting [OF assms], THEN conjunct1]
  have "ini_GetValue (erase (empty_first m)) [] k' = ini_GetValue (erase m) [] k'" for m
    by (simp add: ini_GetValue_def ini_find_erase ini_find_empty_first)
  then show ?thesis unfolding l by (simp add: set_setting_def erase_AddEntry ini_Get_Set)
qed

text \<open>A restart of the program: \<open>utils\<close> reads the file it has saved.\<close>

lemma LoadFile_text: "LoadFile ini_empty (Some t) = Some (LoadData ini_empty t)"
  by (simp add: LoadFile_def LoadData_def utf8_signature_def)

lemma restarted_utils:
  assumes "good_file f" "good_key k" "good_value v"
  shows "GetValueFromConfigFile (utils_new path (map_option (\<lambda>f'. erase (m_data f'))
      (LoadFile ini_empty (Some (Save True (set_setting k v f)))))) k' =
    GetValueFromConfigFile (SetValueFromConfigFile (utils_new path (Some (erase (m_data f)))) k v) k'"
proof -
  have "c_str k = k" "c_str v = v"
    using assms by (simp_all add: c_str_id good_key_def good_value_def plain_line_def)
  then show ?thesis
    using setting_saved [OF assms]
    by (simp add: GetValueFromConfigFile_def SetValueFromConfigFile_def utils_new_def LoadFile_text ini_Get_Set)
qed

end
