(* ===== verification/Examples.thy ===== *)
theory Examples
  imports System JsonBuffer IniRound
begin

text \<open>
  Concrete states the general statements are applied to: the server of the shipped example
  configuration (\<open>examplePackageX86/PM/ServerConfig.ini\<close>), two of its gates, cars entering, and the
  messages they exchange, with the values the definitions compute on them.
\<close>

subsection \<open>The server\<close>

definition demo_ini :: ini where
  "demo_ini = [([], [(''WebSocketPort'', ''1884''), (''HandicapSlotCount'', ''5''), (''NormalSlotCount'', ''20''),
     (''Currency'', ''$''), (''PricePerMin'', ''1''), (''FreeDurationinMin'', ''30'')])]"

definition demo_utils :: utils where
  "demo_utils = utils_new ''ServerConfig.ini'' (Some demo_ini)"

definition demo_server :: ParkManagerServer where
  "demo_server =
     \<lparr>m_untils = demo_utils, m_HandicapSlotCount = 5, m_NormalSlotCount = 20, m_HandicapSlotMax = 5,
      m_NormalSlotMax = 20, m_websocketPort = 1884, m_EnternceGates = {}, m_exitingGates = {},
      m_RegisteredCars = Map.empty, m_UnRegisteredCars = Map.empty\<rparr>"

lemma demo_settings:
  "GetValueFromConfigFile demo_utils PMS_HandicapSlotCount = ''5''"
  "GetValueFromConfigFile demo_utils PMS_NormalSlotCount = ''20''"
  "GetValueFromConfigFile demo_utils PMS_WebSocketPort = ''1884''"
  "GetValueFromConfigFile demo_utils PMS_Currency = ''$''"
  "GetValueFromConfigFile demo_utils PMS_PricePerMin = ''1''"
  "GetValueFromConfigFile demo_utils PMS_FreeDurationinMin = ''30''"
  by code_simp+

lemma demo_numbers:
  "stoi ''5'' = Inr 5" "stoi ''20'' = Inr 20" "stoi ''1884'' = Inr 1884" "stoi ''30'' = Inr 30"
  by code_simp+

lemma to_double_int: "\<bar>i\<bar> \<le> 2 ^ 53 \<Longrightarrow> to_double (of_int i) = Fin (of_int i)"
proof -
  assume i: "\<bar>i\<bar> \<le> 2 ^ 53"
  have "(2::rat) ^ 53 < 2 ^ 1024" by (rule power_strict_increasing) simp_all
  moreover have "\<bar>rat_of_int i\<bar> \<le> 2 ^ 53" using i by (metis of_int_abs of_int_le_iff of_int_numeral of_int_power)
  ultimately have "rat_of_int i < 2 ^ 1024" "- (2 ^ 1024) < rat_of_int i" by linarith+
  then show ?thesis using fl64_of_int [OF i] by (simp add: to_double_def Let_def not_le del: power_numeral)
qed

lemma demo_atof: "atof ''1'' = Fin 1"
proof -
  have "dec_value ''1'' = Some 1" by code_simp
  then have "strtod ''1'' = Some (to_double 1)"
    by (simp add: strtod_def Let_def lower_char_def isspace_def prefix_def)
  then show ?thesis using to_double_int [of 1] by (simp add: atof_def c_str_def nul_def)
qed

lemma demo_server_new: "ParkManagerServer_new (Some demo_ini) = Inr demo_server"
  using demo_settings(1-3) demo_numbers
  by (simp add: ParkManagerServer_new_def Let_def demo_server_def demo_utils_def)

lemma demo_inv: "lot_inv demo_server" "exact demo_server"
  using demo_server_new by (rule lot_inv_new, rule exact_new)

lemma demo_tariff: "tariff demo_utils 30 1"
  by (simp add: tariff_def demo_settings demo_numbers demo_atof int_max_def)

text \<open>A host in a zone with a fixed offset, with zeros on its stack.\<close>

definition zone_libc :: "int \<Rightarrow> libc_time" where
  "zone_libc off = \<lparr>lib_mktime = zone_mktime off 3600,
     stack_tm = (\<lambda>_. \<lparr>tm_year = 0, tm_mon = 0, tm_mday = 0, tm_hour = 0, tm_min = 0, tm_sec = 0,
       tm_wday = 0, tm_yday = 0, tm_isdst = 0\<rparr>)\<rparr>"

lemma zone_libc_fixed: "fixed_zone (lib_mktime (zone_libc off)) off 3600"
  by (simp add: zone_libc_def fixed_zone_zone_mktime)

lemma zone_libc_flags [simp]: "dst_shift dst (stack_tm (zone_libc off) k) = 0"
  by (simp add: zone_libc_def dst_shift_def)

subsection \<open>A car that enters and leaves\<close>

text \<open>
  The entrance gate has registered; the car of plate \<open>A1\<close> enters at 10:00:00 UTC on 2 July 2022 and leaves
  45 minutes later.
\<close>

definition demo_env :: turn_env where
  "demo_env = \<lparr>env_random = 42, env_now = 1656756000, env_libc = zone_libc 0\<rparr>"

definition demo_entry :: CarEnterence where
  "demo_entry = \<lparr>ce_carPlate = ''A1'', ce_handicap = ''No'', ce_enteranceTime = ''2022-07-02T10:00:00Z'', ce_enterenceGate = ''EntGate1''\<rparr>"

definition demo_open :: ParkManagerServer where
  "demo_open = fst (register_gate ''EntGate1'' 0 demo_server)"

lemma demo_open: "demo_open = demo_server\<lparr>m_EnternceGates := {''EntGate1''}\<rparr>"
  by (simp add: demo_open_def register_gate_def gate_type_defs demo_server_def)

lemma demo_open_inv: "lot_inv demo_open" "exact demo_open" "counters_small demo_open"
  unfolding demo_open_def
  by (rule lot_inv_register, rule demo_inv) (rule exact_register, rule demo_inv, simp add: counters_small_def register_gate_def demo_server_def)

lemma demo_lot: "lot_of demo_open = \<lparr>free_normal = 20, free_handicap = 5, normal_capacity = 20, open_gates = {''EntGate1''}, places = Map.empty\<rparr>"
  by (simp add: lot_of_def demo_open demo_server_def)

lemma demo_entry_plain: "plain_CarEnterence demo_entry"
  unfolding plain_CarEnterence_def by (rule conjI, code_simp) (simp add: demo_entry_def)

lemma demo_answer: "utf8_CarEnterenceResponse (admission_response demo_utils demo_entry (Slot 20))"
  by code_simp

lemma demo_enter: "lot_enter (ce_enterenceGate demo_entry) (ce_carPlate demo_entry) (ce_handicap demo_entry = HS_Yes) (lot_of demo_open) =
  (\<lparr>free_normal = 19, free_handicap = 5, normal_capacity = 20, open_gates = {''EntGate1''}, places = [''A1'' \<mapsto> NormalPlace]\<rparr>, Slot 20)"
  by (simp add: demo_lot demo_entry_def lot_enter_def HS_Yes_def)

lemma demo_open_utils: "m_untils demo_open = demo_utils" by (simp add: demo_open demo_server_def)

definition demo_ws :: WebSocketServer where "demo_ws = fst (WebSocketServer_new True 1884)"

definition demo_exit :: CarStatusUpdate where
  "demo_exit = \<lparr>csu_exitingGate = ''ExGate1'', csu_carPlate = ''A1''\<rparr>"

definition demo_car :: Car where
  "demo_car = Car_new 42 ''A1'' (GetCurrentUTCTime 1656756000) ''EntGate1'' HS_No"

definition demo_inside :: ParkManagerServer where
  "demo_inside = demo_open\<lparr>m_NormalSlotCount := 19, m_RegisteredCars := [''A1'' \<mapsto> Some demo_car]\<rparr>"

definition demo_evening :: turn_env where
  "demo_evening = \<lparr>env_random = 42, env_now = 1656756000 + 45 * 60, env_libc = zone_libc 7200\<rparr>"

lemma demo_exit_plain: "plain_CarStatusUpdate demo_exit"
  unfolding plain_CarStatusUpdate_def by (rule conjI, code_simp) (simp add: demo_exit_def)

lemma demo_inside_inv: "lot_inv demo_inside"
  by (simp add: lot_inv_def demo_inside_def demo_open demo_server_def parked_def normal_cars_def demo_car_def HS_Yes_def HS_No_def)

lemma demo_leave: "lot_leave (csu_carPlate demo_exit) (lot_of demo_inside) =
  (\<lparr>free_normal = 20, free_handicap = 5, normal_capacity = 20, open_gates = {''EntGate1''},
    places = [''A1'' \<mapsto> LeftPlace]\<rparr>, Goodbye)"
  by (simp add: lot_leave_def lot_of_def demo_inside_def demo_open demo_server_def demo_exit_def demo_car_def HS_Yes_def HS_No_def)

lemma demo_stay: "stay (env_libc demo_evening) (env_now demo_evening) demo_car = 2700"
proof -
  have "stay (zone_libc 7200) (1656756000 + 45 * 60) demo_car = (1656756000 + 45 * 60) - 1656756000"
    by (subst stay_stamped [OF _ zone_libc_fixed]) (simp_all add: demo_car_def end_of_9999_def)
  then show ?thesis by (simp add: demo_evening_def)
qed

lemma demo_payable: "payable_of demo_utils 2700 = Inr ''15''"
proof -
  have "amount 1 15 = 15" using amount_whole [of 15 1] by simp
  moreover have "to_string 15 = ''15''" by code_simp
  ultimately show ?thesis using payable_charged [OF demo_tariff, of 2700] by (simp add: int_max_def)
qed

definition demo_bill :: CarStatusUpdateResponse where
  "demo_bill = \<lparr>csr_status = RS_Exist, csr_payable = ''15'', csr_curreny = ''$'', csr_comment = bye_text\<rparr>"

lemma demo_bill_utf8: "utf8_CarStatusUpdateResponse demo_bill"
  by code_simp

lemma demo_departure: "departure_response (m_untils demo_inside) ''15'' Goodbye = Inr demo_bill"
  by (simp add: departure_response_def demo_inside_def demo_open demo_server_def demo_settings demo_bill_def)

lemma demo_inside_parked: "parked demo_inside (csu_carPlate demo_exit) = Some c \<longleftrightarrow> c = demo_car"
  by (auto simp: parked_def demo_inside_def demo_exit_def)

lemma demo_inside_simps: "m_untils demo_inside = demo_utils" "m_HandicapSlotCount demo_inside = 5"
  by (simp_all add: demo_inside_def demo_open demo_server_def)

definition demo_registration :: GateRegistration where
  "demo_registration = \<lparr>gr_gateName = ''EntGate1'', gr_gateType = ''0''\<rparr>"

lemma demo_registration_plain: "plain_GateRegistration demo_registration"
  unfolding plain_GateRegistration_def by (rule conjI, code_simp) (simp add: demo_registration_def)

definition demo_gate :: Gate where
  "demo_gate = \<lparr>g_untils = utils_new ''ClientConfig.ini'' (Some [([], [(''GateName'', ''EntGate1'')])]), m_WebsocketURL = [], m_ClientURI = ''EntGate1'',
     m_GateName = ''EntGate1'', m_GateType = GT_Enterence, m_NetworkProblem = True\<rparr>"

lemma demo_gate_entry: "gate_entry 1656756000 ''A1'' False demo_gate = demo_entry"
proof -
  have "strftime_FTZ 1656756000 = ''2022-07-02T10:00:00Z''" by code_simp
  then have "GetCurrentUTCTime 1656756000 = ''2022-07-02T10:00:00Z''"
    using GetUTCTime_format [of 1656756000] by (simp add: GetCurrentUTCTime_def end_of_9999_def)
  then show ?thesis by (simp add: gate_entry_def demo_gate_def demo_entry_def HS_No_def)
qed

definition demo_gate_env :: gate_env where
  "demo_gate_env = \<lparr>x_random = 7, x_attempts = \<lambda>_. (OPEN, True), x_start = 0, x_polls = []\<rparr>"

lemma demo_gate_sends: "client_SendMessage (x_attempts demo_gate_env)"
  using client_sender.send_now by (simp add: demo_gate_env_def attempt_ok_def)

lemma demo_gate_enter: "lot_enter (m_GateName demo_gate) ''A1'' False (lot_of demo_open) =
  (\<lparr>free_normal = 19, free_handicap = 5, normal_capacity = 20, open_gates = {''EntGate1''}, places = [''A1'' \<mapsto> NormalPlace]\<rparr>, Slot 20)"
  by (simp add: demo_lot demo_gate_def lot_enter_def)

lemma demo_register_answers: "register_gate ''EntGate1'' 0 demo_server = (demo_open, RS_Accept)" 
  by (simp add: demo_open_def register_gate_def demo_server_def gate_type_defs)

lemma demo_started: "\<exists>\<sigma>. server_start (Some demo_ini) = Inr \<sigma> \<and> park \<sigma> = demo_server \<and>
    mailbox \<sigma> = MessageManager_new \<and> handler_on \<sigma>"
proof -
  have "represents C_BoostShmObj_new []"
    using represents_new by (simp add: C_BoostShmObj_new_def)
  then have "shm_inv C_BoostShmObj_new" by (auto simp: shm_inv_def)
  then obtain shm where "publish True (status_value [] INIT) C_BoostShmObj_new = Inr shm"
    using publish_get [of C_BoostShmObj_new "[]" INIT] by (auto simp: ok_uri_def MAXLEN_VALUE_def)
  then show ?thesis by (simp add: server_start_def demo_server_new WebSocketServer_new_def)
qed

text \<open>The registration of the entrance gate as two steps of the process.\<close>

lemma demo_run: "\<exists>\<sigma>0 \<sigma>. server_start (Some demo_ini) = Inr \<sigma>0 \<and> server_run \<sigma>0 \<sigma> \<and> park \<sigma> = demo_open"
proof -
  obtain \<sigma>0 where \<sigma>0: "server_start (Some demo_ini) = Inr \<sigma>0" "park \<sigma>0 = demo_server"
    "mailbox \<sigma>0 = MessageManager_new" "handler_on \<sigma>0"
    using demo_started by blast
  obtain b where b: "j_dump (to_json_GateRegistration demo_registration) = Inr b" "CHR 0x23 \<notin> set b"
    using plain_dump_GateRegistration [OF demo_registration_plain] by blast
  let ?p = "AddBase 7 b mt_CALL ActionGateRegistration []"
  let ?m = "\<lparr>ws_uri = ''g'', ws_type = ''Server'', ws_payload = ?p\<rparr>"
  have "on_message ''g'' ?p (endpoint \<sigma>0) (mailbox \<sigma>0) =
      ((endpoint \<sigma>0)\<lparr>m_websocketMessage := ?p\<rparr>, Inr (push_call ?m MessageManager_new))"
    unfolding \<sigma>0(3) by (intro request_queued hash_notin_call b(2)) simp_all
  from server_step.message_arrived [OF this] obtain \<sigma>1 where
    \<sigma>1: "server_step \<sigma>0 \<sigma>1" "park \<sigma>1 = demo_server" "mailbox \<sigma>1 = push_call ?m MessageManager_new" "handler_on \<sigma>1"
    using \<sigma>0 by simp
  have "gate_type_of (gr_gateType demo_registration) = 0" by code_simp
  then have reg: "fst (register_gate (gr_gateName demo_registration) (gate_type_of (gr_gateType demo_registration)) demo_server) = demo_open"
    by (simp add: demo_registration_def demo_open_def)
  obtain t where "handle_call demo_env demo_server ?m = (demo_open, Inr (Some t))"
    using registration_served [OF b(1), of demo_env demo_server "''g''" 7 "[]"] unfolding reg by blast
  from turn_on_call [OF _ this, of MessageManager_new]
  have "GateHanlder_turn demo_env (park \<sigma>1) (mailbox \<sigma>1) = (demo_open, MessageManager_new, Inr (Some (''g'', t)))"
    using \<sigma>1 by (simp add: MessageManager_new_def)
  from server_step.handler_turn [OF \<sigma>1(4) this] obtain \<sigma>2 where "server_step \<sigma>1 \<sigma>2" "park \<sigma>2 = demo_open"
    by (rule that) simp
  with \<sigma>0(1) \<sigma>1(1) show ?thesis by (blast intro: server_run.intros)
qed

lemma demo_calm: "calm_run demo_server (fst (enter_car 42 demo_entry demo_open))"
  unfolding demo_open_def
  by (intro calm_enter calm_register calm_start)
    (simp add: normal_cars_def parked_def register_gate_def demo_server_def)

definition demo_idle :: server where
  "demo_idle = \<lparr>park = demo_open, mailbox = MessageManager_new, endpoint = demo_ws, shared = C_BoostShmObj_new,
     m_currentServerStatus = [], handler_on = True, watcher_on = True, delivered = []\<rparr>"

definition demo_broken_call :: WSMessage where
  "demo_broken_call = \<lparr>ws_uri = ''/g'', ws_type = ''Server'', ws_payload = ''[0,\"7\",\"GateRegistration\",{]''\<rparr>"

definition demo_stuck :: server where
  "demo_stuck = demo_idle\<lparr>mailbox := push_call demo_broken_call MessageManager_new\<rparr>"

definition demo_json :: json where
  "demo_json = JObject [(''a'', JArray [JUnsigned 7, JInteger (- 3), JNull]), (''b'', JString [CHR 0xC3, CHR 0xA9])]"

lemma demo_json_wf: "wf_json demo_json"
proof -
  have "utf8_valid ''a''" "utf8_valid ''b''" "utf8_valid [CHR 0xC3, CHR 0xA9]" by code_simp+
  then show ?thesis by (simp add: demo_json_def less_list_code less_char_def)
qed

lemma demo_price: "price 30 1 2700 = 15"
  using amount_whole [of 15 1] by (simp add: price_def)

lemma demo_price_long: "price 30 1 7200 = 90"
  using amount_whole [of 90 1] by (simp add: price_def)

lemma demo_bill_text: "payable_of (m_untils demo_inside) (stay (env_libc demo_evening) (env_now demo_evening) demo_car) = Inr ''15''"
  by (simp add: demo_inside_simps demo_stay demo_payable)

text \<open>A car in a handicap slot.\<close>

definition demo_handicap_car :: Car where
  "demo_handicap_car = Car_new 43 ''H1'' (GetCurrentUTCTime 1656756000) ''EntGate1'' HS_Yes"

definition demo_handicap :: ParkManagerServer where
  "demo_handicap = demo_open\<lparr>m_HandicapSlotCount := 4, m_RegisteredCars := [''H1'' \<mapsto> Some demo_handicap_car]\<rparr>"

definition demo_handicap_exit :: CarStatusUpdate where
  "demo_handicap_exit = \<lparr>csu_exitingGate = ''ExGate1'', csu_carPlate = ''H1''\<rparr>"

lemma demo_handicap_stay: "payable_of (m_untils demo_handicap) (stay (zone_libc 7200) (1656756000 + 2700) demo_handicap_car) = Inr ''15''"
proof -
  have "stay (zone_libc 7200) (1656756000 + 2700) demo_handicap_car = (1656756000 + 2700) - 1656756000"
    by (subst stay_stamped [OF _ zone_libc_fixed]) (simp_all add: demo_handicap_car_def end_of_9999_def)
  then show ?thesis using demo_payable by (simp add: demo_handicap_def demo_open demo_server_def)
qed

definition demo_second :: CarEnterence where
  "demo_second = demo_entry\<lparr>ce_carPlate := ''B2''\<rparr>"

definition demo_bad_mail :: MessageManager where
  "demo_bad_mail = MessageManager_new\<lparr>ocppCALLRESULTMessageQueue := [\<lparr>ws_uri = ''g'', ws_type = ''Client'', ws_payload = ''[1,\"\"9\"\",{}]''\<rparr>]\<rparr>"

lemma demo_bad_mail_formed: "\<forall>m\<in>set (ocppCALLRESULTMessageQueue demo_bad_mail). well_formed_result m"
proof -
  have "response_id ''[1,\"\"9\"\",{}]'' = Inr ''\"9\"''" by code_simp
  then show ?thesis by (simp add: demo_bad_mail_def MessageManager_new_def well_formed_result_def is_ok_def)
qed

lemma demo_shm: "shm_inv C_BoostShmObj_new"
  using represents_new by (auto simp: shm_inv_def C_BoostShmObj_new_def)

lemma demo_name: "ok_name ''Speed''" "ok_name ''Name''" "ok_value ''42''"
  by (simp_all add: ok_name_def ok_value_def fits_def MAXLEN_NAME_def MAXLEN_VALUE_def nul_def)
lemma demo_uri: "ok_uri ''a''"
  by (simp add: ok_uri_def MAXLEN_VALUE_def nul_def)

lemma demo_published: "\<exists>shm. shm_inv shm \<and> shm_get shm status_key \<noteq> None"
proof -
  obtain shm b where s: "shm_set C_BoostShmObj_new status_key ''0'' = (shm, b)" by force
  have v: "ok_value ''0''" by (simp add: ok_value_def fits_def MAXLEN_VALUE_def nul_def)
  have r: "represents C_BoostShmObj_new []" using represents_new by (simp add: C_BoostShmObj_new_def)
  have b using shm_set_represents(1) [OF r status_key_ok v s]
    by (simp add: C_BoostShmObj_new_def C_BoostShmObj_sized_def MAXNUMBER_OBJECTS_def)
  with shm.get_set_same [OF demo_shm status_key_ok v] shm.set_inv [OF demo_shm status_key_ok v s] s show ?thesis by auto
qed

text \<open>The entrance gate registers with the server it finds.\<close>

lemma demo_gate_registers: "\<exists>t. GateRegistrationCall (demo_gate_env\<lparr>x_polls := [([\<lparr>ws_uri = ''g'', ws_type = ''Client'', ws_payload = t\<rparr>], 0)]\<rparr>)
    demo_gate MessageManager_new =
  (demo_gate\<lparr>m_NetworkProblem := False, g_untils := SetValueFromConfigFile (g_untils demo_gate) PMC_RegistratinResult (to_string RV_SUCCESS)\<rparr>,
   MessageManager_new, Inr (Some RV_SUCCESS))"
proof -
  let ?x = "\<lambda>t. demo_gate_env\<lparr>x_polls := [([\<lparr>ws_uri = ''g'', ws_type = ''Client'', ws_payload = t\<rparr>], 0)]\<rparr>"
  have body: "to_json_GateRegistration \<lparr>gr_gateName = m_GateName demo_gate, gr_gateType = to_string (m_GateType demo_gate)\<rparr> =
      to_json_GateRegistration demo_registration"
  proof -
    have "to_string GT_Enterence = ''0''" by code_simp
    then show ?thesis by (simp add: demo_gate_def demo_registration_def)
  qed
  obtain b where b: "j_dump (to_json_GateRegistration demo_registration) = Inr b"
    using plain_dump_GateRegistration [OF demo_registration_plain] by blast
  have ty: "gate_type_of (gr_gateType demo_registration) = 0" by code_simp
  from registration_served [OF b, of demo_env demo_server "''g''" 7 "[]"] obtain t where
    t: "response_id t = Inr (call_id 7)" "read_response from_json_GateRegistrationResponse t = Inr \<lparr>grr_result = RS_Accept\<rparr>"
    unfolding ty using demo_register_answers by (auto simp: demo_registration_def)
  have "call_server (?x t) ActionGateRegistration (to_json_GateRegistration demo_registration)
      from_json_GateRegistrationResponse RV_FAILED registration_answer demo_gate MessageManager_new =
    (case registration_answer \<lparr>grr_result = RS_Accept\<rparr> (demo_gate\<lparr>m_NetworkProblem := False\<rparr>) of
       (g', r) \<Rightarrow> (g', MessageManager_new, Inr (Some r)))"
    using t gr.dump_no_nul [OF b] demo_gate_sends
    by (intro call_server_reply [OF b, where m = "\<lparr>ws_uri = ''g'', ws_type = ''Client'', ws_payload = t\<rparr>"])
      (simp_all add: MessageManager_new_def demo_gate_env_def)
  moreover have "\<not> is_registered demo_gate" by code_simp
  ultimately have "GateRegistrationCall (?x t) demo_gate MessageManager_new =
    (demo_gate\<lparr>m_NetworkProblem := False, g_untils := SetValueFromConfigFile (g_untils demo_gate) PMC_RegistratinResult (to_string RV_SUCCESS)\<rparr>,
     MessageManager_new, Inr (Some RV_SUCCESS))"
    by (simp add: GateRegistrationCall_def body registration_answer_def) (simp add: demo_gate_def gate_type_defs)
  then show ?thesis by blast
qed

text \<open>The file of the first gate (\<open>examplePackageX86/Gate/ClientConfig.ini\<close>).\<close>

definition demo_file :: ini_file where
  "demo_file = ini_empty\<lparr>m_loaded := True, m_data := [('''', None,
    [(''WebsocketURL'', None, ''ws://127.0.0.1:1884''), (''ClientURI'', None, ''Gate1''), (''GateName'', None, ''EntGate1''),
     (''GateType'', None, ''0''), (''RegistratinResult'', None, ''0'')])]\<rparr>"

lemma demo_file_text: "Save True demo_file = ''WebsocketURL = ws://127.0.0.1:1884'' @ [LF] @ ''ClientURI = Gate1'' @ [LF] @
   ''GateName = EntGate1'' @ [LF] @ ''GateType = 0'' @ [LF] @ ''RegistratinResult = 0'' @ [LF]"
  by (simp add: Save_def demo_file_def ini_empty_def empty_first_def)

lemma demo_file_good: "good_file demo_file"
  by (simp add: good_file_def demo_file_def ini_empty_def good_data_def good_section_def good_keys_def good_key_def
      good_value_def plain_line_def trimmed_def folded_def empty_first_def nul_def IsNewLineChar_def IsSpace_def IsComment_def
      LF_def CR_def locase_def char_long_def)

end
