(* ===== verification/Frame.thy ===== *)
theory Frame
  imports CppString
begin

unbundle bit_operations_syntax

text \<open>
  Websocket frames (\<open>websocketpp/frame.hpp\<close>, RFC 6455): the two header structures, what is read out of
  them, and masking. Bytes are \<open>8 word\<close>s; the machine is little-endian with 64-bit \<open>size_t\<close>.
\<close>

subsection \<open>Machine words in memory\<close>

type_synonym bytes = "8 word list"

definition le_bytes :: "nat \<Rightarrow> 'a::len word \<Rightarrow> bytes" where
  "le_bytes n w = map (\<lambda>i. ucast (drop_bit (8 * i) w)) [0..<n]"

fun of_le :: "bytes \<Rightarrow> 'a::len word" where
  "of_le [] = 0"
| "of_le (b # bs) = ucast b OR push_bit 8 (of_le bs)"

lemma length_le_bytes [simp]: "length (le_bytes n w) = n"
  by (simp add: le_bytes_def)

lemma bit_of_le: "bit (of_le bs :: 'a::len word) n \<longleftrightarrow> n < LENGTH('a) \<and> n < 8 * length bs \<and> bit (bs ! (n div 8)) (n mod 8)"
proof (induction bs arbitrary: n)
  case (Cons b bs)
  show ?case
  proof (cases "n < 8")
    case True
    then show ?thesis by (auto simp: bit_simps)
  next
    case False
    then obtain m where n: "n = m + 8" by (metis add.commute le_Suc_ex not_less)
    have "\<not> bit b n" using bit_imp_le_length [of b n] False by auto
    moreover have "(m + 8) div 8 = Suc (m div 8)" by simp
    ultimately show ?thesis using Cons [of m] by (auto simp: bit_simps n)
  qed
qed simp

lemma of_le_bytes:
  assumes "LENGTH('a::len) = 8 * n"
  shows "of_le (le_bytes n w) = (w :: 'a word)"
proof (rule bit_eqI)
  fix m
  assume "possible_bit TYPE('a word) m"
  then have m: "m < 8 * n" using assms by simp
  then have d: "m div 8 < n" by simp
  have "bit (of_le (le_bytes n w) :: 'a word) m \<longleftrightarrow> bit (le_bytes n w ! (m div 8)) (m mod 8)"
    using m assms by (simp add: bit_of_le)
  also have "\<dots> \<longleftrightarrow> bit w (8 * (m div 8) + m mod 8)"
    using d by (simp add: le_bytes_def bit_simps)
  finally show "bit (of_le (le_bytes n w) :: 'a word) m = bit w m" by simp
qed

subsection \<open>Opcodes\<close>

type_synonym opcode = nat

definition CONTINUATION :: opcode where "CONTINUATION = 0x0"
definition TEXT :: opcode where "TEXT = 0x1"
definition BINARY :: opcode where "BINARY = 0x2"
definition CLOSE_op :: opcode where "CLOSE_op = 0x8"
definition PING :: opcode where "PING = 0x9"
definition PONG :: opcode where "PONG = 0xA"

lemmas opcode_defs = CONTINUATION_def TEXT_def BINARY_def CLOSE_op_def PING_def PONG_def

definition reserved_op :: "opcode \<Rightarrow> bool" where
  "reserved_op v \<longleftrightarrow> 3 \<le> v \<and> v \<le> 7 \<or> 0xB \<le> v \<and> v \<le> 0xF"

definition invalid_op :: "opcode \<Rightarrow> bool" where
  "invalid_op v \<longleftrightarrow> 0xF < v"

definition is_control :: "opcode \<Rightarrow> bool" where
  "is_control v \<longleftrightarrow> 0x8 \<le> v"

subsection \<open>Limits and masks\<close>

definition BASIC_HEADER_LENGTH :: nat where "BASIC_HEADER_LENGTH = 2"
definition MAX_EXTENDED_HEADER_LENGTH :: nat where "MAX_EXTENDED_HEADER_LENGTH = 12"
definition payload_size_basic :: "64 word" where "payload_size_basic = 125"
definition payload_size_extended :: "64 word" where "payload_size_extended = 0xFFFF"

definition BHB0_OPCODE :: "8 word" where "BHB0_OPCODE = 0x0F"
definition BHB0_RSV3 :: "8 word" where "BHB0_RSV3 = 0x10"
definition BHB0_RSV2 :: "8 word" where "BHB0_RSV2 = 0x20"
definition BHB0_RSV1 :: "8 word" where "BHB0_RSV1 = 0x40"
definition BHB0_FIN :: "8 word" where "BHB0_FIN = 0x80"
definition BHB1_PAYLOAD :: "8 word" where "BHB1_PAYLOAD = 0x7F"
definition BHB1_MASK :: "8 word" where "BHB1_MASK = 0x80"
definition payload_size_code_16bit :: "8 word" where "payload_size_code_16bit = 0x7E"
definition payload_size_code_64bit :: "8 word" where "payload_size_code_64bit = 0x7F"

lemmas frame_constants = BASIC_HEADER_LENGTH_def MAX_EXTENDED_HEADER_LENGTH_def payload_size_basic_def
  payload_size_extended_def BHB0_OPCODE_def BHB0_RSV3_def BHB0_RSV2_def BHB0_RSV1_def BHB0_FIN_def
  BHB1_PAYLOAD_def BHB1_MASK_def payload_size_code_16bit_def payload_size_code_64bit_def

subsection \<open>The headers\<close>

record basic_header =
  b0 :: "8 word"
  b1 :: "8 word"

definition basic_value :: "64 word \<Rightarrow> 8 word" where
  "basic_value sz =
     (if sz \<le> payload_size_basic then ucast sz
      else if sz \<le> payload_size_extended then payload_size_code_16bit
      else payload_size_code_64bit)"

definition basic_header_new :: "opcode \<Rightarrow> 64 word \<Rightarrow> bool \<Rightarrow> bool \<Rightarrow> bool \<Rightarrow> basic_header" where
  "basic_header_new op sz fin masked rsv1 =
     \<lparr>b0 = (if fin then BHB0_FIN else 0) OR (if rsv1 then BHB0_RSV1 else 0) OR (of_nat op AND BHB0_OPCODE),
      b1 = (if masked then BHB1_MASK else 0) OR basic_value sz\<rparr>"

text \<open>The 12 bytes of \<open>extended_header\<close>. \<open>_htonll\<close> turns the eight bytes of the sz around.\<close>

definition htonll_bytes :: "64 word \<Rightarrow> bytes" where
  "htonll_bytes sz = rev (le_bytes 8 sz)"

definition payload_offset :: "64 word \<Rightarrow> nat" where
  "payload_offset sz =
     (if sz \<le> payload_size_basic then 8 else if sz \<le> payload_size_extended then 6 else 0)"

definition copy_at :: "nat \<Rightarrow> bytes \<Rightarrow> bytes \<Rightarrow> bytes" where
  "copy_at pos src dst = take pos dst @ src @ drop (pos + length src) dst"

definition no_bytes :: bytes where "no_bytes = replicate MAX_EXTENDED_HEADER_LENGTH 0"

definition copy_payload :: "64 word \<Rightarrow> bytes \<Rightarrow> bytes \<times> nat" where
  "copy_payload sz bs = (copy_at 0 (drop (payload_offset sz) (htonll_bytes sz)) bs, 8 - payload_offset sz)"

definition extended_header_new :: "64 word \<Rightarrow> 32 word option \<Rightarrow> bytes" where
  "extended_header_new sz masking_key =
     (case copy_payload sz no_bytes of (bs, offset) \<Rightarrow>
        (case masking_key of None \<Rightarrow> bs | Some key \<Rightarrow> copy_at offset (le_bytes 4 key) bs))"

definition get_fin :: "basic_header \<Rightarrow> bool" where "get_fin h \<longleftrightarrow> b0 h AND BHB0_FIN = BHB0_FIN"
definition get_rsv1 :: "basic_header \<Rightarrow> bool" where "get_rsv1 h \<longleftrightarrow> b0 h AND BHB0_RSV1 = BHB0_RSV1"
definition get_rsv2 :: "basic_header \<Rightarrow> bool" where "get_rsv2 h \<longleftrightarrow> b0 h AND BHB0_RSV2 = BHB0_RSV2"
definition get_rsv3 :: "basic_header \<Rightarrow> bool" where "get_rsv3 h \<longleftrightarrow> b0 h AND BHB0_RSV3 = BHB0_RSV3"
definition get_opcode :: "basic_header \<Rightarrow> opcode" where "get_opcode h = unat (b0 h AND BHB0_OPCODE)"
definition get_masked :: "basic_header \<Rightarrow> bool" where "get_masked h \<longleftrightarrow> b1 h AND BHB1_MASK = BHB1_MASK"
definition get_basic_size :: "basic_header \<Rightarrow> 8 word" where "get_basic_size h = b1 h AND BHB1_PAYLOAD"

definition get_masking_key_offset :: "basic_header \<Rightarrow> nat" where
  "get_masking_key_offset h =
     (if get_basic_size h = payload_size_code_16bit then 2
      else if get_basic_size h = payload_size_code_64bit then 8 else 0)"

definition get_header_len :: "basic_header \<Rightarrow> nat" where
  "get_header_len h = BASIC_HEADER_LENGTH + get_masking_key_offset h + (if get_masked h then 4 else 0)"

definition prepare_header :: "basic_header \<Rightarrow> bytes \<Rightarrow> bytes" where
  "prepare_header h e = b0 h # b1 h # take (get_header_len h - BASIC_HEADER_LENGTH) e"

definition get_masking_key :: "basic_header \<Rightarrow> bytes \<Rightarrow> 32 word" where
  "get_masking_key h e =
     (if \<not> get_masked h then 0 else of_le (take 4 (drop (get_masking_key_offset h) e)))"

text \<open>\<open>ntohs\<close> and \<open>_ntohll\<close> read the bytes with the most significant first.\<close>

definition get_extended_size :: "bytes \<Rightarrow> 16 word" where
  "get_extended_size e = of_le (rev (take 2 e))"

definition get_jumbo_size :: "bytes \<Rightarrow> 64 word" where
  "get_jumbo_size e = of_le (rev (take 8 e))"

definition get_payload_size :: "basic_header \<Rightarrow> bytes \<Rightarrow> 64 word" where
  "get_payload_size h e =
     (let val = get_basic_size h in
      if ucast val \<le> payload_size_basic then ucast val
      else if val = payload_size_code_16bit then ucast (get_extended_size e)
      else get_jumbo_size e)"

subsection \<open>Masking\<close>

definition key_c :: "32 word \<Rightarrow> nat \<Rightarrow> 8 word" where
  "key_c key i = ucast (drop_bit (8 * i) key)"

definition prepare_masking_key :: "32 word \<Rightarrow> 64 word" where
  "prepare_masking_key key = push_bit 32 (ucast key) OR ucast key"

definition circshift_prepared_key :: "64 word \<Rightarrow> nat \<Rightarrow> 64 word" where
  "circshift_prepared_key prepared_key offset =
     (if offset = 0 then prepared_key
      else drop_bit (offset * 8) prepared_key OR push_bit ((8 - offset) * 8) prepared_key)"

fun byte_mask :: "nat \<Rightarrow> 32 word \<Rightarrow> bytes \<Rightarrow> bytes" where
  "byte_mask key_index key [] = []"
| "byte_mask key_index key (b # bs) = (b XOR key_c key key_index) # byte_mask ((key_index + 1) mod 4) key bs"

definition byte_mask_circ :: "bytes \<Rightarrow> 64 word \<Rightarrow> bytes \<times> 64 word" where
  "byte_mask_circ input prepared_key =
     (map (\<lambda>i. input ! i XOR key_c (ucast prepared_key) (i mod 4)) [0..<length input],
      circshift_prepared_key prepared_key (length input mod 4))"

subsection \<open>Reading a header back\<close>

lemma unat_ucast_8: "unat (ucast sz :: 8 word) = take_bit 8 (unat sz)" for sz :: "64 word"
  by (simp add: unsigned_ucast_eq unsigned_take_bit_eq)

lemma ucast_small: "sz \<le> payload_size_basic \<Longrightarrow> ucast (ucast sz :: 8 word) = sz" for sz :: "64 word"
  by (rule word_unat_eq_iff [THEN iffD2])
    (simp add: payload_size_basic_def unsigned_ucast_eq unsigned_take_bit_eq take_bit_nat_eq_self word_le_nat_alt)

lemma take_7: "v AND 0x7F = v" if "v \<le> 0x7F" for v :: "8 word"
proof -
  have "unat v < 2 ^ 7" using that by (simp add: word_le_nat_alt)
  then have "take_bit 7 v = v" by (simp add: word_unat_eq_iff unsigned_take_bit_eq take_bit_nat_eq_self)
  moreover have "(0x7F :: 8 word) = mask 7" by (simp add: mask_eq_exp_minus_1)
  ultimately show ?thesis by (simp only: take_bit_eq_mask)
qed

lemma top_bit: "v AND 0x80 = 0" if "v \<le> 0x7F" for v :: "8 word"
proof -
  have "v AND 0x80 = v AND (0x7F AND 0x80)" using take_7 [OF that] by (metis and.assoc)
  then show ?thesis by simp
qed

lemma basic_value_bound: "basic_value sz \<le> 0x7F"
  by (auto simp: basic_value_def frame_constants word_le_nat_alt unat_ucast_8 take_bit_nat_eq_self)

lemma basic_size_new [simp]: "get_basic_size (basic_header_new op sz fin masked rsv1) = basic_value sz"
  using take_7 [OF basic_value_bound, of sz]
  by (simp add: get_basic_size_def basic_header_new_def frame_constants bit.conj_disj_distrib2)

lemma masked_new [simp]: "get_masked (basic_header_new op sz fin masked rsv1) = masked"
  using top_bit [OF basic_value_bound, of sz]
  by (simp add: get_masked_def basic_header_new_def frame_constants bit.conj_disj_distrib2)

lemma valid_opcodes: "op < 16 \<Longrightarrow> op \<in> {0,1,2,3,4,5,6,7,8,9,10,11,12,13,14,15}" for op :: nat
  by simp presburger

lemma b0_new [simp]:
  assumes "op < 16"
  shows "get_fin (basic_header_new op sz fin masked rsv1) = fin" "get_rsv1 (basic_header_new op sz fin masked rsv1) = rsv1"
    "\<not> get_rsv2 (basic_header_new op sz fin masked rsv1)" "\<not> get_rsv3 (basic_header_new op sz fin masked rsv1)"
    "get_opcode (basic_header_new op sz fin masked rsv1) = op"
  using valid_opcodes [OF assms]
  by (auto simp: get_fin_def get_rsv1_def get_rsv2_def get_rsv3_def get_opcode_def basic_header_new_def frame_constants)

lemma basic_value_cases:
  obtains (basic) "sz \<le> payload_size_basic" "basic_value sz = ucast sz" "payload_offset sz = 8"
      "basic_value sz \<noteq> payload_size_code_16bit" "basic_value sz \<noteq> payload_size_code_64bit"
      "ucast (basic_value sz) \<le> payload_size_basic"
  | (ext) "payload_size_basic < sz" "sz \<le> payload_size_extended" "basic_value sz = payload_size_code_16bit" "payload_offset sz = 6"
  | (jumbo) "payload_size_extended < sz" "basic_value sz = payload_size_code_64bit" "payload_offset sz = 0"
proof -
  consider "sz \<le> payload_size_basic" | "payload_size_basic < sz" "sz \<le> payload_size_extended" | "payload_size_extended < sz"
    by (metis not_less)
  then show thesis
  proof cases
    case 1
    then have "unat (ucast sz :: 8 word) \<le> 125"
      by (simp add: unat_ucast_8 payload_size_basic_def word_le_nat_alt take_bit_nat_eq_self)
    then have "(ucast sz :: 8 word) \<noteq> 0x7E" "(ucast sz :: 8 word) \<noteq> 0x7F" by auto
    with 1 show ?thesis by (intro basic) (simp_all add: basic_value_def payload_offset_def frame_constants ucast_small [unfolded frame_constants])
  next
    case 2
    then have "\<not> sz \<le> payload_size_basic" by (simp add: not_le)
    with 2 show ?thesis by (intro ext) (simp_all add: basic_value_def payload_offset_def)
  next
    case 3
    then have "\<not> sz \<le> payload_size_basic" "\<not> sz \<le> payload_size_extended"
      by (simp_all add: frame_constants word_le_nat_alt word_less_nat_alt)
    with 3 show ?thesis by (intro jumbo) (simp_all add: basic_value_def payload_offset_def)
  qed
qed

lemma payload_offset_le: "payload_offset sz \<le> 8"
  by (simp add: payload_offset_def)

lemma key_offset_new [simp]: "get_masking_key_offset (basic_header_new op sz fin masked rsv1) = 8 - payload_offset sz"
  by (rule basic_value_cases [of sz]) (simp_all add: get_masking_key_offset_def payload_size_code_16bit_def payload_size_code_64bit_def)

text \<open>The bytes a frame header has after the first two.\<close>

definition header_tail :: "64 word \<Rightarrow> 32 word option \<Rightarrow> bytes" where
  "header_tail sz key = drop (payload_offset sz) (htonll_bytes sz) @ (case key of None \<Rightarrow> [] | Some k \<Rightarrow> le_bytes 4 k)"

lemma length_header_tail: "length (header_tail sz key) = 8 - payload_offset sz + (if key = None then 0 else 4)"
  by (simp add: header_tail_def htonll_bytes_def split: option.splits)

lemma extended_header_tail:
  "extended_header_new sz key = header_tail sz key @ replicate (12 - length (header_tail sz key)) 0"
  using payload_offset_le [of sz]
  by (auto simp: extended_header_new_def header_tail_def copy_payload_def copy_at_def no_bytes_def frame_constants
      htonll_bytes_def split: option.splits)

lemma prepare_header_new:
  "prepare_header (basic_header_new op sz fin (key \<noteq> None) rsv1) (extended_header_new sz key) =
   b0 (basic_header_new op sz fin (key \<noteq> None) rsv1) # b1 (basic_header_new op sz fin (key \<noteq> None) rsv1) # header_tail sz key"
  by (simp add: prepare_header_def get_header_len_def extended_header_tail length_header_tail)

lemma header_len_new:
  "get_header_len (basic_header_new op sz fin (key \<noteq> None) rsv1) - BASIC_HEADER_LENGTH = length (header_tail sz key)"
  by (simp add: get_header_len_def length_header_tail)

lemma small_word: "ucast (of_le (take 2 (le_bytes 8 sz)) :: 16 word) = sz" if "sz \<le> payload_size_extended" for sz :: "64 word"
proof -
  have t: "take_bit 16 sz = sz"
    using that by (simp add: word_unat_eq_iff unsigned_take_bit_eq take_bit_nat_eq_self payload_size_extended_def word_le_nat_alt)
  have "take_bit 16 sz = ucast (of_le (take 2 (le_bytes 8 sz)) :: 16 word)"
    by (rule bit_eqI) (auto simp: bit_simps bit_of_le le_bytes_def less_mult_imp_div_less)
  with t show ?thesis by simp
qed

text \<open>What a receiver that has stored the tail reads from it, whatever the rest of its buffer holds.\<close>

lemma payload_size_new:
  assumes "prefix (header_tail sz key) e"
  shows "get_payload_size (basic_header_new op sz fin masked rsv1) e = sz"
proof -
  obtain r where e: "e = drop (payload_offset sz) (rev (le_bytes 8 sz)) @ r"
    using assms by (auto simp: header_tail_def htonll_bytes_def prefix_def)
  show ?thesis
  proof (rule basic_value_cases [of sz])
    assume "payload_offset sz = 6" "payload_size_basic < sz" "sz \<le> payload_size_extended"
      "basic_value sz = payload_size_code_16bit"
    then show ?thesis
      by (simp add: get_payload_size_def get_extended_size_def e rev_drop small_word) (simp add: frame_constants)
  next
    assume "payload_offset sz = 0" "basic_value sz = payload_size_code_64bit" 
    then show ?thesis
      by (simp add: get_payload_size_def get_jumbo_size_def e of_le_bytes) (simp add: frame_constants)
  qed (simp add: get_payload_size_def ucast_small)
qed

lemma masking_key_new:
  assumes "prefix (header_tail sz (Some key)) e"
  shows "get_masking_key (basic_header_new op sz fin True rsv1) e = key"
proof -
  obtain r where e: "e = drop (payload_offset sz) (htonll_bytes sz) @ le_bytes 4 key @ r"
    using assms by (auto simp: header_tail_def prefix_def)
  have "drop (8 - payload_offset sz) e = le_bytes 4 key @ r" unfolding e by (simp add: htonll_bytes_def)
  then show ?thesis by (simp add: get_masking_key_def of_le_bytes)
qed

subsection \<open>Masking and unmasking\<close>

text \<open>A prepared key that stands at byte \<open>i\<close> of the key.\<close>

definition periodic :: "32 word \<Rightarrow> nat \<Rightarrow> 64 word \<Rightarrow> bool" where
  "periodic key i p \<longleftrightarrow> (\<forall>n<64. bit p n = bit key ((n + 8 * i) mod 32))"

lemma periodic_prepare: "periodic key 0 (prepare_masking_key key)"
proof -
  have "bit (prepare_masking_key key) n = bit key (n mod 32)" if "n < 64" for n
  proof (cases "n < 32")
    case True
    then show ?thesis by (simp add: prepare_masking_key_def bit_simps)
  next
    case False
    then have "\<not> bit key n" "n mod 32 = n - 32" "n - 32 < 64" using bit_imp_le_length [of key n] that by (auto simp: mod_if)
    with False that show ?thesis by (simp add: prepare_masking_key_def bit_simps)
  qed
  then show ?thesis by (simp add: periodic_def)
qed

lemma periodic_circshift:
  assumes "periodic key i p" "j < 4"
  shows "periodic key ((i + j) mod 4) (circshift_prepared_key p j)"
proof -
  have m: "(n + 8 * ((i + j) mod 4)) mod 32 = (n + 8 * i + 8 * j) mod 32" for n
    by (simp add: mult_mod_right mod_add_right_eq algebra_simps)
  have "bit (circshift_prepared_key p j) n = bit key ((n + 8 * i + 8 * j) mod 32)" if n: "n < 64" for n
  proof (cases "j = 0")
    case True
    with assms n show ?thesis by (simp add: circshift_prepared_key_def periodic_def)
  next
    case False
    show ?thesis
    proof (cases "n + 8 * j < 64")
      case True
      with assms(1) have "bit p (n + 8 * j) = bit key ((n + 8 * i + 8 * j) mod 32)"
        by (simp add: periodic_def ac_simps)
      moreover have "\<not> 8 * (8 - j) \<le> n" using True assms(2) by linarith
      ultimately show ?thesis using True False n assms(2) by (simp add: circshift_prepared_key_def bit_simps ac_simps)
    next
      case False
      then obtain d where d: "n + 8 * j = d + 64" by (metis add.commute le_Suc_ex not_less)
      then have dn: "d < 64" "n - (8 - j) * 8 = d" "(8 - j) * 8 \<le> n" using n assms(2) by simp_all
      have "\<not> bit p (n + 8 * j)" using bit_imp_le_length [of p "n + 8 * j"] False by auto
      moreover have "bit p d = bit key ((d + 8 * i) mod 32)" using assms(1) dn by (simp add: periodic_def)
      moreover have "(n + 8 * i + 8 * j) mod 32 = (d + 8 * i) mod 32"
      proof -
        have "n + 8 * i + 8 * j = d + 8 * i + 32 * 2" using d by simp
        then show ?thesis by (simp only: mod_mult_self2)
      qed
      ultimately show ?thesis using dn n \<open>j \<noteq> 0\<close> by (simp add: circshift_prepared_key_def bit_simps ac_simps)
    qed
  qed
  then show ?thesis by (simp add: periodic_def m)
qed

lemma periodic_key_c:
  assumes "periodic key i p" "j < 4"
  shows "key_c (ucast p) j = key_c key ((i + j) mod 4)"
proof (rule bit_eqI)
  fix n
  assume "possible_bit TYPE(8 word) n"
  then have n: "n < 8" by simp
  have "(8 * (i + j) + n) mod 32 = (8 * ((i + j) mod 4) + n) mod 32"
    by (simp add: mult_mod_right mod_add_left_eq)
  also have "\<dots> = 8 * ((i + j) mod 4) + n" using n mod_less_divisor [of 4 "i + j"] by (intro mod_less) linarith
  finally have "(8 * j + n + 8 * i) mod 32 = 8 * ((i + j) mod 4) + n" by (simp add: algebra_simps)
  then show "bit (key_c (ucast p) j) n = bit (key_c key ((i + j) mod 4)) n"
    using n assms by (simp add: key_c_def bit_simps periodic_def)
qed

lemma byte_mask_append:
  "i < 4 \<Longrightarrow> byte_mask i key (a @ b) = byte_mask i key a @ byte_mask ((i + length a) mod 4) key b"
proof (induction a arbitrary: i)
  case (Cons x a)
  have "(Suc i mod 4 + length a) mod 4 = Suc (i + length a) mod 4" by presburger
  with Cons.IH [of "Suc i mod 4"] show ?case by simp
qed simp

lemma length_byte_mask [simp]: "length (byte_mask i key bs) = length bs"
  by (induction i key bs rule: byte_mask.induct) auto

lemma byte_mask_twice [simp]: "byte_mask i key (byte_mask i key bs) = bs"
  by (induction i key bs rule: byte_mask.induct) (auto simp: xor.assoc)

lemma byte_mask_nth: "i < 4 \<Longrightarrow> j < length bs \<Longrightarrow> byte_mask i key bs ! j = bs ! j XOR key_c key ((i + j) mod 4)"
proof (induction i key bs arbitrary: j rule: byte_mask.induct)
  case (2 i key b bs)
  show ?case
  proof (cases j)
    case (Suc m)
    have "(Suc i mod 4 + m) mod 4 = Suc (i + m) mod 4" by presburger
    with 2 Suc show ?thesis by simp
  qed (use 2 in simp)
qed simp

lemma byte_mask_circ_eq:
  assumes "periodic key i p" "i < 4"
  shows "byte_mask_circ bs p = (byte_mask i key bs, circshift_prepared_key p (length bs mod 4))"
proof -
  have "(i + j mod 4) mod 4 = (i + j) mod 4" for j by presburger
  with assms have "map (\<lambda>j. bs ! j XOR key_c (ucast p) (j mod 4)) [0..<length bs] = byte_mask i key bs"
    by (intro nth_equalityI) (simp_all add: byte_mask_nth periodic_key_c)
  then show ?thesis by (simp add: byte_mask_circ_def)
qed

lemma periodic_after:
  "periodic key i p \<Longrightarrow> periodic key ((i + n) mod 4) (circshift_prepared_key p (n mod 4))"
  using periodic_circshift [of key i p "n mod 4"] by (simp add: mod_add_right_eq)

lemma periodic_unique: "periodic key i p \<Longrightarrow> periodic key i q \<Longrightarrow> p = q"
  by (rule bit_eqI) (simp add: periodic_def)

text \<open>Unmasking in pieces is unmasking at once.\<close>

lemma byte_mask_circ_append:
  assumes "periodic key i p" "i < 4" "byte_mask_circ a p = (a', p1)" "byte_mask_circ b p1 = (b', p2)"
  shows "byte_mask_circ (a @ b) p = (a' @ b', p2)"
proof -
  have a: "a' = byte_mask i key a" "p1 = circshift_prepared_key p (length a mod 4)"
    using assms(3) byte_mask_circ_eq [OF assms(1,2)] by simp_all
  have p1: "periodic key ((i + length a) mod 4) p1" unfolding a by (rule periodic_after [OF assms(1)])
  have b: "b' = byte_mask ((i + length a) mod 4) key b" "p2 = circshift_prepared_key p1 (length b mod 4)"
    using assms(4) byte_mask_circ_eq [OF p1] by simp_all
  have "p2 = circshift_prepared_key p (length (a @ b) mod 4)"
    using periodic_after [OF p1, of "length b"] periodic_after [OF assms(1), of "length (a @ b)"]
    by (intro periodic_unique) (simp_all add: b mod_add_left_eq add.assoc)
  then show ?thesis using byte_mask_circ_eq [OF assms(1,2), of "a @ b"] by (simp add: a b byte_mask_append [OF assms(2)])
qed

end
