(* ===== verification/Hybi13.thy ===== *)
theory Hybi13
  imports Frame JsonDump
begin

text \<open>
  The websocket protocol processor (\<open>websocketpp/processors/hybi13.hpp\<close>) in the configuration of the
  program, without compression: how it takes frames out of the bytes that arrive, and how it makes the
  frames it sends. Sizes are natural numbers; where the code adds two \<open>size_t\<close> values that may not
  fit, the remainder is written out.
\<close>

subsection \<open>The UTF-8 validator\<close>

text \<open>\<open>utf8_validator.hpp\<close>; its table is the one of the serializer.\<close>

definition ws_utf8d :: "nat list" where
  "ws_utf8d =
    [0,0,0,0,0,0,0,0,0,0,0,0,0,0,0,0,0,0,0,0,0,0,0,0,0,0,0,0,0,0,0,0,
     0,0,0,0,0,0,0,0,0,0,0,0,0,0,0,0,0,0,0,0,0,0,0,0,0,0,0,0,0,0,0,0,
     0,0,0,0,0,0,0,0,0,0,0,0,0,0,0,0,0,0,0,0,0,0,0,0,0,0,0,0,0,0,0,0,
     0,0,0,0,0,0,0,0,0,0,0,0,0,0,0,0,0,0,0,0,0,0,0,0,0,0,0,0,0,0,0,0,
     1,1,1,1,1,1,1,1,1,1,1,1,1,1,1,1,9,9,9,9,9,9,9,9,9,9,9,9,9,9,9,9,
     7,7,7,7,7,7,7,7,7,7,7,7,7,7,7,7,7,7,7,7,7,7,7,7,7,7,7,7,7,7,7,7,
     8,8,2,2,2,2,2,2,2,2,2,2,2,2,2,2,2,2,2,2,2,2,2,2,2,2,2,2,2,2,2,2,
     0xa,0x3,0x3,0x3,0x3,0x3,0x3,0x3,0x3,0x3,0x3,0x3,0x3,0x4,0x3,0x3,
     0xb,0x6,0x6,0x6,0x5,0x8,0x8,0x8,0x8,0x8,0x8,0x8,0x8,0x8,0x8,0x8,
     0x0,0x1,0x2,0x3,0x5,0x8,0x7,0x1,0x1,0x1,0x4,0x6,0x1,0x1,0x1,0x1,
     1,1,1,1,1,1,1,1,1,1,1,1,1,1,1,1,1,0,1,1,1,1,1,0,1,0,1,1,1,1,1,1,
     1,2,1,1,1,1,1,2,1,2,1,1,1,1,1,1,1,1,1,1,1,1,1,2,1,1,1,1,1,1,1,1,
     1,2,1,1,1,1,1,1,1,2,1,1,1,1,1,1,1,1,1,1,1,1,1,3,1,3,1,1,1,1,1,1,
     1,3,1,1,1,1,1,3,1,3,1,1,1,1,1,1,1,3,1,1,1,1,1,1,1,1,1,1,1,1,1,1]"

lemma ws_utf8d_eq: "ws_utf8d = utf8d"
  by (simp add: ws_utf8d_def utf8d_def utf8_classes_def utf8_rows_def numeral_eq_Suc)

definition utf8_accept :: nat where "utf8_accept = 0"
definition utf8_reject :: nat where "utf8_reject = 1"

record validator =
  v_state :: nat
  v_codepoint :: nat

definition validator_new :: validator where
  "validator_new = \<lparr>v_state = utf8_accept, v_codepoint = 0\<rparr>"

definition validator_step :: "validator \<Rightarrow> nat \<Rightarrow> validator" where
  "validator_step v b =
     (let type = ws_utf8d ! b in
      \<lparr>v_state = ws_utf8d ! (256 + v_state v * 16 + type),
       v_codepoint = (if v_state v \<noteq> utf8_accept then (b AND 0x3F) OR take_bit 32 (push_bit 6 (v_codepoint v))
                      else drop_bit type 0xFF AND b)\<rparr>)"

fun validator_decode :: "validator \<Rightarrow> bytes \<Rightarrow> validator \<times> bool" where
  "validator_decode v [] = (v, True)"
| "validator_decode v (b # bs) =
     (let v' = validator_step v (unat b) in
      if v_state v' = utf8_reject then (v', False) else validator_decode v' bs)"

definition complete :: "validator \<Rightarrow> bool" where
  "complete v \<longleftrightarrow> v_state v = utf8_accept"

definition validate :: "bytes \<Rightarrow> bool" where
  "validate s = (case validator_decode validator_new s of (v, ok) \<Rightarrow> ok \<and> complete v)"

subsection \<open>The state of the processor\<close>

datatype ws_error =
    control_too_big | invalid_rsv_bit | invalid_opcode | fragmented_control | invalid_continuation
  | masking_required | masking_forbidden | non_minimal_encoding | message_too_big | invalid_utf8
  | invalid_payload | reserved_close_code | invalid_close_code | reason_requires_code
  | bad_close_code | invalid_state   \<comment> \<open>of \<open>close.hpp\<close> and of the connection\<close>
  | null_message   \<comment> \<open>not an error of the code: an empty \<open>msg_ptr\<close> dereferenced\<close>

datatype hybi_state = HEADER_BASIC | HEADER_EXTENDED | EXTENSION | APPLICATION | READY | FATAL_ERROR

record ws_message =
  wm_opcode :: opcode
  wm_payload :: bytes

record msg_metadata =
  msg_ptr :: "ws_message option"
  prepared_key :: "64 word"
  md_validator :: validator

record hybi13 =
  h_server :: bool
  m_max_message_size :: nat
  m_basic_header :: basic_header
  m_extended_header :: bytes
  m_state :: hybi_state
  m_bytes_needed :: nat
  m_cursor :: nat
  m_data_msg :: msg_metadata
  m_control_msg :: msg_metadata
  current_is_control :: bool   \<comment> \<open>what \<open>m_current_msg\<close> points to\<close>

definition reset_headers :: "hybi13 \<Rightarrow> hybi13" where
  "reset_headers s = s\<lparr>m_state := HEADER_BASIC, m_bytes_needed := BASIC_HEADER_LENGTH,
     m_basic_header := \<lparr>b0 = 0, b1 = 0\<rparr>, m_extended_header := no_bytes\<rparr>"

definition no_msg :: msg_metadata where
  "no_msg = \<lparr>msg_ptr = None, prepared_key = 0, md_validator = validator_new\<rparr>"

definition hybi13_new :: "bool \<Rightarrow> nat \<Rightarrow> hybi13" where
  "hybi13_new server max_size = reset_headers
     \<lparr>h_server = server, m_max_message_size = max_size, m_basic_header = \<lparr>b0 = 0, b1 = 0\<rparr>, m_extended_header = no_bytes,
      m_state = HEADER_BASIC, m_bytes_needed = 0, m_cursor = 0, m_data_msg = no_msg, m_control_msg = no_msg,
      current_is_control = False\<rparr>"

definition m_current_msg :: "hybi13 \<Rightarrow> msg_metadata" where
  "m_current_msg s = (if current_is_control s then m_control_msg s else m_data_msg s)"

definition set_current_msg :: "msg_metadata \<Rightarrow> hybi13 \<Rightarrow> hybi13" where
  "set_current_msg md s = (if current_is_control s then s\<lparr>m_control_msg := md\<rparr> else s\<lparr>m_data_msg := md\<rparr>)"

definition new_metadata :: "opcode \<Rightarrow> 32 word \<Rightarrow> msg_metadata" where
  "new_metadata op key =
     \<lparr>msg_ptr = Some \<lparr>wm_opcode = op, wm_payload = []\<rparr>, prepared_key = prepare_masking_key key, md_validator = validator_new\<rparr>"

subsection \<open>Reading\<close>

text \<open>The bytes of the basic header; the result is the number of bytes taken.\<close>

definition copy_basic_header_bytes :: "hybi13 \<Rightarrow> bytes \<Rightarrow> hybi13 \<times> nat" where
  "copy_basic_header_bytes s buf =
     (let h = m_basic_header s in
      if buf = [] \<or> m_bytes_needed s = 0 then (s, 0)
      else if 1 < length buf then
        (if m_bytes_needed s = 2 then
           (s\<lparr>m_basic_header := \<lparr>b0 = buf ! 0, b1 = buf ! 1\<rparr>, m_bytes_needed := m_bytes_needed s - 2\<rparr>, 2)
         else (s\<lparr>m_basic_header := h\<lparr>b1 := buf ! 0\<rparr>, m_bytes_needed := m_bytes_needed s - 1\<rparr>, 1))
      else
        (if m_bytes_needed s = 2 then
           (s\<lparr>m_basic_header := h\<lparr>b0 := buf ! 0\<rparr>, m_bytes_needed := m_bytes_needed s - 1\<rparr>, 1)
         else (s\<lparr>m_basic_header := h\<lparr>b1 := buf ! 0\<rparr>, m_bytes_needed := m_bytes_needed s - 1\<rparr>, 1)))"

definition copy_extended_header_bytes :: "hybi13 \<Rightarrow> bytes \<Rightarrow> hybi13 \<times> nat" where
  "copy_extended_header_bytes s buf =
     (let bytes_to_read = min (m_bytes_needed s) (length buf) in
      (s\<lparr>m_extended_header := copy_at (m_cursor s) (take bytes_to_read buf) (m_extended_header s),
         m_cursor := m_cursor s + bytes_to_read,
         m_bytes_needed := m_bytes_needed s - bytes_to_read\<rparr>, bytes_to_read))"

definition validate_incoming_basic_header :: "basic_header \<Rightarrow> bool \<Rightarrow> bool \<Rightarrow> ws_error option" where
  "validate_incoming_basic_header h is_server new_msg =
     (let op = get_opcode h in
      if is_control op \<and> payload_size_basic < ucast (get_basic_size h) then Some control_too_big
      else if get_rsv1 h then Some invalid_rsv_bit
      else if get_rsv2 h \<or> get_rsv3 h then Some invalid_rsv_bit
      else if reserved_op op then Some invalid_opcode
      else if invalid_op op then Some invalid_opcode
      else if is_control op \<and> \<not> get_fin h then Some fragmented_control
      else if new_msg \<and> op = CONTINUATION then Some invalid_continuation
      else if \<not> new_msg \<and> \<not> is_control op \<and> op \<noteq> CONTINUATION then Some invalid_continuation
      else if is_server \<and> \<not> get_masked h then Some masking_required
      else if \<not> is_server \<and> get_masked h then Some masking_forbidden
      else None)"

definition validate_incoming_extended_header :: "basic_header \<Rightarrow> bytes \<Rightarrow> ws_error option" where
  "validate_incoming_extended_header h e =
     (let basic_size = get_basic_size h; payload_size = get_payload_size h e in
      if basic_size = payload_size_code_16bit \<and> payload_size \<le> payload_size_basic then Some non_minimal_encoding
      else if basic_size = payload_size_code_64bit \<and> payload_size \<le> payload_size_extended then Some non_minimal_encoding
      else None)"

text \<open>
  The part after the extended header: where the payload of this frame goes. The sum of the sizes of
  a message in parts is computed in 64 bits.
\<close>

definition begin_payload :: "hybi13 \<Rightarrow> ws_error + hybi13" where
  "begin_payload s =
     (let h = m_basic_header s; e = m_extended_header s; needed = unat (get_payload_size h e);
          s1 = s\<lparr>m_state := APPLICATION, m_bytes_needed := needed\<rparr>;
          op = get_opcode h; key = get_masking_key h e
      in if is_control op then Inr (s1\<lparr>m_control_msg := new_metadata op key, current_is_control := True\<rparr>)
         else case msg_ptr (m_data_msg s) of
           None \<Rightarrow>
             if m_max_message_size s < needed then Inl message_too_big
             else Inr (s1\<lparr>m_data_msg := new_metadata op key, current_is_control := False\<rparr>)
         | Some m \<Rightarrow>
             if m_max_message_size s < (length (wm_payload m) + needed) mod 2 ^ 64 then Inl message_too_big
             else Inr (s1\<lparr>m_data_msg := (m_data_msg s)\<lparr>prepared_key := prepare_masking_key key\<rparr>,
                          current_is_control := False\<rparr>))"

definition process_payload_bytes :: "hybi13 \<Rightarrow> bytes \<Rightarrow> ws_error + hybi13" where
  "process_payload_bytes s buf =
     (let md = m_current_msg s;
          (unmasked, key) = (if get_masked (m_basic_header s) then byte_mask_circ buf (prepared_key md)
                             else (buf, prepared_key md));
          s1 = s\<lparr>m_bytes_needed := m_bytes_needed s - length buf\<rparr>
      in case msg_ptr md of None \<Rightarrow> Inl null_message
         | Some m \<Rightarrow>
             (let m' = m\<lparr>wm_payload := wm_payload m @ unmasked\<rparr>;
                  (v, ok) = (if wm_opcode m = TEXT then validator_decode (md_validator md) unmasked
                             else (md_validator md, True))
              in if \<not> ok then Inl invalid_utf8
                 else Inr (set_current_msg \<lparr>msg_ptr = Some m', prepared_key = key, md_validator = v\<rparr> s1)))"

definition finalize_message :: "hybi13 \<Rightarrow> ws_error + hybi13" where
  "finalize_message s =
     (if msg_ptr (m_current_msg s) = None then Inl null_message
      else if get_opcode (m_basic_header s) = TEXT \<and> \<not> complete (md_validator (m_current_msg s)) then Inl invalid_utf8
      else Inr (s\<lparr>m_state := READY\<rparr>))"

text \<open>One turn of the loop of \<open>consume\<close>: the new state and what is left of the buffer.\<close>

definition consume_step :: "hybi13 \<Rightarrow> bytes \<Rightarrow> ws_error + hybi13 \<times> bytes" where
  "consume_step s buf =
     (case m_state s of
        HEADER_BASIC \<Rightarrow>
          (case copy_basic_header_bytes s buf of (s1, n) \<Rightarrow>
             if 0 < m_bytes_needed s1 then Inr (s1, drop n buf)
             else case validate_incoming_basic_header (m_basic_header s1) (h_server s1) (msg_ptr (m_data_msg s1) = None) of
               Some e \<Rightarrow> Inl e
             | None \<Rightarrow> Inr (s1\<lparr>m_state := HEADER_EXTENDED, m_cursor := 0,
                              m_bytes_needed := get_header_len (m_basic_header s1) - BASIC_HEADER_LENGTH\<rparr>, drop n buf))
      | HEADER_EXTENDED \<Rightarrow>
          (case copy_extended_header_bytes s buf of (s1, n) \<Rightarrow>
             if 0 < m_bytes_needed s1 then Inr (s1, drop n buf)
             else case validate_incoming_extended_header (m_basic_header s1) (m_extended_header s1) of
               Some e \<Rightarrow> Inl e
             | None \<Rightarrow> bindR (begin_payload s1) (\<lambda>s2. Inr (s2, drop n buf)))
      | EXTENSION \<Rightarrow> Inr (s\<lparr>m_state := APPLICATION\<rparr>, buf)
      | APPLICATION \<Rightarrow>
          (let bytes_to_process = min (m_bytes_needed s) (length buf) in
           bindR (if 0 < bytes_to_process then process_payload_bytes s (take bytes_to_process buf) else Inr s) (\<lambda>s1.
             if 0 < m_bytes_needed s1 then Inr (s1, drop bytes_to_process buf)
             else if get_fin (m_basic_header s1) then bindR (finalize_message s1) (\<lambda>s2. Inr (s2, drop bytes_to_process buf))
             else Inr (reset_headers s1, drop bytes_to_process buf)))
      | READY \<Rightarrow> Inr (s, buf)
      | FATAL_ERROR \<Rightarrow> Inr (s, buf))"

definition stage :: "hybi13 \<Rightarrow> nat" where
  "stage s = (case m_state s of
     HEADER_BASIC \<Rightarrow> if m_bytes_needed s = 0 then 5 else 0
   | HEADER_EXTENDED \<Rightarrow> 4 | EXTENSION \<Rightarrow> 3 | APPLICATION \<Rightarrow> 2 | READY \<Rightarrow> 1 | FATAL_ERROR \<Rightarrow> 0)"

definition working :: "hybi13 \<Rightarrow> bytes \<Rightarrow> bool" where
  "working s buf \<longleftrightarrow> m_state s \<noteq> READY \<and> m_state s \<noteq> FATAL_ERROR \<and> (buf \<noteq> [] \<or> m_bytes_needed s = 0)"

lemma process_payload_state:
  assumes "process_payload_bytes s buf = Inr s'"
  shows "m_state s' = m_state s" "m_bytes_needed s' = m_bytes_needed s - length buf" "m_basic_header s' = m_basic_header s"
  using assms by (auto simp: process_payload_bytes_def set_current_msg_def Let_def split: option.splits prod.splits if_splits)

lemma begin_payload_state: "begin_payload s = Inr s' \<Longrightarrow> m_state s' = APPLICATION"
  by (auto simp: begin_payload_def Let_def split: option.splits if_splits)

lemma finalize_state: "finalize_message s = Inr s' \<longleftrightarrow>
    msg_ptr (m_current_msg s) \<noteq> None \<and> \<not> (get_opcode (m_basic_header s) = TEXT \<and> \<not> complete (md_validator (m_current_msg s))) \<and>
    s' = s\<lparr>m_state := READY\<rparr>"
  by (auto simp: finalize_message_def split: if_splits)

lemma stage_simps [simp]:
  "m_state s = HEADER_BASIC \<Longrightarrow> stage s = (if m_bytes_needed s = 0 then 5 else 0)"
  "m_state s = HEADER_EXTENDED \<Longrightarrow> stage s = 4" "m_state s = EXTENSION \<Longrightarrow> stage s = 3"
  "m_state s = APPLICATION \<Longrightarrow> stage s = 2" "m_state s = READY \<Longrightarrow> stage s = 1"
  by (simp_all add: stage_def)

lemma consume_step_progress:
  assumes "working s buf" "consume_step s buf = Inr (s', rest)"
  shows "length rest < length buf \<or> rest = buf \<and> stage s' < stage s"
proof (cases "m_state s")
  case HEADER_BASIC
  with assms show ?thesis
    by (auto simp: consume_step_def working_def copy_basic_header_bytes_def Let_def split: if_splits option.splits)
next
  case HEADER_EXTENDED
  with assms show ?thesis
    by (cases "m_bytes_needed s = 0") (auto simp: consume_step_def working_def copy_extended_header_bytes_def Let_def min_def
        split: if_splits option.splits dest: begin_payload_state)
next
  case APPLICATION
  let ?n = "min (m_bytes_needed s) (length buf)"
  let ?first = "if 0 < ?n then process_payload_bytes s (take ?n buf) else Inr s"
  let ?then = "\<lambda>s1. if 0 < m_bytes_needed s1 then Inr (s1, drop ?n buf)
    else if get_fin (m_basic_header s1) then bindR (finalize_message s1) (\<lambda>s2. Inr (s2, drop ?n buf))
    else Inr (reset_headers s1, drop ?n buf)"
  have "bindR ?first ?then = Inr (s', rest)"
    using assms(2) unfolding consume_step_def APPLICATION Let_def by (simp only: hybi_state.case)
  then obtain s1 where s1: "?first = Inr s1" and s': "?then s1 = Inr (s', rest)" unfolding bindR_eq_Inr by blast
  have st: "m_state s1 = APPLICATION" using s1 APPLICATION process_payload_state(1) [of s "take ?n buf" s1]
    by (auto split: if_splits)
  have rest: "rest = drop ?n buf" using s' by (auto split: if_splits)
  have s': "0 < m_bytes_needed s1 \<and> s' = s1 \<or> m_bytes_needed s1 = 0 \<and> (s' = s1\<lparr>m_state := READY\<rparr> \<or> s' = reset_headers s1)"
    using s' by (auto simp: finalize_state split: if_splits)
  show ?thesis
  proof (cases "?n = 0")
    case True
    with s1 have "s1 = s" by simp
    with s' rest APPLICATION True assms(1) show ?thesis
      by (auto simp: working_def reset_headers_def BASIC_HEADER_LENGTH_def min_def split: if_splits)
  next
    case False
    with rest show ?thesis by simp
  qed
qed (use assms in \<open>auto simp: consume_step_def working_def\<close>)

function consume :: "hybi13 \<Rightarrow> bytes \<Rightarrow> ws_error + hybi13 \<times> bytes" where
  "consume s buf =
     (if working s buf then bindR (consume_step s buf) (\<lambda>(s', rest). consume s' rest) else Inr (s, buf))"
  by pat_completeness auto
termination
  by (relation "inv_image (less_than <*lex*> less_than) (\<lambda>(s, buf). (length buf, stage s))")
    (auto dest: consume_step_progress)

declare consume.simps [simp del]

text \<open>\<open>get_message\<close>; without a message in \<open>m_current_msg\<close> it would dereference null.\<close>

definition get_message :: "hybi13 \<Rightarrow> ws_message option \<times> hybi13" where
  "get_message s =
     (if m_state s \<noteq> READY then (None, s)
      else case msg_ptr (m_current_msg s) of
        None \<Rightarrow> (None, s)
      | Some m \<Rightarrow>
          (let s1 = set_current_msg ((m_current_msg s)\<lparr>msg_ptr := None\<rparr>) s in
           (Some m, reset_headers
              (if is_control (wm_opcode m) then s1\<lparr>m_control_msg := (m_control_msg s1)\<lparr>msg_ptr := None\<rparr>\<rparr>
               else s1\<lparr>m_data_msg := (m_data_msg s1)\<lparr>msg_ptr := None\<rparr>\<rparr>))))"

text \<open>
  The loop of \<open>connection::handle_read_frame\<close> over the bytes of one read: the messages in order, and how
  it ends. After an error of \<open>consume\<close> the connection is closed and nothing more is read. \<open>Stuck\<close> stands
  for the two places where the code has no way on; it is not reached.
\<close>

datatype read_end = Read_more hybi13 | Consume_error ws_error | Stuck

definition stuck :: "hybi13 \<Rightarrow> bool" where
  "stuck s \<longleftrightarrow> m_state s = FATAL_ERROR \<or> m_state s = READY \<and> msg_ptr (m_current_msg s) = None"

lemma consume_progress:
  "consume s buf = Inr (s', rest) \<Longrightarrow>
   length rest < length buf \<or> rest = buf \<and> (stage s' < stage s \<or> \<not> working s buf \<and> s' = s)"
proof (induction s buf rule: consume.induct)
  case (1 s buf)
  show ?case
  proof (cases "working s buf")
    case True
    with 1(2) obtain s1 r where step: "consume_step s buf = Inr (s1, r)" "consume s1 r = Inr (s', rest)"
      by (subst (asm) consume.simps) auto
    from 1(1) [OF True step(1) refl step(2)] consume_step_progress [OF True step(1)] show ?thesis
      by auto
  next
    case False
    with 1(2) show ?thesis by (simp add: consume.simps)
  qed
qed

lemma get_message_stage:
  "get_message s = (m, s') \<Longrightarrow> s' = s \<and> m = None \<or> stage s' = 0 \<and> m_state s = READY"
  by (auto simp: get_message_def reset_headers_def BASIC_HEADER_LENGTH_def Let_def split: if_splits option.splits)

lemma consume_not_working: "\<not> working s buf \<Longrightarrow> consume s buf = Inr (s, buf)"
  by (subst consume.simps) simp

function handle_read_frame :: "hybi13 \<Rightarrow> bytes \<Rightarrow> ws_message list \<times> read_end" where
  "handle_read_frame s buf =
     (if buf = [] then ([], Read_more s)
      else if stuck s then ([], Stuck)
      else case consume s buf of
        Inl e \<Rightarrow> ([], Consume_error e)
      | Inr (s', rest) \<Rightarrow>
          (case get_message s' of (m, s'') \<Rightarrow>
           (case handle_read_frame s'' rest of (ms, end) \<Rightarrow> (case m of None \<Rightarrow> ms | Some m \<Rightarrow> m # ms, end))))"
  by pat_completeness auto
termination
proof (relation "inv_image (less_than <*lex*> less_than) (\<lambda>(s, buf). (length buf, stage s))", goal_cases)
  case 1
  show ?case by (intro wf_inv_image wf_lex_prod wf_less_than)
next
  case (2 s buf x s' rest m s'')
  have p: "length rest < length buf \<or> rest = buf \<and> (stage s' < stage s \<or> \<not> working s buf \<and> s' = s)"
    using 2 by (intro consume_progress) simp
  have g: "s'' = s' \<and> m = None \<or> stage s'' = 0 \<and> m_state s' = READY" using 2 by (intro get_message_stage) simp
  show ?case
  proof (cases "length rest < length buf \<or> rest = buf \<and> stage s' < stage s")
    case True
    with g show ?thesis by auto
  next
    case False
    with p have "s' = s" "\<not> working s buf" "rest = buf" by auto
    with 2 g show ?thesis by (auto simp: working_def stuck_def get_message_def Let_def split: option.splits)
  qed
qed

declare handle_read_frame.simps [simp del]

subsection \<open>Sending\<close>

definition masked_copy :: "bytes \<Rightarrow> 32 word \<Rightarrow> bytes" where
  "masked_copy i key = byte_mask 0 key i"

text \<open>The header and the payload of the frame; \<open>rng\<close> is the number the generator gives.\<close>

definition make_frame :: "bool \<Rightarrow> 32 word \<Rightarrow> opcode \<Rightarrow> bool \<Rightarrow> bytes \<Rightarrow> bytes \<times> bytes" where
  "make_frame server rng op fin i =
     (let masked = \<not> server; sz = of_nat (length i); h = basic_header_new op sz fin masked False
      in (prepare_header h (extended_header_new sz (if masked then Some rng else None)),
          if masked then masked_copy i rng else i))"

definition prepare_data_frame :: "bool \<Rightarrow> 32 word \<Rightarrow> bool \<Rightarrow> ws_message \<Rightarrow> ws_error + bytes \<times> bytes" where
  "prepare_data_frame server rng fin msg =
     (let op = wm_opcode msg; i = wm_payload msg in
      if is_control op then Inl invalid_opcode
      else if op = TEXT \<and> \<not> validate i then Inl invalid_payload
      else Inr (make_frame server rng op fin i))"

definition prepare_control :: "bool \<Rightarrow> 32 word \<Rightarrow> opcode \<Rightarrow> bytes \<Rightarrow> ws_error + bytes \<times> bytes" where
  "prepare_control server rng op payload =
     (if \<not> is_control op then Inl invalid_opcode
      else if 125 < length payload then Inl control_too_big
      else Inr (make_frame server rng op True payload))"

end
