(* ===== verification/HybiRead.thy ===== *)
theory HybiRead
  imports Hybi13
begin

text \<open>
  What the reader does with the bytes that arrive: an invariant of its state, that it makes no
  difference how the bytes are cut into reads, and that every frame made by the sending side is read
  back as it was.
\<close>

subsection \<open>The invariant\<close>

definition key_ok :: "msg_metadata \<Rightarrow> bool" where
  "key_ok md \<longleftrightarrow> (\<exists>key i. i < 4 \<and> periodic key i (prepared_key md))"

definition hybi_inv :: "hybi13 \<Rightarrow> bool" where
  "hybi_inv s \<longleftrightarrow>
     m_state s \<noteq> FATAL_ERROR \<and> m_state s \<noteq> EXTENSION \<and> length (m_extended_header s) = MAX_EXTENDED_HEADER_LENGTH \<and>
     (m_state s = HEADER_BASIC \<longrightarrow> m_bytes_needed s \<le> 2) \<and>
     (m_state s = HEADER_EXTENDED \<longrightarrow> m_cursor s + m_bytes_needed s \<le> MAX_EXTENDED_HEADER_LENGTH) \<and>
     (m_state s \<in> {APPLICATION, READY} \<longrightarrow> msg_ptr (m_current_msg s) \<noteq> None) \<and>
     key_ok (m_data_msg s) \<and> key_ok (m_control_msg s)"

lemma key_ok_prepare: "key_ok (md\<lparr>prepared_key := prepare_masking_key key\<rparr>)"
  unfolding key_ok_def using periodic_prepare by (intro exI [of _ key] exI [of _ 0]) simp

lemma key_ok_new: "key_ok (new_metadata op key)"
  unfolding key_ok_def using periodic_prepare by (intro exI [of _ key] exI [of _ 0]) (simp add: new_metadata_def)

lemma key_ok_msg [simp]: "key_ok (md\<lparr>msg_ptr := m\<rparr>) = key_ok md"
  by (simp add: key_ok_def)

lemma key_ok_current: "hybi_inv s \<Longrightarrow> key_ok (m_current_msg s)"
  by (simp add: hybi_inv_def m_current_msg_def)

lemma no_bytes_length: "length no_bytes = MAX_EXTENDED_HEADER_LENGTH"
  by (simp add: no_bytes_def)

lemma hybi_inv_reset:
  assumes "key_ok (m_data_msg s)" "key_ok (m_control_msg s)"
  shows "hybi_inv (reset_headers s)"
  using assms by (simp add: hybi_inv_def reset_headers_def no_bytes_length BASIC_HEADER_LENGTH_def)

lemma hybi_inv_new: "hybi_inv (hybi13_new server max_size)"
proof -
  have "key_ok no_msg" unfolding key_ok_def
    by (rule exI [of _ 0], rule exI [of _ 0]) (simp add: no_msg_def periodic_def)
  then show ?thesis unfolding hybi13_new_def by (intro hybi_inv_reset) simp_all
qed

lemma header_len_bound: "get_header_len h - BASIC_HEADER_LENGTH \<le> MAX_EXTENDED_HEADER_LENGTH"
  by (simp add: get_header_len_def get_masking_key_offset_def BASIC_HEADER_LENGTH_def MAX_EXTENDED_HEADER_LENGTH_def)

lemma length_copy_at: "pos + length src \<le> length dst \<Longrightarrow> length (copy_at pos src dst) = length dst"
  by (simp add: copy_at_def)

lemma begin_payload_cases:
  assumes "begin_payload s = Inr s'"
  obtains md n where "key_ok md" "msg_ptr md \<noteq> None"
    "s' = s\<lparr>m_state := APPLICATION, m_bytes_needed := n, m_control_msg := md, current_is_control := True\<rparr> \<or>
     s' = s\<lparr>m_state := APPLICATION, m_bytes_needed := n, m_data_msg := md, current_is_control := False\<rparr>"
proof (cases "is_control (get_opcode (m_basic_header s))")
  case True
  with assms key_ok_new show ?thesis
    by (intro that [of "new_metadata (get_opcode (m_basic_header s)) (get_masking_key (m_basic_header s) (m_extended_header s))"])
      (auto simp: begin_payload_def Let_def new_metadata_def)
next
  case False
  let ?key = "get_masking_key (m_basic_header s) (m_extended_header s)"
  show ?thesis
  proof (cases "msg_ptr (m_data_msg s)")
    case None
    with False assms key_ok_new show ?thesis
      by (intro that [of "new_metadata (get_opcode (m_basic_header s)) ?key"])
        (auto simp: begin_payload_def Let_def new_metadata_def split: if_splits)
  next
    case (Some m)
    with False assms key_ok_prepare show ?thesis
      by (intro that [of "(m_data_msg s)\<lparr>prepared_key := prepare_masking_key ?key\<rparr>"])
        (auto simp: begin_payload_def Let_def split: if_splits)
  qed
qed

lemma hybi_inv_begin:
  assumes "hybi_inv s" "begin_payload s = Inr s'"
  shows "hybi_inv s'"
  using assms(2)
proof (rule begin_payload_cases)
  fix md n
  assume "key_ok md" "msg_ptr md \<noteq> None" and
    "s' = s\<lparr>m_state := APPLICATION, m_bytes_needed := n, m_control_msg := md, current_is_control := True\<rparr> \<or>
     s' = s\<lparr>m_state := APPLICATION, m_bytes_needed := n, m_data_msg := md, current_is_control := False\<rparr>"
  then show ?thesis using assms(1) by (elim disjE) (simp_all add: hybi_inv_def m_current_msg_def)
qed

lemma key_ok_mask:
  assumes "key_ok md" "byte_mask_circ buf (prepared_key md) = (x, p)"
  shows "key_ok (md'\<lparr>prepared_key := p\<rparr>)"
proof -
  from assms(1) obtain key i where i: "i < 4" "periodic key i (prepared_key md)" by (auto simp: key_ok_def)
  with assms(2) have "p = circshift_prepared_key (prepared_key md) (length buf mod 4)"
    by (simp add: byte_mask_circ_eq)
  with periodic_after [OF i(2), of "length buf"] show ?thesis
    unfolding key_ok_def by (intro exI [of _ key] exI [of _ "(i + length buf) mod 4"]) simp
qed

lemma hybi_inv_payload:
  assumes "hybi_inv s" "m_state s = APPLICATION" "process_payload_bytes s buf = Inr s'"
  shows "hybi_inv s'"
proof -
  let ?md = "m_current_msg s"
  obtain m v k where s': "s' = set_current_msg \<lparr>msg_ptr = Some m, prepared_key = k, md_validator = v\<rparr>
      (s\<lparr>m_bytes_needed := m_bytes_needed s - length buf\<rparr>)"
    and k: "k = prepared_key ?md \<or> (\<exists>x. byte_mask_circ buf (prepared_key ?md) = (x, k))"
    using assms(3) by (auto simp: process_payload_bytes_def Let_def split: if_splits option.splits prod.splits)
  have "key_ok \<lparr>msg_ptr = Some m, prepared_key = k, md_validator = v\<rparr>"
    using k key_ok_current [OF assms(1)] key_ok_mask [of ?md buf _ k "\<lparr>msg_ptr = Some m, prepared_key = 0, md_validator = v\<rparr>"]
    by (auto simp: key_ok_def)
  with assms(1,2) show ?thesis unfolding s' by (auto simp: hybi_inv_def set_current_msg_def m_current_msg_def)
qed

text \<open>The shape of one turn in the state \<open>APPLICATION\<close>.\<close>

definition after_payload :: "hybi13 \<Rightarrow> bytes \<Rightarrow> ws_error + hybi13 \<times> bytes" where
  "after_payload s rest =
     (if 0 < m_bytes_needed s then Inr (s, rest)
      else if get_fin (m_basic_header s) then bindR (finalize_message s) (\<lambda>s2. Inr (s2, rest))
      else Inr (reset_headers s, rest))"

lemma if_not: "(if \<not> P then x else y) = (if P then y else x)"
  by simp

lemma application_step:
  "m_state s = APPLICATION \<Longrightarrow> consume_step s buf =
     bindR (if m_bytes_needed s = 0 \<or> buf = [] then Inr s else process_payload_bytes s (take (m_bytes_needed s) buf))
       (\<lambda>s1. after_payload s1 (drop (m_bytes_needed s) buf))"
proof -
  let ?n = "min (m_bytes_needed s) (length buf)"
  assume st: "m_state s = APPLICATION"
  have "drop ?n buf = drop (m_bytes_needed s) buf" "take ?n buf = take (m_bytes_needed s) buf" by (simp_all add: min_def)
  moreover have "0 < ?n \<longleftrightarrow> \<not> (m_bytes_needed s = 0 \<or> buf = [])" by auto
  ultimately show ?thesis
    unfolding consume_step_def st Let_def after_payload_def by (simp only: hybi_state.case if_not)
qed

lemma hybi_inv_after:
  assumes "hybi_inv s" "m_state s = APPLICATION" "after_payload s r = Inr (s', rest)"
  shows "hybi_inv s'"
proof -
  consider "s' = s" | "s' = s\<lparr>m_state := READY\<rparr>" | "s' = reset_headers s"
    using assms(3) by (auto simp: after_payload_def finalize_state split: if_splits)
  then show ?thesis
  proof cases
    case 2
    with assms(1,2) show ?thesis by (auto simp: hybi_inv_def m_current_msg_def split: if_splits)
  next
    case 3
    have "key_ok (m_data_msg s)" "key_ok (m_control_msg s)" using assms(1) by (simp_all add: hybi_inv_def)
    with 3 hybi_inv_reset show ?thesis by simp
  qed (use assms in simp)
qed

lemma hybi_inv_step:
  assumes "hybi_inv s" "consume_step s buf = Inr (s', rest)"
  shows "hybi_inv s'"
proof (cases "m_state s")
  case HEADER_BASIC
  obtain s1 n where s1: "copy_basic_header_bytes s buf = (s1, n)" by force
  have inv: "hybi_inv s1" "m_state s1 = HEADER_BASIC"
    using s1 assms(1) HEADER_BASIC
    by (auto simp: copy_basic_header_bytes_def hybi_inv_def m_current_msg_def Let_def split: if_splits)
  have "s' = s1 \<or> s' = s1\<lparr>m_state := HEADER_EXTENDED, m_cursor := 0,
      m_bytes_needed := get_header_len (m_basic_header s1) - BASIC_HEADER_LENGTH\<rparr>"
    using assms(2) HEADER_BASIC by (simp add: consume_step_def s1 split: if_splits option.splits)
  with inv header_len_bound [of "m_basic_header s1"] show ?thesis by (elim disjE) (simp_all add: hybi_inv_def)
next
  case HEADER_EXTENDED
  obtain s1 n where s1: "copy_extended_header_bytes s buf = (s1, n)" by force
  have inv: "hybi_inv s1" 
    using s1 assms(1) HEADER_EXTENDED
    by (auto simp: copy_extended_header_bytes_def hybi_inv_def Let_def m_current_msg_def length_copy_at)
  with assms(2) HEADER_EXTENDED hybi_inv_begin show ?thesis
    by (auto simp: consume_step_def s1 split: if_splits option.splits)
next
  case APPLICATION
  with assms(2) obtain s1 where
    s1: "(if m_bytes_needed s = 0 \<or> buf = [] then Inr s else process_payload_bytes s (take (m_bytes_needed s) buf)) = Inr s1"
    and a: "after_payload s1 (drop (m_bytes_needed s) buf) = Inr (s', rest)"
    unfolding application_step [OF APPLICATION] bindR_eq_Inr by blast
  have "hybi_inv s1 \<and> m_state s1 = APPLICATION"
    using s1 assms(1) APPLICATION hybi_inv_payload process_payload_state(1) by (auto split: if_splits)
  with a show ?thesis by (auto intro: hybi_inv_after)
qed (use assms in \<open>auto simp: consume_step_def hybi_inv_def\<close>)

subsection \<open>The cuts between reads\<close>

lemma validator_decode_append:
  "validator_decode v (a @ b) =
     (case validator_decode v a of (v', ok) \<Rightarrow> if ok then validator_decode v' b else (v', False))"
  by (induction v a rule: validator_decode.induct) (simp_all add: Let_def)

lemma process_payload_append:
  assumes "hybi_inv s"
  shows "process_payload_bytes s (a @ b) = bindR (process_payload_bytes s a) (\<lambda>s1. process_payload_bytes s1 b)"
proof -
  let ?md = "m_current_msg s"
  obtain key i where k: "i < 4" "periodic key i (prepared_key ?md)"
    using key_ok_current [OF assms] by (auto simp: key_ok_def)
  obtain a' p1 where a: "byte_mask_circ a (prepared_key ?md) = (a', p1)" by force
  obtain b' p2 where b: "byte_mask_circ b p1 = (b', p2)" by force
  note ab = byte_mask_circ_append [OF k(2,1) a b]
  have cur [simp]: "m_current_msg (set_current_msg md t) = md" "m_basic_header (set_current_msg md t) = m_basic_header t"
    "m_bytes_needed (set_current_msg md t) = m_bytes_needed t" for md t
    by (simp_all add: set_current_msg_def m_current_msg_def)
  have twice: "set_current_msg md (set_current_msg md' t\<lparr>m_bytes_needed := n\<rparr>) = set_current_msg md (t\<lparr>m_bytes_needed := n\<rparr>)" for md md' t n
    by (simp add: set_current_msg_def)
  show ?thesis
  proof (cases "msg_ptr ?md")
    case None
    then show ?thesis by (simp add: process_payload_bytes_def Let_def split: prod.splits)
  next
    case (Some m)
    show ?thesis
    proof (cases "get_masked (m_basic_header s)")
      case True
      with Some a b ab show ?thesis
        by (cases "validator_decode (md_validator ?md) a'"; cases "wm_opcode m = TEXT")
          (auto simp: process_payload_bytes_def Let_def validator_decode_append twice split: prod.splits)
    next
      case False
      with Some show ?thesis
        by (cases "validator_decode (md_validator ?md) a"; cases "wm_opcode m = TEXT")
          (auto simp: process_payload_bytes_def Let_def validator_decode_append twice split: prod.splits)
    qed
  qed
qed

lemma copy_at_append:
  "pos + length x \<le> length dst \<Longrightarrow> copy_at pos (x @ y) dst = copy_at (pos + length x) y (copy_at pos x dst)"
  by (simp add: copy_at_def ac_simps)

text \<open>More bytes after those of a turn: the same turn, or a turn that goes on where it had stopped.\<close>

definition same_turn :: "hybi13 \<Rightarrow> bytes \<Rightarrow> bytes \<Rightarrow> ws_error + hybi13 \<times> bytes \<Rightarrow> bool" where
  "same_turn s a b r \<longleftrightarrow>
     (case r of
        Inl e \<Rightarrow> consume_step s (a @ b) = Inl e
      | Inr (s', rest) \<Rightarrow>
          consume_step s (a @ b) = Inr (s', rest @ b) \<or>
          rest = [] \<and> m_state s' = m_state s \<and> 0 < m_bytes_needed s' \<and> consume_step s (a @ b) = consume_step s' b)"

lemma same_turn_basic:
  assumes "hybi_inv s" "m_state s = HEADER_BASIC" "working s a" "b \<noteq> []"
  shows "same_turn s a b (consume_step s a)"
proof -
  obtain y b' where b: "b = y # b'" using assms(4) by (cases b) auto
  have "m_bytes_needed s \<le> 2" using assms(1,2) by (simp add: hybi_inv_def)
  then consider "m_bytes_needed s = 0" | "m_bytes_needed s = 1" | "m_bytes_needed s = 2" by linarith
  then show ?thesis
  proof cases
    case 1
    then show ?thesis using assms(2)
      by (simp add: same_turn_def consume_step_def copy_basic_header_bytes_def Let_def split: option.splits)
  next
    case 2
    with assms(3) obtain x a' where "a = x # a'" by (cases a) (auto simp: working_def)
    with 2 show ?thesis using assms(2)
      by (simp add: same_turn_def consume_step_def copy_basic_header_bytes_def Let_def b split: option.splits)
  next
    case 3
    with assms(3) obtain x a' where a: "a = x # a'" by (cases a) (auto simp: working_def)
    show ?thesis
    proof (cases a')
      case Nil
      with 3 a show ?thesis using assms(2)
        by (cases "m_basic_header s"; cases b')
          (simp_all add: same_turn_def consume_step_def copy_basic_header_bytes_def Let_def b split: option.splits)
    next
      case (Cons z a'')
      with 3 a show ?thesis using assms(2)
        by (simp add: same_turn_def consume_step_def copy_basic_header_bytes_def Let_def b split: option.splits)
    qed
  qed
qed

lemma extended_step:
  "m_state s = HEADER_EXTENDED \<Longrightarrow> consume_step s buf =
     (let s1 = fst (copy_extended_header_bytes s buf) in
        if 0 < m_bytes_needed s1 then Inr (s1, drop (m_bytes_needed s) buf)
        else case validate_incoming_extended_header (m_basic_header s1) (m_extended_header s1) of
          Some e \<Rightarrow> Inl e
        | None \<Rightarrow> bindR (begin_payload s1) (\<lambda>s2. Inr (s2, drop (m_bytes_needed s) buf)))"
proof -
  assume "m_state s = HEADER_EXTENDED"
  then show ?thesis
    by (cases "m_bytes_needed s \<le> length buf")
      (simp_all add: consume_step_def copy_extended_header_bytes_def Let_def min_def split: option.splits)
qed

lemma same_turn_extended:
  assumes "hybi_inv s" "m_state s = HEADER_EXTENDED"
  shows "same_turn s a b (consume_step s a)"
proof (cases "m_bytes_needed s \<le> length a")
  case True
  then have "copy_extended_header_bytes s (a @ b) = copy_extended_header_bytes s a"
    by (simp add: copy_extended_header_bytes_def Let_def)
  moreover define s1 where "s1 = fst (copy_extended_header_bytes s a)"
  moreover have "m_bytes_needed s1 = 0" using True by (simp add: s1_def copy_extended_header_bytes_def Let_def)
  ultimately show ?thesis using True
    by (cases "validate_incoming_extended_header (m_basic_header s1) (m_extended_header s1)"; cases "begin_payload s1")
      (simp_all add: same_turn_def extended_step [OF assms(2)] Let_def)
next
  case False
  define s1 where "s1 = fst (copy_extended_header_bytes s a)"
  have s1: "copy_extended_header_bytes s a = (s1, length a)" "m_bytes_needed s1 = m_bytes_needed s - length a"
    "m_state s1 = m_state s"
    using False by (simp_all add: s1_def copy_extended_header_bytes_def Let_def)
  have room: "m_cursor s + length a \<le> length (m_extended_header s)"
    using assms False by (simp add: hybi_inv_def)
  have ab: "fst (copy_extended_header_bytes s (a @ b)) = fst (copy_extended_header_bytes s1 b)"
    using False copy_at_append [OF room, of "take (m_bytes_needed s - length a) b"]
    by (cases "m_bytes_needed s \<le> length a + length b")
      (simp_all add: s1_def copy_extended_header_bytes_def Let_def min_def)
  have "drop (m_bytes_needed s) (a @ b) = drop (m_bytes_needed s1) b" using False by (simp add: s1(2))
  then have "consume_step s (a @ b) = consume_step s1 b"
    using ab s1(3) assms(2) by (simp only: extended_step Let_def)
  with False s1 show ?thesis by (simp add: same_turn_def extended_step [OF assms(2)])
qed

lemma after_payload_append:
  "after_payload s (r @ b) = bindR (after_payload s r) (\<lambda>(s', rest). Inr (s', rest @ b))"
  by (cases "finalize_message s") (simp_all add: after_payload_def)

lemma same_turn_application:
  assumes "hybi_inv s" "m_state s = APPLICATION" "working s a" "b \<noteq> []"
  shows "same_turn s a b (consume_step s a)"
proof -
  let ?n = "m_bytes_needed s"
  consider "?n = 0" | "0 < ?n" "?n \<le> length a" "a \<noteq> []" | "0 < ?n" "length a < ?n" "a \<noteq> []"
    using assms(3) by (fastforce simp: working_def)
  then show ?thesis
  proof cases
    case 1
    then show ?thesis
      by (simp add: same_turn_def application_step [OF assms(2)] after_payload_append split: sum.splits prod.splits)
  next
    case 2
    then show ?thesis
      by (cases "process_payload_bytes s (take ?n a)")
        (simp_all add: same_turn_def application_step [OF assms(2)] after_payload_append split: sum.splits prod.splits)
  next
    case 3
    have p: "process_payload_bytes s (a @ take (?n - length a) b) =
        bindR (process_payload_bytes s a) (\<lambda>s1. process_payload_bytes s1 (take (?n - length a) b))"
      by (rule process_payload_append [OF assms(1)])
    show ?thesis
    proof (cases "process_payload_bytes s a")
      case (Inl e)
      with 3 p show ?thesis by (simp add: same_turn_def application_step [OF assms(2)])
    next
      case (Inr s1)
      note s1 = process_payload_state [OF Inr]
      with 3 p Inr assms(2,4) show ?thesis
        by (simp add: same_turn_def application_step after_payload_def [of s1])
    qed
  qed
qed

lemma consume_turn:
  assumes "hybi_inv s" "working s a" "b \<noteq> []"
  shows "same_turn s a b (consume_step s a)"
  using assms same_turn_basic same_turn_extended same_turn_application
  by (cases "m_state s") (auto simp: working_def hybi_inv_def)

lemma consume_append:
  assumes "hybi_inv s" "b \<noteq> []"
  shows "case consume s a of
      Inl e \<Rightarrow> consume s (a @ b) = Inl e
    | Inr (s', rest) \<Rightarrow> hybi_inv s' \<and>
        (if m_state s' = READY then consume s (a @ b) = Inr (s', rest @ b)
         else rest = [] \<and> consume s (a @ b) = consume s' b)"
  using assms(1)
proof (induction s a rule: consume.induct)
  case (1 s a)
  show ?case
  proof (cases "working s a")
    case False
    with 1(2) show ?thesis
      by (auto simp: consume_not_working working_def hybi_inv_def)
  next
    case True
    then have w: "working s (a @ b)" by (auto simp: working_def)
    note turn = consume_turn [OF 1(2) True assms(2)]
    show ?thesis
    proof (cases "consume_step s a")
      case (Inl e)
      with turn True w show ?thesis by (simp add: consume.simps [of s] same_turn_def)
    next
      case (Inr sr)
      obtain s1 rest where sr: "sr = (s1, rest)" by force
      note step = Inr [unfolded sr]
      have inv: "hybi_inv s1" using hybi_inv_step [OF 1(2) step] .
      have a: "consume s a = consume s1 rest" using True step by (simp add: consume.simps [of s])
      have ab: "consume s (a @ b) = bindR (consume_step s (a @ b)) (\<lambda>(s', rest). consume s' rest)"
        using w by (simp add: consume.simps [of s])
      note IH = 1(1) [OF True step refl inv]
      show ?thesis
      proof (cases "consume_step s (a @ b) = Inr (s1, rest @ b)")
        case True
        then have "consume s (a @ b) = consume s1 (rest @ b)" using ab by simp
        with IH show ?thesis unfolding a by (auto split: sum.splits prod.splits if_splits)
      next
        case False
        with turn step have f: "rest = []" "m_state s1 = m_state s" "0 < m_bytes_needed s1" "consume_step s (a @ b) = consume_step s1 b"
          by (simp_all add: same_turn_def)
        have "\<not> working s1 []" using f by (simp add: working_def)
        moreover have "working s1 b" using f True assms(2) by (simp add: working_def)
        ultimately show ?thesis unfolding a ab
          using f inv True by (simp add: consume_not_working consume.simps [of s1 b] working_def)
      qed
    qed
  qed
qed

lemma hybi_inv_get_message:
  assumes "hybi_inv s" "get_message s = (m, s')"
  shows "hybi_inv s'"
proof (cases "m_state s = READY")
  case True
  with assms obtain w where w: "msg_ptr (m_current_msg s) = Some w" by (auto simp: hybi_inv_def)
  have "key_ok (m_data_msg s)" "key_ok (m_control_msg s)" using assms(1) by (simp_all add: hybi_inv_def)
  then show ?thesis using assms(2) True w
    by (auto simp: get_message_def Let_def set_current_msg_def m_current_msg_def intro!: hybi_inv_reset)
next
  case False
  with assms show ?thesis by (simp add: get_message_def)
qed

lemma hybi_inv_not_stuck: "hybi_inv s \<Longrightarrow> \<not> stuck s"
  by (simp add: hybi_inv_def stuck_def)

lemma consume_inv:
  "hybi_inv s \<Longrightarrow> consume s a = Inr (s', rest) \<Longrightarrow> hybi_inv s' \<and> (m_state s' = READY \<or> rest = [])"
  using consume_append [of s "[0]" a] by (auto split: if_splits)

lemma handle_read_step:
  assumes "hybi_inv s" "buf \<noteq> []"
  shows "handle_read_frame s buf =
    (case consume s buf of
       Inl e \<Rightarrow> ([], Consume_error e)
     | Inr (s', rest) \<Rightarrow>
         (case get_message s' of (m, s'') \<Rightarrow>
          (case handle_read_frame s'' rest of (ms, end) \<Rightarrow> (case m of None \<Rightarrow> ms | Some m \<Rightarrow> m # ms, end))))"
  using assms hybi_inv_not_stuck by (simp add: handle_read_frame.simps [of s buf])

lemma handle_read_Nil [simp]: "handle_read_frame s [] = ([], Read_more s)"
  by (simp add: handle_read_frame.simps)

definition then_read :: "ws_message list \<times> read_end \<Rightarrow> bytes \<Rightarrow> ws_message list \<times> read_end" where
  "then_read r b =
     (case r of
        (ms, Read_more s) \<Rightarrow> (case handle_read_frame s b of (ms', end) \<Rightarrow> (ms @ ms', end))
      | (ms, end) \<Rightarrow> (ms, end))"

lemma then_read_Cons:
  "then_read (case r of (ms, end) \<Rightarrow> (case m of None \<Rightarrow> ms | Some m \<Rightarrow> m # ms, end)) b =
   (case then_read r b of (ms, end) \<Rightarrow> (case m of None \<Rightarrow> ms | Some m \<Rightarrow> m # ms, end))"
  by (cases r; cases "snd r") (auto simp: then_read_def split: prod.splits option.splits)

lemma handle_read_append:
  "hybi_inv s \<Longrightarrow> handle_read_frame s (a @ b) = then_read (handle_read_frame s a) b"
proof (induction s a rule: handle_read_frame.induct)
  case (1 s a)
  show ?case
  proof (cases "a = [] \<or> b = []")
    case True
    then show ?thesis
      by (auto simp: then_read_def split: prod.splits read_end.splits)
  next
    case False
    note app = consume_append [OF 1(2), of b a]
    note ns = hybi_inv_not_stuck [OF 1(2)]
    show ?thesis
    proof (cases "consume s a")
      case (Inl e)
      with app False have "consume s (a @ b) = Inl e" by simp
      with Inl False 1(2) show ?thesis by (simp add: handle_read_step then_read_def)
    next
      case (Inr sr)
      obtain s' rest where sr: "sr = (s', rest)" by force
      obtain m s'' where g: "get_message s' = (m, s'')" by force
      note c = Inr [unfolded sr]
      have inv: "hybi_inv s'" "hybi_inv s''"
        using consume_inv [OF 1(2) c] hybi_inv_get_message [OF _ g] by auto
      have IH: "handle_read_frame s'' (rest @ b) = then_read (handle_read_frame s'' rest) b"
        using False ns by (intro 1(1) [OF _ _ c refl g [symmetric] inv(2)]) simp_all
      show ?thesis
      proof (cases "m_state s' = READY")
        case True
        with app c False have "consume s (a @ b) = Inr (s', rest @ b)" by simp
        with c g False 1(2) IH show ?thesis by (simp add: handle_read_step then_read_Cons)
      next
        case not_ready: False
        with app c False have ab: "rest = []" "consume s (a @ b) = consume s' b" by simp_all
        have "s'' = s'" "m = None" using g not_ready by (simp_all add: get_message_def)
        then show ?thesis using c g False 1(2) ab inv by (simp add: handle_read_step then_read_def split: prod.splits)
      qed
    qed
  qed
qed

lemma payload_no_null:
  assumes "hybi_inv s" "m_state s = APPLICATION"
  shows "process_payload_bytes s buf \<noteq> Inl null_message"
  using assms by (auto simp: process_payload_bytes_def hybi_inv_def Let_def split: prod.splits option.splits if_splits)

lemma step_no_null:
  assumes "hybi_inv s"
  shows "consume_step s buf \<noteq> Inl null_message"
proof (cases "m_state s")
  case HEADER_BASIC
  then show ?thesis
    by (simp add: consume_step_def validate_incoming_basic_header_def Let_def split: prod.splits)
next
  case HEADER_EXTENDED
  then show ?thesis
    by (simp add: consume_step_def validate_incoming_extended_header_def begin_payload_def Let_def bindR_eq_Inl
        split: prod.splits option.splits)
next
  case APPLICATION
  have fin: "after_payload s1 r \<noteq> Inl null_message" if "hybi_inv s1" "m_state s1 = APPLICATION" for s1 r
    using that by (auto simp: after_payload_def finalize_message_def hybi_inv_def bindR_eq_Inl split: if_splits)
  show ?thesis
  proof
    assume "consume_step s buf = Inl null_message"
    then obtain s1 where "process_payload_bytes s (take (m_bytes_needed s) buf) = Inr s1 \<or> s1 = s"
      "after_payload s1 (drop (m_bytes_needed s) buf) = Inl null_message"
      using payload_no_null [OF assms APPLICATION]
      by (auto simp: application_step [OF APPLICATION] bindR_eq_Inl split: if_splits)
    with fin assms APPLICATION hybi_inv_payload process_payload_state(1) show False by metis
  qed
qed (simp_all add: consume_step_def)

lemma consume_no_null: "hybi_inv s \<Longrightarrow> consume s a \<noteq> Inl null_message"
proof (induction s a rule: consume.induct)
  case (1 s a)
  show ?case
  proof (cases "working s a")
    case True
    with 1(1) [OF True _ refl] hybi_inv_step [OF 1(2)] step_no_null [OF 1(2)] show ?thesis
      by (fastforce simp: consume.simps [of s] bindR_eq_Inl)
  qed (simp add: consume_not_working)
qed

lemma handle_read_inv:
  "hybi_inv s \<Longrightarrow> handle_read_frame s a = (ms, end) \<Longrightarrow>
   (\<exists>s'. end = Read_more s' \<and> hybi_inv s') \<or> (\<exists>e. end = Consume_error e \<and> e \<noteq> null_message)"
proof (induction s a arbitrary: ms "end" rule: handle_read_frame.induct)
  case (1 s a)
  note ns = hybi_inv_not_stuck [OF 1(2)]
  show ?case
  proof (cases "a = []")
    case False
    show ?thesis
    proof (cases "consume s a")
      case (Inl e)
      with 1(2,3) False consume_no_null [OF 1(2), of a] show ?thesis by (auto simp: handle_read_step)
    next
      case (Inr sr)
      obtain s' rest m s'' where sr: "sr = (s', rest)" "get_message s' = (m, s'')" by (cases sr) force
      note c = Inr [unfolded sr(1)]
      have inv: "hybi_inv s''" using consume_inv [OF 1(2) c] hybi_inv_get_message [OF _ sr(2)] by auto
      obtain ms' e' where h: "handle_read_frame s'' rest = (ms', e')" by force
      from 1(1) [OF False ns c refl sr(2) [symmetric] inv h] 1(2,3) False c sr h show ?thesis
        by (simp add: handle_read_step)
    qed
  qed (use 1(2,3) in auto)
qed

subsection \<open>A frame is read as it was made\<close>

definition idle :: "hybi13 \<Rightarrow> bool" where
  "idle s \<longleftrightarrow> m_state s = HEADER_BASIC \<and> m_bytes_needed s = 2 \<and> msg_ptr (m_data_msg s) = None \<and> hybi_inv s"

definition sendable :: "nat \<Rightarrow> opcode \<Rightarrow> bytes \<Rightarrow> bool" where
  "sendable max_size op i \<longleftrightarrow>
     op \<in> {TEXT, BINARY} \<and> length i \<le> max_size \<or> op \<in> {CLOSE_op, PING, PONG} \<and> length i \<le> 125"

lemma sendable_op:
  assumes "sendable max_size op i"
  shows "op < 16" "\<not> reserved_op op" "\<not> invalid_op op" "op \<noteq> CONTINUATION"
    "is_control op \<Longrightarrow> length i \<le> 125" "\<not> is_control op \<Longrightarrow> length i \<le> max_size"
    "is_control op \<longleftrightarrow> op \<in> {CLOSE_op, PING, PONG}"
  using assms by (auto simp: sendable_def opcode_defs reserved_op_def invalid_op_def is_control_def)

lemma unat_size: "n < 2 ^ 64 \<Longrightarrow> unat (of_nat n :: 64 word) = n"
  by (simp add: unsigned_of_nat take_bit_nat_eq_self)

lemma basic_value_small:
  assumes "n \<le> 125"
  shows "ucast (basic_value (of_nat n)) \<le> payload_size_basic"
proof -
  have "of_nat n \<le> payload_size_basic" using assms unat_size [of n] by (simp add: word_le_nat_alt payload_size_basic_def)
  then show ?thesis by (simp add: basic_value_def ucast_small)
qed

lemma validate_basic_new:
  assumes "sendable max_size op i" "masked = is_server"
  shows "validate_incoming_basic_header (basic_header_new op (of_nat (length i)) True masked False) is_server True = None"
  using sendable_op [OF assms(1)] basic_value_small [of "length i"] assms(2)
  by (auto simp: validate_incoming_basic_header_def Let_def not_less)

lemma validate_extended_new:
  assumes "prefix (header_tail sz key) e"
  shows "validate_incoming_extended_header (basic_header_new op sz fin masked rsv1) e = None"
proof -
  have "payload_size_code_16bit \<noteq> payload_size_code_64bit"
    by (simp add: payload_size_code_16bit_def payload_size_code_64bit_def)
  then have "basic_value sz = payload_size_code_16bit \<Longrightarrow> \<not> sz \<le> payload_size_basic"
    "basic_value sz = payload_size_code_64bit \<Longrightarrow> \<not> sz \<le> payload_size_extended"
    by (rule_tac basic_value_cases [of sz]; simp add: not_le)+
  with payload_size_new [OF assms] show ?thesis
    by (simp add: validate_incoming_extended_header_def Let_def)
qed

lemma frame_header_step:
  fixes i s op key
  defines "h \<equiv> basic_header_new op (of_nat (length i)) True (key \<noteq> None) False"
    and "t \<equiv> header_tail (of_nat (length i)) key"
  assumes "idle s" "sendable (m_max_message_size s) op i" "h_server s = (key \<noteq> None)"
  shows "consume_step s (b0 h # b1 h # t @ r) =
    Inr (s\<lparr>m_basic_header := h, m_state := HEADER_EXTENDED, m_cursor := 0, m_bytes_needed := length t\<rparr>, t @ r)"
proof -
  have "get_header_len h - BASIC_HEADER_LENGTH = length t" unfolding h_def t_def by (rule header_len_new)
  have same: "\<lparr>b0 = b0 h, b1 = b1 h\<rparr> = h" by simp
  note \<open>get_header_len h - BASIC_HEADER_LENGTH = length t\<close>
  moreover have "validate_incoming_basic_header h (h_server s) True = None"
    unfolding h_def by (rule validate_basic_new) (use assms in simp_all)
  ultimately show ?thesis using assms(3)
    by (simp add: consume_step_def copy_basic_header_bytes_def idle_def Let_def same)
qed

lemma frame_extended_step:
  fixes i s op key
  defines "h \<equiv> basic_header_new op (of_nat (length i)) True (key \<noteq> None) False"
    and "t \<equiv> header_tail (of_nat (length i)) key"
  assumes "idle s" "sendable (m_max_message_size s) op i" "length i < 2 ^ 64"
  defines "md \<equiv> new_metadata op (case key of None \<Rightarrow> 0 | Some k \<Rightarrow> k)"
  shows "\<exists>e c. consume_step (s\<lparr>m_basic_header := h, m_state := HEADER_EXTENDED, m_cursor := 0, m_bytes_needed := length t\<rparr>) (t @ r) =
    Inr (let s' = s\<lparr>m_basic_header := h, m_state := APPLICATION, m_cursor := c, m_bytes_needed := length i, m_extended_header := e\<rparr>
         in if is_control op then s'\<lparr>m_control_msg := md, current_is_control := True\<rparr>
            else s'\<lparr>m_data_msg := md, current_is_control := False\<rparr>, r)"
proof -
  define e where "e = copy_at 0 t (m_extended_header s)"
  have e: "prefix t e" by (simp add: e_def copy_at_def)
  have size: "get_payload_size h e = of_nat (length i)" unfolding h_def by (rule payload_size_new [OF e [unfolded t_def]])
  have k: "get_masking_key h e = (case key of None \<Rightarrow> 0 | Some k \<Rightarrow> k)"
    using e masking_key_new [of "of_nat (length i)" _ e op True False]
    by (cases key) (simp_all add: h_def t_def get_masking_key_def)
  have v: "validate_incoming_extended_header h e = None" unfolding h_def by (rule validate_extended_new [OF e [unfolded t_def]])
  have op: "get_opcode h = op" unfolding h_def using sendable_op(1) [OF assms(4)] by simp
  have data: "msg_ptr (m_data_msg s) = None" using assms(3) by (simp add: idle_def)
  have "is_control op \<or> \<not> m_max_message_size s < length i" using sendable_op(6) [OF assms(4)] by auto
  then show ?thesis
    using assms(5)
    by (intro exI [of _ e] exI [of _ "length t"])
      (auto simp: consume_step_def copy_extended_header_bytes_def Let_def v e_def [symmetric] begin_payload_def op size k
        data unat_size md_def)
qed

end
