(* ===== verification/WireTrip.thy ===== *)
theory WireTrip
  imports HybiRead
begin

text \<open>
  From one end of a connection to the other: what a sender puts on the wire is what the reader of the
  other side gives to its handler, however the bytes are cut.
\<close>

subsection \<open>The payload of a frame\<close>

text \<open>The payload on the wire, masked with the key if there is one.\<close>

definition masked_with :: "32 word option \<Rightarrow> bytes \<Rightarrow> bytes" where
  "masked_with key i = (case key of None \<Rightarrow> i | Some k \<Rightarrow> byte_mask 0 k i)"

lemma length_masked_with [simp]: "length (masked_with key i) = length i"
  by (simp add: masked_with_def split: option.splits)

lemma set_current_simps [simp]:
  "m_current_msg (set_current_msg md t) = md" "m_basic_header (set_current_msg md t) = m_basic_header t"
  "m_bytes_needed (set_current_msg md t) = m_bytes_needed t" "m_state (set_current_msg md t) = m_state t"
  "h_server (set_current_msg md t) = h_server t" "m_max_message_size (set_current_msg md t) = m_max_message_size t"
  "current_is_control (set_current_msg md t) = current_is_control t"
  by (simp_all add: set_current_msg_def m_current_msg_def)

lemma process_payload_Inr:
  assumes "msg_ptr (m_current_msg s) = Some m"
    and "(if get_masked (m_basic_header s) then byte_mask_circ buf (prepared_key (m_current_msg s))
      else (buf, prepared_key (m_current_msg s))) = (u, key)"
    and "(if wm_opcode m = TEXT then validator_decode (md_validator (m_current_msg s)) u
      else (md_validator (m_current_msg s), True)) = (v, True)"
  shows "process_payload_bytes s buf = Inr (set_current_msg
    \<lparr>msg_ptr = Some (m\<lparr>wm_payload := wm_payload m @ u\<rparr>), prepared_key = key, md_validator = v\<rparr>
    (s\<lparr>m_bytes_needed := m_bytes_needed s - length buf\<rparr>))"
  unfolding process_payload_bytes_def Let_def assms(1,2) by (simp add: assms(3))

lemma frame_payload:
  assumes "m_state a = APPLICATION" "m_basic_header a = basic_header_new op (of_nat (length i)) True (key \<noteq> None) False"
    and "m_bytes_needed a = length i" "m_current_msg a = new_metadata op (case key of None \<Rightarrow> 0 | Some k \<Rightarrow> k)"
    and "op < 16" "op = TEXT \<longrightarrow> validate i"
  shows "\<exists>md. consume_step a (masked_with key i @ r) =
      Inr ((set_current_msg md a)\<lparr>m_bytes_needed := 0, m_state := READY\<rparr>, r) \<and> msg_ptr md = Some \<lparr>wm_opcode = op, wm_payload = i\<rparr>"
proof -
  let ?k = "case key of None \<Rightarrow> 0 | Some k \<Rightarrow> k"
  obtain v ok where v: "validator_decode validator_new i = (v, ok)" by force
  have ok: "op = TEXT \<Longrightarrow> ok \<and> complete v" using assms(6) v by (simp add: validate_def)
  define v' where "v' = (if op = TEXT then v else validator_new)"
  have fin: "get_fin (m_basic_header a)" "get_opcode (m_basic_header a) = op" "get_masked (m_basic_header a) = (key \<noteq> None)"
    using assms(2,5) by simp_all
  have md: "msg_ptr (m_current_msg a) = Some \<lparr>wm_opcode = op, wm_payload = []\<rparr>"
    "prepared_key (m_current_msg a) = prepare_masking_key ?k" "md_validator (m_current_msg a) = validator_new"
    using assms(4) by (simp_all add: new_metadata_def)
  have new: "complete validator_new" by (simp add: complete_def validator_new_def utf8_accept_def)
  show ?thesis
  proof (cases "i = []")
    case True
    have "set_current_msg (m_current_msg a) a = a" by (simp add: set_current_msg_def m_current_msg_def)
    then show ?thesis using assms(1,3) True fin md new
      by (intro exI [of _ "m_current_msg a"])
        (simp add: application_step after_payload_def finalize_message_def masked_with_def split: option.splits)
  next
    case False
    have "\<exists>p. (if key \<noteq> None then byte_mask_circ (masked_with key i) (prepare_masking_key ?k)
        else (masked_with key i, prepare_masking_key ?k)) = (i, p)"
      using byte_mask_circ_eq [OF periodic_prepare] by (cases key) (simp_all add: masked_with_def)
    then obtain p where u: "(if get_masked (m_basic_header a) then byte_mask_circ (masked_with key i) (prepared_key (m_current_msg a))
        else (masked_with key i, prepared_key (m_current_msg a))) = (i, p)"
      unfolding fin md by blast
    have d: "(if wm_opcode \<lparr>wm_opcode = op, wm_payload = []\<rparr> = TEXT then validator_decode (md_validator (m_current_msg a)) i
        else (md_validator (m_current_msg a), True)) = (v', True)"
      using v ok md by (simp add: v'_def)
    define md' where "md' = \<lparr>msg_ptr = Some \<lparr>wm_opcode = op, wm_payload = i\<rparr>, prepared_key = p, md_validator = v'\<rparr>"
    have p: "process_payload_bytes a (masked_with key i) = Inr ((set_current_msg md' a)\<lparr>m_bytes_needed := 0\<rparr>)"
      unfolding process_payload_Inr [OF md(1) u d] md'_def by (simp add: assms(3) set_current_msg_def)
    have cur: "m_current_msg ((set_current_msg md' a)\<lparr>m_bytes_needed := 0\<rparr>) = md'"
      by (simp add: m_current_msg_def set_current_msg_def)
    have "finalize_message ((set_current_msg md' a)\<lparr>m_bytes_needed := 0\<rparr>) =
        Inr ((set_current_msg md' a)\<lparr>m_bytes_needed := 0, m_state := READY\<rparr>)"
      unfolding finalize_message_def cur using fin ok by (simp add: md'_def v'_def)
    then have "after_payload ((set_current_msg md' a)\<lparr>m_bytes_needed := 0\<rparr>) r =
        Inr ((set_current_msg md' a)\<lparr>m_bytes_needed := 0, m_state := READY\<rparr>, r)"
      using fin by (simp add: after_payload_def)
    moreover have "masked_with key i \<noteq> []" using length_masked_with [of key i] False by (metis length_0_conv)
    ultimately show ?thesis using assms(1,3) False p
      by (intro exI [of _ md']) (simp add: application_step md'_def)
  qed
qed

subsection \<open>A whole frame\<close>

definition frame_bytes :: "bool \<Rightarrow> 32 word \<Rightarrow> ws_message \<Rightarrow> bytes" where
  "frame_bytes server rng m = (case make_frame server rng (wm_opcode m) True (wm_payload m) of (h, p) \<Rightarrow> h @ p)"

lemma frame_bytes_eq:
  fixes server rng m
  defines "key \<equiv> if server then None else Some rng"
    and "h \<equiv> basic_header_new (wm_opcode m) (of_nat (length (wm_payload m))) True (\<not> server) False"
  shows "frame_bytes server rng m =
    b0 h # b1 h # header_tail (of_nat (length (wm_payload m))) key @ masked_with key (wm_payload m)"
  using prepare_header_new [of "wm_opcode m" "of_nat (length (wm_payload m))" True key False]
  by (cases server)
    (simp_all add: frame_bytes_def make_frame_def Let_def masked_with_def masked_copy_def key_def h_def)

lemma consume_working:
  "working s buf \<Longrightarrow> consume_step s buf = Inr (s', rest) \<Longrightarrow> consume s buf = consume s' rest"
  by (subst consume.simps) simp

lemma consume_ready: "m_state s = READY \<Longrightarrow> consume s buf = Inr (s, buf)"
  by (rule consume_not_working) (simp add: working_def)

definition readable :: "bool \<Rightarrow> nat \<Rightarrow> ws_message \<Rightarrow> bool" where
  "readable server max_size m \<longleftrightarrow> sendable max_size (wm_opcode m) (wm_payload m) \<and> length (wm_payload m) < 2 ^ 64 \<and>
     (wm_opcode m = TEXT \<longrightarrow> validate (wm_payload m))"

lemma frame_consumed:
  assumes "idle s" "readable server (m_max_message_size s) m" "h_server s = (\<not> server)"
  shows "\<exists>s'. consume s (frame_bytes server rng m @ r) = Inr (s', r) \<and> m_state s' = READY \<and>
    msg_ptr (m_current_msg s') = Some m \<and> (is_control (wm_opcode m) \<longrightarrow> msg_ptr (m_data_msg s') = None) \<and>
    h_server s' = h_server s \<and> m_max_message_size s' = m_max_message_size s"
proof -
  define key where "key = (if server then None else Some rng)"
  define op i where "op = wm_opcode m" and "i = wm_payload m"
  define h where "h = basic_header_new op (of_nat (length i)) True (key \<noteq> None) False"
  define t where "t = header_tail (of_nat (length i)) key"
  define k where "k = (case key of None \<Rightarrow> 0 | Some k \<Rightarrow> k)"
  have masked: "(key \<noteq> None) = (\<not> server)" by (simp add: key_def)
  have snd: "sendable (m_max_message_size s) op i" "length i < 2 ^ 64" "op = TEXT \<longrightarrow> validate i"
    using assms(2) by (simp_all add: readable_def op_def i_def)
  have bytes: "frame_bytes server rng m @ r = b0 h # b1 h # t @ masked_with key i @ r"
    unfolding frame_bytes_eq masked [symmetric] by (simp add: h_def t_def op_def i_def key_def)
  define s1 where "s1 = s\<lparr>m_basic_header := h, m_state := HEADER_EXTENDED, m_cursor := 0, m_bytes_needed := length t\<rparr>"
  have c1: "consume s (frame_bytes server rng m @ r) = consume s1 (t @ masked_with key i @ r)"
    unfolding bytes s1_def h_def t_def
    by (rule consume_working [OF _ frame_header_step])
      (use assms snd masked in \<open>simp_all add: working_def idle_def\<close>)
  obtain e c where step2: "consume_step s1 (t @ masked_with key i @ r) =
    Inr (let s' = s\<lparr>m_basic_header := h, m_state := APPLICATION, m_cursor := c, m_bytes_needed := length i, m_extended_header := e\<rparr>
         in if is_control op then s'\<lparr>m_control_msg := new_metadata op k, current_is_control := True\<rparr>
            else s'\<lparr>m_data_msg := new_metadata op k, current_is_control := False\<rparr>, masked_with key i @ r)"
    using frame_extended_step [OF assms(1) snd(1,2), of key "masked_with key i @ r"]
    unfolding s1_def h_def t_def k_def by blast
  define s2 where "s2 = (let s' = s\<lparr>m_basic_header := h, m_state := APPLICATION, m_cursor := c, m_bytes_needed := length i, m_extended_header := e\<rparr>
         in if is_control op then s'\<lparr>m_control_msg := new_metadata op k, current_is_control := True\<rparr>
            else s'\<lparr>m_data_msg := new_metadata op k, current_is_control := False\<rparr>)"
  have c2: "consume s1 (t @ masked_with key i @ r) = consume s2 (masked_with key i @ r)"
    unfolding s2_def by (rule consume_working [OF _ step2]) (auto simp: working_def s1_def)
  have s2: "m_state s2 = APPLICATION" "m_basic_header s2 = h" "m_bytes_needed s2 = length i"
    "m_current_msg s2 = new_metadata op k" "h_server s2 = h_server s" "m_max_message_size s2 = m_max_message_size s"
    "is_control op \<Longrightarrow> m_data_msg s2 = m_data_msg s \<and> current_is_control s2"
    by (simp_all add: s2_def Let_def m_current_msg_def)
  obtain md where step3: "consume_step s2 (masked_with key i @ r) =
      Inr ((set_current_msg md s2)\<lparr>m_bytes_needed := 0, m_state := READY\<rparr>, r)" "msg_ptr md = Some m"
    using frame_payload [of s2 op i key r] s2 sendable_op(1) [OF snd(1)] snd(3)
    by (auto simp: h_def k_def op_def i_def)
  let ?s3 = "(set_current_msg md s2)\<lparr>m_bytes_needed := 0, m_state := READY\<rparr>"
  have len: "masked_with key i @ r = [] \<Longrightarrow> m_bytes_needed s2 = 0"
    using length_masked_with [of key i] unfolding s2 by (metis append_is_Nil_conv list.size(3))
  have "consume s2 (masked_with key i @ r) = consume ?s3 r"
    by (rule consume_working [OF _ step3(1)]) (use s2(1) len in \<open>auto simp: working_def\<close>)
  also have "\<dots> = Inr (?s3, r)" by (rule consume_ready) simp
  finally have "consume s (frame_bytes server rng m @ r) = Inr (?s3, r)" using c1 c2 by simp
  moreover have "m_current_msg ?s3 = md" by (simp add: m_current_msg_def set_current_msg_def)
  moreover have "is_control op \<longrightarrow> msg_ptr (m_data_msg ?s3) = None"
    using s2(7) assms(1) by (auto simp: set_current_msg_def idle_def)
  ultimately show ?thesis using step3(2) s2(5,6) unfolding op_def [symmetric]
    by (intro exI [of _ ?s3]) simp
qed

lemma frame_received:
  assumes "idle s" "readable server (m_max_message_size s) m" "h_server s = (\<not> server)"
  shows "\<exists>s'. handle_read_frame s (frame_bytes server rng m @ r) =
      (case handle_read_frame s' r of (ms, end) \<Rightarrow> (m # ms, end)) \<and>
    idle s' \<and> h_server s' = h_server s \<and> m_max_message_size s' = m_max_message_size s"
proof -
  obtain s1 where c: "consume s (frame_bytes server rng m @ r) = Inr (s1, r)" "m_state s1 = READY"
      "msg_ptr (m_current_msg s1) = Some m" "is_control (wm_opcode m) \<longrightarrow> msg_ptr (m_data_msg s1) = None"
      "h_server s1 = h_server s" "m_max_message_size s1 = m_max_message_size s"
    using frame_consumed [OF assms] by blast
  obtain s' where g: "get_message s1 = (Some m, s')" "m_state s' = HEADER_BASIC" "m_bytes_needed s' = 2"
      "msg_ptr (m_data_msg s') = None" "h_server s' = h_server s1" "m_max_message_size s' = m_max_message_size s1"
    using c(2,3,4) by (auto simp: get_message_def Let_def reset_headers_def BASIC_HEADER_LENGTH_def set_current_msg_def)
  have inv: "hybi_inv s" using assms(1) by (simp add: idle_def)
  have "frame_bytes server rng m @ r \<noteq> []" by (simp add: frame_bytes_eq)
  from handle_read_step [OF inv this] c(1) g(1)
  have "handle_read_frame s (frame_bytes server rng m @ r) = (case handle_read_frame s' r of (ms, end) \<Rightarrow> (m # ms, end))"
    by simp
  moreover have "idle s'"
    using g consume_inv [OF inv c(1)] hybi_inv_get_message [OF _ g(1)] by (simp add: idle_def)
  ultimately show ?thesis using c(5,6) g(5,6) by auto
qed

definition wire :: "bool \<Rightarrow> (32 word \<times> ws_message) list \<Rightarrow> bytes" where
  "wire server fs = concat (map (\<lambda>(rng, m). frame_bytes server rng m) fs)"

lemma wire_received:
  assumes "idle s" "\<forall>(rng, m)\<in>set fs. readable server (m_max_message_size s) m" "h_server s = (\<not> server)"
  shows "\<exists>s'. handle_read_frame s (wire server fs) = (map snd fs, Read_more s') \<and> idle s'"
  using assms
proof (induction fs arbitrary: s)
  case Nil
  then show ?case by (simp add: wire_def)
next
  case (Cons f fs)
  obtain rng m where f: "f = (rng, m)" by force
  then have "readable server (m_max_message_size s) m" using Cons.prems(2) by simp
  from frame_received [OF Cons.prems(1) this Cons.prems(3), of rng "wire server fs"] obtain s' where
    s': "handle_read_frame s (frame_bytes server rng m @ wire server fs) =
      (case handle_read_frame s' (wire server fs) of (ms, end) \<Rightarrow> (m # ms, end))"
    "idle s'" "h_server s' = h_server s" "m_max_message_size s' = m_max_message_size s" by blast
  with Cons.IH [of s'] Cons.prems s'(1) show ?case by (auto simp: f wire_def)
qed

text \<open>One read after the other: the connection reads again after each of them.\<close>

fun reads :: "hybi13 \<Rightarrow> bytes list \<Rightarrow> ws_message list \<times> read_end" where
  "reads s [] = ([], Read_more s)"
| "reads s (c # cs) =
     (case handle_read_frame s c of
        (ms, Read_more s') \<Rightarrow> (case reads s' cs of (ms', end) \<Rightarrow> (ms @ ms', end))
      | (ms, end) \<Rightarrow> (ms, end))"

lemma reads_concat: "hybi_inv s \<Longrightarrow> reads s cs = handle_read_frame s (concat cs)"
proof (induction cs arbitrary: s)
  case (Cons c cs)
  obtain ms e where h: "handle_read_frame s c = (ms, e)" by force
  from handle_read_inv [OF Cons.prems h] Cons.IH h show ?case
    by (auto simp: handle_read_append [OF Cons.prems] then_read_def)
qed simp

subsection \<open>Texts\<close>

definition bytes_of :: "string \<Rightarrow> bytes" where "bytes_of s = map (\<lambda>c. of_nat (byte c)) s"
definition text_of :: "bytes \<Rightarrow> string" where "text_of bs = map (\<lambda>b. char_of (unat b)) bs"

lemma unat_of_char: "unat (of_nat (byte c) :: 8 word) = byte c"
  by (simp add: unsigned_of_nat take_bit_nat_eq_self)

lemma text_bytes [simp]: "text_of (bytes_of s) = s"
  by (induction s) (simp_all add: text_of_def bytes_of_def unat_of_char)

lemma length_bytes_of [simp]: "length (bytes_of s) = length s"
  by (simp add: bytes_of_def)

text \<open>The validator accepts what the serializer of the JSON library accepts.\<close>

lemma validator_dump:
  assumes "validator_decode v (bytes_of s) = (v', ok)" "v_state v = d_state st" "v_codepoint v = d_codepoint st"
  shows "if ok then \<exists>st'. dump_loop ea st s = Inr st' \<and> d_state st' = v_state v' else \<exists>e. dump_loop ea st s = Inl e"
  using assms
proof (induction s arbitrary: v st)
  case (Cons c s)
  obtain n cp where d: "decode (d_state st) (d_codepoint st) (byte c) = (n, cp)" by force
  then have step: "v_state (validator_step v (byte c)) = n" "v_codepoint (validator_step v (byte c)) = cp"
    using Cons.prems(2,3) by (auto simp: validator_step_def decode_def Let_def ws_utf8d_eq utf8_accept_def UTF8_ACCEPT_def)
  show ?case
  proof (cases "n = UTF8_REJECT")
    case True
    with Cons.prems(1) step dump_step_cases(1) [OF d True] show ?thesis
      by (auto simp: bytes_of_def unat_of_char Let_def utf8_reject_def UTF8_REJECT_def)
  next
    case False
    then obtain st' where st': "dump_step ea st c = Inr st'" "d_state st' = n" "d_codepoint st' = cp"
      using dump_step_cases(2) [OF d] by blast
    have "validator_decode (validator_step v (byte c)) (bytes_of s) = (v', ok)"
      using Cons.prems(1) step False by (simp add: bytes_of_def unat_of_char Let_def utf8_reject_def UTF8_REJECT_def)
    from Cons.IH [OF this] st' step show ?thesis by simp
  qed
qed (simp add: bytes_of_def)

lemma validate_utf8: "validate (bytes_of s) = utf8_valid s"
proof -
  obtain v ok where v: "validator_decode validator_new (bytes_of s) = (v, ok)" by force
  have d: "if ok then \<exists>st'. dump_loop False dump_init s = Inr st' \<and> d_state st' = v_state v
      else \<exists>e. dump_loop False dump_init s = Inl e"
    by (rule validator_dump [OF v]) (simp_all add: validator_new_def dump_init_def utf8_accept_def UTF8_ACCEPT_def)
  have "validate (bytes_of s) \<longleftrightarrow> (\<exists>t. dump_escaped False s = Inr t)"
  proof (cases ok)
    case True
    with d obtain st' where "dump_loop False dump_init s = Inr st'" "d_state st' = v_state v" by auto
    then have "dump_escaped False s = (if v_state v = utf8_accept then Inr (d_out st' @ string_buffer st') else Inl (Json_exception 316))"
      by (simp add: dump_escaped_def UTF8_ACCEPT_def utf8_accept_def)
    with True v show ?thesis by (simp add: validate_def complete_def)
  next
    case False
    with d v show ?thesis by (auto simp: validate_def dump_escaped_def)
  qed
  then show ?thesis by (simp add: dump_escaped_eq)
qed

end
