(* ===== verification/HandshakeKey.thy ===== *)
theory HandshakeKey
  imports WireTrip
begin

text \<open>
  The answer to the key of a websocket handshake: SHA-1 (\<open>websocketpp/sha1/sha1.hpp\<close>), base64
  (\<open>base64/base64.hpp\<close>) and \<open>process_handshake_key\<close> of the processor.
\<close>

subsection \<open>SHA-1\<close>

definition rol :: "32 word \<Rightarrow> nat \<Rightarrow> 32 word" where
  "rol value steps = push_bit steps value OR drop_bit (32 - steps) value"

type_synonym sha_vars = "32 word \<times> 32 word \<times> 32 word \<times> 32 word \<times> 32 word"

definition sha1macro :: "32 word \<Rightarrow> 32 word \<Rightarrow> 32 word \<Rightarrow> sha_vars \<Rightarrow> sha_vars" where
  "sha1macro f val w_round = (\<lambda>(a, b, c, d, e). (rol a 5 + f + e + val + w_round, a, rol b 30, c, d))"

definition sha1_round :: "nat \<Rightarrow> sha_vars \<times> 32 word list \<Rightarrow> sha_vars \<times> 32 word list" where
  "sha1_round i = (\<lambda>((a, b, c, d, e), w).
     let w = (if i < 16 then w
              else w[i := rol (w ! (i - 3) XOR w ! (i - 8) XOR w ! (i - 14) XOR w ! (i - 16)) 1]);
         (f, val) = (if i < 20 then ((b AND c) OR (NOT b AND d), 0x5a827999)
                     else if i < 40 then (b XOR c XOR d, 0x6ed9eba1)
                     else if i < 60 then ((b AND c) OR (b AND d) OR (c AND d), 0x8f1bbcdc)
                     else (b XOR c XOR d, 0xca62c1d6))
     in (sha1macro f val (w ! i) (a, b, c, d, e), w))"

text \<open>The words from 16 on are written before they are read; what they held before does not matter.\<close>

definition innerHash :: "32 word list \<Rightarrow> sha_vars \<Rightarrow> sha_vars" where
  "innerHash block = (\<lambda>(r0, r1, r2, r3, r4).
     case fold sha1_round [0..<80] ((r0, r1, r2, r3, r4), block @ replicate 64 0) of
       ((a, b, c, d, e), w) \<Rightarrow> (r0 + a, r1 + b, r2 + c, r3 + d, r4 + e))"

definition full_block :: "bytes \<Rightarrow> 32 word list" where
  "full_block s = map (\<lambda>i. ucast (s ! (4 * i + 3)) OR push_bit 8 (ucast (s ! (4 * i + 2)))
     OR push_bit 16 (ucast (s ! (4 * i + 1))) OR push_bit 24 (ucast (s ! (4 * i)))) [0..<16]"

definition or_byte :: "nat \<Rightarrow> 8 word \<Rightarrow> 32 word list \<Rightarrow> 32 word list" where
  "or_byte i b w = w[i div 4 := w ! (i div 4) OR push_bit ((3 - i mod 4) * 8) (ucast b)]"

fun hash_blocks :: "bytes \<Rightarrow> sha_vars \<Rightarrow> sha_vars \<times> bytes" where
  "hash_blocks s result =
     (if 64 \<le> length s then hash_blocks (drop 64 s) (innerHash (full_block (take 64 s)) result) else (result, s))"

declare hash_blocks.simps [simp del]

definition calc :: "bytes \<Rightarrow> bytes" where
  "calc src =
     (let (result, rest) = hash_blocks src (0x67452301, 0xefcdab89, 0x98badcfe, 0x10325476, 0xc3d2e1f0);
          n = length rest;
          w = or_byte n 0x80 (fold (\<lambda>i. or_byte i (rest ! i)) [0..<n] (replicate 16 0));
          (result, w) = (if 56 \<le> n then (innerHash w result, replicate 16 0) else (result, w));
          (r0, r1, r2, r3, r4) = innerHash (w[15 := of_nat (8 * length src)]) result
      in map (\<lambda>i. ucast (drop_bit ((3 - i mod 4) * 8) ([r0, r1, r2, r3, r4] ! (i div 4)))) [0..<20])"

lemma length_calc: "length (calc src) = 20"
  by (simp add: calc_def Let_def split: prod.splits)

subsection \<open>Base64\<close>

definition base64_chars :: string where
  "base64_chars = ''ABCDEFGHIJKLMNOPQRSTUVWXYZabcdefghijklmnopqrstuvwxyz0123456789+/''"

definition char_array_4 :: "8 word \<Rightarrow> 8 word \<Rightarrow> 8 word \<Rightarrow> string" where
  "char_array_4 a b c = map (\<lambda>w. base64_chars ! unat w)
     [drop_bit 2 (a AND 0xfc),
      push_bit 4 (a AND 0x03) + drop_bit 4 (b AND 0xf0),
      push_bit 2 (b AND 0x0f) + drop_bit 6 (c AND 0xc0),
      c AND 0x3f]"

fun base64_encode :: "bytes \<Rightarrow> string" where
  "base64_encode (a # b # c # xs) = char_array_4 a b c @ base64_encode xs"
| "base64_encode [a, b] = take 3 (char_array_4 a b 0) @ ''=''"
| "base64_encode [a] = take 2 (char_array_4 a 0 0) @ ''==''"
| "base64_encode [] = []"

definition handshake_guid :: string where
  "handshake_guid = ''258EAFA5-E914-47DA-95CA-C5AB0DC85B11''"

definition process_handshake_key :: "string \<Rightarrow> string" where
  "process_handshake_key key = base64_encode (calc (bytes_of (key @ handshake_guid)))"

text \<open>What base64 gives is letters, digits and the three signs.\<close>

lemma and_mask_less: "unat (w AND 0x03) < 4" "unat (w AND 0x0f) < 16" "unat (w AND 0x3f) < 64" for w :: "8 word"
proof -
  have "unat (w AND m) \<le> unat m" for m using word_and_le1 [of w m] by (simp add: word_le_nat_alt)
  from this [of 3] this [of 15] this [of 63] show "unat (w AND 0x03) < 4" "unat (w AND 0x0f) < 16" "unat (w AND 0x3f) < 64"
    by simp_all
qed

lemma base64_index:
  "unat (drop_bit 2 (a AND 0xfc)) < 64" "unat (push_bit 4 (a AND 0x03) + drop_bit 4 (b AND 0xf0)) < 64"
  "unat (push_bit 2 (b AND 0x0f) + drop_bit 6 (c AND 0xc0)) < 64" for a b c :: "8 word"
proof -
  have "unat (drop_bit n w) = unat w div 2 ^ n" for n and w :: "8 word"
    by (simp only: unat_drop_bit_eq) (simp add: drop_bit_eq_div)
  moreover have "unat w < 256" for w :: "8 word" using unsigned_less [of w, where 'a = nat] by simp
  ultimately have d: "unat (drop_bit n w) = unat w div 2 ^ n" "unat w < 256" for n and w :: "8 word" by auto
  have p: "unat (push_bit n w) = unat w * 2 ^ n mod 256" for n and w :: "8 word"
    by (simp only: unsigned_push_bit_eq) (simp add: push_bit_eq_mult take_bit_eq_mod)
  show "unat (drop_bit 2 (a AND 0xfc)) < 64" unfolding d(1) using d(2) [of "a AND 0xfc"] by simp
  have "unat (push_bit 4 (a AND 0x03)) \<le> 48" "unat (drop_bit 4 (b AND 0xf0)) < 16"
    unfolding p d(1) using and_mask_less(1) [of a] d(2) [of "b AND 0xf0"] by simp_all
  then show "unat (push_bit 4 (a AND 0x03) + drop_bit 4 (b AND 0xf0)) < 64"
    by (simp add: unat_word_ariths)
  have "unat (push_bit 2 (b AND 0x0f)) \<le> 60" "unat (drop_bit 6 (c AND 0xc0)) < 4"
    unfolding p d(1) using and_mask_less(2) [of b] d(2) [of "c AND 0xc0"] by simp_all
  then show "unat (push_bit 2 (b AND 0x0f) + drop_bit 6 (c AND 0xc0)) < 64"
    by (simp add: unat_word_ariths)
qed

definition base64_text :: "string \<Rightarrow> bool" where
  "base64_text s \<longleftrightarrow> set s \<subseteq> set base64_chars \<union> {CHR ''=''}"

lemma base64_char: "i < 64 \<Longrightarrow> base64_chars ! i \<in> set base64_chars"
  by (rule nth_mem) (simp add: base64_chars_def)

lemma char_array_text: "set (char_array_4 a b c) \<subseteq> set base64_chars"
  using base64_index and_mask_less(3) by (auto simp: char_array_4_def intro!: base64_char)

lemma base64_encode_text: "base64_text (base64_encode bs)"
proof (induction bs rule: base64_encode.induct)
  case (1 a b c xs)
  then show ?case using char_array_text [of a b c] by (auto simp: base64_text_def)
next
  case (2 a b)
  then show ?case using char_array_text [of a b 0] by (auto simp: base64_text_def dest: in_set_takeD)
next
  case (3 a)
  then show ?case using char_array_text [of a 0 0] by (auto simp: base64_text_def dest: in_set_takeD)
qed (simp add: base64_text_def)

lemma length_base64: "length (base64_encode bs) = 4 * ((length bs + 2) div 3)"
proof (induction bs rule: base64_encode.induct)
  case (1 a b c xs)
  have "(5 + length xs) div 3 = Suc ((2 + length xs) div 3)" by presburger
  with 1 show ?case by (simp add: char_array_4_def)
qed (simp_all add: char_array_4_def)

lemma handshake_key_text: "base64_text (process_handshake_key key)" "length (process_handshake_key key) = 28"
  by (simp_all add: process_handshake_key_def base64_encode_text length_base64 length_calc)

end
