(* ===== verification/Http.thy ===== *)
theory Http
  imports HandshakeKey
begin

text \<open>
  The HTTP messages of the websocket handshake (\<open>websocketpp/http\<close>): header lists, the parsers of requests
  and responses, which take their bytes as they arrive, and the texts that are sent. An exception of
  the parser is its status code.
\<close>

subsection \<open>Characters\<close>

abbreviation cr :: char where "cr \<equiv> CHR 0x0D"
abbreviation lf :: char where "lf \<equiv> CHR 0x0A"

definition header_delimiter :: string where "header_delimiter = [cr, lf]"

definition header_token :: "nat list" where
  "header_token =
    [0,0,0,0,0,0,0,0,0,0,0,0,0,0,0,0,
     0,0,0,0,0,0,0,0,0,0,0,0,0,0,0,0,
     0,1,0,1,1,1,1,1,0,0,1,1,0,1,1,0,
     1,1,1,1,1,1,1,1,1,1,0,0,0,0,0,0,
     0,1,1,1,1,1,1,1,1,1,1,1,1,1,1,1,
     1,1,1,1,1,1,1,1,1,1,1,0,0,0,1,1,
     1,1,1,1,1,1,1,1,1,1,1,1,1,1,1,1,
     1,1,1,1,1,1,1,1,1,1,1,0,1,0,1,0,
     0,0,0,0,0,0,0,0,0,0,0,0,0,0,0,0,
     0,0,0,0,0,0,0,0,0,0,0,0,0,0,0,0,
     0,0,0,0,0,0,0,0,0,0,0,0,0,0,0,0,
     0,0,0,0,0,0,0,0,0,0,0,0,0,0,0,0,
     0,0,0,0,0,0,0,0,0,0,0,0,0,0,0,0,
     0,0,0,0,0,0,0,0,0,0,0,0,0,0,0,0,
     0,0,0,0,0,0,0,0,0,0,0,0,0,0,0,0,
     0,0,0,0,0,0,0,0,0,0,0,0,0,0,0,0]"

definition is_not_token_char :: "char \<Rightarrow> bool" where
  "is_not_token_char c \<longleftrightarrow> header_token ! of_char c = 0"

definition is_whitespace_char :: "char \<Rightarrow> bool" where
  "is_whitespace_char c \<longleftrightarrow> c = CHR 0x09 \<or> c = CHR '' ''"

text \<open>What is left after one unit of white space, after all of it; iterators are the lists that follow them.\<close>

definition extract_lws :: "string \<Rightarrow> string" where
  "extract_lws s = dropWhile is_whitespace_char
     (if 2 < length s \<and> s ! 0 = cr \<and> s ! 1 = lf \<and> is_whitespace_char (s ! 2) then drop 3 s else s)"

lemma extract_lws_suffix: "suffix (extract_lws s) s"
  using suffix_order.trans [OF suffix_dropWhile suffix_drop] suffix_dropWhile by (auto simp: extract_lws_def)

lemma extract_lws_shorter: "extract_lws s \<noteq> s \<Longrightarrow> length (extract_lws s) < length s"
  using extract_lws_suffix [of s] by (intro suffix_length_less) (simp add: strict_suffix_def)

function extract_all_lws :: "string \<Rightarrow> string" where
  "extract_all_lws s =
     (if extract_lws s \<noteq> [] \<and> extract_lws s \<noteq> s then extract_all_lws (extract_lws s) else extract_lws s)"
  by pat_completeness auto
termination
  by (relation "measure length") (simp_all add: extract_lws_shorter)

declare extract_all_lws.simps [simp del]

definition strip_lws :: "string \<Rightarrow> string" where
  "strip_lws s =
     (let front = extract_all_lws s in
      if front = [] then []
      else let back = extract_all_lws (rev s) in
        if back = [] then [] else drop (length s - length front) (take (length back) s))"

subsection \<open>Header lists\<close>

text \<open>A \<open>std::map\<close> ordered by \<open>ci_less\<close>: the pairs in its order.\<close>

type_synonym header_list = "(string \<times> string) list"

fun ci_less :: "string \<Rightarrow> string \<Rightarrow> bool" where
  "ci_less s1 [] = False"
| "ci_less [] (c2 # s2) = True"
| "ci_less (c1 # s1) (c2 # s2) =
     (let l1 = of_char (lower_char c1) :: nat; l2 = of_char (lower_char c2) :: nat in
      l1 < l2 \<or> l1 = l2 \<and> ci_less s1 s2)"

fun map_put :: "string \<Rightarrow> string \<Rightarrow> header_list \<Rightarrow> header_list" where
  "map_put k v [] = [(k, v)]"
| "map_put k v ((k', v') # hs) =
     (if ci_less k k' then (k, v) # (k', v') # hs
      else if ci_less k' k then (k', v') # map_put k v hs else (k', v) # hs)"

fun map_find :: "string \<Rightarrow> header_list \<Rightarrow> string option" where
  "map_find k [] = None"
| "map_find k ((k', v') # hs) = (if \<not> ci_less k k' \<and> \<not> ci_less k' k then Some v' else map_find k hs)"

definition map_erase :: "string \<Rightarrow> header_list \<Rightarrow> header_list" where
  "map_erase k hs = filter (\<lambda>(k', v'). ci_less k k' \<or> ci_less k' k) hs"

subsection \<open>What both parsers share\<close>

record http_parser =
  m_version :: string
  m_headers :: header_list
  m_header_bytes :: nat
  m_buf :: string
  m_body :: string
  m_body_bytes_needed :: nat

type_synonym status_code = int

definition max_header_size :: nat where "max_header_size = 16000"
definition max_body_size :: nat where "max_body_size = 32000000"

definition get_header :: "string \<Rightarrow> 'a http_parser_scheme \<Rightarrow> string" where
  "get_header key r = (case map_find key (m_headers r) of None \<Rightarrow> [] | Some v \<Rightarrow> v)"

definition append_header :: "string \<Rightarrow> string \<Rightarrow> 'a http_parser_scheme \<Rightarrow> status_code + 'a http_parser_scheme" where
  "append_header key val r =
     (if list_ex is_not_token_char key then Inl 400
      else if get_header key r = [] then Inr (r\<lparr>m_headers := map_put key val (m_headers r)\<rparr>)
      else Inr (r\<lparr>m_headers := map_put key (get_header key r @ '', '' @ val) (m_headers r)\<rparr>))"

definition replace_header :: "string \<Rightarrow> string \<Rightarrow> 'a http_parser_scheme \<Rightarrow> 'a http_parser_scheme" where
  "replace_header key val r = r\<lparr>m_headers := map_put key val (m_headers r)\<rparr>"

definition remove_header :: "string \<Rightarrow> 'a http_parser_scheme \<Rightarrow> 'a http_parser_scheme" where
  "remove_header key r = r\<lparr>m_headers := map_erase key (m_headers r)\<rparr>"

definition process_header :: "string \<Rightarrow> 'a http_parser_scheme \<Rightarrow> status_code + 'a http_parser_scheme" where
  "process_header line r =
     (case find_char CHR '':'' line of
        None \<Rightarrow> Inl 400
      | Some i \<Rightarrow> append_header (strip_lws (take i line)) (strip_lws (drop (Suc i) line)) r)"

text \<open>\<open>strtoul\<close> in base 10: nothing to convert is 0, and what is too large is the largest value.\<close>

definition strtoul10 :: "string \<Rightarrow> nat" where
  "strtoul10 s =
     (case strtol10 s of None \<Rightarrow> 0 | Some i \<Rightarrow> if 2 ^ 64 \<le> \<bar>i\<bar> then 2 ^ 64 - 1 else nat (i mod 2 ^ 64))"

definition prepare_body :: "'a http_parser_scheme \<Rightarrow> status_code + bool \<times> 'a http_parser_scheme" where
  "prepare_body r =
     (if get_header ''Content-Length'' r \<noteq> [] then
        (let n = strtoul10 (get_header ''Content-Length'' r) in
         if max_body_size < n then Inl 413 else Inr (True, r\<lparr>m_body_bytes_needed := n\<rparr>))
      else Inr (False, r))"

definition process_body :: "string \<Rightarrow> 'a http_parser_scheme \<Rightarrow> 'a http_parser_scheme \<times> string" where
  "process_body buf r =
     (let processed = min (m_body_bytes_needed r) (length buf) in
      (r\<lparr>m_body := m_body r @ take processed buf, m_body_bytes_needed := m_body_bytes_needed r - processed\<rparr>,
       drop processed buf))"

definition raw_headers :: "'a http_parser_scheme \<Rightarrow> string" where
  "raw_headers r = concat (map (\<lambda>(k, v). k @ '': '' @ v @ header_delimiter) (m_headers r))"

text \<open>The next line and what follows it.\<close>

fun next_line :: "string \<Rightarrow> (string \<times> string) option" where
  "next_line [] = None"
| "next_line (c # s) =
     (if c = cr \<and> s \<noteq> [] \<and> hd s = lf then Some ([], tl s)
      else map_option (\<lambda>(line, rest). (c # line, rest)) (next_line s))"

lemma next_line_length: "next_line s = Some (line, rest) \<Longrightarrow> length rest < length s"
  by (induction s arbitrary: line) (fastforce split: if_splits)+

text \<open>A line up to its first space, and after it.\<close>

definition at_space :: "string \<Rightarrow> (string \<times> string) option" where
  "at_space s = map_option (\<lambda>i. (take i s, drop (Suc i) s)) (find_char CHR '' '' s)"

subsection \<open>Requests\<close>

record request = http_parser +
  m_method :: string
  m_uri :: string
  m_ready :: bool

definition request_new :: request where
  "request_new = \<lparr>m_version = [], m_headers = [], m_header_bytes = 0, m_buf = [], m_body = [], m_body_bytes_needed = 0,
     m_method = [], m_uri = [], m_ready = False\<rparr>"

definition process_request_line :: "string \<Rightarrow> request \<Rightarrow> status_code + request" where
  "process_request_line line r =
     (case at_space line of
        None \<Rightarrow> Inl 400
      | Some (method, rest) \<Rightarrow>
          if list_ex is_not_token_char method then Inl 400
          else case at_space rest of
            None \<Rightarrow> Inl 400
          | Some (uri, version) \<Rightarrow> Inr (r\<lparr>m_method := method, m_uri := uri, m_version := version\<rparr>))"

text \<open>
  The loop of \<open>request::consume\<close> over the lines in the buffer; the result is the request and the bytes
  that were not processed. A line counts with its three bytes of \<open>sizeof(header_delimiter)\<close>, and so
  does what is left over at the end of every call.
\<close>

definition end_request :: "request \<Rightarrow> string \<Rightarrow> status_code + request \<times> string" where
  "end_request r rest =
     (if m_method r = [] \<or> get_header ''Host'' r = [] then Inl 400
      else bindR (prepare_body (r\<lparr>m_buf := []\<rparr>)) (\<lambda>(body, r2).
        if body then
          (case process_body rest r2 of (r3, rest') \<Rightarrow>
             Inr (r3\<lparr>m_ready := (m_body_bytes_needed r3 = 0)\<rparr>, rest'))
        else Inr (r2\<lparr>m_ready := True\<rparr>, rest)))"

function request_lines :: "request \<Rightarrow> string \<Rightarrow> status_code + request \<times> string" where
  "request_lines r b =
     (case next_line b of
        None \<Rightarrow>
          if max_header_size < m_header_bytes r + length b + 3 then Inl 431
          else Inr (r\<lparr>m_buf := b, m_header_bytes := m_header_bytes r + 3\<rparr>, [])
      | Some (line, rest) \<Rightarrow>
          (let r1 = r\<lparr>m_header_bytes := m_header_bytes r + length line + 3\<rparr> in
           if max_header_size < m_header_bytes r1 then Inl 431
           else if line = [] then end_request r1 rest
           else bindR (if m_method r1 = [] then process_request_line line r1 else process_header line r1)
             (\<lambda>r2. request_lines r2 rest)))"
  by pat_completeness auto
termination
  by (relation "measure (\<lambda>(r, b). length b)") (auto dest: next_line_length)

declare request_lines.simps [simp del]

definition request_consume :: "request \<Rightarrow> string \<Rightarrow> status_code + request \<times> string" where
  "request_consume r buf =
     (if m_ready r then Inr (r, buf)
      else if 0 < m_body_bytes_needed r then
        (case process_body buf r of (r1, rest) \<Rightarrow>
           Inr (if m_body_bytes_needed r1 = 0 then r1\<lparr>m_ready := True\<rparr> else r1, rest))
      else request_lines r (m_buf r @ buf))"

definition request_raw :: "request \<Rightarrow> string" where
  "request_raw r = m_method r @ '' '' @ m_uri r @ '' '' @ m_version r @ header_delimiter @
     raw_headers r @ header_delimiter @ m_body r"

subsection \<open>Responses\<close>

datatype response_state = RESPONSE_LINE | HEADERS | BODY | DONE

record response = http_parser +
  r_state :: response_state
  m_read :: nat
  m_status_code :: status_code
  m_status_msg :: string

definition response_new :: response where
  "response_new = \<lparr>m_version = [], m_headers = [], m_header_bytes = 0, m_buf = [], m_body = [], m_body_bytes_needed = 0,
     r_state = RESPONSE_LINE, m_read = 0, m_status_code = 0, m_status_msg = []\<rparr>"

definition status_string :: "status_code \<Rightarrow> string" where
  "status_string c =
     (if c = 0 then ''Uninitialized''
      else if c = 100 then ''Continue''
      else if c = 101 then ''Switching Protocols''
      else if c = 200 then ''OK''
      else if c = 201 then ''Created''
      else if c = 202 then ''Accepted''
      else if c = 203 then ''Non Authoritative Information''
      else if c = 204 then ''No Content''
      else if c = 205 then ''Reset Content''
      else if c = 206 then ''Partial Content''
      else if c = 300 then ''Multiple Choices''
      else if c = 301 then ''Moved Permanently''
      else if c = 302 then ''Found''
      else if c = 303 then ''See Other''
      else if c = 304 then ''Not Modified''
      else if c = 305 then ''Use Proxy''
      else if c = 307 then ''Temporary Redirect''
      else if c = 400 then ''Bad Request''
      else if c = 401 then ''Unauthorized''
      else if c = 402 then ''Payment Required''
      else if c = 403 then ''Forbidden''
      else if c = 404 then ''Not Found''
      else if c = 405 then ''Method Not Allowed''
      else if c = 406 then ''Not Acceptable''
      else if c = 407 then ''Proxy Authentication Required''
      else if c = 408 then ''Request Timeout''
      else if c = 409 then ''Conflict''
      else if c = 410 then ''Gone''
      else if c = 411 then ''Length Required''
      else if c = 412 then ''Precondition Failed''
      else if c = 413 then ''Request Entity Too Large''
      else if c = 414 then ''Request-URI Too Long''
      else if c = 415 then ''Unsupported Media Type''
      else if c = 416 then ''Requested Range Not Satisfiable''
      else if c = 417 then ''Expectation Failed''
      else if c = 418 then ''I'' @ [CHR 0x27] @ ''m a teapot''
      else if c = 426 then ''Upgrade Required''
      else if c = 428 then ''Precondition Required''
      else if c = 429 then ''Too Many Requests''
      else if c = 431 then ''Request Header Fields Too Large''
      else if c = 500 then ''Internal Server Error''
      else if c = 501 then ''Not Implemented''
      else if c = 502 then ''Bad Gateway''
      else if c = 503 then ''Service Unavailable''
      else if c = 504 then ''Gateway Timeout''
      else if c = 505 then ''HTTP Version Not Supported''
      else if c = 510 then ''Not Extended''
      else if c = 511 then ''Network Authentication Required''
      else ''Unknown'')"

definition set_status :: "status_code \<Rightarrow> response \<Rightarrow> response" where
  "set_status code r = r\<lparr>m_status_code := code, m_status_msg := status_string code\<rparr>"

text \<open>\<open>operator>>\<close> into an \<open>int\<close> and into a \<open>size_t\<close>.\<close>

definition stream_int :: "string \<Rightarrow> int option" where
  "stream_int s = (case strtol10 s of None \<Rightarrow> None | Some i \<Rightarrow> if int_min \<le> i \<and> i \<le> int_max then Some i else None)"

definition stream_size :: "string \<Rightarrow> nat option" where
  "stream_size s = (case strtol10 s of None \<Rightarrow> None | Some i \<Rightarrow> if \<bar>i\<bar> < 2 ^ 64 then Some (nat (i mod 2 ^ 64)) else None)"

definition process_response_line :: "string \<Rightarrow> response \<Rightarrow> status_code + response" where
  "process_response_line line r =
     (case at_space line of
        None \<Rightarrow> Inl 400
      | Some (version, rest) \<Rightarrow>
          (case at_space rest of
             None \<Rightarrow> Inl 400
           | Some (code, msg) \<Rightarrow>
               (case stream_int code of
                  None \<Rightarrow> Inl 400
                | Some code \<Rightarrow> Inr (r\<lparr>m_version := version, m_status_code := code, m_status_msg := msg\<rparr>))))"

definition response_body :: "string \<Rightarrow> response \<Rightarrow> response \<times> string" where
  "response_body buf r =
     (if m_read r = 0 then (r\<lparr>r_state := DONE\<rparr>, buf)
      else let to_read = min (m_read r) (length buf) in
        (r\<lparr>r_state := (if m_read r \<le> length buf then DONE else r_state r),
           m_body := m_body r @ take to_read buf, m_read := m_read r - to_read\<rparr>, drop to_read buf))"

definition end_response :: "response \<Rightarrow> string \<Rightarrow> status_code + response \<times> string" where
  "end_response r rest =
     (if r_state r = RESPONSE_LINE then Inl 400
      else case (if get_header ''Content-Length'' r = [] then Some 0 else stream_size (get_header ''Content-Length'' r)) of
        None \<Rightarrow> Inl 400
      | Some n \<Rightarrow>
          (let r1 = r\<lparr>m_read := n, r_state := BODY, m_buf := []\<rparr> in
           Inr (if rest \<noteq> [] then response_body rest r1 else (r1, rest))))"

function response_lines :: "response \<Rightarrow> string \<Rightarrow> status_code + response \<times> string" where
  "response_lines r b =
     (case next_line b of
        None \<Rightarrow>
          if max_header_size < m_header_bytes r + length b + 3 then Inl 431
          else Inr (r\<lparr>m_buf := b, m_header_bytes := m_header_bytes r + 3\<rparr>, [])
      | Some (line, rest) \<Rightarrow>
          (let r1 = r\<lparr>m_header_bytes := m_header_bytes r + length line + 3\<rparr> in
           if max_header_size < m_header_bytes r1 then Inl 431
           else if line = [] then end_response r1 rest
           else bindR (if r_state r1 = RESPONSE_LINE
                       then bindR (process_response_line line r1) (\<lambda>r2. Inr (r2\<lparr>r_state := HEADERS\<rparr>))
                       else process_header line r1)
             (\<lambda>r2. response_lines r2 rest)))"
  by pat_completeness auto
termination
  by (relation "measure (\<lambda>(r, b). length b)") (auto dest: next_line_length)

declare response_lines.simps [simp del]

text \<open>
  In the header \<open>m_read\<close> counts the bytes of the calls that end inside a line; the blank line sets it anew, so
  that it does not matter that they are added here before the lines are read.
\<close>

definition response_consume :: "response \<Rightarrow> string \<Rightarrow> status_code + response \<times> string" where
  "response_consume r buf =
     (case r_state r of
        DONE \<Rightarrow> Inr (r, buf)
      | BODY \<Rightarrow> Inr (response_body buf r)
      | _ \<Rightarrow> response_lines (r\<lparr>m_read := m_read r + length buf\<rparr>) (m_buf r @ buf))"

definition headers_ready :: "response \<Rightarrow> bool" where
  "headers_ready r \<longleftrightarrow> r_state r = BODY \<or> r_state r = DONE"

definition response_raw :: "response \<Rightarrow> string" where
  "response_raw r = m_version r @ '' '' @ to_string (m_status_code r) @ '' '' @ m_status_msg r @ header_delimiter @
     raw_headers r @ header_delimiter @ m_body r"

end
