(* ===== verification/HttpRead.thy ===== *)
theory HttpRead
  imports Http
begin

text \<open>
  Reading the head of an HTTP message in pieces: the parsers of requests and of responses share the
  contract \<open>line_reader\<close>, under which a text of lines is read the same way however it is cut, as long as the
  lines and three bytes for every piece stay within the limit.
\<close>

subsection \<open>Lines\<close>

definition text_of_lines :: "string list \<Rightarrow> string" where
  "text_of_lines ls = concat (map (\<lambda>l. l @ header_delimiter) ls) @ header_delimiter"

lemma text_of_lines_simps [simp]:
  "text_of_lines [] = [cr, lf]" "text_of_lines (l # ls) = l @ cr # lf # text_of_lines ls"
  by (simp_all add: text_of_lines_def header_delimiter_def)

definition is_line :: "string \<Rightarrow> bool" where
  "is_line l \<longleftrightarrow> l \<noteq> [] \<and> lf \<notin> set l"

lemma next_line_line: "lf \<notin> set l \<Longrightarrow> next_line (l @ cr # lf # rest) = Some (l, rest)"
proof (induction l)
  case (Cons c l)
  then have "hd (l @ cr # lf # rest) \<noteq> lf" by (cases l) auto
  with Cons show ?case by simp
qed simp

lemma next_line_none: "lf \<notin> set b \<Longrightarrow> next_line b = None"
proof (induction b)
  case (Cons c b)
  then have "b \<noteq> [] \<Longrightarrow> hd b \<noteq> lf" by (cases b) auto
  with Cons show ?case by auto
qed simp

text \<open>The part of a line and its end that has arrived.\<close>

lemma part_of_line:
  assumes "b @ rest = l @ cr # lf # t" "lf \<notin> set l"
  shows "(\<exists>b2. b = l @ cr # lf # b2 \<and> b2 @ rest = t) \<or> (lf \<notin> set b \<and> length b \<le> Suc (length l))"
proof (cases "length b \<le> Suc (length l)")
  case True
  have "b = take (length b) (l @ cr # lf # t)" using assms(1) by (metis append_eq_conv_conj)
  also have "\<dots> = take (length b) (l @ [cr])" using True by (simp add: take_Cons')
  finally have "set b \<subseteq> set (l @ [cr])" by (metis set_take_subset)
  then show ?thesis using True assms(2) by auto
next
  case False
  let ?w = "l @ [cr, lf]"
  have eq: "b @ rest = ?w @ t" using assms(1) by simp
  have "length ?w \<le> length b" using False by simp
  then have "take (length ?w) b = ?w" using arg_cong [OF eq, of "take (length ?w)"] by simp
  then have b: "b = ?w @ drop (length ?w) b" by (metis append_take_drop_id)
  then have "drop (length ?w) b @ rest = t" using eq by (metis append_assoc same_append_eq)
  with b show ?thesis by (intro disjI1 exI [of _ "drop (length ?w) b"]) simp
qed

text \<open>The bytes a text of lines is charged with.\<close>

definition charge :: "string list \<Rightarrow> nat" where
  "charge ls = length (text_of_lines ls) + length ls + 1"

lemma charge_simps [simp]: "charge [] = 3" "charge (l # ls) = length l + 3 + charge ls"
  by (simp_all add: charge_def)

subsection \<open>The contract of a reader of lines\<close>

text \<open>One piece after the other, until the message is complete; the rest of that piece and the later ones.\<close>

fun feed :: "('r \<Rightarrow> string \<Rightarrow> status_code + 'r \<times> string) \<Rightarrow> ('r \<Rightarrow> bool) \<Rightarrow> 'r \<Rightarrow> string list \<Rightarrow> status_code + 'r \<times> string list" where
  "feed eat finished r [] = Inr (r, [])"
| "feed eat finished r (c # cs) =
     bindR (eat r c) (\<lambda>(r', rest). if finished r' then Inr (r', rest # cs) else feed eat finished r' cs)"

fun run_lines :: "(string \<Rightarrow> 'r \<Rightarrow> status_code + 'r) \<Rightarrow> string list \<Rightarrow> 'r \<Rightarrow> status_code + 'r" where
  "run_lines process [] r = Inr r"
| "run_lines process (l # ls) r = bindR (process l r) (run_lines process ls)"

locale line_reader =
  fixes counted :: "'r \<Rightarrow> nat"
    and held :: "'r \<Rightarrow> string"
    and count :: "nat \<Rightarrow> 'r \<Rightarrow> 'r"
    and keep :: "string \<Rightarrow> 'r \<Rightarrow> 'r"
    and start :: "nat \<Rightarrow> 'r \<Rightarrow> 'r"
    and core :: "'r \<Rightarrow> 'r"
    and reading :: "'r \<Rightarrow> bool"
    and process :: "string \<Rightarrow> 'r \<Rightarrow> status_code + 'r"
    and fin :: "'r \<Rightarrow> string \<Rightarrow> status_code + 'r \<times> string"
    and lines :: "'r \<Rightarrow> string \<Rightarrow> status_code + 'r \<times> string"
    and eat :: "'r \<Rightarrow> string \<Rightarrow> status_code + 'r \<times> string"
    and finished :: "'r \<Rightarrow> bool"
  assumes lines: "lines r b =
      (case next_line b of
         None \<Rightarrow> if max_header_size < counted r + length b + 3 then Inl 431 else Inr (keep b r, [])
       | Some (line, rest) \<Rightarrow>
           if max_header_size < counted r + length line + 3 then Inl 431
           else if line = [] then fin (count (length line + 3) r) rest
           else bindR (process line (count (length line + 3) r)) (\<lambda>r2. lines r2 rest))"
    and eat: "reading r \<Longrightarrow> eat r c = lines (start (length c) r) (held r @ c)"
    and not_finished: "reading r \<Longrightarrow> \<not> finished r"
    and counted_count: "counted (count n r) = counted r + n"
    and counted_start: "counted (start n r) = counted r"
    and counted_keep: "counted (keep b r) = counted r + 3"
    and counted_process: "process l r = Inr r2 \<Longrightarrow> counted r2 = counted r"
    and held_keep: "held (keep b r) = b"
    and reading_count: "reading (count n r) = reading r"
    and reading_start: "reading (start n r) = reading r"
    and reading_keep: "reading (keep b r) = reading r"
    and reading_process: "process l r = Inr r2 \<Longrightarrow> reading r \<Longrightarrow> reading r2"
    and core_count: "core (count n r) = core r"
    and core_start: "core (start n r) = core r"
    and core_keep: "core (keep b r) = core r"
    and core_process: "process l (core r) = bindR (process l r) (\<lambda>r2. Inr (core r2))"
begin

lemma process_core:
  assumes "process l (core r) = Inr r'"
  obtains r2 where "process l r = Inr r2" "core r2 = r'"
  using assms by (cases "process l r") (simp_all add: core_process)

text \<open>One read: it stops inside a line, or it comes to the empty one.\<close>

lemma lines_read:
  assumes "\<forall>l\<in>set ls. is_line l" "run_lines process ls (core r) = Inr r'" "reading r"
    and "b @ rest = text_of_lines ls @ later" "counted r + charge ls + n + 3 \<le> max_header_size"
  shows "(\<exists>ls2 t r1. lines r b = Inr (keep t r1, []) \<and> (\<forall>l\<in>set ls2. is_line l) \<and> run_lines process ls2 (core r1) = Inr r' \<and>
      reading r1 \<and> t @ rest = text_of_lines ls2 @ later \<and> lf \<notin> set t \<and> counted r1 + charge ls2 + n + 3 \<le> max_header_size) \<or>
    (\<exists>r1 b2. lines r b = fin r1 b2 \<and> b2 @ rest = later \<and> core r1 = r' \<and> reading r1)"
  using assms
proof (induction ls arbitrary: r b)
  case Nil
  from Nil.prems(4) have "b @ rest = [] @ cr # lf # later" by simp
  from part_of_line [OF this] consider b2 where "b = cr # lf # b2" "b2 @ rest = later" | "lf \<notin> set b" "length b \<le> 1" by auto
  then show ?case
  proof cases
    case 1
    then have "lines r b = fin (count 3 r) b2" using Nil.prems(5) by (simp add: lines [of r])
    moreover have "core (count 3 r) = r'" using Nil.prems(2) by (simp add: core_count)
    ultimately show ?thesis using 1 Nil.prems(3) reading_count by blast
  next
    case 2
    then have "lines r b = Inr (keep b r, [])" using Nil.prems(5) by (simp add: lines [of r] next_line_none)
    with Nil.prems 2 show ?thesis by (intro disjI1, rule_tac exI [of _ "[]"], rule_tac exI [of _ b], rule_tac exI [of _ r]) simp
  qed
next
  case (Cons l ls)
  have l: "l \<noteq> []" "lf \<notin> set l" using Cons.prems(1) by (simp_all add: is_line_def)
  from Cons.prems(4) have "b @ rest = l @ cr # lf # (text_of_lines ls @ later)" by simp
  from part_of_line [OF this l(2)]
  consider b2 where "b = l @ cr # lf # b2" "b2 @ rest = text_of_lines ls @ later" | "lf \<notin> set b" "length b \<le> Suc (length l)" by blast
  then show ?case
  proof cases
    case 1
    let ?r = "count (length l + 3) r"
    obtain rx where "process l (core ?r) = Inr rx" "run_lines process ls rx = Inr r'"
      using Cons.prems(2) by (cases "process l (core r)") (simp_all add: core_count)
    then obtain r2 where r2: "process l ?r = Inr r2" "run_lines process ls (core r2) = Inr r'" using process_core by metis
    have "lines r b = lines r2 b2" using 1(1) l r2(1) Cons.prems(5) by (simp add: lines [of r] next_line_line)
    moreover have "counted r2 + charge ls + n + 3 \<le> max_header_size"
      using Cons.prems(5) counted_process [OF r2(1)] by (simp add: counted_count)
    moreover have "reading r2" using reading_process [OF r2(1)] Cons.prems(3) by (simp add: reading_count)
    ultimately show ?thesis using Cons.IH [of r2 b2] Cons.prems(1) r2(2) 1(2) by simp
  next
    case 2
    then have "lines r b = Inr (keep b r, [])" using Cons.prems(5) by (simp add: lines [of r] next_line_none)
    with Cons.prems 2 show ?thesis by (intro disjI1 exI [of _ "l # ls"] exI [of _ b] exI [of _ r]) simp
  qed
qed

lemma feed_text:
  assumes "\<forall>l\<in>set ls. is_line l" "run_lines process ls (core r) = Inr r'" "reading r"
    and "held r @ concat cs = text_of_lines ls @ later" "lf \<notin> set (held r)"
    and "counted r + charge ls + 3 * length cs \<le> max_header_size"
  shows "\<exists>r1 b2 cs'. feed eat finished r cs =
      bindR (fin r1 b2) (\<lambda>(r2, rest). if finished r2 then Inr (r2, rest # cs') else feed eat finished r2 cs') \<and>
    b2 @ concat cs' = later \<and> core r1 = r' \<and> reading r1"
  using assms
proof (induction cs arbitrary: ls r)
  case Nil
  have "lf \<in> set (text_of_lines ls)" by (cases ls) simp_all
  with Nil.prems(4,5) show ?case by (metis Un_iff append_Nil2 concat.simps(1) set_append)
next
  case (Cons c cs)
  let ?r = "start (length c) r"
  have "(held r @ c) @ concat cs = text_of_lines ls @ later" "counted r + charge ls + 3 * length cs + 3 \<le> max_header_size"
    using Cons.prems(4,6) by simp_all
  moreover have "run_lines process ls (core ?r) = Inr r'" "reading ?r"
    using Cons.prems(2,3) by (simp_all add: core_start reading_start)
  ultimately consider
      (more) ls2 t r1 where "lines ?r (held r @ c) = Inr (keep t r1, [])" "\<forall>l\<in>set ls2. is_line l"
        "run_lines process ls2 (core r1) = Inr r'" "reading r1" "t @ concat cs = text_of_lines ls2 @ later" "lf \<notin> set t"
        "counted r1 + charge ls2 + 3 * length cs + 3 \<le> max_header_size"
    | (all) r1 b2 where "lines ?r (held r @ c) = fin r1 b2" "b2 @ concat cs = later" "core r1 = r'" "reading r1"
    using lines_read [OF Cons.prems(1), of ?r r' "held r @ c" "concat cs" later "3 * length cs"] by (auto simp: counted_start)
  then show ?case
  proof cases
    case more
    have "feed eat finished r (c # cs) = feed eat finished (keep t r1) cs"
      using more(1,4) not_finished by (simp add: eat [OF Cons.prems(3)] reading_keep)
    moreover note Cons.IH [of ls2 "keep t r1"]
    ultimately show ?thesis using more(2-7) by (simp add: core_keep reading_keep held_keep counted_keep)
  next
    case all
    then show ?thesis by (intro exI [of _ r1] exI [of _ b2] exI [of _ cs]) (simp add: eat [OF Cons.prems(3)])
  qed
qed

end

end
