(* ===== verification/HttpRound.thy ===== *)
theory HttpRound
  imports HttpRead
begin

text \<open>
  The two parsers provide the contract \<open>line_reader\<close>; what \<open>raw\<close> writes is read back by them.
\<close>

subsection \<open>The parsers as readers of lines\<close>

definition count_bytes :: "nat \<Rightarrow> 'a http_parser_scheme \<Rightarrow> 'a http_parser_scheme" where
  "count_bytes n r = r\<lparr>m_header_bytes := m_header_bytes r + n\<rparr>"

definition keep_part :: "string \<Rightarrow> 'a http_parser_scheme \<Rightarrow> 'a http_parser_scheme" where
  "keep_part b r = r\<lparr>m_buf := b, m_header_bytes := m_header_bytes r + 3\<rparr>"

definition head_of :: "'a http_parser_scheme \<Rightarrow> 'a http_parser_scheme" where
  "head_of r = r\<lparr>m_header_bytes := 0, m_buf := []\<rparr>"

definition request_line :: "string \<Rightarrow> request \<Rightarrow> status_code + request" where
  "request_line l r = (if m_method r = [] then process_request_line l r else process_header l r)"

definition response_line :: "string \<Rightarrow> response \<Rightarrow> status_code + response" where
  "response_line l r =
     (if r_state r = RESPONSE_LINE then bindR (process_response_line l r) (\<lambda>r2. Inr (r2\<lparr>r_state := HEADERS\<rparr>))
      else process_header l r)"

text \<open>Of a response also the count of bytes is left aside.\<close>

definition read_more :: "nat \<Rightarrow> response \<Rightarrow> response" where
  "read_more n r = r\<lparr>m_read := m_read r + n\<rparr>"

definition response_head :: "response \<Rightarrow> response" where
  "response_head r = (head_of r)\<lparr>m_read := 0\<rparr>"

lemmas reader_defs = count_bytes_def keep_part_def head_of_def read_more_def response_head_def

lemma append_header_head: "append_header k v (head_of r) = bindR (append_header k v r) (\<lambda>r2. Inr (head_of r2))"
  by (simp add: append_header_def head_of_def get_header_def)

lemma process_header_head: "process_header l (head_of r) = bindR (process_header l r) (\<lambda>r2. Inr (head_of r2))"
  by (simp add: process_header_def append_header_head split: option.splits)

lemma process_header_response: "process_header l (response_head r) = bindR (process_header l r) (\<lambda>r2. Inr (response_head r2))"
  by (simp add: process_header_def append_header_def response_head_def head_of_def get_header_def split: option.splits)

lemma append_header_Inr: "append_header k v r = Inr r2 \<Longrightarrow> \<exists>hs. r2 = r\<lparr>m_headers := hs\<rparr>"
  by (auto simp: append_header_def split: if_splits)

lemma process_header_Inr: "process_header l r = Inr r2 \<Longrightarrow> \<exists>hs. r2 = r\<lparr>m_headers := hs\<rparr>"
  using append_header_Inr by (auto simp: process_header_def split: option.splits)

lemma request_line_Inr:
  "request_line l r = Inr r2 \<Longrightarrow> m_header_bytes r2 = m_header_bytes r \<and> m_ready r2 = m_ready r \<and>
     m_body_bytes_needed r2 = m_body_bytes_needed r"
  by (auto simp: request_line_def process_request_line_def split: if_splits option.splits prod.splits dest!: process_header_Inr)

lemma response_line_Inr:
  "response_line l r = Inr r2 \<Longrightarrow> m_header_bytes r2 = m_header_bytes r \<and>
     (r_state r2 = (if r_state r = RESPONSE_LINE then HEADERS else r_state r))"
  by (auto simp: response_line_def process_response_line_def split: if_splits option.splits prod.splits dest!: process_header_Inr)

interpretation request_reader: line_reader m_header_bytes m_buf count_bytes keep_part "\<lambda>n r. r" head_of
  "\<lambda>r. \<not> m_ready r \<and> m_body_bytes_needed r = 0" request_line end_request request_lines request_consume m_ready
proof
  show "request_lines r b =
      (case next_line b of
         None \<Rightarrow> if max_header_size < m_header_bytes r + length b + 3 then Inl 431 else Inr (keep_part b r, [])
       | Some (line, rest) \<Rightarrow>
           if max_header_size < m_header_bytes r + length line + 3 then Inl 431
           else if line = [] then end_request (count_bytes (length line + 3) r) rest
           else bindR (request_line line (count_bytes (length line + 3) r)) (\<lambda>r2. request_lines r2 rest))" for r b
    by (subst request_lines.simps) (auto simp: reader_defs request_line_def Let_def add.assoc split: option.splits)
  show "request_line l (head_of r) = bindR (request_line l r) (\<lambda>r2. Inr (head_of r2))" for l r
    using process_header_head [of l r]
    by (simp add: request_line_def process_request_line_def head_of_def split: option.splits prod.splits)
qed (auto simp: reader_defs request_consume_def dest: request_line_Inr)

interpretation response_reader: line_reader m_header_bytes m_buf count_bytes keep_part read_more response_head
  "\<lambda>r. r_state r = RESPONSE_LINE \<or> r_state r = HEADERS" response_line end_response response_lines response_consume headers_ready
proof
  show "response_lines r b =
      (case next_line b of
         None \<Rightarrow> if max_header_size < m_header_bytes r + length b + 3 then Inl 431 else Inr (keep_part b r, [])
       | Some (line, rest) \<Rightarrow>
           if max_header_size < m_header_bytes r + length line + 3 then Inl 431
           else if line = [] then end_response (count_bytes (length line + 3) r) rest
           else bindR (response_line line (count_bytes (length line + 3) r)) (\<lambda>r2. response_lines r2 rest))" for r b
    by (subst response_lines.simps) (auto simp: reader_defs response_line_def Let_def add.assoc split: option.splits)
  show "response_line l (response_head r) = bindR (response_line l r) (\<lambda>r2. Inr (response_head r2))" for l r
    using process_header_response [of l r]
    by (simp add: response_line_def process_response_line_def response_head_def head_of_def split: option.splits prod.splits)
qed (auto simp: reader_defs response_consume_def headers_ready_def dest!: response_line_Inr split: if_splits)

subsection \<open>Header lines\<close>

definition good_name :: "string \<Rightarrow> bool" where
  "good_name k \<longleftrightarrow> k \<noteq> [] \<and> \<not> list_ex is_not_token_char k"

definition good_field :: "string \<Rightarrow> bool" where
  "good_field v \<longleftrightarrow> v \<noteq> [] \<and> lf \<notin> set v \<and> \<not> is_whitespace_char (hd v) \<and> \<not> is_whitespace_char (last v)"

definition header_line :: "string \<times> string \<Rightarrow> string" where
  "header_line = (\<lambda>(k, v). k @ '': '' @ v)"

lemma not_token [simp]: "is_not_token_char CHR '':''" "is_not_token_char lf" "is_not_token_char CHR '' ''"
  "is_not_token_char (CHR 0x09)"
  by code_simp+

lemma good_name_chars:
  assumes "good_name k"
  shows "CHR '':'' \<notin> set k" "lf \<notin> set k" "CHR '' '' \<notin> set k" "\<forall>c\<in>set k. \<not> is_whitespace_char c"
  using assms not_token by (auto simp: good_name_def list_ex_iff is_whitespace_char_def)

lemma extract_lws_no_lf: "lf \<notin> set s \<Longrightarrow> extract_lws s = dropWhile is_whitespace_char s"
proof -
  assume lf: "lf \<notin> set s"
  have "\<not> (2 < length s \<and> s ! 1 = lf)"
  proof
    assume a: "2 < length s \<and> s ! 1 = lf"
    then have "1 < length s" by simp
    with a have "lf \<in> set s" by (metis nth_mem)
    with lf show False by simp
  qed
  then show ?thesis by (auto simp: extract_lws_def)
qed

lemma extract_all_lws_id: "lf \<notin> set s \<Longrightarrow> s \<noteq> [] \<Longrightarrow> \<not> is_whitespace_char (hd s) \<Longrightarrow> extract_all_lws s = s"
  by (subst extract_all_lws.simps) (cases s; simp add: extract_lws_no_lf)

lemma extract_all_lws_space:
  "lf \<notin> set s \<Longrightarrow> s \<noteq> [] \<Longrightarrow> \<not> is_whitespace_char (hd s) \<Longrightarrow> extract_all_lws (CHR '' '' # s) = s"
  using extract_all_lws_id [of s]
  by (subst extract_all_lws.simps) (cases s; simp add: extract_lws_no_lf is_whitespace_char_def)

lemma strip_lws_id:
  assumes "good_field s"
  shows "strip_lws s = s" "strip_lws (CHR '' '' # s) = s"
proof -
  have s: "lf \<notin> set s" "s \<noteq> []" "\<not> is_whitespace_char (hd s)" "\<not> is_whitespace_char (last s)"
    using assms by (simp_all add: good_field_def)
  then have r: "extract_all_lws (rev s) = rev s" "extract_all_lws (rev (CHR '' '' # s)) = rev (CHR '' '' # s)"
    by (intro extract_all_lws_id; simp add: hd_rev)+
  show "strip_lws s = s" using extract_all_lws_id [OF s(1-3)] r(1) s(2) by (simp add: strip_lws_def)
  show "strip_lws (CHR '' '' # s) = s" using extract_all_lws_space [OF s(1-3)] r(2) s(2)
    by (simp add: strip_lws_def Let_def)
qed

lemma good_name_field: "good_name k \<Longrightarrow> good_field k"
  using good_name_chars [of k] by (auto simp: good_name_def good_field_def)

lemma find_char_at: "c \<notin> set a \<Longrightarrow> find_char c (a @ c # b) = Some (length a)"
  by (induction a) auto

lemma process_header_line:
  assumes "good_name k" "good_field v"
  shows "process_header (header_line (k, v)) r = append_header k v r"
proof -
  have "find_char CHR '':'' (k @ CHR '':'' # CHR '' '' # v) = Some (length k)"
    by (rule find_char_at) (rule good_name_chars [OF assms(1)])
  then show ?thesis
    using strip_lws_id [OF good_name_field [OF assms(1)]] strip_lws_id [OF assms(2)]
    by (simp add: process_header_def header_line_def)
qed

text \<open>Headers that come in the order of the map.\<close>

lemma ci_less_asym: "ci_less a b \<Longrightarrow> \<not> ci_less b a"
  by (induction a b rule: ci_less.induct) (auto simp: Let_def)

lemma map_put_last: "\<forall>(k', v')\<in>set hs. ci_less k' k \<Longrightarrow> map_put k v hs = hs @ [(k, v)] \<and> map_find k hs = None"
  by (induction k v hs rule: map_put.induct) (auto dest: ci_less_asym)

definition good_headers :: "header_list \<Rightarrow> bool" where
  "good_headers hs \<longleftrightarrow> sorted_wrt (\<lambda>a b. ci_less (fst a) (fst b)) hs \<and> (\<forall>(k, v)\<in>set hs. good_name k \<and> good_field v)"

lemma run_headers:
  assumes "good_headers (m_headers r @ hs)"
  shows "run_lines process_header (map header_line hs) r = Inr (r\<lparr>m_headers := m_headers r @ hs\<rparr>)"
  using assms
proof (induction hs arbitrary: r)
  case (Cons h hs)
  obtain k v where h: "h = (k, v)" by force
  have g: "good_name k" "good_field v" "\<forall>(k', v')\<in>set (m_headers r). ci_less k' k"
    using Cons.prems by (auto simp: good_headers_def h sorted_wrt_append)
  then have "process_header (header_line (k, v)) r = Inr (r\<lparr>m_headers := m_headers r @ [(k, v)]\<rparr>)"
    using map_put_last [OF g(3)] by (simp add: process_header_line append_header_def get_header_def good_name_def)
  with Cons.IH [of "r\<lparr>m_headers := m_headers r @ [(k, v)]\<rparr>"] Cons.prems show ?case by (simp add: h)
qed simp

lemma header_is_line: "good_name k \<Longrightarrow> good_field v \<Longrightarrow> is_line (header_line (k, v))"
  using good_name_chars(2) [of k] by (auto simp: is_line_def header_line_def good_field_def)

lemma raw_headers_lines:
  "raw_headers r @ header_delimiter = text_of_lines (map header_line (m_headers r))"
  by (simp add: raw_headers_def text_of_lines_def header_line_def split_def o_def)

subsection \<open>Requests and responses\<close>

definition head_lines :: "string \<Rightarrow> 'a http_parser_scheme \<Rightarrow> string list" where
  "head_lines first r = first # map header_line (m_headers r)"

definition request_first :: "request \<Rightarrow> string" where
  "request_first r = m_method r @ '' '' @ m_uri r @ '' '' @ m_version r"

definition response_first :: "response \<Rightarrow> string" where
  "response_first r = m_version r @ '' '' @ to_string (m_status_code r) @ '' '' @ m_status_msg r"

lemma head_text: "first @ header_delimiter @ raw_headers r @ header_delimiter @ b = text_of_lines (head_lines first r) @ b"
proof -
  have "raw_headers r @ header_delimiter @ b = text_of_lines (map header_line (m_headers r)) @ b"
    using raw_headers_lines [of r] by (metis append_assoc)
  then show ?thesis by (simp add: head_lines_def header_delimiter_def)
qed

lemma request_raw_text: "m_body r = [] \<Longrightarrow> request_raw r = text_of_lines (head_lines (request_first r) r)"
  using head_text [of "request_first r" r "[]"] by (simp add: request_raw_def request_first_def)

lemma response_raw_text: "m_body r = [] \<Longrightarrow> response_raw r = text_of_lines (head_lines (response_first r) r)"
  using head_text [of "response_first r" r "[]"] by (simp add: response_raw_def response_first_def)

lemma run_request_headers: "m_method r \<noteq> [] \<Longrightarrow> run_lines request_line ls r = run_lines process_header ls r"
proof (induction ls arbitrary: r)
  case (Cons l ls)
  show ?case
  proof (cases "process_header l r")
    case (Inr r2)
    with process_header_Inr [OF this] Cons show ?thesis by (auto simp: request_line_def)
  qed (use Cons in \<open>simp add: request_line_def\<close>)
qed simp

lemma run_response_headers: "r_state r \<noteq> RESPONSE_LINE \<Longrightarrow> run_lines response_line ls r = run_lines process_header ls r"
proof (induction ls arbitrary: r)
  case (Cons l ls)
  show ?case
  proof (cases "process_header l r")
    case (Inr r2)
    with process_header_Inr [OF this] Cons show ?thesis by (auto simp: response_line_def)
  qed (use Cons in \<open>simp add: response_line_def\<close>)
qed simp

lemma at_space_at: "CHR '' '' \<notin> set a \<Longrightarrow> at_space (a @ CHR '' '' # b) = Some (a, b)"
  by (simp add: at_space_def find_char_at)

definition good_request :: "request \<Rightarrow> bool" where
  "good_request r \<longleftrightarrow> good_name (m_method r) \<and> CHR '' '' \<notin> set (m_uri r) \<and> lf \<notin> set (m_uri r) \<and> lf \<notin> set (m_version r) \<and>
     good_headers (m_headers r) \<and> get_header ''Host'' r \<noteq> [] \<and> get_header ''Content-Length'' r = [] \<and> m_body r = []"

lemma request_comes_through:
  assumes "good_request r" "concat cs = request_raw r @ later"
    and "charge (head_lines (request_first r) r) + 3 * length cs \<le> max_header_size"
  shows "\<exists>r' rest cs'. feed request_consume m_ready request_new cs = Inr (r', rest # cs') \<and> rest @ concat cs' = later \<and>
    m_ready r' \<and> m_method r' = m_method r \<and> m_uri r' = m_uri r \<and> m_version r' = m_version r \<and> m_headers r' = m_headers r"
proof -
  note g = assms(1) [unfolded good_request_def]
  let ?r' = "request_new\<lparr>m_method := m_method r, m_uri := m_uri r, m_version := m_version r, m_headers := m_headers r\<rparr>"
  have name: "good_name (m_method r)" using g by blast
  have "process_request_line (request_first r) request_new =
      Inr (request_new\<lparr>m_method := m_method r, m_uri := m_uri r, m_version := m_version r\<rparr>)"
    using g name good_name_chars(3) [OF name]
    by (simp add: process_request_line_def request_first_def at_space_at good_name_def)
  then have first: "request_line (request_first r) request_new =
      Inr (request_new\<lparr>m_method := m_method r, m_uri := m_uri r, m_version := m_version r\<rparr>)"
    by (simp add: request_line_def request_new_def)
  have run: "run_lines request_line (head_lines (request_first r) r) (head_of request_new) = Inr ?r'"
    using g name first run_headers [of "request_new\<lparr>m_method := m_method r, m_uri := m_uri r, m_version := m_version r\<rparr>" "m_headers r"]
    by (simp add: head_lines_def head_of_def request_new_def run_request_headers good_name_def)
  have lines: "\<forall>l\<in>set (head_lines (request_first r) r). is_line l"
    using g good_name_chars(2) [OF name] header_is_line
    by (auto simp: head_lines_def request_first_def is_line_def good_headers_def split: prod.splits)
  obtain r1 b2 cs' where f: "feed request_consume m_ready request_new cs =
      bindR (end_request r1 b2) (\<lambda>(r2, rest). if m_ready r2 then Inr (r2, rest # cs') else feed request_consume m_ready r2 cs')"
    "b2 @ concat cs' = later" "head_of r1 = ?r'"
    using request_reader.feed_text [OF lines run, of cs later] assms(2,3) g by (auto simp: request_raw_text request_new_def)
  have r1: "m_method r1 = m_method r" "m_uri r1 = m_uri r" "m_version r1 = m_version r" "m_headers r1 = m_headers r"
    using arg_cong [OF f(3), of m_method] arg_cong [OF f(3), of m_uri] arg_cong [OF f(3), of m_version] arg_cong [OF f(3), of m_headers]
    by (simp_all add: head_of_def)
  then have "end_request r1 b2 = Inr (r1\<lparr>m_buf := [], m_ready := True\<rparr>, b2)"
    using g name by (simp add: end_request_def prepare_body_def get_header_def good_name_def)
  with f(1,2) r1 show ?thesis by simp
qed

definition good_response :: "response \<Rightarrow> bool" where
  "good_response r \<longleftrightarrow> m_version r \<noteq> [] \<and> CHR '' '' \<notin> set (m_version r) \<and> lf \<notin> set (m_version r) \<and> lf \<notin> set (m_status_msg r) \<and>
     int_min \<le> m_status_code r \<and> m_status_code r \<le> int_max \<and>
     good_headers (m_headers r) \<and> get_header ''Content-Length'' r = [] \<and> m_body r = []"

lemma to_string_line: "CHR '' '' \<notin> set (to_string i)" "lf \<notin> set (to_string i)"
  using to_string_chars [of "CHR '' ''" i] to_string_chars [of lf i] by (auto simp: is_digit_def)

lemma response_comes_through:
  assumes "good_response r" "concat cs = response_raw r @ later"
    and "charge (head_lines (response_first r) r) + 3 * length cs \<le> max_header_size"
  shows "\<exists>r' rest cs'. feed response_consume headers_ready response_new cs = Inr (r', rest # cs') \<and> rest @ concat cs' = later \<and>
    headers_ready r' \<and> m_version r' = m_version r \<and> m_status_code r' = m_status_code r \<and> m_status_msg r' = m_status_msg r \<and>
    m_headers r' = m_headers r"
proof -
  note g = assms(1) [unfolded good_response_def]
  let ?r1 = "response_new\<lparr>m_version := m_version r, m_status_code := m_status_code r, m_status_msg := m_status_msg r, r_state := HEADERS\<rparr>"
  let ?r' = "?r1\<lparr>m_headers := m_headers r\<rparr>"
  have "process_response_line (response_first r) response_new =
      Inr (response_new\<lparr>m_version := m_version r, m_status_code := m_status_code r, m_status_msg := m_status_msg r\<rparr>)"
    using g by (simp add: process_response_line_def response_first_def at_space_at to_string_line stream_int_def)
  then have first: "response_line (response_first r) response_new = Inr ?r1"
    by (simp add: response_line_def response_new_def)
  have run: "run_lines response_line (head_lines (response_first r) r) (response_head response_new) = Inr ?r'"
    using g first run_headers [of ?r1 "m_headers r"]
    by (simp add: head_lines_def reader_defs response_new_def run_response_headers)
  have lines: "\<forall>l\<in>set (head_lines (response_first r) r). is_line l"
    using g header_is_line to_string_line
    by (auto simp: head_lines_def response_first_def is_line_def good_headers_def split: prod.splits)
  obtain r1 b2 cs' where f: "feed response_consume headers_ready response_new cs =
      bindR (end_response r1 b2) (\<lambda>(r2, rest). if headers_ready r2 then Inr (r2, rest # cs') else feed response_consume headers_ready r2 cs')"
    "b2 @ concat cs' = later" "response_head r1 = ?r'"
    using response_reader.feed_text [OF lines run, of cs later] assms(2,3) g by (auto simp: response_raw_text response_new_def)
  have r1: "m_version r1 = m_version r" "m_status_code r1 = m_status_code r" "m_status_msg r1 = m_status_msg r"
      "m_headers r1 = m_headers r" "r_state r1 = HEADERS"
    using arg_cong [OF f(3), of m_version] arg_cong [OF f(3), of m_status_code] arg_cong [OF f(3), of m_status_msg]
      arg_cong [OF f(3), of m_headers] arg_cong [OF f(3), of r_state]
    by (simp_all add: reader_defs)
  then obtain r2 where r2: "end_response r1 b2 = Inr (r2, b2)" "headers_ready r2" "m_version r2 = m_version r"
      "m_status_code r2 = m_status_code r" "m_status_msg r2 = m_status_msg r" "m_headers r2 = m_headers r"
    using g by (cases "b2 = []") (auto simp: end_response_def get_header_def response_body_def headers_ready_def Let_def)
  with f(1) have "feed response_consume headers_ready response_new cs = Inr (r2, b2 # cs')" by simp
  with f(2) r2 show ?thesis by (intro exI [of _ r2] exI [of _ b2] exI [of _ cs']) simp
qed

end
