(* ===== verification/Handshake.thy ===== *)
theory Handshake
  imports HttpRound WsServer
begin

text \<open>
  The opening handshake of a websocket: addresses (\<open>websocketpp/uri.hpp\<close>), the parameter lists of headers
  (\<open>http/parser.hpp\<close>), what the processor of version 13 asks for and checks (\<open>processors/hybi13.hpp\<close>,
  \<open>processors/processor.hpp\<close>), and the steps of the connection (\<open>impl/connection_impl.hpp\<close>) on both sides.
\<close>

subsection \<open>Addresses\<close>

record uri =
  u_scheme :: string
  u_credentials :: string
  u_host :: string
  u_resource :: string
  u_port :: nat
  u_secure :: bool
  u_valid :: bool

definition uri_default_port :: nat where "uri_default_port = 80"
definition uri_default_secure_port :: nat where "uri_default_secure_port = 443"

text \<open>\<open>atoi\<close>: the digits as a \<open>long\<close>, of which the low 32 bits are kept.\<close>

definition atoi :: "string \<Rightarrow> int" where
  "atoi s = (case strtol10 s of None \<Rightarrow> 0 | Some i \<Rightarrow> sint (word_of_int (max long_min (min long_max i)) :: 32 word))"

text \<open>The port, and whether it is one.\<close>

definition get_port_from_string :: "bool \<Rightarrow> string \<Rightarrow> nat \<times> bool" where
  "get_port_from_string secure port =
     (if port = [] then (if secure then uri_default_secure_port else uri_default_port, True)
      else let t_port = nat (atoi port mod 2 ^ 32) in (t_port mod 2 ^ 16, t_port \<le> 65535 \<and> t_port \<noteq> 0))"

text \<open>An address that cannot be read is not valid; what had been read of it is not looked at.\<close>

definition no_uri :: uri where
  "no_uri = \<lparr>u_scheme = [], u_credentials = [], u_host = [], u_resource = [], u_port = 0, u_secure = False, u_valid = False\<rparr>"

definition uri_scheme :: "string \<Rightarrow> (bool \<times> string \<times> string) option" where
  "uri_scheme s =
     (if 7 \<le> length s \<and> prefix ''wss://'' s then Some (True, ''wss'', drop 6 s)
      else if 6 \<le> length s \<and> prefix ''ws://'' s then Some (False, ''ws'', drop 5 s)
      else if 8 \<le> length s \<and> prefix ''http://'' s then Some (False, ''http'', drop 7 s)
      else if 9 \<le> length s \<and> prefix ''https://'' s then Some (True, ''https'', drop 8 s)
      else None)"

text \<open>Host, port and what follows the slash; a host in brackets loses them.\<close>

definition host_end :: "char \<Rightarrow> bool" where
  "host_end c \<longleftrightarrow> c = CHR ''/'' \<or> c = CHR '':''"

definition port_and_path :: "string \<Rightarrow> string \<times> string" where
  "port_and_path s = (takeWhile (\<lambda>c. c \<noteq> CHR ''/'') s, drop 1 (dropWhile (\<lambda>c. c \<noteq> CHR ''/'') s))"

definition after_host :: "string \<Rightarrow> (string \<times> string) option" where
  "after_host s =
     (case s of
        [] \<Rightarrow> Some ([], [])
      | c # t \<Rightarrow> if c = CHR ''/'' then Some ([], t) else if c = CHR '':'' then Some (port_and_path t) else None)"

definition split_host :: "string \<Rightarrow> (string \<times> string \<times> string) option" where
  "split_host s =
     (case s of
        c # t \<Rightarrow>
          if c = CHR ''['' then
            (case find_char CHR '']'' t of
               None \<Rightarrow> None
             | Some i \<Rightarrow> map_option (\<lambda>(port, path). (take i t, port, path)) (after_host (drop (Suc i) t)))
          else map_option (\<lambda>(port, path). (takeWhile (\<lambda>c. \<not> host_end c) s, port, path)) (after_host (dropWhile (\<lambda>c. \<not> host_end c) s))
      | [] \<Rightarrow> Some ([], [], []))"

definition uri_parse :: "string \<Rightarrow> uri" where
  "uri_parse uri_string =
     (case uri_scheme uri_string of
        None \<Rightarrow> no_uri
      | Some (secure, scheme, s) \<Rightarrow>
          (let (credentials, s) = (case find_char CHR ''@'' s of None \<Rightarrow> ([], s) | Some i \<Rightarrow> (take i s, drop (Suc i) s)) in
           case split_host s of
             None \<Rightarrow> no_uri
           | Some (host, port, path) \<Rightarrow>
               (case get_port_from_string secure port of (p, ok) \<Rightarrow>
                  if \<not> ok then no_uri
                  else \<lparr>u_scheme = scheme, u_credentials = credentials, u_host = host, u_resource = CHR ''/'' # path,
                        u_port = p, u_secure = secure, u_valid = True\<rparr>)))"

definition get_host_port :: "uri \<Rightarrow> string" where
  "get_host_port u =
     (if u_port u = (if u_secure u then uri_default_secure_port else uri_default_port) then u_host u
      else u_host u @ '':'' @ to_string (int (u_port u)))"

text \<open>The address a server makes of the \<open>Host\<close> header.\<close>

definition rfind :: "char \<Rightarrow> string \<Rightarrow> nat option" where
  "rfind c s = map_option (\<lambda>i. length s - 1 - i) (find_char c (rev s))"

definition get_uri_from_host :: "request \<Rightarrow> string \<Rightarrow> uri" where
  "get_uri_from_host r scheme =
     (let h = get_header ''Host'' r; secure = (scheme = ''wss'' \<or> scheme = ''https'');
          u = no_uri\<lparr>u_scheme := scheme, u_secure := secure, u_resource := (if m_uri r = [] then ''/'' else m_uri r)\<rparr>
      in case rfind CHR '':'' h of
           None \<Rightarrow> u\<lparr>u_host := h, u_port := (if secure then uri_default_secure_port else uri_default_port), u_valid := True\<rparr>
         | Some last_colon \<Rightarrow>
             (if (case rfind CHR '']'' h of None \<Rightarrow> False | Some last_sbrace \<Rightarrow> last_colon < last_sbrace)
              then u\<lparr>u_host := h, u_port := (if secure then uri_default_secure_port else uri_default_port), u_valid := True\<rparr>
              else case get_port_from_string secure (drop (Suc last_colon) h) of (p, ok) \<Rightarrow>
                u\<lparr>u_host := take last_colon h, u_port := p, u_valid := ok\<rparr>))"

subsection \<open>Parameter lists\<close>

definition extract_token :: "string \<Rightarrow> string \<times> string" where
  "extract_token s = (takeWhile (\<lambda>c. \<not> is_not_token_char c) s, dropWhile (\<lambda>c. \<not> is_not_token_char c) s)"

text \<open>A quoted string after its first quote; a quote after a backslash belongs to it.\<close>

function quoted_rest :: "string \<Rightarrow> string \<Rightarrow> (string \<times> string) option" where
  "quoted_rest s cursor =
     (case find_char CHR 0x22 cursor of
        None \<Rightarrow> None
      | Some i \<Rightarrow>
          (let part = take i cursor; after = drop (Suc i) cursor in
           if part \<noteq> [] \<and> last part = CHR 0x5C then quoted_rest (s @ butlast part @ [CHR 0x22]) after
           else Some (s @ part, after)))"
  by pat_completeness auto
termination
  by (relation "measure (\<lambda>(s, cursor). length cursor)") (auto dest!: find_char_Some)

declare quoted_rest.simps [simp del]

definition extract_quoted_string :: "string \<Rightarrow> (string \<times> string) option" where
  "extract_quoted_string s = (case s of [] \<Rightarrow> None | c # t \<Rightarrow> if c = CHR 0x22 then quoted_rest [] t else None)"

type_synonym attribute_list = "string \<Rightarrow> string option"

text \<open>
  The attributes from the cursor on, and where they end; \<open>None\<close> is the start of the range, which is an
  error. \<open>first\<close> is whether no attribute has been read yet.
\<close>

lemma extract_all_lws_le: "length (extract_all_lws s) \<le> length s"
proof (induction s rule: extract_all_lws.induct)
  case (1 s)
  have "length (extract_lws s) \<le> length s" using extract_lws_suffix by (rule suffix_length_le)
  with 1 show ?case by (subst extract_all_lws.simps) auto
qed

lemma extract_token_less: "extract_token s = (t, rest) \<Longrightarrow> t \<noteq> [] \<Longrightarrow> length rest < length s"
proof -
  assume "extract_token s = (t, rest)" "t \<noteq> []"
  then have "s = t @ rest" "t \<noteq> []" by (auto simp: extract_token_def)
  then show ?thesis by simp
qed

definition attribute_value :: "string \<Rightarrow> (string \<times> string) option" where
  "attribute_value cursor =
     (if cursor = [] then None
      else case extract_quoted_string cursor of
        Some r \<Rightarrow> Some r
      | None \<Rightarrow> (case extract_token cursor of (t, rest) \<Rightarrow> if t = [] then None else Some (t, rest)))"

lemma quoted_rest_le: "quoted_rest s cursor = Some (t, rest) \<Longrightarrow> length rest \<le> length cursor"
proof (induction s cursor rule: quoted_rest.induct)
  case (1 s cursor)
  then show ?case by (subst (asm) (2) quoted_rest.simps) (fastforce simp: Let_def split: option.splits if_splits)
qed

lemma attribute_value_le: "attribute_value cursor = Some (t, rest) \<Longrightarrow> length rest \<le> length cursor"
  by (auto simp: attribute_value_def extract_quoted_string_def split: if_splits option.splits list.splits prod.splits
      dest: quoted_rest_le extract_token_less)

lemma length_or_tail: "length c \<le> n \<Longrightarrow> length (if first then c else tl c) \<le> n"
  by (cases first; cases c) auto

lemma token_step: "extract_token (extract_all_lws s) = (name, c2) \<Longrightarrow> name \<noteq> [] \<Longrightarrow> length (extract_all_lws c2) < length s"
  using extract_token_less [of "extract_all_lws s" name c2] extract_all_lws_le [of s] extract_all_lws_le [of c2] by simp

lemma value_step: "attribute_value (extract_all_lws (tl c)) = Some (v, c4) \<Longrightarrow> length c4 \<le> length c"
  using attribute_value_le [of "extract_all_lws (tl c)" v c4] extract_all_lws_le [of "tl c"] by simp

function extract_attributes :: "bool \<Rightarrow> string \<Rightarrow> attribute_list \<Rightarrow> (attribute_list \<times> string) option" where
  "extract_attributes first cursor attributes =
     (let c1 = extract_all_lws cursor in
      if cursor = [] \<or> c1 = [] then Some (attributes, [])
      else if \<not> first \<and> hd c1 \<noteq> CHR '';'' then Some (attributes, c1)
      else case extract_token (extract_all_lws (if first then c1 else tl c1)) of
        (name, c2) \<Rightarrow>
          if name = [] then None
          else (let c3 = extract_all_lws c2 in
            if c3 = [] \<or> hd c3 \<noteq> CHR ''='' then extract_attributes False c3 (attributes(name \<mapsto> []))
            else case attribute_value (extract_all_lws (tl c3)) of
              None \<Rightarrow> None
            | Some (v, c4) \<Rightarrow> extract_attributes False c4 (attributes(name \<mapsto> v))))"
  by pat_completeness auto
termination
proof (relation "measure (\<lambda>(first, cursor, attributes). length cursor)", goal_cases)
  case (2 first cursor attributes c1 name c2 c3)
  have "length c1 \<le> length cursor" using extract_all_lws_le [of cursor] 2 by simp
  then have "length (if first then c1 else tl c1) \<le> length cursor" by (rule length_or_tail)
  with token_step [of "if first then c1 else tl c1" name c2] 2 show ?case by simp
next
  case (3 first cursor attributes c1 name c2 c3 q v c4)
  have "length c1 \<le> length cursor" using extract_all_lws_le [of cursor] 3 by simp
  then have "length (if first then c1 else tl c1) \<le> length cursor" by (rule length_or_tail)
  moreover have "length c3 < length (if first then c1 else tl c1)"
    using token_step [of "if first then c1 else tl c1" name c2] 3 by simp
  moreover have "length c4 \<le> length c3" using value_step [of c3 v c4] 3 by simp
  ultimately show ?case by simp
qed simp

declare extract_attributes.simps [simp del]

lemma extract_attributes_le: "extract_attributes first cursor as = Some (bs, rest) \<Longrightarrow> length rest \<le> length cursor"
proof (induction "length cursor" arbitrary: first cursor as rule: less_induct)
  case less
  let ?c1 = "extract_all_lws cursor"
  have c1: "length ?c1 \<le> length cursor" by (rule extract_all_lws_le)
  obtain name c2 where t: "extract_token (extract_all_lws (if first then ?c1 else tl ?c1)) = (name, c2)" by force
  let ?c3 = "extract_all_lws c2"
  note e = less.prems [unfolded extract_attributes.simps [of first cursor as] Let_def t prod.case]
  show ?case
  proof (cases "cursor = [] \<or> ?c1 = [] \<or> \<not> first \<and> hd ?c1 \<noteq> CHR '';'' \<or> name = []")
    case True
    with e c1 show ?thesis by (auto split: if_splits)
  next
    case False
    then have c3: "length ?c3 < length cursor" using token_step [OF t] length_or_tail [OF c1, of first] by simp
    show ?thesis
    proof (cases "?c3 = [] \<or> hd ?c3 \<noteq> CHR ''=''")
      case True
      with e False have "extract_attributes False ?c3 (as(name \<mapsto> [])) = Some (bs, rest)" by (simp split: if_splits)
      from less.hyps [OF c3 this] c3 show ?thesis by simp
    next
      case no: False
      with e False obtain v c4 where v: "attribute_value (extract_all_lws (tl ?c3)) = Some (v, c4)"
        "extract_attributes False c4 (as(name \<mapsto> v)) = Some (bs, rest)" by (auto split: if_splits option.splits)
      have "length c4 < length cursor" using value_step [OF v(1)] c3 by simp
      from less.hyps [OF this v(2)] this show ?thesis by simp
    qed
  qed
qed

type_synonym parameter_list = "(string \<times> attribute_list) list"

function extract_parameters :: "string \<Rightarrow> parameter_list \<Rightarrow> parameter_list option" where
  "extract_parameters cursor parameters =
     (let c1 = extract_all_lws cursor in
      if cursor = [] \<or> c1 = [] then Some parameters
      else case extract_token c1 of
        (name, c2) \<Rightarrow>
          if name = [] then None
          else (let c3 = extract_all_lws c2 in
            if c3 = [] then Some (parameters @ [(name, Map.empty)])
            else case (if hd c3 = CHR '';'' then (if tl c3 = [] then None else extract_attributes True (tl c3) Map.empty)
                       else Some (Map.empty, c3)) of
              None \<Rightarrow> None
            | Some (attributes, c4) \<Rightarrow>
                (let c5 = extract_all_lws c4; ps = parameters @ [(name, attributes)] in
                 if c5 = [] \<or> hd c5 \<noteq> CHR '','' then Some ps
                 else if tl c5 = [] then None
                 else extract_parameters (tl c5) ps)))"
  by pat_completeness auto
termination
proof (relation "measure (\<lambda>(cursor, ps). length cursor)", goal_cases)
  case (2 cursor ps c1 name c2 c3 q attributes c4 c5 ps')
  have "length c3 < length cursor" using token_step [of cursor name c2] 2 by simp
  moreover have "length c4 \<le> length c3"
    using 2 extract_attributes_le [of True "tl c3" Map.empty attributes c4] by (auto split: if_splits)
  moreover have "length c5 \<le> length c4" using extract_all_lws_le [of c4] 2 by simp
  ultimately show ?case by simp
qed simp

declare extract_parameters.simps [simp del]

text \<open>The parameters of a header, \<open>None\<close> if they cannot be parsed.\<close>

definition get_header_as_plist :: "string \<Rightarrow> 'a http_parser_scheme \<Rightarrow> parameter_list option" where
  "get_header_as_plist key r =
     (if get_header key r = [] then Some [] else extract_parameters (get_header key r) [])"

subsection \<open>The processor\<close>

datatype handshake_error =
    http_parse_error | invalid_version | unsupported_version | invalid_http_method | invalid_http_version
  | missing_required_header | extension_parse_error | invalid_uri | rejected | upgrade_required
  | general_error | invalid_http_status | extension_neg_failed

definition upper_char :: "char \<Rightarrow> char" where
  "upper_char c = (let n = of_char c :: nat in if 97 \<le> n \<and> n \<le> 122 then char_of (n - 32) else c)"

text \<open>Whether \<open>ci_find_substr\<close> finds something.\<close>

definition ci_find_substr :: "string \<Rightarrow> string \<Rightarrow> bool" where
  "ci_find_substr haystack needle = contains (map upper_char haystack) (map upper_char needle)"

definition is_websocket_handshake :: "'a http_parser_scheme \<Rightarrow> bool" where
  "is_websocket_handshake r \<longleftrightarrow>
     ci_find_substr (get_header ''Upgrade'' r) ''websocket'' \<and> ci_find_substr (get_header ''Connection'' r) ''Upgrade''"

definition get_websocket_version :: "request \<Rightarrow> int" where
  "get_websocket_version r =
     (if \<not> m_ready r then - 2
      else if get_header ''Sec-WebSocket-Version'' r = [] then 0
      else case stream_int (get_header ''Sec-WebSocket-Version'' r) of None \<Rightarrow> - 1 | Some version \<Rightarrow> version)"

definition validate_handshake :: "request \<Rightarrow> handshake_error option" where
  "validate_handshake r =
     (if m_method r \<noteq> ''GET'' then Some invalid_http_method
      else if m_version r \<noteq> ''HTTP/1.1'' then Some invalid_http_version
      else if get_header ''Sec-WebSocket-Key'' r = [] then Some missing_required_header
      else None)"

text \<open>The program has no extension; the header is parsed all the same.\<close>

definition negotiate_extensions :: "'a http_parser_scheme \<Rightarrow> handshake_error option" where
  "negotiate_extensions r =
     (case get_header_as_plist ''Sec-WebSocket-Extensions'' r of None \<Rightarrow> Some extension_parse_error | Some p \<Rightarrow> None)"

definition extract_subprotocols :: "request \<Rightarrow> string list" where
  "extract_subprotocols r =
     (if get_header ''Sec-WebSocket-Protocol'' r \<noteq> [] then
        (case get_header_as_plist ''Sec-WebSocket-Protocol'' r of None \<Rightarrow> [] | Some p \<Rightarrow> map fst p)
      else [])"

definition process_handshake :: "request \<Rightarrow> string \<Rightarrow> response \<Rightarrow> status_code + response" where
  "process_handshake r subprotocol resp =
     (let server_key = process_handshake_key (get_header ''Sec-WebSocket-Key'' r) in
      bindR (append_header ''Upgrade'' ''websocket'' (replace_header ''Sec-WebSocket-Accept'' server_key resp)) (\<lambda>resp.
      bindR (append_header ''Connection'' ''Upgrade'' resp) (\<lambda>resp.
      Inr (if subprotocol \<noteq> [] then replace_header ''Sec-WebSocket-Protocol'' subprotocol resp else resp))))"

text \<open>The key is made of four numbers of the generator.\<close>

definition join_protocols :: "string list \<Rightarrow> string" where
  "join_protocols ps = (case ps of [] \<Rightarrow> [] | p # qs \<Rightarrow> p @ concat (map (\<lambda>q. '', '' @ q) qs))"

definition client_handshake_request :: "uri \<Rightarrow> string list \<Rightarrow> (nat \<Rightarrow> 32 word) \<Rightarrow> request \<Rightarrow> status_code + request" where
  "client_handshake_request u subprotocols rng req =
     (let req = req\<lparr>m_method := ''GET'', m_uri := u_resource u, m_version := ''HTTP/1.1''\<rparr> in
      bindR (append_header ''Upgrade'' ''websocket'' req) (\<lambda>req.
      bindR (append_header ''Connection'' ''Upgrade'' req) (\<lambda>req.
      let req = replace_header ''Host'' (get_host_port u) (replace_header ''Sec-WebSocket-Version'' ''13'' req);
          req = (if subprotocols \<noteq> [] then replace_header ''Sec-WebSocket-Protocol'' (join_protocols subprotocols) req else req);
          req = (if u_credentials u \<noteq> []
                 then replace_header ''Authorization'' (''Basic '' @ base64_encode (bytes_of (u_credentials u))) req
                 else req);
          raw_key = concat (map (\<lambda>i. le_bytes 4 (rng i)) [0..<4])
      in Inr (replace_header ''Sec-WebSocket-Key'' (base64_encode raw_key) req))))"

definition validate_server_handshake_response :: "request \<Rightarrow> response \<Rightarrow> handshake_error option" where
  "validate_server_handshake_response req res =
     (if m_status_code res \<noteq> 101 then Some invalid_http_status
      else if \<not> ci_find_substr (get_header ''Upgrade'' res) ''websocket'' then Some missing_required_header
      else if \<not> ci_find_substr (get_header ''Connection'' res) ''Upgrade'' then Some missing_required_header
      else if process_handshake_key (get_header ''Sec-WebSocket-Key'' req) \<noteq> get_header ''Sec-WebSocket-Accept'' res
        then Some missing_required_header
      else None)"

subsection \<open>The side of the server\<close>

datatype chosen = Plain_http | Version13 | Older_version int

definition initialize_processor :: "request \<Rightarrow> response \<Rightarrow> response \<times> handshake_error + chosen" where
  "initialize_processor r resp =
     (if \<not> is_websocket_handshake r then Inr Plain_http
      else let version = get_websocket_version r in
        if version < 0 then Inl (set_status 400 resp, invalid_version)
        else if version = 13 then Inr Version13
        else if version = 0 \<or> version = 7 \<or> version = 8 then Inr (Older_version version)
        else Inl (replace_header ''Sec-WebSocket-Version'' ''0,7,8,13'' (set_status 400 resp), unsupported_version))"

text \<open>
  The request is complete: the response, the error, and the subprotocol the server has chosen. There is
  no handler for plain HTTP; the validation of the application is \<open>on_validate\<close>.
\<close>

definition process_handshake_request :: "chosen \<Rightarrow> request \<Rightarrow> response \<Rightarrow> response \<times> handshake_error option \<times> string" where
  "process_handshake_request p r resp =
     (if p = Plain_http then
        (if \<not> u_valid (get_uri_from_host r ''http'') then (set_status 400 resp, Some invalid_uri, [])
         else (set_status 426 resp, Some upgrade_required, []))
      else case validate_handshake r of
        Some e \<Rightarrow> (set_status 400 resp, Some e, [])
      | None \<Rightarrow>
          (case negotiate_extensions r of
             Some e \<Rightarrow> (set_status 400 resp, Some e, [])
           | None \<Rightarrow>
               if \<not> u_valid (get_uri_from_host r ''ws'') then (set_status 400 resp, Some invalid_uri, [])
               else if on_validate True (extract_subprotocols r) then
                 (case process_handshake r ''PMS'' (set_status 101 resp) of
                    Inl code \<Rightarrow> (set_status 500 resp, Some general_error, [])
                  | Inr resp \<Rightarrow> (resp, None, ''PMS''))
               else (if m_status_code resp = 0 then set_status 400 resp else resp, Some rejected, [])))"

definition write_http_response :: "string \<Rightarrow> response \<Rightarrow> handshake_error option \<Rightarrow> response \<times> handshake_error option" where
  "write_http_response user_agent resp ec =
     (let (resp, ec) = (if m_status_code resp = 0 then (set_status 500 resp, Some general_error) else (resp, ec));
          resp = resp\<lparr>m_version := ''HTTP/1.1''\<rparr>
      in (if get_header ''Server'' resp = [] then
            (if user_agent \<noteq> [] then replace_header ''Server'' user_agent resp else remove_header ''Server'' resp)
          else resp, ec))"

datatype server_step =
    Server_reading request
  | Server_answers request response "handshake_error option" string string
      \<comment> \<open>the request, the response, the error, the subprotocol and the bytes after the request\<close>
  | Server_older request int

definition server_ready :: "string \<Rightarrow> request \<Rightarrow> string \<Rightarrow> server_step" where
  "server_ready user_agent r rest =
     (case initialize_processor r response_new of
        Inl (resp, e) \<Rightarrow> (case write_http_response user_agent resp (Some e) of (resp, ec) \<Rightarrow> Server_answers r resp ec [] rest)
      | Inr (Older_version v) \<Rightarrow> Server_older r v
      | Inr p \<Rightarrow>
          (case process_handshake_request p r response_new of
             (resp, ec, subprotocol) \<Rightarrow>
               (case write_http_response user_agent resp ec of (resp, ec) \<Rightarrow> Server_answers r resp ec subprotocol rest)))"

definition handle_read_handshake :: "string \<Rightarrow> request \<Rightarrow> string \<Rightarrow> server_step" where
  "handle_read_handshake user_agent r buf =
     (case request_consume r buf of
        Inl code \<Rightarrow>
          (case write_http_response user_agent (response_new\<lparr>m_status_code := code, m_status_msg := []\<rparr>) (Some http_parse_error) of
             (resp, ec) \<Rightarrow> Server_answers r resp ec [] [])
      | Inr (r', rest) \<Rightarrow> if m_ready r' then server_ready user_agent r' rest else Server_reading r')"

fun server_reads :: "string \<Rightarrow> request \<Rightarrow> string list \<Rightarrow> server_step \<times> string list" where
  "server_reads user_agent r [] = (Server_reading r, [])"
| "server_reads user_agent r (c # cs) =
     (case handle_read_handshake user_agent r c of
        Server_reading r' \<Rightarrow> server_reads user_agent r' cs
      | answer \<Rightarrow> (answer, cs))"

subsection \<open>The side of the client\<close>

definition add_subprotocol :: "string \<Rightarrow> string list \<Rightarrow> string list option" where
  "add_subprotocol value subprotocols =
     (if value = [] \<or> list_ex is_not_token_char value then None else Some (subprotocols @ [value]))"

definition send_http_request :: "string \<Rightarrow> uri \<Rightarrow> string list \<Rightarrow> (nat \<Rightarrow> 32 word) \<Rightarrow> status_code + request" where
  "send_http_request user_agent u subprotocols rng =
     bindR (client_handshake_request u subprotocols rng request_new) (\<lambda>req.
       Inr (if get_header ''User-Agent'' req = [] then
              (if user_agent \<noteq> [] then replace_header ''User-Agent'' user_agent req else remove_header ''User-Agent'' req)
            else req))"

text \<open>After a failed negotiation the connection is terminated, and nevertheless opened.\<close>

datatype client_step =
    Client_reading response
  | Client_terminated handshake_error
  | Client_opened response bool string
      \<comment> \<open>whether it was terminated before, and the bytes after the response\<close>

definition handle_read_http_response :: "request \<Rightarrow> response \<Rightarrow> string \<Rightarrow> client_step" where
  "handle_read_http_response req resp buf =
     (case response_consume resp buf of
        Inl code \<Rightarrow> Client_terminated general_error
      | Inr (resp', rest) \<Rightarrow>
          if headers_ready resp' then
            (case validate_server_handshake_response req resp' of
               Some e \<Rightarrow> Client_terminated e
             | None \<Rightarrow> Client_opened resp' (negotiate_extensions resp' \<noteq> None) rest)
          else Client_reading resp')"

fun client_reads :: "request \<Rightarrow> response \<Rightarrow> string list \<Rightarrow> client_step \<times> string list" where
  "client_reads req resp [] = (Client_reading resp, [])"
| "client_reads req resp (c # cs) =
     (case handle_read_http_response req resp c of
        Client_reading resp' \<Rightarrow> client_reads req resp' cs
      | result \<Rightarrow> (result, cs))"

end
