(* ===== verification/HandshakeRound.thy ===== *)
theory HandshakeRound
  imports Handshake
begin

text \<open>
  A gate and the server open their connection: the request of the gate is read by the server as it was
  written, and the answer by the gate.
\<close>

definition user_agent :: string where "user_agent = ''WebSocket++/0.8.2''"

definition request_headers :: "string \<Rightarrow> string \<Rightarrow> header_list" where
  "request_headers host key =
     [(''Connection'', ''Upgrade''), (''Host'', host), (''Sec-WebSocket-Key'', key), (''Sec-WebSocket-Protocol'', ''PMS''),
      (''Sec-WebSocket-Version'', ''13''), (''Upgrade'', ''websocket''), (''User-Agent'', user_agent)]"

definition client_key :: "(nat \<Rightarrow> 32 word) \<Rightarrow> string" where
  "client_key rng = base64_encode (concat (map (\<lambda>i. le_bytes 4 (rng i)) [0..<4]))"

lemma header_names: "\<not> list_ex is_not_token_char ''Upgrade''" "\<not> list_ex is_not_token_char ''Connection''"
  by code_simp+

lemma request_header_list:
  "map_put ''Sec-WebSocket-Key'' k (map_put ''Sec-WebSocket-Protocol'' ''PMS'' (map_put ''Host'' h
     (map_put ''Sec-WebSocket-Version'' ''13'' (map_put ''Connection'' ''Upgrade'' (map_put ''Upgrade'' ''websocket'' []))))) =
   butlast (request_headers h k)"
  "map_put ''User-Agent'' user_agent (butlast (request_headers h k)) = request_headers h k"
  "map_find ''User-Agent'' (butlast (request_headers h k)) = None"
  "map_find ''Upgrade'' [] = None" "map_find ''Connection'' (map_put ''Upgrade'' ''websocket'' []) = None"
  by (simp_all add: request_headers_def lower_char_def)

lemma gate_request:
  assumes "u_credentials u = []"
  shows "send_http_request user_agent u [''PMS''] rng =
    Inr (request_new\<lparr>m_method := ''GET'', m_uri := u_resource u, m_version := ''HTTP/1.1'',
      m_headers := request_headers (get_host_port u) (client_key rng)\<rparr>)"
proof -
  let ?r = "request_new\<lparr>m_method := ''GET'', m_uri := u_resource u, m_version := ''HTTP/1.1''\<rparr>"
  have a: "append_header ''Upgrade'' ''websocket'' ?r = Inr (?r\<lparr>m_headers := map_put ''Upgrade'' ''websocket'' []\<rparr>)"
    using header_names request_header_list(4) by (simp add: append_header_def get_header_def request_new_def del: map_put.simps)
  have b: "append_header ''Connection'' ''Upgrade'' (?r\<lparr>m_headers := map_put ''Upgrade'' ''websocket'' []\<rparr>) =
      Inr (?r\<lparr>m_headers := map_put ''Connection'' ''Upgrade'' (map_put ''Upgrade'' ''websocket'' [])\<rparr>)"
    using header_names request_header_list(5) by (simp add: append_header_def get_header_def del: map_put.simps map_find.simps)
  have "client_handshake_request u [''PMS''] rng request_new =
      Inr (?r\<lparr>m_headers := butlast (request_headers (get_host_port u) (client_key rng))\<rparr>)"
    unfolding client_handshake_request_def Let_def a bindR.simps b request_header_list(1) [symmetric]
    using assms by (simp add: replace_header_def join_protocols_def client_key_def del: map_put.simps)
  moreover have "user_agent \<noteq> []" by (simp add: user_agent_def)
  ultimately show ?thesis
    by (simp add: send_http_request_def get_header_def replace_header_def request_header_list)
qed

subsection \<open>The request\<close>

lemma base64_field: "base64_text s \<Longrightarrow> s \<noteq> [] \<Longrightarrow> good_field s"
proof -
  assume s: "base64_text s" "s \<noteq> []"
  have "list_all (\<lambda>c. \<not> is_whitespace_char c \<and> c \<noteq> lf) (base64_chars @ ''='')"
    by (simp add: base64_chars_def is_whitespace_char_def)
  then have "\<forall>c\<in>set base64_chars \<union> {CHR ''=''}. \<not> is_whitespace_char c \<and> c \<noteq> lf" by (simp add: list_all_iff)
  then have "\<forall>c\<in>set s. \<not> is_whitespace_char c \<and> c \<noteq> lf" using s(1) unfolding base64_text_def by blast
  then show ?thesis unfolding good_field_def using s(2) hd_in_set [OF s(2)] last_in_set [OF s(2)] by blast
qed

lemma length_concat_4: "length (concat (map (\<lambda>i. le_bytes 4 (f i)) [0..<4])) = 16"
  by (simp add: upt_rec)

lemma client_key: "base64_text (client_key rng)" "length (client_key rng) = 24" "good_field (client_key rng)"
proof -
  show t: "base64_text (client_key rng)" by (simp add: client_key_def base64_encode_text)
  show l: "length (client_key rng) = 24" by (simp add: client_key_def length_base64 length_concat_4)
  then have "client_key rng \<noteq> []" by auto
  with t show "good_field (client_key rng)" by (rule base64_field)
qed

lemma names_and_values:
  "list_all good_name [''Connection'', ''Host'', ''Sec-WebSocket-Key'', ''Sec-WebSocket-Protocol'', ''Sec-WebSocket-Version'',
     ''Upgrade'', ''User-Agent'', ''Sec-WebSocket-Accept'', ''Server'', ''GET'']"
  "list_all good_field [''Upgrade'', ''PMS'', ''13'', ''websocket'', user_agent]"
  by code_simp (simp add: good_field_def is_whitespace_char_def user_agent_def)

lemma good_request_headers:
  assumes "good_field host" "good_field key"
  shows "good_headers (request_headers host key)"
proof -
  have "sorted_wrt ci_less (map fst (request_headers host key))" by (simp add: request_headers_def lower_char_def)
  then have "sorted_wrt (\<lambda>a b. ci_less (fst a) (fst b)) (request_headers host key)" by (simp only: sorted_wrt_map)
  moreover have "\<forall>(k, v)\<in>set (request_headers host key). good_name k \<and> good_field v"
    using assms names_and_values by (simp add: request_headers_def)
  ultimately show ?thesis by (simp only: good_headers_def simp_thms)
qed

lemma request_finds:
  "map_find ''Host'' (request_headers h k) = Some h" "map_find ''Content-Length'' (request_headers h k) = None"
  "map_find ''Upgrade'' (request_headers h k) = Some ''websocket''" "map_find ''Connection'' (request_headers h k) = Some ''Upgrade''"
  "map_find ''Sec-WebSocket-Version'' (request_headers h k) = Some ''13''" "map_find ''Sec-WebSocket-Key'' (request_headers h k) = Some k"
  "map_find ''Sec-WebSocket-Protocol'' (request_headers h k) = Some ''PMS''"
  "map_find ''Sec-WebSocket-Extensions'' (request_headers h k) = None"
  by (simp_all add: request_headers_def lower_char_def)

lemma charge_head: "charge (head_lines first r) = length first + 6 + (\<Sum>(k, v)\<leftarrow>m_headers r. length k + length v + 5)"
proof -
  have "charge (map header_line hs) = 3 + (\<Sum>(k, v)\<leftarrow>hs. length k + length v + 5)" for hs
    by (induction hs) (auto simp: header_line_def)
  then show ?thesis by (simp add: head_lines_def)
qed

subsection \<open>The answer\<close>

definition response_headers :: "string \<Rightarrow> header_list" where
  "response_headers accept =
     [(''Connection'', ''Upgrade''), (''Sec-WebSocket-Accept'', accept), (''Sec-WebSocket-Protocol'', ''PMS''),
      (''Server'', user_agent), (''Upgrade'', ''websocket'')]"

lemma response_header_list:
  "map_put ''Server'' user_agent (map_put ''Sec-WebSocket-Protocol'' ''PMS'' (map_put ''Connection'' ''Upgrade''
     (map_put ''Upgrade'' ''websocket'' (map_put ''Sec-WebSocket-Accept'' a [])))) = response_headers a"
  "map_find ''Upgrade'' (map_put ''Sec-WebSocket-Accept'' a []) = None"
  "map_find ''Connection'' (map_put ''Upgrade'' ''websocket'' (map_put ''Sec-WebSocket-Accept'' a [])) = None"
  "map_find ''Server'' (map_put ''Sec-WebSocket-Protocol'' ''PMS'' (map_put ''Connection'' ''Upgrade''
     (map_put ''Upgrade'' ''websocket'' (map_put ''Sec-WebSocket-Accept'' a [])))) = None"
  by (simp_all add: response_headers_def lower_char_def)

lemma response_finds:
  "map_find ''Content-Length'' (response_headers a) = None"
  "map_find ''Upgrade'' (response_headers a) = Some ''websocket''" "map_find ''Connection'' (response_headers a) = Some ''Upgrade''"
  "map_find ''Sec-WebSocket-Accept'' (response_headers a) = Some a"
  "map_find ''Sec-WebSocket-Extensions'' (response_headers a) = None"
  by (simp_all add: response_headers_def lower_char_def)

definition switching :: "string \<Rightarrow> response" where
  "switching key = response_new\<lparr>m_status_code := 101, m_status_msg := ''Switching Protocols'', m_version := ''HTTP/1.1'',
     m_headers := response_headers (process_handshake_key key)\<rparr>"

lemma good_response_headers:
  assumes "good_field a"
  shows "good_headers (response_headers a)"
proof -
  have "sorted_wrt ci_less (map fst (response_headers a))" by (simp add: response_headers_def lower_char_def)
  then have "sorted_wrt (\<lambda>a b. ci_less (fst a) (fst b)) (response_headers a)" by (simp only: sorted_wrt_map)
  moreover have "\<forall>(k, v)\<in>set (response_headers a). good_name k \<and> good_field v"
    using assms names_and_values by (simp add: response_headers_def)
  ultimately show ?thesis by (simp only: good_headers_def simp_thms)
qed

lemma switching_key: "good_field (process_handshake_key key)"
proof -
  have "process_handshake_key key \<noteq> []" using handshake_key_text(2) [of key] by auto
  with base64_field handshake_key_text(1) show ?thesis by blast
qed

lemma good_switching: "good_response (switching key)"
proof -
  have "CHR '' '' \<notin> set ''HTTP/1.1''" "lf \<notin> set ''HTTP/1.1''" "lf \<notin> set ''Switching Protocols''" by code_simp+
  moreover have "int_min \<le> 101 \<and> 101 \<le> int_max" by (simp add: int_min_def int_max_def)
  ultimately show ?thesis using good_response_headers [OF switching_key]
    by (simp add: good_response_def switching_def get_header_def response_finds) (simp add: response_new_def)
qed

lemma process_handshake_eq:
  assumes "get_header ''Sec-WebSocket-Key'' r = key"
  shows "\<exists>resp. process_handshake r ''PMS'' (set_status 101 response_new) = Inr resp \<and> m_status_code resp = 101 \<and>
    write_http_response user_agent resp None = (switching key, None)"
proof -
  let ?a = "process_handshake_key key" and ?r = "set_status 101 response_new"
  let ?h1 = "map_put ''Upgrade'' ''websocket'' (map_put ''Sec-WebSocket-Accept'' ?a [])"
  let ?h = "map_put ''Sec-WebSocket-Protocol'' ''PMS'' (map_put ''Connection'' ''Upgrade'' ?h1)"
  have a: "append_header ''Upgrade'' ''websocket'' (replace_header ''Sec-WebSocket-Accept'' ?a ?r) = Inr (?r\<lparr>m_headers := ?h1\<rparr>)"
    using header_names response_header_list(2)
    by (simp add: append_header_def get_header_def replace_header_def set_status_def response_new_def del: map_put.simps map_find.simps)
  have b: "append_header ''Connection'' ''Upgrade'' (?r\<lparr>m_headers := ?h1\<rparr>) =
      Inr (?r\<lparr>m_headers := map_put ''Connection'' ''Upgrade'' ?h1\<rparr>)"
    using header_names response_header_list(3)
    by (simp add: append_header_def get_header_def del: map_put.simps map_find.simps)
  have "process_handshake r ''PMS'' ?r = Inr (?r\<lparr>m_headers := ?h\<rparr>)"
    unfolding process_handshake_def assms Let_def a bindR.simps b
    by (simp add: replace_header_def del: map_put.simps)
  moreover have "write_http_response user_agent (?r\<lparr>m_headers := ?h\<rparr>) None = (switching key, None)"
  proof -
    have "user_agent \<noteq> []" by (simp add: user_agent_def)
    then have "write_http_response user_agent (?r\<lparr>m_headers := ?h\<rparr>) None =
        (?r\<lparr>m_headers := response_headers ?a, m_version := ''HTTP/1.1''\<rparr>, None)"
      using response_header_list(1,4) [of ?a]
      by (simp add: write_http_response_def set_status_def get_header_def replace_header_def del: map_put.simps map_find.simps)
    also have "?r\<lparr>m_headers := response_headers ?a, m_version := ''HTTP/1.1''\<rparr> = switching key"
      by (simp add: switching_def set_status_def status_string_def response_new_def)
    finally show ?thesis .
  qed
  moreover have "m_status_code (?r\<lparr>m_headers := ?h\<rparr>) = 101" by (simp add: set_status_def)
  ultimately show ?thesis by blast
qed

subsection \<open>Addresses\<close>

definition gate_url :: "string \<Rightarrow> nat \<Rightarrow> string \<Rightarrow> string" where
  "gate_url host port gid = ''ws://'' @ host @ '':'' @ to_string (int port) @ ''/'' @ gid"

definition good_host :: "string \<Rightarrow> bool" where
  "good_host host \<longleftrightarrow> good_field host \<and> set host \<inter> {CHR ''/'', CHR '':'', CHR ''@'', CHR ''['', CHR '']''} = {}"

definition good_id :: "string \<Rightarrow> bool" where
  "good_id gid \<longleftrightarrow> CHR '' '' \<notin> set gid \<and> lf \<notin> set gid \<and> CHR ''@'' \<notin> set gid"

lemma to_string_not: "c \<in> set (to_string i) \<Longrightarrow> c \<noteq> CHR ''/'' \<and> c \<noteq> CHR '':'' \<and> c \<noteq> CHR ''@'' \<and> c \<noteq> CHR '']'' \<and> c \<noteq> CHR '' ''"
  using to_string_chars [of c i] by (auto simp: is_digit_def)

lemma to_string_not_Nil: "to_string i \<noteq> []"
  by (simp add: to_string_def)

lemma atoi_to_string: "0 \<le> i \<Longrightarrow> i < 65536 \<Longrightarrow> atoi (to_string i) = i"
  by (simp add: atoi_def long_min_def long_max_def signed_of_int signed_take_bit_int_eq_self)

lemma port_read:
  assumes "0 < port" "port < 65536"
  shows "get_port_from_string secure (to_string (int port)) = (port, True)"
  using assms by (simp add: get_port_from_string_def to_string_not_Nil atoi_to_string Let_def)

lemma takeWhile_stop: "\<forall>c\<in>set a. P c \<Longrightarrow> \<not> P x \<Longrightarrow> takeWhile P (a @ x # b) = a \<and> dropWhile P (a @ x # b) = x # b"
  by (induction a) auto

lemma gate_url_parsed:
  assumes "good_host host" "good_id gid" "0 < port" "port < 65536"
  shows "uri_parse (gate_url host port gid) =
    \<lparr>u_scheme = ''ws'', u_credentials = [], u_host = host, u_resource = CHR ''/'' # gid, u_port = port, u_secure = False, u_valid = True\<rparr>"
proof -
  let ?d = "to_string (int port)"
  let ?s = "host @ '':'' @ ?d @ ''/'' @ gid"
  have ne: "host \<noteq> []" using assms(1) by (simp add: good_host_def good_field_def)
  have "CHR ''@'' \<notin> set ?s" using assms(1,2) to_string_not [of "CHR ''@''" "int port"] by (auto simp: good_host_def good_id_def)
  then have at: "find_char CHR ''@'' ?s = None" by (simp add: find_char_None)
  have h: "takeWhile (\<lambda>c. \<not> host_end c) ?s = host \<and> dropWhile (\<lambda>c. \<not> host_end c) ?s = CHR '':'' # ?d @ ''/'' @ gid"
  proof -
    have "\<forall>c\<in>set host. \<not> host_end c" using assms(1) by (auto simp: good_host_def host_end_def)
    moreover have "\<not> \<not> host_end CHR '':''" by (simp add: host_end_def)
    ultimately show ?thesis using takeWhile_stop [of host "\<lambda>c. \<not> host_end c" "CHR '':''" "?d @ ''/'' @ gid"] by simp
  qed
  have p: "port_and_path (?d @ ''/'' @ gid) = (?d, gid)"
  proof -
    have "\<forall>c\<in>set ?d. c \<noteq> CHR ''/''" using to_string_not [of _ "int port"] by blast
    then show ?thesis using takeWhile_stop [of ?d "\<lambda>c. c \<noteq> CHR ''/''" "CHR ''/''" gid] by (simp add: port_and_path_def)
  qed
  obtain c t where ct: "host = c # t" using ne by (cases host) auto
  then have "c \<noteq> CHR ''[''" using assms(1) by (auto simp: good_host_def)
  then have split: "split_host ?s = Some (host, ?d, gid)"
    using h p ct by (simp add: split_host_def after_host_def)
  have "uri_scheme (gate_url host port gid) = Some (False, ''ws'', ?s)"
    using ct by (simp add: uri_scheme_def gate_url_def)
  then show ?thesis using at split port_read [OF assms(3,4)] by (simp add: uri_parse_def Let_def)
qed

lemma host_port_field:
  assumes "good_host host" "\<not> u_secure u" "u_host u = host"
  shows "good_field (get_host_port u)"
proof -
  have "last (to_string i) \<noteq> CHR '' ''" "last (to_string i) \<noteq> CHR 0x09" "lf \<notin> set (to_string i)" for i
    using to_string_chars [OF last_in_set [OF to_string_not_Nil], of i] to_string_line [of i] by (auto simp: is_digit_def)
  then show ?thesis using assms to_string_not_Nil
    by (auto simp: get_host_port_def good_host_def good_field_def is_whitespace_char_def)
qed

lemma host_port_valid:
  assumes "good_host host" "0 < port" "port < 65536" "\<not> u_secure u" "u_host u = host" "u_port u = port"
    and "get_header ''Host'' r = get_host_port u"
  shows "u_valid (get_uri_from_host r ''ws'')"
proof (cases "port = uri_default_port")
  case True
  then have "get_header ''Host'' r = host" using assms(4-7) by (simp add: get_host_port_def)
  moreover have "rfind CHR '':'' host = None" using assms(1) find_char_None [of "CHR '':''" "rev host"]
    by (auto simp: rfind_def good_host_def)
  ultimately show ?thesis by (simp add: get_uri_from_host_def Let_def)
next
  case False
  let ?d = "to_string (int port)"
  have h: "get_header ''Host'' r = host @ CHR '':'' # ?d" using False assms(4-7) by (simp add: get_host_port_def)
  have "CHR '':'' \<notin> set (rev ?d)" using to_string_not [of "CHR '':''" "int port"] by auto
  from find_char_at [OF this, of "rev host"] have "rfind CHR '':'' (host @ CHR '':'' # ?d) = Some (length host)" by (simp add: rfind_def)
  moreover have "rfind CHR '']'' (host @ CHR '':'' # ?d) = None"
    using assms(1) to_string_not [of "CHR '']''" "int port"] find_char_None [of "CHR '']''" "rev (host @ CHR '':'' # ?d)"]
    by (auto simp: rfind_def good_host_def)
  ultimately show ?thesis using port_read [OF assms(2,3), of False] by (simp add: get_uri_from_host_def Let_def h)
qed

subsection \<open>Both sides\<close>

lemma server_ready_not_reading: "server_ready ua r rest \<noteq> Server_reading r'"
  by (simp add: server_ready_def split: sum.splits prod.splits chosen.splits)

lemma server_feed:
  "feed request_consume m_ready r cs = Inr (r', rest # cs') \<Longrightarrow> m_ready r' \<Longrightarrow>
   server_reads ua r cs = (server_ready ua r' rest, cs')"
proof (induction cs arbitrary: r)
  case (Cons c cs)
  from Cons.prems(1) obtain r1 rest1 where c: "request_consume r c = Inr (r1, rest1)" by (auto split: prod.splits)
  show ?case
  proof (cases "m_ready r1")
    case True
    with Cons.prems(1) c have "r' = r1" "rest = rest1" "cs' = cs" by simp_all
    with True c show ?thesis using server_ready_not_reading [of ua r1 rest1]
      by (simp add: handle_read_handshake_def split: server_step.splits)
  next
    case False
    with Cons c show ?thesis by (simp add: handle_read_handshake_def)
  qed
qed simp

lemma client_feed:
  "feed response_consume headers_ready r cs = Inr (r', rest # cs') \<Longrightarrow> headers_ready r' \<Longrightarrow>
   validate_server_handshake_response req r' = None \<Longrightarrow>
   client_reads req r cs = (Client_opened r' (negotiate_extensions r' \<noteq> None) rest, cs')"
proof (induction cs arbitrary: r)
  case (Cons c cs)
  from Cons.prems(1) obtain r1 rest1 where c: "response_consume r c = Inr (r1, rest1)" by (auto split: prod.splits)
  show ?case
  proof (cases "headers_ready r1")
    case True
    with Cons.prems c show ?thesis by (simp add: handle_read_http_response_def)
  next
    case False
    with Cons c show ?thesis by (simp add: handle_read_http_response_def)
  qed
qed simp

lemma handshake_words:
  "ci_find_substr ''websocket'' ''websocket''" "ci_find_substr ''Upgrade'' ''Upgrade''"
  "stream_int ''13'' = Some 13" "map_option (map fst) (extract_parameters ''PMS'' []) = Some [''PMS'']"
  by code_simp+

lemma server_answer:
  assumes "m_ready r" "m_method r = ''GET''" "m_version r = ''HTTP/1.1''" "m_headers r = request_headers h key" "key \<noteq> []"
    and "u_valid (get_uri_from_host r ''ws'')"
  shows "server_ready user_agent r rest = Server_answers r (switching key) None ''PMS'' rest"
proof -
  have g: "get_header ''Upgrade'' r = ''websocket''" "get_header ''Connection'' r = ''Upgrade''" "get_header ''Sec-WebSocket-Version'' r = ''13''"
    "get_header ''Sec-WebSocket-Key'' r = key" "get_header ''Sec-WebSocket-Protocol'' r = ''PMS''" "get_header ''Sec-WebSocket-Extensions'' r = []"
    by (simp_all add: get_header_def assms(4) request_finds)
  obtain p where p: "extract_parameters ''PMS'' [] = Some p" "map fst p = [''PMS'']" using handshake_words(4) by auto
  obtain resp where resp: "process_handshake r ''PMS'' (set_status 101 response_new) = Inr resp"
      "write_http_response user_agent resp None = (switching key, None)"
    using process_handshake_eq [OF g(4)] by blast
  have "initialize_processor r response_new = Inr Version13"
    using handshake_words by (simp add: initialize_processor_def is_websocket_handshake_def get_websocket_version_def g assms(1))
  moreover have "process_handshake_request Version13 r response_new = (resp, None, ''PMS'')"
    using assms(2,3,5,6) p resp(1)
    by (simp add: process_handshake_request_def validate_handshake_def negotiate_extensions_def get_header_as_plist_def g
        extract_subprotocols_def on_validate_def)
  ultimately show ?thesis using resp(2) by (simp add: server_ready_def)
qed

lemma client_accepts:
  assumes "m_status_code r = 101" "m_headers r = response_headers (process_handshake_key (get_header ''Sec-WebSocket-Key'' req))"
  shows "validate_server_handshake_response req r = None" "negotiate_extensions r = None"
  using handshake_words(1,2) assms
  by (simp_all add: validate_server_handshake_response_def negotiate_extensions_def get_header_as_plist_def get_header_def response_finds)

subsection \<open>The handshake\<close>

lemma request_charge:
  assumes "m_method r = ''GET''" "m_uri r = CHR ''/'' # gid" "m_version r = ''HTTP/1.1''" "m_headers r = request_headers hp key"
    and "length key = 24"
  shows "charge (head_lines (request_first r) r) = length gid + length hp + 208"
  by (simp add: charge_head request_first_def assms request_headers_def user_agent_def)

lemma response_charge: "charge (head_lines (response_first (switching key)) (switching key)) = 192"
proof -
  have "length (to_string 101) = 3" by (simp add: to_string_def nat_str.simps)
  moreover have "length (process_handshake_key key) = 28" by (rule handshake_key_text(2))
  ultimately show ?thesis
    by (simp add: charge_head response_first_def switching_def response_headers_def user_agent_def)
qed

lemma to_string_length: "port < 65536 \<Longrightarrow> length (to_string (int port)) \<le> 5"
  using length_nat_str [of port 5] by (simp add: to_string_def)

lemma client_side:
  assumes "concat ds = response_raw (switching (get_header ''Sec-WebSocket-Key'' req)) @ later" "3 * length ds \<le> 15000"
  shows "\<exists>resp rest ds'. client_reads req response_new ds = (Client_opened resp False rest, ds') \<and> rest @ concat ds' = later"
proof -
  let ?s = "switching (get_header ''Sec-WebSocket-Key'' req)"
  have "charge (head_lines (response_first ?s) ?s) + 3 * length ds \<le> max_header_size"
    using assms(2) by (simp add: response_charge max_header_size_def)
  from response_comes_through [OF good_switching assms(1) this] obtain r rest ds' where
    r: "feed response_consume headers_ready response_new ds = Inr (r, rest # ds')" "rest @ concat ds' = later" "headers_ready r"
      "m_status_code r = 101" "m_headers r = response_headers (process_handshake_key (get_header ''Sec-WebSocket-Key'' req))"
    by (auto simp: switching_def)
  note ok = client_accepts [OF r(4,5)]
  show ?thesis using client_feed [OF r(1,3) ok(1)] ok(2) r(2) by simp
qed

lemma server_side:
  assumes "good_host host" "good_id gid" "0 < port" "port < 65536" "u = uri_parse (gate_url host port gid)"
    and "send_http_request user_agent u [''PMS''] rng = Inr req"
    and "concat cs = request_raw req" "length host + length gid + 3 * length cs \<le> 15000"
  shows "\<exists>r cs'. server_reads user_agent request_new cs =
      (Server_answers r (switching (get_header ''Sec-WebSocket-Key'' req)) None ''PMS'' [], cs') \<and>
    m_uri r = ''/'' @ gid \<and> concat cs' = []"
proof -
  have u: "u_credentials u = []" "u_resource u = CHR ''/'' # gid" "u_host u = host" "u_port u = port" "\<not> u_secure u"
    using gate_url_parsed [OF assms(1-4)] by (simp_all add: assms(5))
  let ?hp = "get_host_port u" and ?key = "client_key rng"
  have hp: "good_field ?hp" using assms(1) u by (intro host_port_field)
  have req: "m_method req = ''GET''" "m_uri req = CHR ''/'' # gid" "m_version req = ''HTTP/1.1''" "m_headers req = request_headers ?hp ?key"
      "m_body req = []"
    using gate_request [OF u(1)] assms(6) u(2) by (auto simp: request_new_def)
  have key: "get_header ''Sec-WebSocket-Key'' req = ?key" by (simp add: get_header_def req(4) request_finds)
  have "length ?hp \<le> length host + 6" using to_string_length [OF assms(4)] u by (simp add: get_host_port_def)
  then have budget: "charge (head_lines (request_first req) req) + 3 * length cs \<le> max_header_size"
    using assms(8) request_charge [OF req(1-4) client_key(2)] by (simp add: max_header_size_def)
  have "good_name ''GET''" using names_and_values(1) by simp
  moreover have "CHR '' '' \<notin> set ''HTTP/1.1''" "lf \<notin> set ''HTTP/1.1''" by code_simp+
  moreover have "?hp \<noteq> []" using hp by (simp add: good_field_def)
  ultimately have "good_request req"
    using good_request_headers [OF hp client_key(3)] assms(2) req
    by (simp add: good_request_def get_header_def request_finds good_id_def)
  from request_comes_through [OF this _ budget, of "[]"] assms(7) obtain r rest cs' where
    r: "feed request_consume m_ready request_new cs = Inr (r, rest # cs')" "rest @ concat cs' = []" "m_ready r"
      "m_method r = m_method req" "m_uri r = m_uri req" "m_version r = m_version req" "m_headers r = m_headers req" by auto
  have host: "get_header ''Host'' r = ?hp" by (simp add: get_header_def r(7) req(4) request_finds)
  have valid: "u_valid (get_uri_from_host r ''ws'')" using host_port_valid [OF assms(1,3,4) u(5,3,4) host] .
  have ne: "?key \<noteq> []" using client_key(2) [of rng] by auto
  have "server_ready user_agent r rest = Server_answers r (switching ?key) None ''PMS'' rest"
    by (rule server_answer [OF r(3) _ _ _ ne valid]) (simp_all add: r(4-7) req)
  then show ?thesis using server_feed [OF r(1,3)] r(2,5) req(2) key by auto
qed

lemma request_is_sent:
  assumes "good_host host" "good_id gid" "0 < port" "port < 65536"
  shows "\<exists>req. send_http_request user_agent (uri_parse (gate_url host port gid)) [''PMS''] rng = Inr req"
  using gate_request [of "uri_parse (gate_url host port gid)" rng] gate_url_parsed [OF assms] by simp

lemma handshake_opens:
  assumes "good_host host" "good_id gid" "0 < port" "port < 65536"
  shows "\<exists>req. send_http_request user_agent (uri_parse (gate_url host port gid)) [''PMS''] rng = Inr req \<and>
    (\<forall>cs. concat cs = request_raw req \<and> length host + length gid + 3 * length cs \<le> 15000 \<longrightarrow>
      (\<exists>r resp cs'. server_reads user_agent request_new cs = (Server_answers r resp None ''PMS'' [], cs') \<and> concat cs' = [] \<and>
        m_uri r = ''/'' @ gid \<and> m_status_code resp = 101 \<and>
        (\<forall>ds later. concat ds = response_raw resp @ later \<and> 3 * length ds \<le> 15000 \<longrightarrow>
          (\<exists>resp' rest ds'. client_reads req response_new ds = (Client_opened resp' False rest, ds') \<and>
            rest @ concat ds' = later))))"
proof -
  obtain req where req: "send_http_request user_agent (uri_parse (gate_url host port gid)) [''PMS''] rng = Inr req"
    using request_is_sent [OF assms] by blast
  have "m_status_code (switching k) = 101" for k by (simp add: switching_def)
  with server_side [OF assms refl req] client_side [of _ req] req show ?thesis
    by (intro exI [of _ req]) (metis (no_types, lifting))
qed

end
