(* ===== verification/Fragments.thy ===== *)
theory Fragments
  imports WireTrip
begin

text \<open>
  Messages in more than one frame. The program never sends them, but a peer can: the second and later
  frames have the opcode 0, and two checks of the reader go by the header of the last frame.
\<close>

subsection \<open>One turn per part of a frame\<close>

definition fragment_header :: "opcode \<Rightarrow> bool \<Rightarrow> 64 word \<Rightarrow> 32 word option \<Rightarrow> bytes" where
  "fragment_header op fin sz key =
     prepare_header (basic_header_new op sz fin (key \<noteq> None) False) (extended_header_new sz key)"

definition fragment :: "opcode \<Rightarrow> bool \<Rightarrow> 32 word option \<Rightarrow> bytes \<Rightarrow> bytes" where
  "fragment op fin key i = fragment_header op fin (of_nat (length i)) key @ masked_with key i"

lemma make_frame_fragment:
  "make_frame server rng op fin i = (h, p) \<Longrightarrow> h @ p = fragment op fin (if server then None else Some rng) i"
  by (auto simp: make_frame_def fragment_def fragment_header_def masked_with_def masked_copy_def Let_def)

lemma fragment_header_step:
  fixes op sz fin key
  defines "h \<equiv> basic_header_new op sz fin (key \<noteq> None) False" and "t \<equiv> header_tail sz key"
  assumes "m_state s = HEADER_BASIC" "m_bytes_needed s = 2"
    and "validate_incoming_basic_header h (h_server s) (msg_ptr (m_data_msg s) = None) = None"
  shows "consume_step s (fragment_header op fin sz key @ r) =
    Inr (s\<lparr>m_basic_header := h, m_state := HEADER_EXTENDED, m_cursor := 0, m_bytes_needed := length t\<rparr>, t @ r)"
proof -
  have bytes: "fragment_header op fin sz key = b0 h # b1 h # t"
    unfolding fragment_header_def h_def t_def by (rule prepare_header_new)
  have len: "get_header_len h - BASIC_HEADER_LENGTH = length t" unfolding h_def t_def by (rule header_len_new)
  have same: "\<lparr>b0 = b0 h, b1 = b1 h\<rparr> = h" by simp
  show ?thesis
    using assms(3-5) by (simp add: bytes consume_step_def copy_basic_header_bytes_def Let_def same len)
qed

lemma fragment_extended_step:
  fixes op sz fin key
  defines "h \<equiv> basic_header_new op sz fin (key \<noteq> None) False" and "t \<equiv> header_tail sz key"
  shows "consume_step (s\<lparr>m_basic_header := h, m_state := HEADER_EXTENDED, m_cursor := 0, m_bytes_needed := length t\<rparr>) (t @ r) =
    bindR (begin_payload (s\<lparr>m_basic_header := h, m_state := HEADER_EXTENDED,
        m_extended_header := copy_at 0 t (m_extended_header s), m_cursor := length t, m_bytes_needed := 0\<rparr>)) (\<lambda>s2. Inr (s2, r))"
proof -
  have "prefix t (copy_at 0 t (m_extended_header s))" by (simp add: copy_at_def)
  then have "validate_incoming_extended_header h (copy_at 0 t (m_extended_header s)) = None"
    unfolding h_def t_def by (rule validate_extended_new)
  then show ?thesis by (simp add: consume_step_def copy_extended_header_bytes_def Let_def)
qed

lemma fragment_fields:
  fixes op sz fin key e
  defines "h \<equiv> basic_header_new op sz fin (key \<noteq> None) False" and "t \<equiv> header_tail sz key"
  shows "get_payload_size h (copy_at 0 t e) = sz"
    "get_masking_key h (copy_at 0 t e) = (case key of None \<Rightarrow> 0 | Some k \<Rightarrow> k)"
proof -
  have e: "prefix t (copy_at 0 t e)" by (simp add: copy_at_def)
  show "get_payload_size h (copy_at 0 t e) = sz"
    unfolding h_def by (rule payload_size_new) (use e t_def in simp)
  show "get_masking_key h (copy_at 0 t e) = (case key of None \<Rightarrow> 0 | Some k \<Rightarrow> k)"
    using e masking_key_new [of sz _ "copy_at 0 t e" op fin False]
    by (cases key) (simp_all add: h_def t_def get_masking_key_def)
qed

text \<open>The state in which the payload of a frame is awaited.\<close>

definition awaiting :: "basic_header \<Rightarrow> bytes \<Rightarrow> nat \<Rightarrow> nat \<Rightarrow> msg_metadata \<Rightarrow> hybi13 \<Rightarrow> hybi13" where
  "awaiting h e c n md s = s\<lparr>m_basic_header := h, m_state := APPLICATION, m_extended_header := e, m_cursor := c,
     current_is_control := False, m_bytes_needed := n, m_data_msg := md\<rparr>"

lemma awaiting_eq:
  "s\<lparr>m_basic_header := h, m_extended_header := e, m_cursor := c, m_state := APPLICATION,
     m_bytes_needed := n, m_data_msg := md, current_is_control := False\<rparr> = awaiting h e c n md s"
  by (rule hybi13.equality) (simp_all add: awaiting_def)

definition key_of :: "32 word option \<Rightarrow> 32 word" where
  "key_of key = (case key of None \<Rightarrow> 0 | Some k \<Rightarrow> k)"

lemma fragment_header_read:
  fixes op sz fin key
  defines "h \<equiv> basic_header_new op sz fin (key \<noteq> None) False"
  assumes "m_state s = HEADER_BASIC" "m_bytes_needed s = 2" "op < 16" "\<not> is_control op"
    and "validate_incoming_basic_header h (h_server s) (msg_ptr (m_data_msg s) = None) = None"
    and "case msg_ptr (m_data_msg s) of None \<Rightarrow> unat sz \<le> m_max_message_size s
      | Some m \<Rightarrow> (length (wm_payload m) + unat sz) mod 2 ^ 64 \<le> m_max_message_size s"
  defines "md \<equiv> case msg_ptr (m_data_msg s) of None \<Rightarrow> new_metadata op (key_of key)
      | Some m \<Rightarrow> (m_data_msg s)\<lparr>prepared_key := prepare_masking_key (key_of key)\<rparr>"
  shows "\<exists>e c. consume s (fragment_header op fin sz key @ r) = consume (awaiting h e c (unat sz) md s) r"
proof -
  let ?t = "header_tail sz key"
  let ?s1 = "s\<lparr>m_basic_header := h, m_state := HEADER_EXTENDED, m_cursor := 0, m_bytes_needed := length ?t\<rparr>"
  let ?e = "copy_at 0 ?t (m_extended_header s)"
  have op: "get_opcode h = op" using assms(4) by (simp add: h_def)
  note f = fragment_fields [of op sz fin key "m_extended_header s", folded h_def key_of_def]
  have "begin_payload (s\<lparr>m_basic_header := h, m_state := HEADER_EXTENDED, m_extended_header := ?e, m_cursor := length ?t,
      m_bytes_needed := 0\<rparr>) = Inr (awaiting h ?e (length ?t) (unat sz) md s)"
    using assms(5,7)
    by (cases "msg_ptr (m_data_msg s)") (simp_all add: begin_payload_def Let_def op f awaiting_eq md_def not_less)
  then have step2: "consume_step ?s1 (?t @ r) = Inr (awaiting h ?e (length ?t) (unat sz) md s, r)"
    using fragment_extended_step [where s = s and op = op and sz = sz and fin = fin and key = key and r = r] by (simp add: h_def)
  have step1: "consume_step s (fragment_header op fin sz key @ r) = Inr (?s1, ?t @ r)"
    using fragment_header_step [OF assms(2,3), where op = op and sz = sz and fin = fin and key = key and r = r] assms(6) by (simp add: h_def)
  have "fragment_header op fin sz key \<noteq> []" by (simp add: fragment_header_def prepare_header_def)
  with assms(2) have "working s (fragment_header op fin sz key @ r)" by (simp add: working_def)
  note c1 = consume_working [OF this step1]
  have "working ?s1 (?t @ r)" by (auto simp: working_def)
  note c2 = consume_working [OF this step2]
  show ?thesis unfolding c1 c2 by blast
qed

text \<open>Its payload, not empty and in one piece.\<close>

lemma fragment_payload:
  assumes "s = awaiting h e c (length i) md s0" "get_masked h = (key \<noteq> None)" "i \<noteq> []"
    and "msg_ptr md = Some m" "prepared_key md = prepare_masking_key (key_of key)"
    and "wm_opcode m = TEXT \<longrightarrow> validator_decode (md_validator md) i = (v, True)"
  shows "\<exists>md'. process_payload_bytes s (masked_with key i) = Inr (awaiting h e c 0 md' s0) \<and>
    msg_ptr md' = Some (m\<lparr>wm_payload := wm_payload m @ i\<rparr>) \<and> (wm_opcode m = TEXT \<longrightarrow> md_validator md' = v)"
proof -
  have cur: "m_current_msg s = md" by (simp add: assms(1) awaiting_def m_current_msg_def)
  have h: "m_basic_header s = h" "m_bytes_needed s = length i" by (simp_all add: assms(1) awaiting_def)
  have "\<exists>p. (if get_masked (m_basic_header s) then byte_mask_circ (masked_with key i) (prepared_key (m_current_msg s))
      else (masked_with key i, prepared_key (m_current_msg s))) = (i, p)"
    using byte_mask_circ_eq [OF periodic_prepare] assms(2,5) by (cases key) (simp_all add: cur h masked_with_def key_of_def)
  then obtain p where p: "(if get_masked (m_basic_header s) then byte_mask_circ (masked_with key i) (prepared_key (m_current_msg s))
      else (masked_with key i, prepared_key (m_current_msg s))) = (i, p)" by blast
  define v' where "v' = (if wm_opcode m = TEXT then v else md_validator md)"
  have d: "(if wm_opcode m = TEXT then validator_decode (md_validator (m_current_msg s)) i
      else (md_validator (m_current_msg s), True)) = (v', True)"
    using assms(6) by (simp add: cur v'_def)
  have "msg_ptr (m_current_msg s) = Some m" by (simp add: cur assms(4))
  from process_payload_Inr [OF this p d] show ?thesis
    unfolding h by (intro exI [of _ "\<lparr>msg_ptr = Some (m\<lparr>wm_payload := wm_payload m @ i\<rparr>), prepared_key = p, md_validator = v'\<rparr>"])
      (simp add: assms(1) awaiting_def set_current_msg_def v'_def)
qed

lemma fragment_read:
  fixes op fin key i
  defines "h \<equiv> basic_header_new op (of_nat (length i)) fin (key \<noteq> None) False"
  assumes "m_state s = HEADER_BASIC" "m_bytes_needed s = 2" "op < 16" "\<not> is_control op" "i \<noteq> []" "length i < 2 ^ 64"
    and "validate_incoming_basic_header h (h_server s) (msg_ptr (m_data_msg s) = None) = None"
    and "case msg_ptr (m_data_msg s) of None \<Rightarrow> length i \<le> m_max_message_size s
      | Some m \<Rightarrow> (length (wm_payload m) + length i) mod 2 ^ 64 \<le> m_max_message_size s"
  defines "md \<equiv> case msg_ptr (m_data_msg s) of None \<Rightarrow> new_metadata op (key_of key)
      | Some m \<Rightarrow> (m_data_msg s)\<lparr>prepared_key := prepare_masking_key (key_of key)\<rparr>"
  assumes "msg_ptr md = Some m" "wm_opcode m = TEXT \<longrightarrow> validator_decode (md_validator md) i = (v, True)"
  shows "\<exists>e c md'. consume s (fragment op fin key i @ r) =
      (case after_payload (awaiting h e c 0 md' s) r of Inl e \<Rightarrow> Inl e | Inr (s', r') \<Rightarrow> consume s' r') \<and>
    msg_ptr md' = Some (m\<lparr>wm_payload := wm_payload m @ i\<rparr>) \<and> (wm_opcode m = TEXT \<longrightarrow> md_validator md' = v)"
proof -
  have sz: "unat (of_nat (length i) :: 64 word) = length i" using assms(7) by (rule unat_size)
  have "\<exists>e c. consume s (fragment_header op fin (of_nat (length i)) key @ masked_with key i @ r) =
      consume (awaiting h e c (unat (of_nat (length i) :: 64 word)) md s) (masked_with key i @ r)"
    unfolding h_def md_def by (rule fragment_header_read) (use assms(2-9) sz in \<open>simp_all only: h_def simp_thms\<close>)
  then obtain e c where 1: "consume s (fragment op fin key i @ r) = consume (awaiting h e c (length i) md s) (masked_with key i @ r)"
    unfolding sz fragment_def append_assoc by blast
  have "prepared_key md = prepare_masking_key (key_of key)"
    by (simp add: md_def new_metadata_def split: option.splits)
  from fragment_payload [OF refl _ assms(6,11) this assms(12), of h e c s] obtain md' where
    p: "process_payload_bytes (awaiting h e c (length i) md s) (masked_with key i) = Inr (awaiting h e c 0 md' s)"
    and md': "msg_ptr md' = Some (m\<lparr>wm_payload := wm_payload m @ i\<rparr>)" "wm_opcode m = TEXT \<longrightarrow> md_validator md' = v"
    by (auto simp: h_def)
  have aw: "m_state (awaiting h e c (length i) md s) = APPLICATION" "m_bytes_needed (awaiting h e c (length i) md s) = length i"
    by (simp_all add: awaiting_def)
  have ne: "masked_with key i \<noteq> []" using length_masked_with [of key i] assms(6) by (metis length_0_conv)
  have "consume_step (awaiting h e c (length i) md s) (masked_with key i @ r) = after_payload (awaiting h e c 0 md' s) r"
    using ne assms(6) p by (simp add: application_step [OF aw(1)] aw(2))
  moreover have "working (awaiting h e c (length i) md s) (masked_with key i @ r)" using ne by (simp add: working_def aw)
  ultimately have "consume (awaiting h e c (length i) md s) (masked_with key i @ r) =
      (case after_payload (awaiting h e c 0 md' s) r of Inl e \<Rightarrow> Inl e | Inr (s', r') \<Rightarrow> consume s' r')"
    by (subst consume.simps) (simp split: sum.splits prod.splits)
  with 1 md' show ?thesis by auto
qed

text \<open>The first part of a message, and the last one.\<close>

lemma first_fragment:
  assumes "idle s" "h_server s = (key \<noteq> None)" "op \<in> {TEXT, BINARY}" "i \<noteq> []" "length i < 2 ^ 64"
    and "length i \<le> m_max_message_size s" "op = TEXT \<longrightarrow> validator_decode validator_new i = (v, True)"
  shows "\<exists>s'. consume s (fragment op False key i @ r) = consume s' r \<and> m_state s' = HEADER_BASIC \<and> m_bytes_needed s' = 2 \<and>
    msg_ptr (m_data_msg s') = Some \<lparr>wm_opcode = op, wm_payload = i\<rparr> \<and> (op = TEXT \<longrightarrow> md_validator (m_data_msg s') = v) \<and>
    h_server s' = h_server s \<and> m_max_message_size s' = m_max_message_size s"
proof -
  let ?h = "basic_header_new op (of_nat (length i)) False (key \<noteq> None) False"
  have op: "op < 16" "\<not> is_control op" "\<not> reserved_op op" "\<not> invalid_op op" "op \<noteq> CONTINUATION"
    using assms(3) by (auto simp: opcode_defs is_control_def reserved_op_def invalid_op_def)
  have s: "m_state s = HEADER_BASIC" "m_bytes_needed s = 2" "msg_ptr (m_data_msg s) = None"
    using assms(1) by (simp_all add: idle_def)
  have v: "validate_incoming_basic_header ?h (h_server s) (msg_ptr (m_data_msg s) = None) = None"
    using op assms(2) by (simp add: validate_incoming_basic_header_def Let_def s)
  from fragment_read [OF s(1,2) op(1,2) assms(4,5) v, of "\<lparr>wm_opcode = op, wm_payload = []\<rparr>" v r] assms(6,7) s(3)
  obtain e c md' where c: "consume s (fragment op False key i @ r) =
      (case after_payload (awaiting ?h e c 0 md' s) r of Inl e \<Rightarrow> Inl e | Inr (s', r') \<Rightarrow> consume s' r')"
    and md': "msg_ptr md' = Some \<lparr>wm_opcode = op, wm_payload = i\<rparr>" "op = TEXT \<longrightarrow> md_validator md' = v"
    by (auto simp: new_metadata_def)
  have "after_payload (awaiting ?h e c 0 md' s) r = Inr (reset_headers (awaiting ?h e c 0 md' s), r)"
    using op(1) by (simp add: after_payload_def awaiting_def)
  with c md' show ?thesis
    by (intro exI [of _ "reset_headers (awaiting ?h e c 0 md' s)"])
      (simp add: reset_headers_def awaiting_def BASIC_HEADER_LENGTH_def)
qed

lemma consumed_message:
  assumes "hybi_inv s" "buf \<noteq> []" "consume s buf = Inr (s', [])" "m_state s' = READY" "msg_ptr (m_current_msg s') = Some m"
  shows "\<exists>s''. handle_read_frame s buf = ([m], Read_more s'')"
  using assms by (auto simp: handle_read_step get_message_def Let_def)

lemma continuation_header:
  "validate_incoming_basic_header (basic_header_new CONTINUATION sz fin (key \<noteq> None) False) (key \<noteq> None) False = None"
  by (simp add: validate_incoming_basic_header_def Let_def opcode_defs is_control_def reserved_op_def invalid_op_def)

text \<open>The last frame has the opcode 0, and the end of the text is not checked.\<close>

lemma fragmented_text_read:
  assumes "idle s" "h_server s = (k1 \<noteq> None)" "(k2 \<noteq> None) = (k1 \<noteq> None)" "i \<noteq> []" "j \<noteq> []"
    and "length i + length j \<le> m_max_message_size s" "m_max_message_size s < 2 ^ 64"
    and "validator_decode validator_new (i @ j) = (v, True)"
  shows "\<exists>s'. handle_read_frame s (fragment TEXT False k1 i @ fragment CONTINUATION True k2 j) =
    ([\<lparr>wm_opcode = TEXT, wm_payload = i @ j\<rparr>], Read_more s')"
proof -
  let ?F2 = "fragment CONTINUATION True k2 j" and ?h = "basic_header_new CONTINUATION (of_nat (length j)) True (k2 \<noteq> None) False"
  obtain v1 where v1: "validator_decode validator_new i = (v1, True)" "validator_decode v1 j = (v, True)"
    using assms(8) by (auto simp: validator_decode_append split: prod.splits if_splits)
  obtain s1 where s1: "consume s (fragment TEXT False k1 i @ ?F2) = consume s1 ?F2" "m_state s1 = HEADER_BASIC"
    "m_bytes_needed s1 = 2" "msg_ptr (m_data_msg s1) = Some \<lparr>wm_opcode = TEXT, wm_payload = i\<rparr>"
    "md_validator (m_data_msg s1) = v1" "h_server s1 = h_server s" "m_max_message_size s1 = m_max_message_size s"
    using first_fragment [OF assms(1,2), of TEXT i v1 ?F2] assms(4,6,7) v1 by auto
  have op: "CONTINUATION < 16" "\<not> is_control CONTINUATION" by (simp_all add: CONTINUATION_def is_control_def)
  have v: "validate_incoming_basic_header ?h (h_server s1) (msg_ptr (m_data_msg s1) = None) = None"
    using continuation_header [of _ True k2] assms(2,3) s1(4,6) by simp
  from fragment_read [OF s1(2,3) op assms(5) _ v, of "\<lparr>wm_opcode = TEXT, wm_payload = i\<rparr>" v "[]"] assms(6,7) s1(4,5,7) v1(2)
  obtain e c md' where c: "consume s1 ?F2 =
      (case after_payload (awaiting ?h e c 0 md' s1) [] of Inl e \<Rightarrow> Inl e | Inr (s', r') \<Rightarrow> consume s' r')"
    and md': "msg_ptr md' = Some \<lparr>wm_opcode = TEXT, wm_payload = i @ j\<rparr>"
    by auto
  let ?s2 = "(awaiting ?h e c 0 md' s1)\<lparr>m_state := READY\<rparr>"
  have "m_current_msg (awaiting ?h e c 0 md' s1) = md'" by (simp add: awaiting_def m_current_msg_def)
  moreover have "CONTINUATION \<noteq> TEXT" by (simp add: opcode_defs)
  ultimately have "after_payload (awaiting ?h e c 0 md' s1) [] = Inr (?s2, [])"
    using op md' by (simp add: after_payload_def finalize_message_def) (simp add: awaiting_def)
  then have "consume s (fragment TEXT False k1 i @ ?F2) = Inr (?s2, [])"
    using s1(1) c by (simp add: consume_ready)
  moreover have "m_current_msg ?s2 = md'" by (simp add: awaiting_def m_current_msg_def)
  moreover have "fragment TEXT False k1 i @ ?F2 \<noteq> []" by (simp add: fragment_def fragment_header_def prepare_header_def)
  ultimately show ?thesis using consumed_message [of s _ ?s2] assms(1) md' by (simp add: idle_def)
qed

text \<open>The limit on the size of a message is compared with a sum that wraps around.\<close>

lemma huge_continuation:
  assumes "idle s" "h_server s = (k1 \<noteq> None)" "(k2 \<noteq> None) = (k1 \<noteq> None)" "i \<noteq> []"
    and "length i \<le> m_max_message_size s" "length i < 2 ^ 64" "validator_decode validator_new i = (v, True)"
    and "unat sz = 2 ^ 64 - length i"
  shows "\<exists>s'. handle_read_frame s (fragment TEXT False k1 i @ fragment_header CONTINUATION fin sz k2) = ([], Read_more s') \<and>
    m_state s' = APPLICATION \<and> m_bytes_needed s' = 2 ^ 64 - length i \<and> m_max_message_size s' = m_max_message_size s"
proof -
  let ?F2 = "fragment_header CONTINUATION fin sz k2" and ?h = "basic_header_new CONTINUATION sz fin (k2 \<noteq> None) False"
  obtain s1 where s1: "consume s (fragment TEXT False k1 i @ ?F2) = consume s1 ?F2" "m_state s1 = HEADER_BASIC"
    "m_bytes_needed s1 = 2" "msg_ptr (m_data_msg s1) = Some \<lparr>wm_opcode = TEXT, wm_payload = i\<rparr>"
    "h_server s1 = h_server s" "m_max_message_size s1 = m_max_message_size s"
    using first_fragment [OF assms(1,2), of TEXT i v ?F2] assms(4-7) by auto
  have op: "CONTINUATION < 16" "\<not> is_control CONTINUATION" by (simp_all add: CONTINUATION_def is_control_def)
  have v: "validate_incoming_basic_header ?h (h_server s1) (msg_ptr (m_data_msg s1) = None) = None"
    using continuation_header [of sz fin k2] assms(2,3) s1(4,5) by simp
  have "(length i + unat sz) mod 2 ^ 64 \<le> m_max_message_size s1" using assms(6,8) by simp
  then have "case msg_ptr (m_data_msg s1) of None \<Rightarrow> unat sz \<le> m_max_message_size s1
      | Some m \<Rightarrow> (length (wm_payload m) + unat sz) mod 2 ^ 64 \<le> m_max_message_size s1"
    unfolding s1(4) by simp
  from fragment_header_read [OF s1(2,3) op v this, of "[]"] obtain e c md where
    "consume s1 ?F2 = consume (awaiting ?h e c (unat sz) md s1) []" by auto
  also have "\<dots> = Inr (awaiting ?h e c (unat sz) md s1, [])"
    using assms(6,8) by (intro consume_not_working) (simp add: working_def awaiting_def)
  finally have "consume s (fragment TEXT False k1 i @ ?F2) = Inr (awaiting ?h e c (unat sz) md s1, [])" using s1(1) by simp
  moreover have "fragment TEXT False k1 i @ ?F2 \<noteq> []" by (simp add: fragment_def fragment_header_def prepare_header_def)
  ultimately show ?thesis using assms(1,8) s1(6)
    by (intro exI [of _ "awaiting ?h e c (unat sz) md s1"])
      (simp add: handle_read_step idle_def get_message_def, simp add: awaiting_def)
qed

end
