(* ===== verification/Connection.thy ===== *)
theory Connection
  imports Fragments
begin

text \<open>
  A websocket connection once the handshake is done (\<open>websocketpp/impl/connection_impl.hpp\<close>): sending, the
  write queue, what happens to the messages that were read, and the closing handshake (\<open>close.hpp\<close>). The
  numbers the generator gives are an argument; the transport is the list of reads and writes.
\<close>

subsection \<open>Close codes\<close>

definition cs_blank :: nat where "cs_blank = 0"
definition cs_normal :: nat where "cs_normal = 1000"
definition cs_protocol_error :: nat where "cs_protocol_error = 1002"
definition cs_no_status :: nat where "cs_no_status = 1005"
definition cs_abnormal_close :: nat where "cs_abnormal_close = 1006"
definition cs_invalid_payload :: nat where "cs_invalid_payload = 1007"
definition cs_policy_violation :: nat where "cs_policy_violation = 1008"
definition cs_message_too_big :: nat where "cs_message_too_big = 1009"
definition cs_internal_endpoint_error :: nat where "cs_internal_endpoint_error = 1011"
definition cs_tls_handshake :: nat where "cs_tls_handshake = 1015"

lemmas close_codes = cs_blank_def cs_normal_def cs_protocol_error_def cs_no_status_def cs_abnormal_close_def
  cs_invalid_payload_def cs_policy_violation_def cs_message_too_big_def cs_internal_endpoint_error_def cs_tls_handshake_def

definition reserved_code :: "nat \<Rightarrow> bool" where
  "reserved_code code \<longleftrightarrow> 1016 \<le> code \<and> code \<le> 2999 \<or> code = 1004"

definition invalid_code :: "nat \<Rightarrow> bool" where
  "invalid_code code \<longleftrightarrow> code \<le> 999 \<or> 5000 \<le> code \<or> code = cs_no_status \<or> code = cs_abnormal_close \<or> code = cs_tls_handshake"

definition terminal_code :: "nat \<Rightarrow> bool" where
  "terminal_code code \<longleftrightarrow> code = cs_protocol_error \<or> code = cs_invalid_payload \<or> code = cs_policy_violation \<or>
     code = cs_message_too_big \<or> code = cs_internal_endpoint_error"

text \<open>\<open>ntohs\<close> and \<open>htons\<close>: the code stands with its high byte first.\<close>

definition code_of_bytes :: "bytes \<Rightarrow> nat" where
  "code_of_bytes bs = unat (of_le (rev bs) :: 16 word)"

definition bytes_of_code :: "nat \<Rightarrow> bytes" where
  "bytes_of_code code = rev (le_bytes 2 (of_nat code :: 16 word))"

definition extract_code :: "bytes \<Rightarrow> nat \<times> ws_error option" where
  "extract_code payload =
     (if length payload = 0 then (cs_no_status, None)
      else if length payload = 1 then (cs_protocol_error, Some bad_close_code)
      else (let code = code_of_bytes (take 2 payload) in
            (code, if reserved_code code then Some reserved_close_code
                   else if invalid_code code then Some invalid_close_code else None)))"

definition extract_reason :: "bytes \<Rightarrow> bytes \<times> ws_error option" where
  "extract_reason payload =
     (let reason = (if 2 < length payload then drop 2 payload else []) in
      (reason, if validate reason then None else Some invalid_utf8))"

definition close_payload :: "nat \<Rightarrow> bytes \<Rightarrow> bytes" where
  "close_payload code reason = (if code \<noteq> cs_no_status then bytes_of_code code @ reason else [])"

definition prepare_close :: "bool \<Rightarrow> 32 word \<Rightarrow> nat \<Rightarrow> bytes \<Rightarrow> ws_error + bytes \<times> bytes" where
  "prepare_close server rng code reason =
     (if reserved_code code then Inl reserved_close_code
      else if invalid_code code \<and> code \<noteq> cs_no_status then Inl invalid_close_code
      else if code = cs_no_status \<and> reason \<noteq> [] then Inl reason_requires_code
      else if 123 < length reason then Inl control_too_big
      else prepare_control server rng CLOSE_op (close_payload code reason))"

text \<open>The close code for an error of the processor, and its text (\<open>processors/base.hpp\<close>).\<close>

definition to_ws :: "ws_error \<Rightarrow> nat" where
  "to_ws e =
     (if e \<in> {bad_close_code, invalid_state} then cs_blank   \<comment> \<open>not of the processor\<close>
      else if e \<in> {control_too_big, invalid_opcode, invalid_rsv_bit, fragmented_control, invalid_continuation,
              masking_required, masking_forbidden, reserved_close_code, invalid_close_code} then cs_protocol_error
      else if e \<in> {invalid_payload, invalid_utf8} then cs_invalid_payload
      else if e = message_too_big then cs_message_too_big
      else cs_internal_endpoint_error)"

fun error_message :: "ws_error \<Rightarrow> string" where
  "error_message message_too_big = ''A message was too large''"
| "error_message invalid_payload = ''A payload contained invalid data''"
| "error_message invalid_opcode = ''invalid opcode''"
| "error_message control_too_big = ''Control messages are limited to fewer than 125 characters''"
| "error_message invalid_rsv_bit = ''Invalid use of reserved bits''"
| "error_message fragmented_control = ''Control messages cannot be fragmented''"
| "error_message invalid_continuation = ''Invalid message continuation''"
| "error_message masking_required = ''Clients may not send unmasked frames''"
| "error_message masking_forbidden = ''Servers may not send masked frames''"
| "error_message non_minimal_encoding = ''Payload length was not minimally encoded''"
| "error_message invalid_utf8 = ''Invalid UTF8 encoding''"
| "error_message reserved_close_code = ''Reserved close code used''"
| "error_message invalid_close_code = ''Invalid close code used''"
| "error_message reason_requires_code = ''Using a close reason requires a valid close code''"
| "error_message bad_close_code = ''Unable to extract close code''"
| "error_message invalid_state = ''invalid state''"
| "error_message null_message = ''''"   \<comment> \<open>not an error of the code\<close>

subsection \<open>The connection\<close>

datatype session_state = S_connecting | S_open | S_closing | S_closed

text \<open>
  What the transport has been asked for and will answer with a call of a handler: reads and writes by the
  handler, timers by what they wait for, the shutdown with the status it will report.
\<close>

datatype terminate_status = T_failed | T_closed

datatype handshake_timer = Open_handshake | Close_handshake

datatype async =
    A_init | A_read_handshake | A_write_response | A_send_request | A_read_response | A_read_frame | A_write_frame
  | A_timer handshake_timer | A_shutdown terminate_status

record outgoing =
  og_opcode :: opcode
  og_header :: bytes
  og_payload :: bytes
  og_terminal :: bool

record connection =
  cn_server :: bool
  cn_state :: session_state
  cn_processor :: hybi13
  cn_reading :: bool             \<comment> \<open>whether \<open>read_frame\<close> has asked for more\<close>
  m_send_queue :: "outgoing list"
  m_current_msgs :: "outgoing list"
  m_write_flag :: bool
  m_remote_close_code :: nat
  m_remote_close_reason :: bytes
  m_local_close_code :: nat
  m_local_close_reason :: bytes
  m_was_clean :: bool
  cn_random :: "nat \<Rightarrow> 32 word"   \<comment> \<open>the numbers of \<open>m_rng\<close>\<close>
  cn_drawn :: nat
  cn_delivered :: "ws_message list"   \<comment> \<open>what \<open>m_message_handler\<close> has been given\<close>
  cn_pending :: "async list"

text \<open>
  A connection as its constructor leaves it, with the processor the handshake gives it, and once the
  handshake is over: from then on it reads.
\<close>

definition max_message_size :: nat where "max_message_size = 32000000"

definition connection_new :: "bool \<Rightarrow> (nat \<Rightarrow> 32 word) \<Rightarrow> connection" where
  "connection_new server rng =
     \<lparr>cn_server = server, cn_state = S_connecting, cn_processor = hybi13_new server max_message_size, cn_reading = False,
      m_send_queue = [], m_current_msgs = [], m_write_flag = False,
      m_remote_close_code = cs_abnormal_close, m_remote_close_reason = [],
      m_local_close_code = cs_abnormal_close, m_local_close_reason = [], m_was_clean = False,
      cn_random = rng, cn_drawn = 0, cn_delivered = [], cn_pending = []\<rparr>"

definition connection_open :: "connection \<Rightarrow> connection" where
  "connection_open c = c\<lparr>cn_state := S_open, cn_reading := True\<rparr>"

text \<open>Only a client draws a masking key.\<close>

definition drawn_key :: "connection \<Rightarrow> 32 word" where
  "drawn_key c = cn_random c (cn_drawn c)"

definition draw :: "connection \<Rightarrow> connection" where
  "draw c = (if cn_server c then c else c\<lparr>cn_drawn := Suc (cn_drawn c)\<rparr>)"

definition await :: "async \<Rightarrow> connection \<Rightarrow> connection" where
  "await a c = c\<lparr>cn_pending := cn_pending c @ [a]\<rparr>"

definition write_push :: "outgoing \<Rightarrow> connection \<Rightarrow> connection" where
  "write_push m c = c\<lparr>m_send_queue := m_send_queue c @ [m]\<rparr>"

definition send_message :: "ws_message \<Rightarrow> connection \<Rightarrow> connection \<times> ws_error option" where
  "send_message m c =
     (if cn_state c \<noteq> S_open then (c, Some invalid_state)
      else case prepare_data_frame (cn_server c) (drawn_key c) True m of
        Inl e \<Rightarrow> (c, Some e)
      | Inr (h, p) \<Rightarrow>
          (write_push \<lparr>og_opcode = wm_opcode m, og_header = h, og_payload = p, og_terminal = False\<rparr> (draw c), None))"

definition pong :: "bytes \<Rightarrow> connection \<Rightarrow> connection \<times> ws_error option" where
  "pong payload c =
     (if cn_state c \<noteq> S_open then (c, Some invalid_state)
      else case prepare_control (cn_server c) (drawn_key c) PONG payload of
        Inl e \<Rightarrow> (c, Some e)
      | Inr (h, p) \<Rightarrow>
          (write_push \<lparr>og_opcode = PONG, og_header = h, og_payload = p, og_terminal = False\<rparr> (draw c), None))"

text \<open>What a close frame says of the reason; an acknowledgement repeats what the other side gave.\<close>

definition close_info :: "nat \<Rightarrow> bytes \<Rightarrow> bool \<Rightarrow> connection \<Rightarrow> nat \<times> bytes" where
  "close_info code reason ack c =
     (if code \<noteq> cs_blank then (code, reason)
      else if \<not> ack then (cs_no_status, [])
      else if m_remote_close_code c = cs_no_status then (cs_normal, [])
      else (m_remote_close_code c, m_remote_close_reason c))"

definition send_close_frame :: "nat \<Rightarrow> bytes \<Rightarrow> bool \<Rightarrow> bool \<Rightarrow> connection \<Rightarrow> connection \<times> ws_error option" where
  "send_close_frame code reason ack terminal c =
     (let (lc, lr) = close_info code reason ack c;
        c1 = c\<lparr>m_local_close_code := lc, m_local_close_reason := lr\<rparr>
      in case prepare_close (cn_server c) (drawn_key c) lc lr of
        Inl e \<Rightarrow> (c1, Some e)
      | Inr (h, p) \<Rightarrow>
          (write_push \<lparr>og_opcode = CLOSE_op, og_header = h, og_payload = p, og_terminal = terminal\<rparr>
             (await (A_timer Close_handshake)
               ((draw c1)\<lparr>cn_state := S_closing, m_was_clean := (ack \<or> m_was_clean c1)\<rparr>)), None))"

definition close_connection :: "nat \<Rightarrow> bytes \<Rightarrow> connection \<Rightarrow> connection \<times> ws_error option" where
  "close_connection code reason c =
     (if cn_state c \<noteq> S_open then (c, Some invalid_state)
      else send_close_frame code (take 123 reason) False (terminal_code code) c)"

definition send_close_ack :: "nat \<Rightarrow> bytes \<Rightarrow> connection \<Rightarrow> connection \<times> ws_error option" where
  "send_close_ack code reason c = send_close_frame code reason True (cn_server c) c"

text \<open>
  \<open>terminate\<close>, with the text of the error. Whether the timer it cancels still runs out is decided by the
  transport; the handler that ends the connection is called when the shutdown is done.
\<close>

definition terminate :: "string option \<Rightarrow> connection \<Rightarrow> connection" where
  "terminate ec c =
     (let c1 = (case ec of None \<Rightarrow> c
                | Some e \<Rightarrow> c\<lparr>m_local_close_code := cs_abnormal_close, m_local_close_reason := bytes_of e\<rparr>)
      in if cn_state c1 = S_connecting then await (A_shutdown T_failed) (c1\<lparr>cn_state := S_closed\<rparr>)
         else if cn_state c1 \<noteq> S_closed then await (A_shutdown T_closed) (c1\<lparr>cn_state := S_closed\<rparr>)
         else c1)"

text \<open>Neither end has a ping handler, so a ping is answered.\<close>

definition process_control_frame :: "ws_message \<Rightarrow> connection \<Rightarrow> connection" where
  "process_control_frame m c =
     (let op = wm_opcode m; payload = wm_payload m in
      if cn_state c = S_closed then c
      else if op \<noteq> CLOSE_op \<and> cn_state c \<noteq> S_open then c
      else if op = PING then fst (pong payload c)
      else if op = PONG then c
      else if op = CLOSE_op then
        (let (code, ec) = extract_code payload; c1 = c\<lparr>m_remote_close_code := code\<rparr> in
         if ec \<noteq> None then fst (send_close_ack cs_protocol_error (bytes_of ''Invalid close code'') c1)
         else let (reason, ec) = extract_reason payload; c2 = c1\<lparr>m_remote_close_reason := reason\<rparr> in
           if ec \<noteq> None then fst (send_close_ack cs_protocol_error (bytes_of ''Invalid close reason'') c2)
           else if cn_state c2 = S_open then fst (send_close_ack cs_blank [] c2)
           else if cn_state c2 = S_closing \<and> \<not> m_was_clean c2 then
             (let c3 = c2\<lparr>m_was_clean := True\<rparr> in if cn_server c3 then terminate None c3 else c3)
           else c2)
      else c)"

definition dispatch :: "ws_message \<Rightarrow> connection \<Rightarrow> connection" where
  "dispatch m c =
     (if \<not> is_control (wm_opcode m) then
        (if cn_state c \<noteq> S_open then c else c\<lparr>cn_delivered := cn_delivered c @ [m]\<rparr>)
      else process_control_frame m c)"

text \<open>
  One read. The messages do not depend on what is done with the earlier ones, so they are dispatched
  one after the other behind the loop that reads them. After an error the connection is closed, and
  \<open>read_frame\<close> is not called again.
\<close>

definition on_read :: "bytes \<Rightarrow> connection \<Rightarrow> connection" where
  "on_read buf c =
     (if \<not> cn_reading c then c
      else case handle_read_frame (cn_processor c) buf of
        (ms, Read_more s) \<Rightarrow> (fold dispatch ms c)\<lparr>cn_processor := s\<rparr>
      | (ms, Consume_error e) \<Rightarrow>
          (case close_connection (to_ws e) (bytes_of (error_message e)) (fold dispatch ms c) of
             (c1, None) \<Rightarrow> c1\<lparr>cn_reading := False\<rparr>
           | (c1, Some close_ec) \<Rightarrow> (terminate (Some (error_message close_ec)) c1)\<lparr>cn_reading := False\<rparr>)
      | (ms, Stuck) \<Rightarrow> (fold dispatch ms c)\<lparr>cn_reading := False\<rparr>)"

text \<open>Writing: all that is queued, up to a terminal message; the bytes go out in one write.\<close>

fun take_batch :: "outgoing list \<Rightarrow> outgoing list \<times> outgoing list" where
  "take_batch [] = ([], [])"
| "take_batch (m # q) = (if og_terminal m then ([m], q) else (case take_batch q of (a, b) \<Rightarrow> (m # a, b)))"

definition og_bytes :: "outgoing \<Rightarrow> bytes" where
  "og_bytes m = og_header m @ og_payload m"

definition write_frame :: "connection \<Rightarrow> connection \<times> bytes option" where
  "write_frame c =
     (if m_write_flag c then (c, None)
      else case take_batch (m_send_queue c) of
        ([], q) \<Rightarrow> (c\<lparr>m_send_queue := q\<rparr>, None)
      | (ms, q) \<Rightarrow> (c\<lparr>m_send_queue := q, m_current_msgs := ms, m_write_flag := True\<rparr>, Some (concat (map og_bytes ms))))"

definition handle_write_frame :: "string option \<Rightarrow> connection \<Rightarrow> connection" where
  "handle_write_frame ec c =
     (let was_terminal = og_terminal (last (m_current_msgs c)); c1 = c\<lparr>m_current_msgs := []\<rparr> in
      case ec of Some e \<Rightarrow> terminate (Some e) c1
      | None \<Rightarrow> if was_terminal then terminate None c1 else c1\<lparr>m_write_flag := False\<rparr>)"

subsection \<open>What the operations keep\<close>

lemma idle_new: "idle (hybi13_new server n)"
  using hybi_inv_new by (simp add: idle_def hybi13_new_def reset_headers_def BASIC_HEADER_LENGTH_def no_msg_def)

lemma opened [simp]:
  "cn_state (connection_open (connection_new b r)) = S_open" "cn_reading (connection_open (connection_new b r))"
  "cn_server (connection_open (connection_new b r)) = b"
  "m_send_queue (connection_open (connection_new b r)) = []" "\<not> m_write_flag (connection_open (connection_new b r))"
  "cn_delivered (connection_open (connection_new b r)) = []"
  "idle (cn_processor (connection_open (connection_new b r)))"
  "h_server (cn_processor (connection_open (connection_new b r))) = b"
  "m_max_message_size (cn_processor (connection_open (connection_new b r))) = max_message_size"
  using idle_new
  by (simp_all add: connection_open_def connection_new_def hybi13_new_def reset_headers_def)


text \<open>A connection that is not open does not become open again, and gives nothing to its handler.\<close>

definition shut_from :: "connection \<Rightarrow> connection \<Rightarrow> bool" where
  "shut_from c c' \<longleftrightarrow> cn_delivered c' = cn_delivered c \<and> cn_reading c' = cn_reading c \<and>
     cn_processor c' = cn_processor c \<and> cn_server c' = cn_server c \<and> (cn_state c \<noteq> S_open \<longrightarrow> cn_state c' \<noteq> S_open)"

lemma shut_from_refl [simp]: "shut_from c c"
  by (simp add: shut_from_def)

lemma shut_from_trans: "shut_from c c1 \<Longrightarrow> shut_from c1 c2 \<Longrightarrow> shut_from c c2"
  by (simp add: shut_from_def)

lemma draw_simps [simp]:
  "cn_delivered (draw c) = cn_delivered c" "cn_reading (draw c) = cn_reading c" "cn_processor (draw c) = cn_processor c"
  "cn_server (draw c) = cn_server c" "cn_state (draw c) = cn_state c" "m_send_queue (draw c) = m_send_queue c"
  "m_write_flag (draw c) = m_write_flag c" "m_was_clean (draw c) = m_was_clean c" "cn_pending (draw c) = cn_pending c"
  by (simp_all add: draw_def)

lemma await_simps [simp]:
  "cn_delivered (await a c) = cn_delivered c" "cn_reading (await a c) = cn_reading c" "cn_processor (await a c) = cn_processor c"
  "cn_server (await a c) = cn_server c" "cn_state (await a c) = cn_state c" "m_send_queue (await a c) = m_send_queue c"
  "m_write_flag (await a c) = m_write_flag c" "m_was_clean (await a c) = m_was_clean c" "cn_pending (await a c) = cn_pending c @ [a]"
  by (simp_all add: await_def)

lemma shut_from_close_frame: "shut_from c (fst (send_close_frame code reason ack terminal c))"
  by (simp add: send_close_frame_def shut_from_def write_push_def Let_def split: sum.splits prod.splits)

lemma shut_from_close_ack: "shut_from c c' \<Longrightarrow> shut_from c (fst (send_close_ack code reason c'))"
  unfolding send_close_ack_def by (erule shut_from_trans) (rule shut_from_close_frame)

lemma shut_from_close: "shut_from c (fst (close_connection code reason c))"
  using shut_from_close_frame by (simp add: close_connection_def)

lemma shut_from_terminate: "shut_from c c' \<Longrightarrow> shut_from c (terminate ec c')"
  by (simp add: terminate_def shut_from_def Let_def split: option.splits)

lemma shut_from_pong: "shut_from c (fst (pong payload c))"
  by (simp add: pong_def shut_from_def write_push_def split: sum.splits prod.splits)

lemma shut_from_fields [simp]:
  "shut_from c (c'\<lparr>m_remote_close_code := x\<rparr>) = shut_from c c'" "shut_from c (c'\<lparr>m_remote_close_reason := r\<rparr>) = shut_from c c'"
  "shut_from c (c'\<lparr>m_was_clean := b\<rparr>) = shut_from c c'"
  by (simp_all add: shut_from_def)

lemma shut_from_control: "shut_from c (process_control_frame m c)"
  unfolding process_control_frame_def Let_def
  by (simp add: shut_from_pong shut_from_close_ack shut_from_terminate split: prod.splits)

lemma dispatch_shut: "cn_state c \<noteq> S_open \<Longrightarrow> shut_from c (dispatch m c)"
  using shut_from_control by (simp add: dispatch_def)

lemma fold_dispatch_shut: "cn_state c \<noteq> S_open \<Longrightarrow> shut_from c (fold dispatch ms c)"
proof (induction ms arbitrary: c)
  case (Cons m ms)
  from dispatch_shut [OF Cons.prems, of m] Cons show ?case
    by (auto intro: shut_from_trans simp: shut_from_def)
qed simp

lemma on_read_shut:
  assumes "cn_state c \<noteq> S_open"
  shows "cn_delivered (on_read buf c) = cn_delivered c \<and> cn_state (on_read buf c) \<noteq> S_open"
proof -
  obtain ms e where h: "handle_read_frame (cn_processor c) buf = (ms, e)" by force
  note f = fold_dispatch_shut [OF assms, of ms]
  show ?thesis
  proof (cases "cn_reading c")
    case True
    show ?thesis
    proof (cases e)
      case (Consume_error x)
      obtain c1 r where c1: "close_connection (to_ws x) (bytes_of (error_message x)) (fold dispatch ms c) = (c1, r)" by force
      then have "shut_from c c1"
        using shut_from_trans [OF f shut_from_close, of "to_ws x" "bytes_of (error_message x)"] by simp
      with shut_from_terminate [OF this] True h Consume_error c1 assms show ?thesis
        by (auto simp: on_read_def shut_from_def split: option.splits)
    qed (use True h f assms in \<open>simp_all add: on_read_def shut_from_def\<close>)
  qed (use assms in \<open>simp add: on_read_def\<close>)
qed

lemma on_reads_shut:
  "cn_state c \<noteq> S_open \<Longrightarrow> cn_delivered (fold on_read cs c) = cn_delivered c \<and> cn_state (fold on_read cs c) \<noteq> S_open"
  by (induction cs arbitrary: c) (simp_all add: on_read_shut)

subsection \<open>However the bytes are cut\<close>

text \<open>What is done with a message does not depend on the processor.\<close>

abbreviation set_processor :: "hybi13 \<Rightarrow> connection \<Rightarrow> connection" where
  "set_processor s c \<equiv> c\<lparr>cn_processor := s\<rparr>"

lemma draw_processor [simp]:
  "draw (set_processor s c) = set_processor s (draw c)" "drawn_key (set_processor s c) = drawn_key c"
  "write_push m (set_processor s c) = set_processor s (write_push m c)" "await a (set_processor s c) = set_processor s (await a c)"
  by (simp_all add: draw_def drawn_key_def write_push_def await_def)

lemma drawn_key_local [simp]: "drawn_key (c\<lparr>m_local_close_code := x, m_local_close_reason := r\<rparr>) = drawn_key c"
  by (simp add: drawn_key_def)

lemma pong_processor: "pong p (set_processor s c) = map_prod (set_processor s) id (pong p c)"
  by (simp add: pong_def split: sum.splits prod.splits)

lemma close_frame_processor:
  "send_close_frame code r ack term (set_processor s c) = map_prod (set_processor s) id (send_close_frame code r ack term c)"
proof -
  obtain lc lr where l1: "close_info code r ack c = (lc, lr)" by force
  have "close_info code r ack (set_processor s c) = close_info code r ack c" by (simp add: close_info_def)
  note l = l1 this [unfolded l1]
  show ?thesis
  proof (cases "prepare_close (cn_server c) (drawn_key c) lc lr")
    case (Inl e)
    then show ?thesis using l by (simp add: send_close_frame_def)
  next
    case (Inr hp)
    obtain h p where "hp = (h, p)" by force
    with Inr l show ?thesis
      by (simp add: send_close_frame_def Let_def) (rule connection.equality; simp add: draw_def write_push_def await_def)
  qed
qed

lemma close_processor:
  "close_connection code r (set_processor s c) = map_prod (set_processor s) id (close_connection code r c)"
  "send_close_ack code r (set_processor s c) = map_prod (set_processor s) id (send_close_ack code r c)"
  "terminate e (set_processor s c) = set_processor s (terminate e c)"
  by (simp_all add: close_connection_def send_close_ack_def close_frame_processor terminate_def Let_def await_def split: option.splits)

lemma control_processor: "process_control_frame m (set_processor s c) = set_processor s (process_control_frame m c)"
proof -
  obtain code e1 where 1: "extract_code (wm_payload m) = (code, e1)" by force
  obtain r e2 where 2: "extract_reason (wm_payload m) = (r, e2)" by force
  have u: "(set_processor s c)\<lparr>m_remote_close_code := x\<rparr> = set_processor s (c\<lparr>m_remote_close_code := x\<rparr>)"
    "(set_processor s c')\<lparr>m_remote_close_reason := y\<rparr> = set_processor s (c'\<lparr>m_remote_close_reason := y\<rparr>)"
    "(set_processor s c')\<lparr>m_was_clean := z\<rparr> = set_processor s (c'\<lparr>m_was_clean := z\<rparr>)" for x y z c'
    by simp_all
  show ?thesis
    unfolding process_control_frame_def Let_def 1 2 prod.case u close_processor pong_processor fst_map_prod
    by (simp add: close_processor)
qed

lemma dispatch_processor: "dispatch m (set_processor s c) = set_processor s (dispatch m c)"
  using control_processor [of m s c] by (simp add: dispatch_def)

lemma fold_dispatch_processor: "fold dispatch ms (set_processor s c) = set_processor s (fold dispatch ms c)"
  by (induction ms arbitrary: c) (simp_all add: dispatch_processor)

lemma kept_close_frame: "cn_reading (fst (send_close_frame code r ack term c)) = cn_reading c"
  using shut_from_close_frame by (simp add: shut_from_def)

lemma fold_dispatch_reading: "cn_reading (fold dispatch ms c) = cn_reading c"
proof (induction ms arbitrary: c)
  case (Cons m ms)
  have "cn_reading (dispatch m c) = cn_reading c"
    using shut_from_control [of c m] by (simp add: dispatch_def shut_from_def)
  with Cons show ?case by simp
qed simp

text \<open>Two reads do what one read of both does; the processor is not looked at once the reading has ended.\<close>

lemma set_processor_eq:
  assumes "\<And>s. set_processor s c = set_processor s c'"
  shows "cn_delivered c = cn_delivered c'" "cn_state c = cn_state c'" "m_send_queue c = m_send_queue c'" "m_was_clean c = m_was_clean c'"
    "cn_reading c = cn_reading c'"
  using arg_cong [OF assms, of cn_delivered] arg_cong [OF assms, of cn_state] arg_cong [OF assms, of m_send_queue]
    arg_cong [OF assms, of m_was_clean] arg_cong [OF assms, of cn_reading]
  by simp_all

lemma on_read_append:
  assumes "hybi_inv (cn_processor c)"
  shows "set_processor s (on_read b (on_read a c)) = set_processor s (on_read (a @ b) c) \<and>
    (cn_reading (on_read a c) \<longrightarrow> hybi_inv (cn_processor (on_read a c)))"
proof (cases "cn_reading c")
  case True
  obtain ms e where a: "handle_read_frame (cn_processor c) a = (ms, e)" by force
  obtain ms' e' where ab: "handle_read_frame (cn_processor c) (a @ b) = (ms', e')" by force
  from handle_read_inv [OF assms a] consider s1 where "e = Read_more s1" "hybi_inv s1" | x where "e = Consume_error x" by blast
  then show ?thesis
  proof cases
    case 1
    obtain m2 e2 where b: "handle_read_frame s1 b = (m2, e2)" by force
    have e': "ms' = ms @ m2" "e' = e2"
      using ab handle_read_append [OF assms, of a b] a b 1 by (simp_all add: then_read_def)
    have c1: "on_read a c = set_processor s1 (fold dispatch ms c)" using True a 1 by (simp add: on_read_def)
    have f: "fold dispatch m2 (fold dispatch ms c) = fold dispatch ms' c" using e' by simp
    have r: "cn_reading (fold dispatch ms c)" using True by (simp add: fold_dispatch_reading)
    have "set_processor s (on_read b (set_processor s1 (fold dispatch ms c))) = set_processor s (on_read (a @ b) c)"
      using True r b ab f unfolding e'(2)
      by (auto simp: on_read_def fold_dispatch_processor close_processor split: read_end.splits prod.splits option.splits)
    with 1 c1 show ?thesis by simp
  next
    case (2 x)
    have "e' = e" "ms' = ms" using ab handle_read_append [OF assms, of a b] a 2 by (simp_all add: then_read_def)
    with ab a have "on_read (a @ b) c = on_read a c" by (simp add: on_read_def)
    moreover have "\<not> cn_reading (on_read a c)" using True a 2 by (simp add: on_read_def split: prod.splits option.splits)
    ultimately show ?thesis by (simp add: on_read_def [of b])
  qed
qed (simp add: on_read_def)

lemma fold_on_read_stopped: "\<not> cn_reading c \<Longrightarrow> fold on_read cs c = c"
  by (induction cs) (simp_all add: on_read_def)

lemma on_reads_concat:
  assumes "hybi_inv (cn_processor c)"
  shows "set_processor s (fold on_read cs c) = set_processor s (on_read (concat cs) c)"
  using assms
proof (induction cs arbitrary: c)
  case Nil
  then show ?case by (simp add: on_read_def)
next
  case (Cons a cs)
  have ap: "set_processor s (on_read b (on_read a c)) = set_processor s (on_read (a @ b) c)" for b
    using on_read_append [OF Cons.prems] by blast
  show ?case
  proof (cases "cn_reading (on_read a c)")
    case True
    then have "hybi_inv (cn_processor (on_read a c))" using on_read_append [OF Cons.prems] by blast
    from Cons.IH [OF this] ap [of "concat cs"] show ?thesis by simp
  next
    case False
    with ap [of "concat cs"] show ?thesis by (simp add: fold_on_read_stopped on_read_def [of "concat cs" "on_read a c"])
  qed
qed

subsection \<open>Texts from one end to the other\<close>

definition text_message :: "string \<Rightarrow> ws_message" where
  "text_message t = \<lparr>wm_opcode = TEXT, wm_payload = bytes_of t\<rparr>"

definition send_texts :: "string list \<Rightarrow> connection \<Rightarrow> connection" where
  "send_texts ts c = fold (\<lambda>t c. fst (send_message (text_message t) c)) ts c"

lemma text_not_control [simp]: "\<not> is_control TEXT" "\<not> is_control BINARY"
  by (simp_all add: is_control_def TEXT_def BINARY_def)

lemma send_text:
  assumes "cn_state c = S_open"
  shows "send_message (text_message t) c =
    (if utf8_valid t then
       (case make_frame (cn_server c) (drawn_key c) TEXT True (bytes_of t) of (h, p) \<Rightarrow>
          (write_push \<lparr>og_opcode = TEXT, og_header = h, og_payload = p, og_terminal = False\<rparr> (draw c), None))
     else (c, Some invalid_payload))"
  using assms by (simp add: send_message_def prepare_data_frame_def text_message_def Let_def validate_utf8 split: prod.splits)

lemma send_texts_queue:
  assumes "cn_state c = S_open" "\<forall>t\<in>set ts. utf8_valid t"
  shows "\<exists>fs q. map snd fs = map text_message ts \<and> m_send_queue (send_texts ts c) = m_send_queue c @ q \<and> length q = length ts \<and>
    concat (map og_bytes q) = wire (cn_server c) fs \<and> (\<forall>m\<in>set q. \<not> og_terminal m) \<and>
    m_write_flag (send_texts ts c) = m_write_flag c"
  using assms
proof (induction ts arbitrary: c)
  case Nil
  then show ?case by (intro exI [of _ "[]"]) (simp add: send_texts_def wire_def)
next
  case (Cons t ts)
  let ?c = "fst (send_message (text_message t) c)"
  obtain h p where hp: "make_frame (cn_server c) (drawn_key c) TEXT True (bytes_of t) = (h, p)" by force
  let ?o = "\<lparr>og_opcode = TEXT, og_header = h, og_payload = p, og_terminal = False\<rparr>"
  have c: "?c = write_push ?o (draw c)" using Cons.prems hp by (simp add: send_text)
  have q: "m_send_queue ?c = m_send_queue c @ [?o]" "cn_state ?c = S_open" "cn_server ?c = cn_server c" "m_write_flag ?c = m_write_flag c"
    unfolding c using Cons.prems(1) by (simp_all add: write_push_def)
  have o: "og_bytes ?o = frame_bytes (cn_server c) (drawn_key c) (text_message t)"
    using hp by (simp add: og_bytes_def frame_bytes_def text_message_def)
  have st: "send_texts (t # ts) c = send_texts ts ?c" by (simp add: send_texts_def)
  from Cons.IH [OF q(2)] Cons.prems(2) obtain fs qs where fs: "map snd fs = map text_message ts"
    "m_send_queue (send_texts ts ?c) = m_send_queue ?c @ qs" "length qs = length ts"
    "concat (map og_bytes qs) = wire (cn_server ?c) fs" "\<forall>m\<in>set qs. \<not> og_terminal m"
    "m_write_flag (send_texts ts ?c) = m_write_flag ?c" by auto
  then show ?case unfolding st
    by (intro exI [of _ "(drawn_key c, text_message t) # fs"] exI [of _ "?o # qs"]) (simp add: q o wire_def)
qed

lemma take_batch_all: "\<forall>m\<in>set q. \<not> og_terminal m \<Longrightarrow> take_batch q = (q, [])"
  by (induction q) simp_all

lemma write_texts:
  assumes "cn_state c = S_open" "m_send_queue c = []" "\<not> m_write_flag c" "ts \<noteq> []" "\<forall>t\<in>set ts. utf8_valid t"
  shows "\<exists>fs. map snd fs = map text_message ts \<and> snd (write_frame (send_texts ts c)) = Some (wire (cn_server c) fs)"
proof -
  obtain fs q where q: "map snd fs = map text_message ts" "m_send_queue (send_texts ts c) = q" "length q = length ts"
    "concat (map og_bytes q) = wire (cn_server c) fs" "\<forall>m\<in>set q. \<not> og_terminal m" "\<not> m_write_flag (send_texts ts c)"
    using send_texts_queue [OF assms(1,5)] assms(2,3) by auto
  moreover from q(3) assms(4) have "q \<noteq> []" by auto
  ultimately show ?thesis
    by (intro exI [of _ fs], cases q) (simp_all add: write_frame_def take_batch_all)
qed

lemma fold_dispatch_data:
  "cn_state c = S_open \<Longrightarrow> \<forall>m\<in>set ms. \<not> is_control (wm_opcode m) \<Longrightarrow>
   fold dispatch ms c = c\<lparr>cn_delivered := cn_delivered c @ ms\<rparr>"
  by (induction ms arbitrary: c) (simp_all add: dispatch_def)

lemma on_reads_data:
  assumes "cn_state c = S_open" "cn_reading c" "reads (cn_processor c) cs = (ms, Read_more s)"
    and "\<forall>m\<in>set ms. \<not> is_control (wm_opcode m)"
  shows "fold on_read cs c = c\<lparr>cn_delivered := cn_delivered c @ ms, cn_processor := s\<rparr>"
  using assms
proof (induction cs arbitrary: c ms)
  case Nil
  then show ?case by simp
next
  case (Cons b cs)
  from Cons.prems(3) obtain m1 s1 m2 where r: "handle_read_frame (cn_processor c) b = (m1, Read_more s1)"
    "reads s1 cs = (m2, Read_more s)" "ms = m1 @ m2"
    by (auto split: prod.splits read_end.splits)
  let ?c = "c\<lparr>cn_delivered := cn_delivered c @ m1, cn_processor := s1\<rparr>"
  have "on_read b c = ?c" using Cons.prems r by (simp add: on_read_def fold_dispatch_data)
  moreover have "fold on_read cs ?c = ?c\<lparr>cn_delivered := cn_delivered ?c @ m2, cn_processor := s\<rparr>"
    by (rule Cons.IH) (use Cons.prems r in simp_all)
  ultimately show ?case using r by simp
qed

lemma readable_text:
  "utf8_valid t \<Longrightarrow> length t \<le> max_size \<Longrightarrow> length t < 2 ^ 64 \<Longrightarrow> readable server max_size (text_message t)"
  by (simp add: readable_def sendable_def text_message_def validate_utf8)

lemma texts_received:
  assumes "cn_state c = S_open" "m_send_queue c = []" "\<not> m_write_flag c" "ts \<noteq> []"
    and "\<forall>t\<in>set ts. utf8_valid t \<and> length t \<le> m_max_message_size (cn_processor d) \<and> length t < 2 ^ 64"
    and "cn_state d = S_open" "cn_reading d" "idle (cn_processor d)" "h_server (cn_processor d) = (\<not> cn_server c)"
    and "snd (write_frame (send_texts ts c)) = Some bs" "concat cs = bs"
  shows "cn_delivered (fold on_read cs d) = cn_delivered d @ map text_message ts \<and> cn_state (fold on_read cs d) = S_open"
proof -
  obtain fs where fs: "map snd fs = map text_message ts" "bs = wire (cn_server c) fs"
    using write_texts [OF assms(1-4)] assms(5,10) by auto
  have "snd ` set fs = text_message ` set ts" using arg_cong [OF fs(1), of set] by simp
  then have "\<forall>f\<in>set fs. \<exists>t\<in>set ts. snd f = text_message t" by blast
  then have "\<forall>(rng, m)\<in>set fs. readable (cn_server c) (m_max_message_size (cn_processor d)) m"
    using assms(5) readable_text by fastforce
  from wire_received [OF assms(8) this assms(9)] obtain s where
    "handle_read_frame (cn_processor d) (wire (cn_server c) fs) = (map snd fs, Read_more s)" by blast
  then have "reads (cn_processor d) cs = (map text_message ts, Read_more s)"
    using reads_concat [of "cn_processor d" cs] assms(8,11) fs by (simp add: idle_def)
  from on_reads_data [OF assms(6,7) this] assms(6) show ?thesis by (simp add: text_message_def)
qed

subsection \<open>The closing handshake\<close>

lemma byte_pair: "length bs = 2 \<Longrightarrow> bytes_of_code (code_of_bytes bs) = bs"
proof -
  assume "length bs = 2"
  then obtain x y where bs: "bs = [x, y]" by (cases bs rule: list.exhaust; cases "tl bs") auto
  have "\<not> bit y (8 + n)" for n using bit_imp_le_length [of y "8 + n"] by auto
  then have "le_bytes 2 (of_le [y, x] :: 16 word) = [y, x]"
    by (simp add: le_bytes_def numeral_2_eq_2) (auto intro!: bit_eqI simp: bit_simps)
  then show ?thesis by (simp add: bs bytes_of_code_def code_of_bytes_def)
qed

lemma close_payload_extracted:
  assumes "extract_code p = (code, None)" "2 \<le> length p"
  shows "close_payload code (fst (extract_reason p)) = p" "\<not> reserved_code code" "\<not> invalid_code code"
    "length (fst (extract_reason p)) = length p - 2"
proof -
  from assms have code: "code = code_of_bytes (take 2 p)" "\<not> reserved_code code" "\<not> invalid_code code"
    by (auto simp: extract_code_def Let_def split: if_splits)
  then show "\<not> reserved_code code" "\<not> invalid_code code" by simp_all
  have "code \<noteq> cs_no_status" using code(3) by (auto simp: invalid_code_def)
  moreover have "fst (extract_reason p) = drop 2 p" using assms(2) by (simp add: extract_reason_def Let_def)
  ultimately show "close_payload code (fst (extract_reason p)) = p" "length (fst (extract_reason p)) = length p - 2"
    using byte_pair [of "take 2 p"] assms(2) by (simp_all add: close_payload_def code(1))
qed

text \<open>The first close frame of the other side is answered with its payload, or with 1000, and the connection is closing.\<close>

definition answer_to :: "bytes \<Rightarrow> bytes" where
  "answer_to p = (if p = [] then bytes_of_code cs_normal else p)"

lemma close_control:
  assumes "cn_state c = S_open" "extract_code p = (code, None)" "extract_reason p = (reason, None)" "length p \<le> 125"
  shows "\<exists>g. m_send_queue (process_control_frame \<lparr>wm_opcode = CLOSE_op, wm_payload = p\<rparr> c) = m_send_queue c @ [g] \<and>
    og_opcode g = CLOSE_op \<and> og_terminal g = cn_server c \<and>
    og_bytes g = frame_bytes (cn_server c) (drawn_key c) \<lparr>wm_opcode = CLOSE_op, wm_payload = answer_to p\<rparr> \<and>
    cn_state (process_control_frame \<lparr>wm_opcode = CLOSE_op, wm_payload = p\<rparr> c) = S_closing \<and>
    m_was_clean (process_control_frame \<lparr>wm_opcode = CLOSE_op, wm_payload = p\<rparr> c)"
proof -
  define lc lr where "lc = (if p = [] then cs_normal else code)" and "lr = (if p = [] then [] else reason)"
  have ops: "CLOSE_op \<noteq> PING" "CLOSE_op \<noteq> PONG" "is_control CLOSE_op" by (simp_all add: opcode_defs is_control_def)
  have ne: "length p \<noteq> 1" using assms(2) by (auto simp: extract_code_def simp del: One_nat_def split: if_splits)
  have l: "close_payload lc lr = answer_to p \<and> \<not> reserved_code lc \<and> \<not> invalid_code lc \<and> length lr \<le> 123 \<and> lc \<noteq> cs_no_status"
  proof (cases "p = []")
    case True
    then show ?thesis
      by (simp add: lc_def lr_def answer_to_def close_payload_def reserved_code_def invalid_code_def close_codes)
  next
    case False
    then have "2 \<le> length p" using ne by (cases p; cases "tl p") auto
    from close_payload_extracted [OF assms(2) this] assms(3,4) False show ?thesis
      by (auto simp: lc_def lr_def answer_to_def invalid_code_def)
  qed
  have lp: "length (answer_to p) \<le> 125" using assms(4) by (simp add: answer_to_def bytes_of_code_def)
  have code: "p = [] \<Longrightarrow> code = cs_no_status" "p \<noteq> [] \<Longrightarrow> code \<noteq> cs_no_status"
    using assms(2) l by (auto simp: extract_code_def lc_def)
  obtain h q where hq: "make_frame (cn_server c) (drawn_key c) CLOSE_op True (answer_to p) = (h, q)" by force
  have pc: "prepare_close (cn_server c) (drawn_key c) lc lr = Inr (h, q)"
    using l lp hq ops by (simp add: prepare_close_def prepare_control_def)
  let ?c2 = "c\<lparr>m_remote_close_code := code, m_remote_close_reason := reason\<rparr>"
  have dk: "drawn_key (?c2\<lparr>m_local_close_code := lc, m_local_close_reason := lr\<rparr>) = drawn_key c" "drawn_key ?c2 = drawn_key c"
    by (simp_all add: drawn_key_def)
  have ci: "close_info cs_blank [] True ?c2 = (lc, lr)"
    using code by (cases "p = []") (simp_all add: close_info_def lc_def lr_def)
  have "process_control_frame \<lparr>wm_opcode = CLOSE_op, wm_payload = p\<rparr> c = fst (send_close_ack cs_blank [] ?c2)"
    using assms ops by (simp add: process_control_frame_def Let_def)
  also have "\<dots> = write_push \<lparr>og_opcode = CLOSE_op, og_header = h, og_payload = q, og_terminal = cn_server c\<rparr>
     (await (A_timer Close_handshake)
       ((draw (?c2\<lparr>m_local_close_code := lc, m_local_close_reason := lr\<rparr>))\<lparr>cn_state := S_closing, m_was_clean := True\<rparr>))"
    using pc ci by (simp add: send_close_ack_def send_close_frame_def Let_def dk)
  finally show ?thesis using hq by (simp add: write_push_def og_bytes_def frame_bytes_def)
qed

lemma close_answered:
  fixes c p cs rng
  defines "m \<equiv> \<lparr>wm_opcode = CLOSE_op, wm_payload = p\<rparr>" and "c' \<equiv> fold on_read cs c"
  assumes "cn_state c = S_open" "cn_reading c" "idle (cn_processor c)" "h_server (cn_processor c) = cn_server c"
    and "extract_code p = (code, None)" "extract_reason p = (reason, None)" "length p \<le> 125"
    and "concat cs = frame_bytes (\<not> cn_server c) rng m"
  shows "\<exists>g. m_send_queue c' = m_send_queue c @ [g] \<and> og_opcode g = CLOSE_op \<and> og_terminal g = cn_server c \<and>
    og_bytes g = frame_bytes (cn_server c) (drawn_key c) \<lparr>wm_opcode = CLOSE_op, wm_payload = answer_to p\<rparr> \<and>
    cn_state c' = S_closing \<and> m_was_clean c' \<and> cn_delivered c' = cn_delivered c"
proof -
  have r: "readable (\<not> cn_server c) (m_max_message_size (cn_processor c)) m"
    using assms(9) by (simp add: m_def readable_def sendable_def opcode_defs)
  from frame_received [OF assms(5) this, of rng "[]"] assms(6) obtain s where
    "handle_read_frame (cn_processor c) (concat cs) = ([m], Read_more s)" using assms(10) by auto
  then have "on_read (concat cs) c = set_processor s (process_control_frame m c)"
    using assms(4) by (simp add: on_read_def dispatch_def m_def is_control_def CLOSE_op_def)
  moreover have "cn_delivered (process_control_frame m c) = cn_delivered c"
    using shut_from_control [of c m] by (simp add: shut_from_def)
  moreover have "hybi_inv (cn_processor c)" using assms(5) by (simp add: idle_def)
  note set_processor_eq [OF on_reads_concat [OF this, of _ cs]]
  ultimately show ?thesis
    using close_control [OF assms(3,7,8,9)] unfolding c'_def m_def by simp
qed

subsection \<open>A text in parts\<close>

text \<open>A lead byte of two at the end of a text in two parts is not noticed.\<close>

lemma cut_text:
  assumes "utf8_valid t"
  shows "\<exists>v. validator_decode validator_new (bytes_of t @ [0xC3]) = (v, True) \<and> \<not> complete v"
proof -
  obtain v where v: "validator_decode validator_new (bytes_of t) = (v, True)" "v_state v = 0"
    using assms by (auto simp: validate_utf8 [symmetric] validate_def complete_def utf8_accept_def split: prod.splits)
  have "ws_utf8d ! 195 = 2" "ws_utf8d ! 258 = 2" by (code_simp, code_simp)
  then have "v_state (validator_step v (unat (0xC3 :: 8 word))) = 2"
    using v(2) by (simp add: validator_step_def Let_def)
  then show ?thesis using v
    by (simp add: validator_decode_append utf8_reject_def complete_def utf8_accept_def Let_def)
qed

lemma cut_text_read:
  assumes "idle s" "h_server s = (k1 \<noteq> None)" "(k2 \<noteq> None) = (k1 \<noteq> None)" "utf8_valid t" "t \<noteq> []"
    and "length t < m_max_message_size s" "m_max_message_size s < 2 ^ 64"
  shows "(\<exists>s'. handle_read_frame s (fragment TEXT False k1 (bytes_of t) @ fragment CONTINUATION True k2 [0xC3]) =
      ([\<lparr>wm_opcode = TEXT, wm_payload = bytes_of t @ [0xC3]\<rparr>], Read_more s')) \<and>
    \<not> validate (bytes_of t @ [0xC3])"
proof -
  obtain v where v: "validator_decode validator_new (bytes_of t @ [0xC3]) = (v, True)" "\<not> complete v"
    using cut_text [OF assms(4)] by blast
  have "bytes_of t \<noteq> []" using assms(5) length_bytes_of [of t] by (metis length_0_conv)
  from fragmented_text_read [OF assms(1-3) this _ _ assms(7) v(1)] assms(6) v show ?thesis
    by (simp add: validate_def)
qed

end
