(* ===== verification/Session.thy ===== *)
theory Session
  imports HandshakeRound Connection
begin

text \<open>
  The life of a websocket connection (\<open>websocketpp/impl/connection_impl.hpp\<close>), from \<open>start\<close> through the
  handshake and the frames to the handler that ends it. The connection keeps the operations the transport
  was asked for; an event is the completion of one of them, with the result the transport gives, or a call
  of the application. A read never brings more than the buffer holds, so the boundary
  checks behind it are left out; there is no handler for plain HTTP. The handlers of the library run one at a time, as its strand has it.
\<close>

subsection \<open>The session\<close>

datatype istate =
    USER_INIT | TRANSPORT_INIT | READ_HTTP_REQUEST | WRITE_HTTP_REQUEST | READ_HTTP_RESPONSE
  | WRITE_HTTP_RESPONSE | PROCESS_HTTP_REQUEST | PROCESS_CONNECTION

text \<open>The handlers of the application the library has called, in order.\<close>

datatype call = Call_open | Call_message ws_message | Call_fail | Call_close

record session =
  ss_con :: connection
  m_internal_state :: istate
  m_request :: request
  m_response :: response
  ss_uri :: uri
  m_requested_subprotocols :: "string list"
  ss_ec :: "handshake_error option"
  ss_rest :: string         \<comment> \<open>the bytes of \<open>m_buf\<close> up to \<open>m_buf_cursor\<close>\<close>
  ss_written :: "bytes list"
  ss_calls :: "call list"

definition session_new :: "bool \<Rightarrow> (nat \<Rightarrow> 32 word) \<Rightarrow> uri \<Rightarrow> string list \<Rightarrow> session" where
  "session_new server rng u protocols =
     \<lparr>ss_con = connection_new server rng, m_internal_state = USER_INIT, m_request = request_new, m_response = response_new,
      ss_uri = u, m_requested_subprotocols = protocols, ss_ec = None, ss_rest = [], ss_written = [], ss_calls = []\<rparr>"

abbreviation state_of :: "session \<Rightarrow> session_state" where
  "state_of s \<equiv> cn_state (ss_con s)"

text \<open>Errors of the transport, and the texts of errors (\<open>error.hpp\<close>, \<open>processors/base.hpp\<close>).\<close>

datatype transport_error = Eof | Transport_error string

fun transport_text :: "transport_error \<Rightarrow> string" where
  "transport_text Eof = ''End of File''"
| "transport_text (Transport_error t) = t"

fun handshake_text :: "handshake_error \<Rightarrow> string" where
  "handshake_text http_parse_error = ''HTTP parse error''"
| "handshake_text invalid_version = ''Invalid version''"
| "handshake_text unsupported_version = ''Unsupported version''"
| "handshake_text invalid_http_method = ''Invalid HTTP method.''"
| "handshake_text invalid_http_version = ''Invalid HTTP version.''"
| "handshake_text missing_required_header = ''A required HTTP header is missing''"
| "handshake_text extension_parse_error = ''Error parsing extension header''"
| "handshake_text invalid_uri = ''invalid uri''"
| "handshake_text rejected = ''Connection rejected''"
| "handshake_text upgrade_required = ''Upgrade required''"
| "handshake_text general_error = ''Generic error''"
| "handshake_text invalid_http_status = ''Invalid HTTP status.''"
| "handshake_text extension_neg_failed = ''Extension negotiation failed''"

fun timer_text :: "handshake_timer \<Rightarrow> string" where
  "timer_text Open_handshake = ''The opening handshake timed out''"
| "timer_text Close_handshake = ''The closing handshake timed out''"

subsection \<open>Steps of the library\<close>

text \<open>A step of the connection; what it gives to the message handler is a call.\<close>

definition on_con :: "(connection \<Rightarrow> connection) \<Rightarrow> session \<Rightarrow> session" where
  "on_con f s =
     (let c = ss_con s; c' = f c in
      s\<lparr>ss_con := c', ss_calls := ss_calls s @ map Call_message (drop (length (cn_delivered c)) (cn_delivered c'))\<rparr>)"

definition ask :: "async \<Rightarrow> session \<Rightarrow> session" where
  "ask a = on_con (await a)"

definition tell :: "call \<Rightarrow> session \<Rightarrow> session" where
  "tell k s = s\<lparr>ss_calls := ss_calls s @ [k]\<rparr>"

definition write_out :: "bytes \<Rightarrow> async \<Rightarrow> session \<Rightarrow> session" where
  "write_out bs a s = ask a (s\<lparr>ss_written := ss_written s @ [bs]\<rparr>)"

definition terminate_session :: "string option \<Rightarrow> session \<Rightarrow> session" where
  "terminate_session ec = on_con (terminate ec)"

text \<open>
  The guard of every handler of the handshake: it goes on if the connection is still connecting and in the
  internal state the handler belongs to. One that is closed already is left alone.
\<close>

definition guarded :: "istate \<Rightarrow> transport_error option \<Rightarrow> (session \<Rightarrow> session) \<Rightarrow> session \<Rightarrow> session" where
  "guarded i ec go s =
     (let ecm = (case ec of Some e \<Rightarrow> Some (transport_text e)
                 | None \<Rightarrow> if state_of s = S_connecting then (if m_internal_state s \<noteq> i then Some (error_message invalid_state) else None)
                     else if state_of s = S_closed then None else Some (error_message invalid_state))
      in case ecm of
           Some e \<Rightarrow> if ec = Some Eof \<and> state_of s = S_closed then s else terminate_session (Some e) s
         | None \<Rightarrow> if state_of s = S_closed then s else go s)"

definition session_read_frame :: "transport_error + string \<Rightarrow> session \<Rightarrow> session" where
  "session_read_frame r s =
     (case r of
        Inl Eof \<Rightarrow>
          if state_of s = S_closed then s
          else if state_of s = S_closing \<and> \<not> cn_server (ss_con s) then terminate_session None s
          else terminate_session (Some (transport_text Eof)) s
      | Inl e \<Rightarrow> terminate_session (Some (transport_text e)) s
      | Inr buf \<Rightarrow>
          if m_internal_state s \<noteq> PROCESS_CONNECTION then
            (if state_of s = S_closed then s else terminate_session (Some (error_message invalid_state)) s)
          else let s1 = on_con (on_read (bytes_of buf)) s in
            if cn_reading (ss_con s1) then ask A_read_frame s1 else s1)"

text \<open>The connection is open: the open handler, and then the bytes that came with the handshake.\<close>

definition session_open :: "string \<Rightarrow> session \<Rightarrow> session" where
  "session_open rest s =
     session_read_frame (Inr rest) (tell Call_open (on_con connection_open (s\<lparr>m_internal_state := PROCESS_CONNECTION\<rparr>)))"

definition start :: "session \<Rightarrow> session" where
  "start s =
     (if m_internal_state s \<noteq> USER_INIT then terminate_session (Some (error_message invalid_state)) s
      else ask A_init (s\<lparr>m_internal_state := TRANSPORT_INIT\<rparr>))"

text \<open>A client takes the four numbers of its key from its generator.\<close>

definition send_request :: "session \<Rightarrow> session" where
  "send_request s =
     (let c = ss_con s in
      case send_http_request user_agent (ss_uri s) (m_requested_subprotocols s) (\<lambda>i. cn_random c (cn_drawn c + i)) of
        Inl code \<Rightarrow> s
      | Inr req \<Rightarrow>
          write_out (bytes_of (request_raw req)) A_send_request
            (ask (A_timer Open_handshake) (s\<lparr>ss_con := c\<lparr>cn_drawn := cn_drawn c + 4\<rparr>, m_request := req\<rparr>)))"

definition handle_transport_init :: "transport_error option \<Rightarrow> session \<Rightarrow> session" where
  "handle_transport_init ec s =
     (if m_internal_state s \<noteq> TRANSPORT_INIT then terminate_session (Some (error_message invalid_state)) s
      else case ec of Some e \<Rightarrow> terminate_session (Some (transport_text e)) s
      | None \<Rightarrow>
          if cn_server (ss_con s)
          then ask A_read_handshake (ask (A_timer Open_handshake) (s\<lparr>m_internal_state := READ_HTTP_REQUEST\<rparr>))
          else send_request (s\<lparr>m_internal_state := WRITE_HTTP_REQUEST\<rparr>))"

text \<open>A request of an older version ends the model: nothing is awaited any more.\<close>

definition read_handshake :: "string \<Rightarrow> session \<Rightarrow> session" where
  "read_handshake buf s =
     (case handle_read_handshake user_agent (m_request s) buf of
        Server_reading r \<Rightarrow> ask A_read_handshake (s\<lparr>m_request := r\<rparr>)
      | Server_answers r resp ec subprotocol rest \<Rightarrow>
          write_out (bytes_of (response_raw resp)) A_write_response
            (s\<lparr>m_request := r, m_response := resp, ss_ec := ec, ss_rest := rest, m_internal_state := PROCESS_HTTP_REQUEST\<rparr>)
      | Server_older r v \<Rightarrow> s\<lparr>m_request := r\<rparr>)"

definition handle_write_http_response :: "transport_error option \<Rightarrow> session \<Rightarrow> session" where
  "handle_write_http_response ec =
     guarded PROCESS_HTTP_REQUEST ec (\<lambda>s.
       if m_status_code (m_response s) \<noteq> 101 then terminate_session (map_option handshake_text (ss_ec s)) s
       else session_open (ss_rest s) s)"

definition handle_send_http_request :: "transport_error option \<Rightarrow> session \<Rightarrow> session" where
  "handle_send_http_request ec =
     guarded WRITE_HTTP_REQUEST ec (\<lambda>s. ask A_read_response (s\<lparr>m_internal_state := READ_HTTP_RESPONSE\<rparr>))"

definition read_http_response :: "string \<Rightarrow> session \<Rightarrow> session" where
  "read_http_response buf s =
     (case handle_read_http_response (m_request s) (m_response s) buf of
        Client_reading r \<Rightarrow> ask A_read_response (s\<lparr>m_response := r\<rparr>)
      | Client_terminated e \<Rightarrow> terminate_session (Some (handshake_text e)) s
      | Client_opened r terminated rest \<Rightarrow>
          (let s1 = s\<lparr>m_response := r\<rparr> in
           session_open rest (if terminated then terminate_session (Some (handshake_text extension_neg_failed)) s1 else s1)))"

definition handle_timeout :: "handshake_timer \<Rightarrow> bool \<Rightarrow> session \<Rightarrow> session" where
  "handle_timeout t expired s = (if expired then terminate_session (Some (timer_text t)) s else s)"

definition handle_terminate :: "terminate_status \<Rightarrow> session \<Rightarrow> session" where
  "handle_terminate t = tell (case t of T_failed \<Rightarrow> Call_fail | T_closed \<Rightarrow> Call_close)"

subsection \<open>Events\<close>

text \<open>Completions of what is pending, and calls of the application; \<open>Dispatched\<close> is \<open>write_frame\<close> on the strand.\<close>

datatype event =
    Started
  | Initialized "transport_error option"
  | Read async "transport_error + string"
  | Written async "transport_error option"
  | Timer handshake_timer bool
  | Shut_down terminate_status
  | Dispatched
  | App_send ws_message
  | App_close nat bytes

fun completes :: "event \<Rightarrow> async option" where
  "completes (Initialized ec) = Some A_init"
| "completes (Read a r) = Some a"
| "completes (Written a ec) = Some a"
| "completes (Timer t expired) = Some (A_timer t)"
| "completes (Shut_down t) = Some (A_shutdown t)"
| "completes _ = None"

definition enabled :: "event \<Rightarrow> session \<Rightarrow> bool" where
  "enabled e s \<longleftrightarrow>
     (case completes e of None \<Rightarrow> e = Started \<longrightarrow> m_internal_state s = USER_INIT | Some a \<Rightarrow> a \<in> set (cn_pending (ss_con s))) \<and>
     (case e of Read a r \<Rightarrow> a \<in> {A_read_handshake, A_read_response, A_read_frame}
      | Written a ec \<Rightarrow> a \<in> {A_write_response, A_send_request, A_write_frame} | _ \<Rightarrow> True)"

definition completed :: "async option \<Rightarrow> session \<Rightarrow> session" where
  "completed a s = (case a of None \<Rightarrow> s | Some a \<Rightarrow> on_con (\<lambda>c. c\<lparr>cn_pending := remove1 a (cn_pending c)\<rparr>) s)"

definition handle_read :: "async \<Rightarrow> transport_error + string \<Rightarrow> session \<Rightarrow> session" where
  "handle_read a r =
     (if a = A_read_frame then session_read_frame r
      else guarded (if a = A_read_handshake then READ_HTTP_REQUEST else READ_HTTP_RESPONSE)
             (case r of Inl e \<Rightarrow> Some e | Inr buf \<Rightarrow> None)
             (case r of Inl e \<Rightarrow> (\<lambda>s. s) | Inr buf \<Rightarrow> if a = A_read_handshake then read_handshake buf else read_http_response buf))"

definition handle_written :: "async \<Rightarrow> transport_error option \<Rightarrow> session \<Rightarrow> session" where
  "handle_written a ec =
     (if a = A_write_response then handle_write_http_response ec
      else if a = A_send_request then handle_send_http_request ec
      else on_con (handle_write_frame (map_option transport_text ec)))"

definition run_write :: "session \<Rightarrow> session" where
  "run_write s =
     (case write_frame (ss_con s) of
        (c, None) \<Rightarrow> on_con (\<lambda>_. c) s
      | (c, Some bs) \<Rightarrow> write_out bs A_write_frame (on_con (\<lambda>_. c) s))"

fun react :: "event \<Rightarrow> session \<Rightarrow> session" where
  "react Started = start"
| "react (Initialized ec) = handle_transport_init ec"
| "react (Read a r) = handle_read a r"
| "react (Written a ec) = handle_written a ec"
| "react (Timer t expired) = handle_timeout t expired"
| "react (Shut_down t) = handle_terminate t"
| "react Dispatched = run_write"
| "react (App_send m) = on_con (\<lambda>c. fst (send_message m c))"
| "react (App_close code reason) = on_con (\<lambda>c. fst (close_connection code reason c))"

definition step :: "event \<Rightarrow> session \<Rightarrow> session" where
  "step e s = react e (completed (completes e) s)"

end
