(* ===== verification/SessionLife.thy ===== *)
theory SessionLife
  imports Session
begin

text \<open>
  In which order the library calls the handlers of the application: every step of a session is a step of
  a small machine with three phases, and in its runs the open handler comes first, then messages, and
  exactly one handler ends it.
\<close>

subsection \<open>Phases\<close>

datatype phase = Before | Running | Over

definition phase_of :: "session_state \<Rightarrow> phase" where
  "phase_of st = (case st of S_connecting \<Rightarrow> Before | S_open \<Rightarrow> Running | S_closing \<Rightarrow> Running | S_closed \<Rightarrow> Over)"

lemma phase_simps [simp]:
  "phase_of S_connecting = Before" "phase_of S_open = Running" "phase_of S_closing = Running" "phase_of S_closed = Over"
  "phase_of st = Before \<longleftrightarrow> st = S_connecting" "phase_of st = Over \<longleftrightarrow> st = S_closed"
  "Before = phase_of st \<longleftrightarrow> st = S_connecting" "Over = phase_of st \<longleftrightarrow> st = S_closed"
  by (cases st; simp add: phase_of_def)+

definition shutdowns :: "connection \<Rightarrow> terminate_status list" where
  "shutdowns c = List.map_filter (\<lambda>a. case a of A_shutdown t \<Rightarrow> Some t | _ \<Rightarrow> None) (cn_pending c)"

definition end_status :: "phase \<Rightarrow> terminate_status" where
  "end_status p = (if p = Before then T_failed else T_closed)"

text \<open>
  A step of the connection keeps the phase, or ends it and asks for one shutdown; messages are given only
  while it runs.
\<close>

definition advances :: "connection \<Rightarrow> connection \<Rightarrow> bool" where
  "advances c c' \<longleftrightarrow>
     (\<exists>ms. cn_delivered c' = cn_delivered c @ ms \<and> (ms = [] \<or> phase_of (cn_state c) = Running)) \<and>
     (phase_of (cn_state c') = phase_of (cn_state c) \<and> shutdowns c' = shutdowns c \<or>
      phase_of (cn_state c) \<noteq> Over \<and> phase_of (cn_state c') = Over \<and>
      shutdowns c' = shutdowns c @ [end_status (phase_of (cn_state c))]) \<and>
     cn_server c' = cn_server c"

lemma advances_refl [simp]: "advances c c"
  by (simp add: advances_def)

lemma advances_trans: "advances c c1 \<Longrightarrow> advances c1 c2 \<Longrightarrow> advances c c2"
  unfolding advances_def by (elim conjE exE disjE) (auto simp: end_status_def)

lemma advances_same:
  "cn_delivered c' = cn_delivered c \<Longrightarrow> phase_of (cn_state c') = phase_of (cn_state c) \<Longrightarrow> shutdowns c' = shutdowns c \<Longrightarrow>
   cn_server c' = cn_server c \<Longrightarrow> advances c c'"
  by (simp add: advances_def)

lemma shutdowns_await [simp]:
  "shutdowns (await a c) = shutdowns c @ (case a of A_shutdown t \<Rightarrow> [t] | _ \<Rightarrow> [])"
  by (simp add: shutdowns_def List.map_filter_def split: async.splits)

lemma shutdowns_cong: "cn_pending c' = cn_pending c \<Longrightarrow> shutdowns c' = shutdowns c"
  by (simp add: shutdowns_def)

lemma shutdowns_fields [simp]:
  "shutdowns (c\<lparr>m_local_close_code := x\<rparr>) = shutdowns c" "shutdowns (c\<lparr>m_local_close_reason := r\<rparr>) = shutdowns c"
  "shutdowns (c\<lparr>m_remote_close_code := x\<rparr>) = shutdowns c" "shutdowns (c\<lparr>m_remote_close_reason := r\<rparr>) = shutdowns c"
  "shutdowns (c\<lparr>cn_state := st\<rparr>) = shutdowns c" "shutdowns (c\<lparr>m_was_clean := b\<rparr>) = shutdowns c"
  "shutdowns (c\<lparr>cn_processor := pr\<rparr>) = shutdowns c" "shutdowns (c\<lparr>cn_reading := b\<rparr>) = shutdowns c"
  "shutdowns (c\<lparr>cn_delivered := ms\<rparr>) = shutdowns c" "shutdowns (c\<lparr>m_send_queue := q\<rparr>) = shutdowns c"
  "shutdowns (c\<lparr>m_current_msgs := q\<rparr>) = shutdowns c" "shutdowns (c\<lparr>m_write_flag := b\<rparr>) = shutdowns c"
  "shutdowns (c\<lparr>cn_drawn := n\<rparr>) = shutdowns c" "shutdowns (draw c) = shutdowns c" "shutdowns (write_push m c) = shutdowns c"
  by (simp_all add: shutdowns_def draw_def write_push_def)

lemma write_push_simps [simp]:
  "cn_delivered (write_push m c) = cn_delivered c" "cn_state (write_push m c) = cn_state c" "cn_server (write_push m c) = cn_server c"
  "cn_pending (write_push m c) = cn_pending c" "cn_reading (write_push m c) = cn_reading c"
  by (simp_all add: write_push_def)

lemma advances_terminate: "advances c (terminate ec c)"
  by (cases "cn_state c"; cases ec) (simp_all add: advances_def terminate_def end_status_def Let_def)

lemma then_terminate: "advances c c' \<Longrightarrow> advances c (terminate ec c')"
  by (rule advances_trans [OF _ advances_terminate])

lemma advances_pong: "advances c (fst (pong p c))"
  by (simp add: pong_def advances_same split: sum.splits prod.splits)

lemma advances_send: "advances c (fst (send_message m c))"
  by (simp add: send_message_def advances_same split: sum.splits prod.splits)

lemma advances_close_frame:
  "phase_of (cn_state c) = Running \<Longrightarrow> advances c (fst (send_close_frame code r ack term c))"
  by (simp add: send_close_frame_def advances_same Let_def split: sum.splits prod.splits)

lemma advances_close: "advances c (fst (close_connection code r c))"
  by (simp add: close_connection_def advances_close_frame)

lemma advances_control:
  assumes "phase_of (cn_state c) \<noteq> Before"
  shows "advances c (process_control_frame m c)"
proof (cases "cn_state c = S_closed")
  case False
  then have run: "phase_of (cn_state c) = Running" using assms by (cases "cn_state c") simp_all
  have ack: "advances c c' \<Longrightarrow> phase_of (cn_state c') = Running \<Longrightarrow> advances c (fst (send_close_ack code r c'))" for c' code r
    unfolding send_close_ack_def using advances_trans [OF _ advances_close_frame] by blast
  show ?thesis unfolding process_control_frame_def Let_def
    by (auto split: prod.splits intro!: ack then_terminate advances_pong advances_same simp: run)
qed (simp add: process_control_frame_def)

lemma phase_kept: "advances c c' \<Longrightarrow> phase_of (cn_state c) \<noteq> Before \<Longrightarrow> phase_of (cn_state c') \<noteq> Before"
  by (auto simp: advances_def)

lemma advances_dispatch:
  assumes "phase_of (cn_state c) \<noteq> Before"
  shows "advances c (dispatch m c)"
  using advances_control [OF assms] by (auto simp: dispatch_def advances_def)

lemma advances_dispatches: "phase_of (cn_state c) \<noteq> Before \<Longrightarrow> advances c (fold dispatch ms c)"
proof (induction ms arbitrary: c)
  case (Cons m ms)
  from advances_dispatch [OF Cons.prems] have a: "advances c (dispatch m c)" .
  from Cons.IH [OF phase_kept [OF a Cons.prems]] advances_trans [OF a] show ?case by simp
qed simp

lemma advances_on_read:
  assumes "phase_of (cn_state c) \<noteq> Before"
  shows "advances c (on_read buf c)"
proof -
  have f: "advances c c' \<Longrightarrow> advances c (c'\<lparr>cn_processor := pr\<rparr>)" "advances c c' \<Longrightarrow> advances c (c'\<lparr>cn_reading := b\<rparr>)" for c' pr b
    by (simp_all add: advances_def)
  note d = advances_dispatches [OF assms]
  have close: "close_connection code r (fold dispatch ms c) = (c1, x) \<Longrightarrow> advances c c1" for code r ms c1 x
    by (metis advances_trans d advances_close fst_conv)
  show ?thesis unfolding on_read_def
    by (auto split: prod.splits read_end.splits option.splits intro!: f then_terminate d elim: close)
qed

lemma advances_write: "write_frame c = (c', x) \<Longrightarrow> advances c c'"
  by (auto simp: write_frame_def split: if_splits prod.splits list.splits intro!: advances_same)

lemma advances_written: "advances c (handle_write_frame ec c)"
proof -
  have "advances c (c\<lparr>m_current_msgs := []\<rparr>)" by (simp add: advances_same)
  note trm = advances_trans [OF this advances_terminate]
  show ?thesis by (auto simp: handle_write_frame_def Let_def intro: trm advances_same split: option.splits)
qed

subsection \<open>The machine the application sees\<close>

text \<open>
  The abstract machine: it opens or fails once, gives messages while it is open, and after the shutdown calls
  one handler that ends it.
\<close>

datatype seen = Waiting | Opened | Failing | Closing | Failed | Closed

inductive sees :: "seen \<Rightarrow> call list \<Rightarrow> seen \<Rightarrow> bool" where
  stay: "sees x [] x"
| opens: "sees Waiting (Call_open # map Call_message ms) Opened"
| opens_closing: "sees Waiting (Call_open # map Call_message ms) Closing"
| fails: "sees Waiting [] Failing"
| messages: "sees Opened (map Call_message ms) Opened"
| closes: "sees Opened (map Call_message ms) Closing"
| failed: "sees Failing [Call_fail] Failed"
| closed: "sees Closing [Call_close] Closed"

inductive_cases sees_elims: "sees x ks y"

inductive sees_all :: "seen \<Rightarrow> call list \<Rightarrow> seen \<Rightarrow> bool" where
  none: "sees_all x [] x"
| more: "sees_all x ks y \<Longrightarrow> sees y ls z \<Longrightarrow> sees_all x (ks @ ls) z"

text \<open>What the calls of a run look like.\<close>

fun calls_of :: "seen \<Rightarrow> call list \<Rightarrow> bool" where
  "calls_of Waiting ks = (ks = [])"
| "calls_of Failing ks = (ks = [])"
| "calls_of Failed ks = (ks = [Call_fail])"
| "calls_of Opened ks = (\<exists>ms. ks = Call_open # map Call_message ms)"
| "calls_of Closing ks = (\<exists>ms. ks = Call_open # map Call_message ms)"
| "calls_of Closed ks = (\<exists>ms. ks = Call_open # map Call_message ms @ [Call_close])"

lemma messages_append: "(\<exists>ms. ks = Call_open # map Call_message ms) \<Longrightarrow> \<exists>ms. ks @ map Call_message ns = Call_open # map Call_message ms"
  by (metis append_Cons map_append)

lemma sees_calls: "sees x ks y \<Longrightarrow> calls_of x js \<Longrightarrow> calls_of y (js @ ks)"
  by (cases x ks y rule: sees.cases) (auto intro: messages_append simp: map_append [symmetric] simp del: map_append)

lemma sees_all_calls: "sees_all x ks y \<Longrightarrow> x = Waiting \<Longrightarrow> calls_of y ks"
  by (induction rule: sees_all.induct) (auto intro: sees_calls)

subsection \<open>A session is such a machine\<close>

text \<open>The abstract state of a session.\<close>

definition seen_of :: "session \<Rightarrow> seen" where
  "seen_of s =
     (case phase_of (state_of s) of
        Before \<Rightarrow> Waiting
      | Running \<Rightarrow> Opened
      | Over \<Rightarrow> (case shutdowns (ss_con s) of
          T_failed # _ \<Rightarrow> Failing | T_closed # _ \<Rightarrow> Closing
        | [] \<Rightarrow> if last (ss_calls s) = Call_fail then Failed else Closed))"

text \<open>
  What holds in every state: one shutdown at most, none before the end; the frames begin when the handshake
  is over; only a client comes to the states of a client.
\<close>

definition session_inv :: "session \<Rightarrow> bool" where
  "session_inv s \<longleftrightarrow>
     (phase_of (state_of s) \<noteq> Over \<longrightarrow> shutdowns (ss_con s) = []) \<and> length (shutdowns (ss_con s)) \<le> 1 \<and>
     (m_internal_state s = PROCESS_CONNECTION \<longrightarrow> phase_of (state_of s) \<noteq> Before) \<and>
     (cn_server (ss_con s) \<longrightarrow> m_internal_state s \<notin> {WRITE_HTTP_REQUEST, READ_HTTP_RESPONSE})"

text \<open>
  A client that reads an answer with extensions that cannot be parsed terminates the connection and opens it
  all the same; this event is left out here.
\<close>

definition sound :: "session \<Rightarrow> event \<Rightarrow> bool" where
  "sound s e \<longleftrightarrow> cn_server (ss_con s) \<or>
     (case e of
        Read A_read_response (Inr buf) \<Rightarrow>
          (case handle_read_http_response (m_request s) (m_response s) buf of
             Client_opened r terminated rest \<Rightarrow> \<not> terminated | _ \<Rightarrow> True)
      | _ \<Rightarrow> True)"

definition follows :: "session \<Rightarrow> session \<Rightarrow> bool" where
  "follows s s' \<longleftrightarrow> session_inv s' \<and> cn_server (ss_con s') = cn_server (ss_con s) \<and> (\<exists>ks. ss_calls s' = ss_calls s @ ks \<and> sees (seen_of s) ks (seen_of s'))"

text \<open>Steps inside a handler that neither open the connection nor call a handler that ends it.\<close>

definition client_only :: "istate \<Rightarrow> bool" where
  "client_only i \<longleftrightarrow> i \<in> {WRITE_HTTP_REQUEST, READ_HTTP_RESPONSE}"

definition quiet :: "session \<Rightarrow> session \<Rightarrow> bool" where
  "quiet s s' \<longleftrightarrow> advances (ss_con s) (ss_con s') \<and>
     ss_calls s' = ss_calls s @ map Call_message (drop (length (cn_delivered (ss_con s))) (cn_delivered (ss_con s'))) \<and>
     (m_internal_state s' = PROCESS_CONNECTION \<longrightarrow> m_internal_state s = PROCESS_CONNECTION) \<and>
     (cn_server (ss_con s) \<longrightarrow> client_only (m_internal_state s') \<longrightarrow> client_only (m_internal_state s))"

lemma quiet_refl [simp]: "quiet s s"
  by (simp add: quiet_def)

lemma quiet_trans:
  assumes "quiet s s1" "quiet s1 s2"
  shows "quiet s s2"
proof -
  obtain ms where ms: "cn_delivered (ss_con s1) = cn_delivered (ss_con s) @ ms" "cn_server (ss_con s1) = cn_server (ss_con s)"
    using assms(1) by (auto simp: quiet_def advances_def)
  obtain ns where ns: "cn_delivered (ss_con s2) = cn_delivered (ss_con s1) @ ns"
    using assms(2) by (auto simp: quiet_def advances_def)
  have "advances (ss_con s) (ss_con s2)" using assms advances_trans unfolding quiet_def by blast
  then show ?thesis using assms ms ns by (simp add: quiet_def)
qed

lemma quiet_on_con: "advances (ss_con s) (f (ss_con s)) \<Longrightarrow> quiet s (on_con f s)"
  by (simp add: quiet_def on_con_def Let_def)

lemma quiet_terminate: "quiet s (terminate_session ec s)"
  unfolding terminate_session_def using advances_terminate by (rule quiet_on_con)

lemma quiet_ask: "\<forall>t. a \<noteq> A_shutdown t \<Longrightarrow> quiet s (ask a s)"
  unfolding ask_def by (rule quiet_on_con) (cases a; simp add: advances_same)

lemma quiet_fields:
  "ss_con s' = ss_con s \<Longrightarrow> ss_calls s' = ss_calls s \<Longrightarrow>
   (m_internal_state s' = PROCESS_CONNECTION \<longrightarrow> m_internal_state s = PROCESS_CONNECTION) \<Longrightarrow>
   (cn_server (ss_con s) \<longrightarrow> client_only (m_internal_state s') \<longrightarrow> client_only (m_internal_state s)) \<Longrightarrow> quiet s s'"
  by (simp add: quiet_def)

lemma quiet_write_out: "\<forall>t. a \<noteq> A_shutdown t \<Longrightarrow> quiet s (write_out bs a s)"
  unfolding write_out_def using quiet_ask by (rule quiet_trans [OF quiet_fields, rotated 4]) simp_all

lemmas quiet_then = quiet_trans [OF _ quiet_terminate] quiet_trans [OF _ quiet_ask] quiet_trans [OF _ quiet_write_out]

lemma seen_Over:
  "phase_of (state_of s) = Over \<Longrightarrow> phase_of (state_of s') = Over \<Longrightarrow> shutdowns (ss_con s') = shutdowns (ss_con s) \<Longrightarrow>
   ss_calls s' = ss_calls s \<Longrightarrow> seen_of s' = seen_of s"
  by (simp add: seen_of_def)

lemma quiet_follows:
  assumes "session_inv s" "quiet s s'"
  shows "follows s s'"
proof -
  obtain ms where ms: "cn_delivered (ss_con s') = cn_delivered (ss_con s) @ ms" "ms = [] \<or> phase_of (state_of s) = Running"
    using assms(2) by (auto simp: quiet_def advances_def)
  then have calls: "ss_calls s' = ss_calls s @ map Call_message ms" using assms(2) by (simp add: quiet_def)
  have p: "phase_of (state_of s') = phase_of (state_of s) \<and> shutdowns (ss_con s') = shutdowns (ss_con s) \<or>
      phase_of (state_of s) \<noteq> Over \<and> phase_of (state_of s') = Over \<and>
      shutdowns (ss_con s') = shutdowns (ss_con s) @ [end_status (phase_of (state_of s))]"
    "cn_server (ss_con s') = cn_server (ss_con s)"
    using assms(2) by (auto simp: quiet_def advances_def)
  have inv: "session_inv s'" using assms p by (auto simp: session_inv_def quiet_def client_only_def)
  have "sees (seen_of s) (map Call_message ms) (seen_of s')"
  proof (cases "phase_of (state_of s)")
    case Before
    then have "ms = []" "shutdowns (ss_con s) = []" using ms assms(1) by (auto simp: session_inv_def)
    then show ?thesis using Before p by (auto simp: seen_of_def end_status_def intro: sees.intros)
  next
    case Running
    then have "shutdowns (ss_con s) = []" using assms(1) by (auto simp: session_inv_def)
    then show ?thesis using Running p by (auto simp: seen_of_def end_status_def intro: sees.intros)
  next
    case Over
    then have "ms = []" using ms by auto
    then show ?thesis using seen_Over [of s s'] Over p calls by (auto intro: sees.intros)
  qed
  with inv calls p(2) show ?thesis unfolding follows_def by blast
qed

subsection \<open>The handlers\<close>

lemma quiet_read_frame:
  assumes "session_inv s"
  shows "quiet s (session_read_frame r s)"
proof (cases r)
  case (Inl e)
  then show ?thesis using quiet_terminate by (cases e) (simp_all add: session_read_frame_def)
next
  case (Inr buf)
  show ?thesis
  proof (cases "m_internal_state s = PROCESS_CONNECTION")
    case True
    then have "phase_of (state_of s) \<noteq> Before" using assms by (simp add: session_inv_def)
    note q = quiet_on_con [of s "on_read (bytes_of buf)", OF advances_on_read [OF this]]
    have "quiet s (ask A_read_frame (on_con (on_read (bytes_of buf)) s))" by (rule quiet_then(2) [OF q]) simp
    with q Inr True show ?thesis by (simp add: session_read_frame_def Let_def)
  qed (use Inr quiet_terminate in \<open>simp add: session_read_frame_def\<close>)
qed

lemma open_follows:
  assumes "session_inv s" "state_of s = S_connecting"
  shows "follows s (session_open rest s)"
proof -
  let ?s = "tell Call_open (on_con connection_open (s\<lparr>m_internal_state := PROCESS_CONNECTION\<rparr>))"
  have c: "state_of ?s = S_open" "ss_calls ?s = ss_calls s @ [Call_open]" "shutdowns (ss_con ?s) = shutdowns (ss_con s)"
    "m_internal_state ?s = PROCESS_CONNECTION" "cn_server (ss_con ?s) = cn_server (ss_con s)"
    by (simp_all add: tell_def on_con_def connection_open_def Let_def)
  have inv: "session_inv ?s" using assms c by (simp add: session_inv_def)
  have "shutdowns (ss_con s) = []" using assms by (simp add: session_inv_def)
  then have seen: "seen_of s = Waiting" "seen_of ?s = Opened" using assms c by (simp_all add: seen_of_def)
  from quiet_follows [OF inv quiet_read_frame [OF inv, of "Inr rest"]]
  obtain ks where ks: "session_inv (session_open rest s)" "ss_calls (session_open rest s) = ss_calls ?s @ ks"
    "sees Opened ks (seen_of (session_open rest s))" "cn_server (ss_con (session_open rest s)) = cn_server (ss_con s)"
    using c(5) by (auto simp: follows_def session_open_def seen)
  from ks(3) have "sees Waiting (Call_open # ks) (seen_of (session_open rest s))"
    by (cases rule: sees.cases) (auto intro: sees.intros opens [where ms = "[]", simplified])
  with ks seen c show ?thesis unfolding follows_def by (intro conjI exI [of _ "Call_open # ks"]) simp_all
qed

lemma quiet_start: "quiet s (start s)"
  unfolding start_def using quiet_terminate
  by (auto intro!: quiet_then quiet_fields simp: client_only_def)

lemma quiet_send_request: "quiet s (send_request s)"
proof -
  have "quiet s (s\<lparr>ss_con := (ss_con s)\<lparr>cn_drawn := n\<rparr>, m_request := req\<rparr>)" for n req
    by (simp add: quiet_def advances_same)
  from quiet_then(3) [OF quiet_then(2) [OF this]] show ?thesis
    by (simp add: send_request_def Let_def split: sum.splits)
qed

lemma quiet_transport_init: "quiet s (handle_transport_init ec s)"
proof -
  have q: "m_internal_state s \<noteq> PROCESS_CONNECTION \<Longrightarrow> cn_server (ss_con s) \<Longrightarrow> quiet s (s\<lparr>m_internal_state := READ_HTTP_REQUEST\<rparr>)"
    "m_internal_state s \<noteq> PROCESS_CONNECTION \<Longrightarrow> \<not> cn_server (ss_con s) \<Longrightarrow> quiet s (s\<lparr>m_internal_state := WRITE_HTTP_REQUEST\<rparr>)"
    by (auto intro!: quiet_fields simp: client_only_def)
  show ?thesis unfolding handle_transport_init_def
    using quiet_trans [OF q(2) quiet_send_request]
    by (auto intro!: quiet_then(2) q quiet_terminate split: option.splits)
qed

lemma guarded_follows:
  assumes "session_inv s"
    and "ec = None \<Longrightarrow> state_of s = S_connecting \<Longrightarrow> m_internal_state s = i \<Longrightarrow> follows s (go s)"
  shows "follows s (guarded i ec go s)"
proof -
  note quiet_follows [OF assms(1) quiet_terminate] quiet_follows [OF assms(1) quiet_refl]
  with assms(2) show ?thesis by (auto simp: guarded_def Let_def split: option.splits)
qed

lemma read_handshake_follows:
  assumes "session_inv s" "m_internal_state s = READ_HTTP_REQUEST"
  shows "follows s (read_handshake buf s)"
proof -
  have "quiet s (read_handshake buf s)"
    unfolding read_handshake_def using assms(2)
    by (auto split: server_step.splits intro!: quiet_then(2,3) quiet_fields simp: client_only_def)
  with assms(1) show ?thesis by (rule quiet_follows)
qed

lemma read_http_response_follows:
  assumes "session_inv s" "state_of s = S_connecting" "m_internal_state s = READ_HTTP_RESPONSE"
    and "sound s (Read A_read_response (Inr buf))"
  shows "follows s (read_http_response buf s)"
proof (cases "handle_read_http_response (m_request s) (m_response s) buf")
  case (Client_reading r)
  have "quiet s (read_http_response buf s)"
    unfolding read_http_response_def Client_reading by (auto intro!: quiet_then(2) quiet_fields)
  with assms(1) show ?thesis by (rule quiet_follows)
next
  case (Client_terminated e)
  with quiet_follows [OF assms(1) quiet_terminate] show ?thesis by (simp add: read_http_response_def)
next
  case (Client_opened r terminated rest)
  let ?s = "s\<lparr>m_response := r\<rparr>"
  have "session_inv ?s" "state_of ?s = S_connecting" "seen_of ?s = seen_of s" using assms by (simp_all add: session_inv_def seen_of_def)
  moreover have "\<not> terminated" using assms(1,3,4) Client_opened by (auto simp: sound_def session_inv_def)
  ultimately show ?thesis using open_follows [of ?s rest] Client_opened by (simp add: read_http_response_def follows_def)
qed

lemma written_follows:
  assumes "session_inv s"
  shows "follows s (handle_written a ec s)"
proof -
  have m: "\<not> cn_server (ss_con s) \<or> m_internal_state s \<noteq> WRITE_HTTP_REQUEST" using assms by (auto simp: session_inv_def)
  have "follows s (handle_write_http_response ec s)" unfolding handle_write_http_response_def
    using quiet_follows [OF assms quiet_terminate] open_follows [OF assms] by (intro guarded_follows [OF assms]) auto
  moreover have "follows s (handle_send_http_request ec s)" unfolding handle_send_http_request_def
  proof (rule guarded_follows [OF assms])
    assume "m_internal_state s = WRITE_HTTP_REQUEST"
    with m have "quiet s (ask A_read_response (s\<lparr>m_internal_state := READ_HTTP_RESPONSE\<rparr>))"
      by (intro quiet_then(2) quiet_fields) (simp_all add: client_only_def)
    with assms show "follows s (ask A_read_response (s\<lparr>m_internal_state := READ_HTTP_RESPONSE\<rparr>))" by (rule quiet_follows)
  qed
  ultimately show ?thesis
    using quiet_follows [OF assms quiet_on_con [of s "handle_write_frame (map_option transport_text ec)", OF advances_written]]
    by (simp add: handle_written_def)
qed

lemma read_follows:
  assumes "session_inv s" "sound s (Read a r)" "a \<in> {A_read_handshake, A_read_response, A_read_frame}"
  shows "follows s (handle_read a r s)"
proof (cases "a = A_read_frame")
  case True
  with quiet_follows [OF assms(1) quiet_read_frame [OF assms(1)]] show ?thesis by (simp add: handle_read_def)
next
  case False
  show ?thesis unfolding handle_read_def
    using False read_handshake_follows [OF assms(1)] read_http_response_follows [OF assms(1)] assms(2,3)
    by (auto intro!: guarded_follows [OF assms(1)] split: sum.splits)
qed

lemma quiet_run_write: "quiet s (run_write s)"
proof -
  obtain c x where w: "write_frame (ss_con s) = (c, x)" by force
  then have "quiet s (on_con (\<lambda>_. c) s)" by (intro quiet_on_con) (rule advances_write)
  with w quiet_then(3) [OF this, of A_write_frame] show ?thesis by (simp add: run_write_def split: option.splits)
qed

lemma shutdowns_remove: "\<forall>t. a \<noteq> A_shutdown t \<Longrightarrow> shutdowns (c\<lparr>cn_pending := remove1 a (cn_pending c)\<rparr>) = shutdowns c"
proof -
  assume a: "\<forall>t. a \<noteq> A_shutdown t"
  have "List.map_filter (\<lambda>a. case a of A_shutdown t \<Rightarrow> Some t | _ \<Rightarrow> None) (remove1 a as) =
      List.map_filter (\<lambda>a. case a of A_shutdown t \<Rightarrow> Some t | _ \<Rightarrow> None) as" for as
    using a by (induction as) (auto simp: List.map_filter_def split: async.splits)
  then show ?thesis by (simp add: shutdowns_def)
qed

lemma quiet_completed: "\<forall>t. a \<noteq> Some (A_shutdown t) \<Longrightarrow> quiet s (completed a s)"
  by (auto simp: completed_def intro!: quiet_on_con advances_same shutdowns_remove split: option.splits)

lemma sound_completed: "sound (completed a s) e = sound s e"
proof -
  have "m_request (completed a s) = m_request s" "m_response (completed a s) = m_response s"
    "cn_server (ss_con (completed a s)) = cn_server (ss_con s)"
    by (simp_all add: completed_def on_con_def Let_def split: option.splits)
  then show ?thesis unfolding sound_def by (simp only:)
qed

lemma shutdown_follows:
  assumes "session_inv s" "A_shutdown t \<in> set (cn_pending (ss_con s))"
  shows "follows s (step (Shut_down t) s)"
proof -
  let ?f = "\<lambda>a. case a of A_shutdown t \<Rightarrow> Some t | _ \<Rightarrow> None"
  let ?s = "step (Shut_down t) s"
  from assms(2) obtain as bs where as: "cn_pending (ss_con s) = as @ A_shutdown t # bs" "A_shutdown t \<notin> set as"
    by (metis split_list_first)
  have mf: "List.map_filter ?f (xs @ ys) = List.map_filter ?f xs @ List.map_filter ?f ys" for xs ys
    by (simp add: List.map_filter_def)
  have one: "List.map_filter ?f as = []" "List.map_filter ?f bs = []" "shutdowns (ss_con s) = [t]"
    using assms(1) as by (auto simp: session_inv_def shutdowns_def mf List.map_filter_def [of ?f "A_shutdown t # bs"] List.map_filter_def)
  then have over: "state_of s = S_closed" using assms(1) by (auto simp: session_inv_def)
  have s: "ss_con ?s = (ss_con s)\<lparr>cn_pending := as @ bs\<rparr>" "m_internal_state ?s = m_internal_state s"
    "ss_calls ?s = ss_calls s @ [case t of T_failed \<Rightarrow> Call_fail | T_closed \<Rightarrow> Call_close]"
    by (simp_all add: step_def completed_def on_con_def handle_terminate_def tell_def Let_def as remove1_append)
  have none: "shutdowns (ss_con ?s) = []" using one by (simp add: s(1) shutdowns_def mf)
  have "session_inv ?s" using assms(1) over s none by (simp add: session_inv_def)
  moreover have "sees (seen_of s) [case t of T_failed \<Rightarrow> Call_fail | T_closed \<Rightarrow> Call_close] (seen_of ?s)"
    using over one none s by (cases t) (auto simp: seen_of_def intro: sees.intros)
  moreover have "cn_server (ss_con ?s) = cn_server (ss_con s)" by (simp add: s(1))
  ultimately show ?thesis using s(3) unfolding follows_def by blast
qed

text \<open>Every event is a step of the abstract machine.\<close>

lemma quiet_then_follows:
  assumes "session_inv s" "quiet s s1" "session_inv s1 \<Longrightarrow> follows s1 s2" "ss_calls s1 = ss_calls s" "seen_of s1 = seen_of s"
  shows "follows s s2"
  using quiet_follows [OF assms(1,2)] assms(3-5) by (auto simp: follows_def)

lemma step_follows:
  assumes "session_inv s" "enabled e s" "sound s e"
  shows "follows s (step e s)"
proof (cases "\<exists>t. e = Shut_down t")
  case True
  with assms shutdown_follows show ?thesis by (auto simp: enabled_def)
next
  case False
  let ?s = "completed (completes e) s"
  have "\<forall>t. completes e \<noteq> Some (A_shutdown t)" using False assms(2) by (cases e) (auto simp: enabled_def)
  then have q: "quiet s ?s" and sh: "shutdowns (ss_con ?s) = shutdowns (ss_con s)"
    using quiet_completed by (auto simp: completed_def on_con_def Let_def shutdowns_remove split: option.splits)
  have same: "ss_calls ?s = ss_calls s" "state_of ?s = state_of s" by (simp_all add: completed_def on_con_def Let_def split: option.splits)
  then have seen: "seen_of ?s = seen_of s" using sh by (simp only: seen_of_def)
  have "session_inv ?s \<Longrightarrow> follows ?s (react e ?s)"
  proof -
    assume inv: "session_inv ?s"
    note f = quiet_follows [OF inv]
    show "follows ?s (react e ?s)"
    proof (cases e)
      case (Read a r)
      with read_follows [OF inv, of a r] assms(2,3) show ?thesis by (simp add: enabled_def sound_completed)
    next
      case (Written a ec)
      with written_follows [OF inv] show ?thesis by simp
    next
      case (Timer t expired)
      with f [OF quiet_terminate] f [OF quiet_refl] show ?thesis by (simp add: handle_timeout_def)
    next
      case (Shut_down t)
      with False show ?thesis by blast
    next
      case (App_send m)
      with f [OF quiet_on_con] advances_send show ?thesis by simp
    next
      case (App_close code reason)
      with f [OF quiet_on_con] advances_close show ?thesis by simp
    qed (use f quiet_start quiet_transport_init quiet_run_write in simp_all)
  qed
  from quiet_then_follows [OF assms(1) q this same(1) seen] show ?thesis by (simp add: step_def)
qed

subsection \<open>Runs\<close>

inductive runs_to :: "(session \<Rightarrow> event \<Rightarrow> bool) \<Rightarrow> session \<Rightarrow> session \<Rightarrow> bool"
  for good :: "session \<Rightarrow> event \<Rightarrow> bool" and s :: session where
  begins: "runs_to good s s"
| goes_on: "runs_to good s s1 \<Longrightarrow> enabled e s1 \<Longrightarrow> good s1 e \<Longrightarrow> runs_to good s (step e s1)"

lemma session_inv_new: "session_inv (session_new server rng u ps)" "seen_of (session_new server rng u ps) = Waiting"
  by (simp_all add: session_inv_def seen_of_def session_new_def connection_new_def shutdowns_def List.map_filter_def)

lemma runs_sees:
  assumes "runs_to sound (session_new server rng u ps) s"
  shows "session_inv s \<and> sees_all Waiting (ss_calls s) (seen_of s)"
  using assms
proof (induction rule: runs_to.induct)
  case begins
  have "ss_calls (session_new server rng u ps) = []" by (simp add: session_new_def)
  with session_inv_new sees_all.none show ?case by simp
next
  case (goes_on s1 e)
  then show ?case using step_follows [of s1 e] by (auto simp: follows_def intro: sees_all.more)
qed

text \<open>What the application has seen, and what it has seen when nothing is awaited any more.\<close>

lemma runs_calls:
  assumes "runs_to sound (session_new server rng u ps) s"
  shows "calls_of (seen_of s) (ss_calls s)"
    "cn_pending (ss_con s) = [] \<Longrightarrow> state_of s = S_closed \<Longrightarrow>
       ss_calls s = [Call_fail] \<or> (\<exists>ms. ss_calls s = Call_open # map Call_message ms @ [Call_close])"
proof -
  from runs_sees [OF assms] show c: "calls_of (seen_of s) (ss_calls s)" using sees_all_calls by blast
  assume "cn_pending (ss_con s) = []" "state_of s = S_closed"
  then have "seen_of s \<in> {Failed, Closed}" by (simp add: seen_of_def shutdowns_def List.map_filter_def)
  with c show "ss_calls s = [Call_fail] \<or> (\<exists>ms. ss_calls s = Call_open # map Call_message ms @ [Call_close])" by auto
qed

end
