(* ===== verification/SessionWait.thy ===== *)
theory SessionWait
  imports SessionLife
begin

text \<open>
  A session that is not over is never forgotten: something it has asked the transport for is still to come,
  and one of these events ends it.
\<close>

subsection \<open>What the connection keeps\<close>

definition keeps :: "connection \<Rightarrow> connection \<Rightarrow> bool" where
  "keeps c c' \<longleftrightarrow> prefix (cn_pending c) (cn_pending c') \<and> cn_reading c' = cn_reading c \<and> cn_processor c' = cn_processor c"

lemma keeps_refl [simp]: "keeps c c"
  by (simp add: keeps_def)

lemma keeps_trans: "keeps c c1 \<Longrightarrow> keeps c1 c2 \<Longrightarrow> keeps c c2"
  by (auto simp: keeps_def)

lemma keeps_fields:
  "cn_pending c' = cn_pending c \<Longrightarrow> cn_reading c' = cn_reading c \<Longrightarrow> cn_processor c' = cn_processor c \<Longrightarrow> keeps c c'"
  by (simp add: keeps_def)

lemma keeps_terminate: "keeps c (terminate ec c)"
  by (simp add: terminate_def keeps_def Let_def split: option.splits)

lemma keeps_then_terminate: "keeps c c' \<Longrightarrow> keeps c (terminate ec c')"
  by (rule keeps_trans [OF _ keeps_terminate])

lemma terminate_closes [simp]: "cn_state (terminate ec c) = S_closed"
  by (simp add: terminate_def Let_def)

lemma keeps_close_frame: "keeps c (fst (send_close_frame code r ack tm c))"
  by (simp add: send_close_frame_def keeps_def write_push_def Let_def split: sum.splits prod.splits)

lemma keeps_pong: "keeps c (fst (pong p c))" and keeps_send: "keeps c (fst (send_message m c))"
  by (simp_all add: pong_def send_message_def keeps_def write_push_def split: sum.splits prod.splits)

lemma keeps_close: "keeps c (fst (close_connection code r c))"
  by (simp add: close_connection_def keeps_close_frame)

lemma keeps_control: "keeps c (process_control_frame m c)"
proof -
  have ack: "keeps c c' \<Longrightarrow> keeps c (fst (send_close_ack code r c'))" for c' code r
    unfolding send_close_ack_def using keeps_trans [OF _ keeps_close_frame] by blast
  show ?thesis unfolding process_control_frame_def Let_def
    by (auto split: prod.splits intro!: ack keeps_then_terminate keeps_pong)
       (auto simp: keeps_fields)
qed

lemma keeps_dispatches: "keeps c (fold dispatch ms c)"
proof (induction ms arbitrary: c)
  case (Cons m ms)
  have "keeps c (dispatch m c)" using keeps_control by (simp add: dispatch_def keeps_fields)
  from keeps_trans [OF this Cons] show ?case by simp
qed simp

lemma keeps_write: "write_frame c = (c', x) \<Longrightarrow> keeps c c'"
  by (auto simp: write_frame_def split: if_splits prod.splits list.splits intro!: keeps_fields)

lemma keeps_written: "keeps c (handle_write_frame ec c)"
proof -
  have "keeps c (c\<lparr>m_current_msgs := []\<rparr>)" by (simp add: keeps_fields)
  from keeps_trans [OF this keeps_terminate] show ?thesis
    by (auto simp: handle_write_frame_def Let_def intro: keeps_fields split: option.splits)
qed

text \<open>A closing handshake of one's own has its timer.\<close>

lemma close_timer:
  "close_connection code r c = (c', None) \<Longrightarrow> A_timer Close_handshake \<in> set (cn_pending c')"
  by (auto simp: close_connection_def send_close_frame_def Let_def split: if_splits sum.splits prod.splits)

text \<open>After a read more bytes are asked for, or the connection is over, or it waits for the other side to close.\<close>

lemma on_read_waits:
  assumes "cn_reading c" "hybi_inv (cn_processor c)"
  shows "set (cn_pending c) \<subseteq> set (cn_pending (on_read buf c)) \<and>
    (if cn_reading (on_read buf c) then hybi_inv (cn_processor (on_read buf c))
     else cn_state (on_read buf c) = S_closed \<or> A_timer Close_handshake \<in> set (cn_pending (on_read buf c)))"
proof -
  obtain ms e where h: "handle_read_frame (cn_processor c) buf = (ms, e)" by force
  note k = keeps_dispatches [of c ms]
  from handle_read_inv [OF assms(2) h] consider s1 where "e = Read_more s1" "hybi_inv s1" | x where "e = Consume_error x" by blast
  then show ?thesis
  proof cases
    case 1
    then show ?thesis using assms(1) h k by (auto simp: on_read_def keeps_def dest: set_mono_prefix)
  next
    case (2 x)
    obtain c1 r where c1: "close_connection (to_ws x) (bytes_of (error_message x)) (fold dispatch ms c) = (c1, r)" by force
    then have k1: "keeps c c1" using keeps_trans [OF k keeps_close, of "to_ws x" "bytes_of (error_message x)"] by simp
    show ?thesis
    proof (cases r)
      case None
      with close_timer c1 have "A_timer Close_handshake \<in> set (cn_pending c1)" by blast
      with None show ?thesis using assms(1) h 2 c1 k1 by (auto simp: on_read_def keeps_def dest: set_mono_prefix)
    next
      case (Some ec)
      have "keeps c (terminate (Some (error_message ec)) c1)" using k1 by (rule keeps_then_terminate)
      then show ?thesis using assms(1) h 2 c1 Some by (auto simp: on_read_def keeps_def dest: set_mono_prefix)
    qed
  qed
qed

subsection \<open>What a session waits for\<close>

definition waits_for :: "session \<Rightarrow> async" where
  "waits_for s =
     (case m_internal_state s of
        USER_INIT \<Rightarrow> A_init
      | TRANSPORT_INIT \<Rightarrow> A_init
      | READ_HTTP_REQUEST \<Rightarrow> A_read_handshake
      | WRITE_HTTP_REQUEST \<Rightarrow> A_send_request
      | READ_HTTP_RESPONSE \<Rightarrow> A_read_response
      | WRITE_HTTP_RESPONSE \<Rightarrow> A_write_response
      | PROCESS_HTTP_REQUEST \<Rightarrow> A_write_response
      | PROCESS_CONNECTION \<Rightarrow> if cn_reading (ss_con s) then A_read_frame else A_timer Close_handshake)"

definition wait_inv :: "session \<Rightarrow> bool" where
  "wait_inv s \<longleftrightarrow>
     (state_of s \<noteq> S_closed \<longrightarrow> m_internal_state s \<noteq> USER_INIT \<longrightarrow> waits_for s \<in> set (cn_pending (ss_con s))) \<and>
     (m_internal_state s \<noteq> PROCESS_CONNECTION \<or> cn_reading (ss_con s) \<longrightarrow> hybi_inv (cn_processor (ss_con s)))"

text \<open>
  Beside \<open>sound\<close>: a timer of the closing handshake is only cancelled when the connection is over, and no request
  of an older version arrives, where the model ends.
\<close>

definition covered :: "session \<Rightarrow> event \<Rightarrow> bool" where
  "covered s e \<longleftrightarrow> sound s e \<and>
     (case e of
        Timer Close_handshake False \<Rightarrow> state_of s = S_closed
      | Read A_read_handshake (Inr buf) \<Rightarrow>
          (case handle_read_handshake user_agent (m_request s) buf of Server_older r v \<Rightarrow> False | _ \<Rightarrow> True)
      | _ \<Rightarrow> True)"

definition still :: "session \<Rightarrow> session \<Rightarrow> bool" where
  "still s s' \<longleftrightarrow> m_internal_state s' = m_internal_state s \<and> keeps (ss_con s) (ss_con s')"

lemma still_refl [simp]: "still s s"
  by (simp add: still_def)

lemma still_on_con: "keeps (ss_con s) (f (ss_con s)) \<Longrightarrow> still s (on_con f s)"
  by (simp add: still_def on_con_def Let_def)

lemma still_waits:
  assumes "wait_inv s" "still s s'" "state_of s = S_closed \<Longrightarrow> state_of s' = S_closed"
  shows "wait_inv s'"
proof -
  have "waits_for s' = waits_for s" using assms(2) by (simp add: still_def keeps_def waits_for_def)
  with assms show ?thesis by (auto simp: wait_inv_def still_def keeps_def dest: set_mono_prefix)
qed

lemma more_waits:
  assumes "wait_inv s" "m_internal_state s' = m_internal_state s" "state_of s' = state_of s"
    "cn_reading (ss_con s') = cn_reading (ss_con s)" "cn_processor (ss_con s') = cn_processor (ss_con s)"
    "set (cn_pending (ss_con s)) \<subseteq> set (cn_pending (ss_con s'))"
  shows "wait_inv s'"
proof -
  have "waits_for s' = waits_for s" using assms by (simp add: waits_for_def)
  with assms show ?thesis by (auto simp: wait_inv_def)
qed

text \<open>Where the connection ends, only the processor has to be in order.\<close>

definition ready_to_read :: "session \<Rightarrow> bool" where
  "ready_to_read s \<longleftrightarrow> (m_internal_state s \<noteq> PROCESS_CONNECTION \<or> cn_reading (ss_con s) \<longrightarrow> hybi_inv (cn_processor (ss_con s)))"

lemma closed_waits: "state_of s = S_closed \<Longrightarrow> ready_to_read s \<Longrightarrow> wait_inv s"
  by (simp add: wait_inv_def ready_to_read_def)

lemma terminate_waits: "ready_to_read s \<Longrightarrow> wait_inv (terminate_session ec s)"
  using keeps_terminate [of "ss_con s" ec]
  by (intro closed_waits) (simp_all add: terminate_session_def on_con_def Let_def ready_to_read_def keeps_def)

lemma ask_simps [simp]:
  "m_internal_state (ask a s) = m_internal_state s" "state_of (ask a s) = state_of s"
  "cn_pending (ss_con (ask a s)) = cn_pending (ss_con s) @ [a]" "cn_reading (ss_con (ask a s)) = cn_reading (ss_con s)"
  "cn_processor (ss_con (ask a s)) = cn_processor (ss_con s)"
  "m_internal_state (write_out bs a s) = m_internal_state s" "state_of (write_out bs a s) = state_of s"
  "cn_pending (ss_con (write_out bs a s)) = cn_pending (ss_con s) @ [a]"
  "cn_reading (ss_con (write_out bs a s)) = cn_reading (ss_con s)"
  "cn_processor (ss_con (write_out bs a s)) = cn_processor (ss_con s)"
  by (simp_all add: write_out_def ask_def on_con_def Let_def)

lemma read_frame_waits:
  assumes "m_internal_state s = PROCESS_CONNECTION" "cn_reading (ss_con s)" "ready_to_read s"
  shows "wait_inv (session_read_frame (Inr buf) s)"
proof -
  let ?s = "on_con (on_read (bytes_of buf)) s"
  have i: "m_internal_state ?s = PROCESS_CONNECTION" "ss_con ?s = on_read (bytes_of buf) (ss_con s)"
    using assms(1) by (simp_all add: on_con_def Let_def)
  have "hybi_inv (cn_processor (ss_con s))" using assms by (simp add: ready_to_read_def)
  from on_read_waits [OF assms(2) this, of "bytes_of buf"] assms(1) i show ?thesis
    by (auto simp: session_read_frame_def wait_inv_def waits_for_def Let_def split: if_splits)
qed

lemma open_waits:
  assumes "hybi_inv (cn_processor (ss_con s))"
  shows "wait_inv (session_open rest s)"
  unfolding session_open_def
  by (rule read_frame_waits) (use assms in \<open>simp_all add: tell_def on_con_def connection_open_def ready_to_read_def Let_def\<close>)

lemma guarded_waits:
  assumes "ready_to_read s" "ec = None \<Longrightarrow> state_of s = S_connecting \<Longrightarrow> m_internal_state s = i \<Longrightarrow> wait_inv (go s)"
  shows "wait_inv (guarded i ec go s)"
proof -
  note terminate_waits [OF assms(1)] closed_waits [OF _ assms(1)]
  with assms(2) show ?thesis by (auto simp: guarded_def Let_def split: option.splits)
qed

subsection \<open>What is completed\<close>

lemma completed_simps [simp]:
  "m_internal_state (completed a s) = m_internal_state s" "state_of (completed a s) = state_of s"
  "cn_reading (ss_con (completed a s)) = cn_reading (ss_con s)" "cn_processor (ss_con (completed a s)) = cn_processor (ss_con s)"
  "m_request (completed a s) = m_request s" "m_response (completed a s) = m_response s"
  "cn_server (ss_con (completed a s)) = cn_server (ss_con s)" "completed None s = s"
  by (simp_all add: completed_def on_con_def Let_def split: option.splits)

lemma completed_ready: "wait_inv s \<Longrightarrow> ready_to_read (completed a s)"
  by (simp add: wait_inv_def ready_to_read_def)

lemma completed_waits:
  assumes "wait_inv s" "a \<noteq> Some (waits_for s)"
  shows "wait_inv (completed a s)"
proof -
  have w: "waits_for (completed a s) = waits_for s" by (simp add: waits_for_def)
  have "waits_for s \<in> set (cn_pending (ss_con s)) \<Longrightarrow> waits_for s \<in> set (cn_pending (ss_con (completed a s)))"
    using assms(2) by (cases a) (auto simp: completed_def on_con_def Let_def in_set_remove1)
  with assms(1) w show ?thesis by (simp add: wait_inv_def)
qed

lemma still_closed:
  "wait_inv s \<Longrightarrow> keeps (ss_con s) (f (ss_con s)) \<Longrightarrow> advances (ss_con s) (f (ss_con s)) \<Longrightarrow> wait_inv (on_con f s)"
  by (rule still_waits [OF _ still_on_con]) (auto simp: on_con_def Let_def advances_def)

subsection \<open>The handlers\<close>

lemma started_waits: "wait_inv s \<Longrightarrow> m_internal_state s = USER_INIT \<Longrightarrow> wait_inv (start s)"
  by (simp add: start_def wait_inv_def waits_for_def)

lemma request_written:
  "send_http_request agent u ps rng \<noteq> Inl code"
proof -
  have "append_header ''Upgrade'' v r \<noteq> Inl c" "append_header ''Connection'' v r \<noteq> Inl c" for v c and r :: request
    using header_names by (simp_all add: append_header_def)
  then show ?thesis by (auto simp: send_http_request_def client_handshake_request_def Let_def bindR_eq_Inl)
qed

lemma transport_init_waits:
  assumes "ready_to_read s"
  shows "wait_inv (handle_transport_init ec s)"
proof (cases "m_internal_state s = TRANSPORT_INIT \<and> ec = None")
  case False
  with terminate_waits [OF assms] show ?thesis by (auto simp: handle_transport_init_def split: option.splits)
next
  case True
  then have h: "hybi_inv (cn_processor (ss_con s))" using assms by (simp add: ready_to_read_def)
  obtain req where "send_http_request user_agent (ss_uri s) (m_requested_subprotocols s)
      (\<lambda>i. cn_random (ss_con s) (cn_drawn (ss_con s) + i)) = Inr req"
    using request_written by (metis sum.exhaust)
  with True h show ?thesis by (simp add: handle_transport_init_def send_request_def wait_inv_def waits_for_def Let_def)
qed

lemma read_handshake_waits:
  assumes "ready_to_read s" "m_internal_state s = READ_HTTP_REQUEST" "covered s (Read A_read_handshake (Inr buf))"
  shows "wait_inv (read_handshake buf s)"
proof -
  have "hybi_inv (cn_processor (ss_con s))" using assms by (simp add: ready_to_read_def)
  with assms(2,3) show ?thesis
    by (auto simp: read_handshake_def wait_inv_def waits_for_def covered_def split: server_step.splits)
qed

lemma read_http_response_waits:
  assumes "ready_to_read s" "m_internal_state s = READ_HTTP_RESPONSE"
  shows "wait_inv (read_http_response buf s)"
proof -
  have h: "hybi_inv (cn_processor (ss_con s))" using assms by (simp add: ready_to_read_def)
  show ?thesis
  proof (cases "handle_read_http_response (m_request s) (m_response s) buf")
    case (Client_reading r)
    with h assms(2) show ?thesis by (simp add: read_http_response_def wait_inv_def waits_for_def)
  next
    case (Client_terminated e)
    with terminate_waits [OF assms(1)] show ?thesis by (simp add: read_http_response_def)
  next
    case (Client_opened r terminated rest)
    have "hybi_inv (cn_processor (ss_con (terminate_session ec (s\<lparr>m_response := r\<rparr>))))" for ec
      using h keeps_terminate [of "ss_con s" ec] by (simp add: terminate_session_def on_con_def Let_def keeps_def)
    with h open_waits Client_opened show ?thesis by (simp add: read_http_response_def Let_def)
  qed
qed

lemma read_waits:
  assumes "wait_inv s" "covered s (Read a r)" "a \<in> {A_read_handshake, A_read_response, A_read_frame}"
  shows "wait_inv (handle_read a r (completed (Some a) s))"
proof (cases "a = A_read_frame")
  case False
  let ?s = "completed (Some a) s"
  have ready: "ready_to_read ?s" using assms(1) by (rule completed_ready)
  have cov: "covered ?s (Read a r)" using assms(2) by (simp add: covered_def sound_completed split: sum.splits async.splits)
  note w = read_handshake_waits [OF ready] read_http_response_waits [OF ready]
  show ?thesis
  proof (cases r)
    case (Inl e)
    have "wait_inv (guarded i (Some e) (\<lambda>s. s) ?s)" for i by (rule guarded_waits [OF ready]) simp
    with Inl False show ?thesis by (simp add: handle_read_def)
  next
    case (Inr buf)
    have "a = A_read_handshake \<Longrightarrow> wait_inv (guarded READ_HTTP_REQUEST None (read_handshake buf) ?s)"
      "a = A_read_response \<Longrightarrow> wait_inv (guarded READ_HTTP_RESPONSE None (read_http_response buf) ?s)"
      using w cov Inr by (intro guarded_waits [OF ready]; simp)+
    with Inr False assms(3) show ?thesis by (auto simp: handle_read_def)
  qed
next
  case True
  let ?s = "completed (Some A_read_frame) s"
  have ready: "ready_to_read ?s" using assms(1) by (rule completed_ready)
  note c = closed_waits [OF _ ready] terminate_waits [OF ready]
  have "wait_inv (session_read_frame (Inr buf) ?s)" for buf
  proof (cases "m_internal_state s = PROCESS_CONNECTION \<and> \<not> cn_reading (ss_con s)")
    case True
    then have w: "wait_inv ?s" using assms(1) by (intro completed_waits) (simp_all add: waits_for_def)
    have "on_con (on_read (bytes_of buf)) ?s = ?s" using True by (simp add: on_con_def on_read_def)
    with w True show ?thesis by (simp add: session_read_frame_def)
  next
    case False
    with read_frame_waits [OF _ _ ready, of buf] c show ?thesis by (auto simp: session_read_frame_def)
  qed
  with True c show ?thesis by (auto simp: handle_read_def session_read_frame_def split: sum.splits transport_error.splits)
qed

lemma written_waits:
  assumes "wait_inv s" "a \<in> {A_write_response, A_send_request, A_write_frame}"
  shows "wait_inv (handle_written a ec (completed (Some a) s))"
proof -
  let ?s = "completed (Some a) s"
  have r: "ready_to_read ?s" using assms(1) by (rule completed_ready)
  have "wait_inv (handle_write_http_response ec ?s)" unfolding handle_write_http_response_def
    using terminate_waits [OF r] r open_waits by (intro guarded_waits [OF r]) (auto simp: ready_to_read_def)
  moreover have "wait_inv (handle_send_http_request ec ?s)" unfolding handle_send_http_request_def
    using r by (intro guarded_waits [OF r]) (simp add: wait_inv_def waits_for_def ready_to_read_def)
  moreover have "wait_inv (on_con (handle_write_frame t) ?s)" if "a = A_write_frame" for t
    using completed_waits [OF assms(1), of "Some a"] that keeps_written advances_written
    by (intro still_closed) (auto simp: waits_for_def split: istate.splits)
  ultimately show ?thesis using assms(2) by (auto simp: handle_written_def)
qed

lemma run_write_waits:
  assumes "wait_inv s"
  shows "wait_inv (run_write s)"
proof -
  obtain c x where w: "write_frame (ss_con s) = (c, x)" by force
  then have c: "wait_inv (on_con (\<lambda>_. c) s)" using keeps_write advances_write assms by (intro still_closed)
  have "wait_inv (write_out bs a s1)" if "wait_inv s1" for bs a s1
    using that by (rule more_waits) auto
  with c w show ?thesis by (simp add: run_write_def split: option.splits)
qed

lemma step_waits:
  assumes "wait_inv s" "enabled e s" "covered s e"
  shows "wait_inv (step e s)"
proof -
  have other: "completes e \<noteq> Some (waits_for s) \<Longrightarrow> wait_inv (completed (completes e) s)"
    using assms(1) by (rule completed_waits)
  note ready = completed_ready [OF assms(1), of "completes e"]
  show ?thesis
  proof (cases e)
    case Started
    with assms started_waits show ?thesis by (simp add: step_def enabled_def)
  next
    case (Initialized ec)
    with transport_init_waits [OF ready] show ?thesis by (simp add: step_def)
  next
    case (Read a r)
    with assms read_waits show ?thesis by (simp add: step_def enabled_def)
  next
    case (Written a ec)
    with assms written_waits show ?thesis by (simp add: step_def enabled_def)
  next
    case (Timer t expired)
    have "\<not> expired \<Longrightarrow> wait_inv (completed (completes e) s)"
      using Timer assms(3) other closed_waits [OF _ ready]
      by (cases t) (auto simp: covered_def waits_for_def split: istate.splits)
    with Timer terminate_waits [OF ready] show ?thesis by (simp add: step_def handle_timeout_def)
  next
    case (Shut_down t)
    with other have "wait_inv (completed (completes e) s)" by (simp add: waits_for_def split: istate.splits)
    from more_waits [OF this] Shut_down show ?thesis by (simp add: step_def handle_terminate_def tell_def)
  next
    case (App_send m)
    with still_closed [of s "\<lambda>c. fst (send_message m c)", OF assms(1) keeps_send advances_send] show ?thesis by (simp add: step_def)
  next
    case (App_close code reason)
    with still_closed [of s "\<lambda>c. fst (close_connection code reason c)", OF assms(1) keeps_close advances_close] show ?thesis by (simp add: step_def)
  qed (use run_write_waits assms(1) in \<open>simp add: step_def\<close>)
qed

subsection \<open>A session always comes to its end\<close>

lemma wait_inv_new: "wait_inv (session_new server rng u ps)"
  by (simp add: wait_inv_def session_new_def connection_new_def hybi_inv_new)

lemma runs_wait:
  "runs_to covered (session_new server rng u ps) s \<Longrightarrow> wait_inv s"
  by (induction rule: runs_to.induct) (simp_all add: wait_inv_new step_waits)

text \<open>The event that ends a session: what it waits for fails, or its timer expires.\<close>

definition ending :: "session \<Rightarrow> event" where
  "ending s =
     (case waits_for s of
        A_init \<Rightarrow> Initialized (Some Eof)
      | A_timer t \<Rightarrow> Timer t True
      | a \<Rightarrow> if a \<in> {A_write_response, A_send_request} then Written a (Some Eof) else Read a (Inl Eof))"

lemma ending_ends:
  assumes "wait_inv s" "state_of s \<noteq> S_closed" "m_internal_state s \<noteq> USER_INIT"
  shows "enabled (ending s) s" "covered s (ending s)" "state_of (step (ending s) s) = S_closed"
proof -
  have w: "waits_for s \<in> set (cn_pending (ss_con s))" using assms by (simp add: wait_inv_def)
  have st: "state_of (terminate_session ec x) = S_closed" for ec x by (simp add: terminate_session_def on_con_def Let_def)
  show "enabled (ending s) s"
    using w by (auto simp: enabled_def ending_def waits_for_def split: istate.splits if_splits)
  show "covered s (ending s)"
    by (auto simp: covered_def sound_def ending_def waits_for_def split: istate.splits if_splits)
  show "state_of (step (ending s) s) = S_closed"
    using assms(2) st
    by (auto simp: step_def ending_def waits_for_def handle_transport_init_def handle_read_def handle_written_def guarded_def
          handle_write_http_response_def handle_send_http_request_def session_read_frame_def handle_timeout_def
          split: istate.splits if_splits)
qed

text \<open>From every state two events of the transport are enough for a handler that ends the session.\<close>

lemma runs_sound: "runs_to covered s0 s \<Longrightarrow> runs_to sound s0 s"
  by (induction rule: runs_to.induct) (auto intro: runs_to.intros simp: covered_def)

lemma runs_one: "enabled e s \<Longrightarrow> good s e \<Longrightarrow> runs_to good s (step e s)"
  by (rule runs_to.goes_on) (rule runs_to.begins)

lemma runs_trans: "runs_to good s1 s2 \<Longrightarrow> runs_to good s s1 \<Longrightarrow> runs_to good s s2"
  by (induction rule: runs_to.induct) (auto intro: runs_to.intros)

definition ended :: "call list \<Rightarrow> bool" where
  "ended ks \<longleftrightarrow> ks = [Call_fail] \<or> (\<exists>ms. ks = Call_open # map Call_message ms @ [Call_close])"

lemma shut_down_ends:
  assumes "runs_to covered (session_new server rng u ps) s" "state_of s = S_closed"
  shows "\<exists>s'. runs_to covered s s' \<and> ended (ss_calls s')"
proof -
  let ?n = "session_new server rng u ps"
  note r = runs_sees [OF runs_sound [OF assms(1)]] runs_calls(1) [OF runs_sound [OF assms(1)]]
  show ?thesis
  proof (cases "shutdowns (ss_con s)")
    case Nil
    then have "seen_of s \<in> {Failed, Closed}" using assms(2) by (simp add: seen_of_def)
    with r(2) have "ended (ss_calls s)" by (auto simp: ended_def)
    with runs_to.begins show ?thesis by blast
  next
    case (Cons t ts)
    then have seen: "seen_of s = (case t of T_failed \<Rightarrow> Failing | T_closed \<Rightarrow> Closing)"
      using assms(2) by (simp add: seen_of_def split: terminate_status.splits)
    have "t \<in> set (shutdowns (ss_con s))" using Cons by simp
    then have "A_shutdown t \<in> set (cn_pending (ss_con s))"
      by (auto simp: shutdowns_def List.map_filter_def split: async.splits)
    then have en: "enabled (Shut_down t) s" by (simp add: enabled_def)
    have cov: "covered s (Shut_down t)" by (simp add: covered_def sound_def)
    let ?s = "step (Shut_down t) s"
    have "runs_to covered s ?s" using en cov by (rule runs_one)
    moreover have "ss_calls ?s = ss_calls s @ [case t of T_failed \<Rightarrow> Call_fail | T_closed \<Rightarrow> Call_close]"
      by (simp add: step_def completed_def on_con_def handle_terminate_def tell_def Let_def)
    then have "ended (ss_calls ?s)" using r(2) seen by (auto simp: ended_def split: terminate_status.splits)
    ultimately show ?thesis by blast
  qed
qed

end
