(* ===== verification/Endpoint.thy ===== *)
theory Endpoint
  imports SessionLife WsClient
begin

text \<open>
  The endpoints (\<open>websocketpp/impl/endpoint_impl.hpp\<close>, \<open>roles/\<close>): how a server accepts a connection and a
  client makes one, sending and closing by handle, and how \<open>WebSocketClient::Connect\<close> uses them. A handle is
  a number; the endpoint of a server finds its session in a map. Logging and connections that cannot be made
  for want of memory are left out; neither endpoint is secure in this configuration.
\<close>

subsection \<open>Connections\<close>

text \<open>\<open>create_connection\<close>: the address is set later, by a client.\<close>

definition create_connection :: "bool \<Rightarrow> (nat \<Rightarrow> 32 word) \<Rightarrow> session" where
  "create_connection server rng = session_new server rng (uri_parse []) []"

text \<open>\<open>handle_accept\<close> and \<open>handle_connect\<close>: a connection the transport has failed is terminated, others begin.\<close>

definition handle_accept :: "transport_error option \<Rightarrow> session \<Rightarrow> session" where
  "handle_accept ec con = (case ec of Some e \<Rightarrow> terminate_session (Some (transport_text e)) con | None \<Rightarrow> step Started con)"

definition handle_connect :: "transport_error option \<Rightarrow> session \<Rightarrow> session" where
  "handle_connect ec con = (case ec of Some e \<Rightarrow> terminate_session (Some (transport_text e)) con | None \<Rightarrow> step Started con)"

datatype connect_error = Invalid_uri | Endpoint_not_secure

definition get_connection :: "string \<Rightarrow> (nat \<Rightarrow> 32 word) \<Rightarrow> connect_error + session" where
  "get_connection u rng =
     (let location = uri_parse u in
      if \<not> u_valid location then Inl Invalid_uri
      else if u_secure location then Inl Endpoint_not_secure
      else Inr ((create_connection False rng)\<lparr>ss_uri := location\<rparr>))"

text \<open>\<open>send\<close> and \<open>close\<close> by handle; whether \<open>send\<close> reports no error.\<close>

definition endpoint_send :: "nat \<Rightarrow> string \<Rightarrow> (nat \<rightharpoonup> session) \<Rightarrow> (nat \<rightharpoonup> session) \<times> bool" where
  "endpoint_send hdl payload S =
     (case S hdl of
        None \<Rightarrow> (S, False)
      | Some con \<Rightarrow> (S(hdl \<mapsto> step (App_send (text_message payload)) con),
                     snd (send_message (text_message payload) (ss_con con)) = None))"

definition endpoint_close :: "nat \<Rightarrow> nat \<Rightarrow> string \<Rightarrow> (nat \<rightharpoonup> session) \<Rightarrow> (nat \<rightharpoonup> session)" where
  "endpoint_close hdl code reason S =
     (case S hdl of None \<Rightarrow> S | Some con \<Rightarrow> S(hdl \<mapsto> step (App_close code (bytes_of reason)) con))"

subsection \<open>The client of a gate\<close>

text \<open>What \<open>Connect\<close> makes, up to the call that hands it to the transport.\<close>

definition client_connection :: "WebSocketClient \<Rightarrow> (nat \<Rightarrow> 32 word) \<Rightarrow> session option" where
  "client_connection wc rng =
     (let csms = c_url wc @ CHR ''/'' # c_id wc in
      case get_connection csms rng of
        Inl e \<Rightarrow> None
      | Inr con \<Rightarrow>
          Some (case add_subprotocol ''PMS'' (m_requested_subprotocols con) of
                  None \<Rightarrow> con | Some ps \<Rightarrow> con\<lparr>m_requested_subprotocols := ps\<rparr>))"

text \<open>\<open>Connect_request\<close> with the error \<open>get_connection\<close> has.\<close>

lemma client_connection_requested:
  "client_connection wc rng = None \<longleftrightarrow>
     Connect_request (case get_connection (c_url wc @ CHR ''/'' # c_id wc) rng of Inl e \<Rightarrow> True | Inr con \<Rightarrow> False) wc = None"
  by (simp add: client_connection_def Connect_request_def split: sum.splits)

text \<open>What its session tells the client, as the handlers \<open>Connect\<close> has set.\<close>

fun tell_client ::
    "bool \<Rightarrow> call list \<Rightarrow> WebSocketClient \<times> C_BoostShmObj \<times> MessageManager \<Rightarrow> (WebSocketClient \<times> C_BoostShmObj \<times> MessageManager) res" where
  "tell_client sem [] x = Inr x"
| "tell_client sem (k # ks) (wc, shm, mm) =
     bindR (case k of
        Call_open \<Rightarrow> (case client_on_open sem wc shm of (wc, r) \<Rightarrow> bindR r (\<lambda>shm. Inr (wc, shm, mm)))
      | Call_fail \<Rightarrow> (case client_on_fail sem wc shm of (wc, r) \<Rightarrow> bindR r (\<lambda>shm. Inr (wc, shm, mm)))
      | Call_close \<Rightarrow> (case client_on_close sem wc shm of (wc, r) \<Rightarrow> bindR r (\<lambda>shm. Inr (wc, shm, mm)))
      | Call_message m \<Rightarrow>
          (case client_on_message (wm_opcode m = TEXT) (text_of (wm_payload m)) wc mm of (wc, r) \<Rightarrow>
             bindR r (\<lambda>mm. Inr (wc, shm, mm)))) (tell_client sem ks)"

text \<open>A client that is told its connection is open, and then a response, has both.\<close>

lemma client_hears:
  assumes "client_on_open sem wc shm = (wc1, Inr shm1)" "CHR 0x23 \<notin> set (c_id wc)" "CHR 0x23 \<notin> set t" "t \<noteq> []" "payload_kind t = CALLRESULT_str"
  shows "tell_client sem [Call_open, Call_message (text_message t)] (wc, shm, mm) =
    Inr (wc\<lparr>c_status := OPEN, c_message := t\<rparr>, shm1,
         push_result \<lparr>ws_uri = c_id wc, ws_type = (if c_IsLC wc then ''LC'' else ''Client''), ws_payload = t\<rparr> mm)"
proof -
  have "wc1 = wc\<lparr>c_status := OPEN\<rparr>" using assms(1) by (simp add: client_on_open_def)
  with assms client_message_queued [of wc1 t mm] show ?thesis by (simp add: text_message_def)
qed

end
