(* ===== verification/Host.thy ===== *)
theory Host
  imports System Endpoint
begin

text \<open>
  The server process with the websocket library in it: the sessions of the endpoint by their handles, what
  their handlers tell the park manager's \<open>WebSocketServer\<close>, and what its threads send and close. A session
  that is over is kept, so a handle always finds one; a text for it is refused all the same.
\<close>

subsection \<open>What the server sends and hears\<close>

text \<open>The texts a turn of the handler thread hands over: one at most.\<close>

definition hand_over :: "(nat \<times> string) list \<Rightarrow> (nat \<rightharpoonup> session) \<Rightarrow> (nat \<rightharpoonup> session)" where
  "hand_over ds S = fold (\<lambda>(hdl, t) S. fst (endpoint_send hdl t S)) ds S"

text \<open>The calls as the handlers of \<open>WebSocketServer\<close>, which sets none for connections that fail.\<close>

fun tell_server :: "bool \<Rightarrow> nat \<Rightarrow> string \<Rightarrow> call list \<Rightarrow> server \<Rightarrow> server res" where
  "tell_server sem hdl uri [] \<sigma> = Inr \<sigma>"
| "tell_server sem hdl uri (k # ks) \<sigma> =
     bindR (case k of
        Call_open \<Rightarrow>
          (case on_open sem uri hdl (endpoint \<sigma>) (shared \<sigma>) of (ws, r) \<Rightarrow> bindR r (\<lambda>shm. Inr (\<sigma>\<lparr>endpoint := ws, shared := shm\<rparr>)))
      | Call_message m \<Rightarrow>
          (case on_message uri (text_of (wm_payload m)) (endpoint \<sigma>) (mailbox \<sigma>) of
             (ws, r) \<Rightarrow> bindR r (\<lambda>mm. Inr (\<sigma>\<lparr>endpoint := ws, mailbox := mm\<rparr>)))
      | Call_close \<Rightarrow>
          (case on_close sem uri (endpoint \<sigma>) (shared \<sigma>) of (ws, r) \<Rightarrow> bindR r (\<lambda>shm. Inr (\<sigma>\<lparr>endpoint := ws, shared := shm\<rparr>)))
      | Call_fail \<Rightarrow> Inr \<sigma>) (tell_server sem hdl uri ks)"

definition new_calls :: "session \<Rightarrow> session \<Rightarrow> call list" where
  "new_calls s s' = drop (length (ss_calls s)) (ss_calls s')"

fun of_library :: "event \<Rightarrow> bool" where
  "of_library Started = False"
| "of_library (App_send m) = False"
| "of_library (App_close code reason) = False"
| "of_library _ = True"

subsection \<open>The process\<close>

record host =
  host_server :: server
  host_sessions :: "nat \<rightharpoonup> session"

text \<open>
  A connection is accepted; something happens to a session, and the application is told; or one of the other
  threads of the server takes a turn, which may send a text or close a connection.
\<close>

inductive host_step :: "host \<Rightarrow> host \<Rightarrow> bool" where
  accepted:
    "host_sessions H hdl = None \<Longrightarrow>
     host_step H (H\<lparr>host_sessions := (host_sessions H)(hdl \<mapsto> handle_accept ec (create_connection True rng))\<rparr>)"
| session_event:
    "host_sessions H hdl = Some s \<Longrightarrow> of_library e \<Longrightarrow> enabled e s \<Longrightarrow> s' = step e s \<Longrightarrow>
     tell_server sem hdl (m_uri (m_request s')) (new_calls s s') (host_server H) = Inr \<sigma> \<Longrightarrow>
     host_step H \<lparr>host_server = \<sigma>, host_sessions = (host_sessions H)(hdl \<mapsto> s')\<rparr>"
| handler_turned:
    "handler_on (host_server H) \<Longrightarrow>
     GateHanlder_turn env (park (host_server H)) (mailbox (host_server H)) = (s, mm, Inr out) \<Longrightarrow>
     ds = deliver obs out (endpoint (host_server H)) \<Longrightarrow>
     \<forall>(hdl, t)\<in>set ds. snd (endpoint_send hdl t (host_sessions H)) \<Longrightarrow>
     host_step H \<lparr>host_server = (host_server H)\<lparr>park := s, mailbox := mm, delivered := delivered (host_server H) @ ds\<rparr>,
                  host_sessions = hand_over ds (host_sessions H)\<rparr>"
| handler_ended:
    "handler_on (host_server H) \<Longrightarrow>
     GateHanlder_turn env (park (host_server H)) (mailbox (host_server H)) = (s, mm, Inl e) \<Longrightarrow> is_std_exception e \<Longrightarrow>
     host_step H (H\<lparr>host_server := (host_server H)\<lparr>park := s, mailbox := mm, handler_on := False\<rparr>\<rparr>)"
| watcher_turned:
    "watcher_on (host_server H) \<Longrightarrow>
     RunServer_turn sem (shared (host_server H)) (m_currentServerStatus (host_server H)) (endpoint (host_server H)) = Inr (cur, ws, hdl) \<Longrightarrow>
     host_step H \<lparr>host_server = (host_server H)\<lparr>m_currentServerStatus := cur, endpoint := ws\<rparr>,
                  host_sessions = (case hdl of None \<Rightarrow> host_sessions H
                    | Some h \<Rightarrow> endpoint_close h 1000 ''Terminating connection...'' (host_sessions H))\<rparr>"
| watcher_ended:
    "watcher_on (host_server H) \<Longrightarrow>
     RunServer_turn sem (shared (host_server H)) (m_currentServerStatus (host_server H)) (endpoint (host_server H)) = Inl e \<Longrightarrow> is_std_exception e \<Longrightarrow>
     host_step H (H\<lparr>host_server := (host_server H)\<lparr>watcher_on := False\<rparr>\<rparr>)"

inductive_cases host_stepE: "host_step H H'"

inductive host_run :: "host \<Rightarrow> host \<Rightarrow> bool" where
  host_refl: "host_run H H"
| host_more: "host_run H H' \<Longrightarrow> host_step H' H'' \<Longrightarrow> host_run H H''"

definition host_start :: "ini option \<Rightarrow> host res" where
  "host_start loaded = bindR (server_start loaded) (\<lambda>\<sigma>. Inr \<lparr>host_server = \<sigma>, host_sessions = Map.empty\<rparr>)"

subsection \<open>It is a run of the server's threads\<close>

lemma server_run_trans: "server_run \<sigma>1 \<sigma>2 \<Longrightarrow> server_run \<sigma>0 \<sigma>1 \<Longrightarrow> server_run \<sigma>0 \<sigma>2"
  by (induction rule: server_run.induct) (auto intro: server_run.intros)

lemma server_run_one: "server_step \<sigma> \<sigma>' \<Longrightarrow> server_run \<sigma> \<sigma>'"
  by (rule run_step [OF run_refl])

lemma tell_server_run: "tell_server sem hdl uri ks \<sigma> = Inr \<sigma>' \<Longrightarrow> server_run \<sigma> \<sigma>'"
proof (induction ks arbitrary: \<sigma>)
  case Nil
  then show ?case by (simp add: run_refl)
next
  case (Cons k ks)
  then obtain \<sigma>1 where s: "tell_server sem hdl uri ks \<sigma>1 = Inr \<sigma>'" and k: "tell_server sem hdl uri [k] \<sigma> = Inr \<sigma>1"
    by (cases k) (auto split: prod.splits)
  have "server_run \<sigma> \<sigma>1"
  proof (cases k)
    case Call_open
    with k show ?thesis by (auto split: prod.splits intro!: server_run_one connection_opened)
  next
    case (Call_message m)
    with k show ?thesis by (auto split: prod.splits intro!: server_run_one message_arrived)
  next
    case Call_fail
    with k show ?thesis by (simp add: run_refl)
  next
    case Call_close
    with k show ?thesis by (auto split: prod.splits intro!: server_run_one connection_closed)
  qed
  with server_run_trans [OF Cons.IH [OF s]] show ?case by blast
qed

lemma host_step_server:
  assumes "host_step H H'"
  shows "server_run (host_server H) (host_server H')"
  using assms
proof cases
  case session_event
  then show ?thesis using tell_server_run by simp
next
  case handler_turned
  then show ?thesis using server_step.handler_turn by (auto intro!: server_run_one)
next
  case handler_ended
  then show ?thesis using server_step.handler_failed by (auto intro!: server_run_one)
next
  case watcher_turned
  then show ?thesis using server_step.watcher_turn by (auto intro!: server_run_one)
next
  case watcher_ended
  then show ?thesis using server_step.watcher_failed by (auto intro!: server_run_one)
qed (simp add: run_refl)

lemma host_run_server: "host_run H H' \<Longrightarrow> server_run (host_server H) (host_server H')"
  by (induction rule: host_run.induct) (auto intro: run_refl server_run_trans host_step_server)

end
