(* ===== verification/HostInv.thy ===== *)
theory HostInv
  imports Host
begin

text \<open>
  What every run of the process keeps: the handles in the map of the server are those of open sessions,
  under the uri of their request, and answers go to the uri a call came from.
\<close>

subsection \<open>The request of an open session\<close>

text \<open>Once the frames have begun the request stays, and the open handler is called only then.\<close>

definition tracked :: "session \<Rightarrow> session \<Rightarrow> bool" where
  "tracked s s' \<longleftrightarrow>
     (m_internal_state s = PROCESS_CONNECTION \<longrightarrow> m_internal_state s' = PROCESS_CONNECTION \<and> m_request s' = m_request s) \<and>
     (Call_open \<in> set (ss_calls s') \<longrightarrow> Call_open \<in> set (ss_calls s) \<or> m_internal_state s' = PROCESS_CONNECTION)"

lemma tracked_refl [simp]: "tracked s s"
  by (simp add: tracked_def)

lemma tracked_trans: "tracked s s1 \<Longrightarrow> tracked s1 s2 \<Longrightarrow> tracked s s2"
  by (auto simp: tracked_def)

lemma tracked_on_con [simp]: "tracked s (on_con f s)"
  by (auto simp: tracked_def on_con_def Let_def)

lemma tracked_con [simp]: "tracked s (terminate_session ec s)" "tracked s (ask a s)"
  by (simp_all add: terminate_session_def ask_def)

lemma tracked_fields:
  "m_internal_state s \<noteq> PROCESS_CONNECTION \<Longrightarrow> ss_calls s' = ss_calls s \<Longrightarrow> tracked s s'"
  by (simp add: tracked_def)

lemma tracked_then:
  "tracked s s1 \<Longrightarrow> tracked s (on_con f s1)" "tracked s s1 \<Longrightarrow> tracked s (terminate_session ec s1)"
  "tracked s s1 \<Longrightarrow> tracked s (ask a s1)" "tracked s s1 \<Longrightarrow> tracked s (write_out bs a s1)"
proof -
  have "tracked s (s\<lparr>ss_written := w\<rparr>)" for s w by (simp add: tracked_def)
  then have "tracked s (write_out bs a s)" for s bs a unfolding write_out_def by (rule tracked_trans [OF _ tracked_con(2)])
  then show "tracked s s1 \<Longrightarrow> tracked s (on_con f s1)" "tracked s s1 \<Longrightarrow> tracked s (terminate_session ec s1)"
    "tracked s s1 \<Longrightarrow> tracked s (ask a s1)" "tracked s s1 \<Longrightarrow> tracked s (write_out bs a s1)"
    by (auto elim: tracked_trans)
qed

lemma tracked_tell: "k \<noteq> Call_open \<Longrightarrow> tracked s (tell k s)"
  by (simp add: tracked_def tell_def)

lemma tracked_read_frame: "tracked s (session_read_frame r s)"
  by (auto simp: session_read_frame_def Let_def intro: tracked_then split: sum.splits transport_error.splits)

lemma tracked_open: "tracked s (session_open rest s)"
proof -
  let ?s = "tell Call_open (on_con connection_open (s\<lparr>m_internal_state := PROCESS_CONNECTION\<rparr>))"
  have "tracked s ?s" by (simp add: tracked_def tell_def on_con_def Let_def)
  then show ?thesis unfolding session_open_def by (rule tracked_trans) (rule tracked_read_frame)
qed

lemma tracked_guarded: "(m_internal_state s = i \<Longrightarrow> tracked s (go s)) \<Longrightarrow> tracked s (guarded i ec go s)"
  by (auto simp: guarded_def Let_def split: option.splits)

lemma tracked_read_handshake:
  "m_internal_state s = READ_HTTP_REQUEST \<Longrightarrow> tracked s (read_handshake buf s)"
  by (auto simp: read_handshake_def intro!: tracked_then tracked_fields split: server_step.splits)

lemma tracked_read_response:
  assumes "m_internal_state s = READ_HTTP_RESPONSE"
  shows "tracked s (read_http_response buf s)"
proof -
  have f: "tracked s (s\<lparr>m_response := r\<rparr>)" for r using assms by (intro tracked_fields) simp_all
  show ?thesis
    by (auto simp: read_http_response_def Let_def
        intro!: tracked_then tracked_trans [OF _ tracked_open] f split: client_step.splits)
qed

lemma tracked_written: "tracked s (handle_written a ec s)"
proof -
  have "m_internal_state s = WRITE_HTTP_REQUEST \<Longrightarrow> tracked s (s\<lparr>m_internal_state := READ_HTTP_RESPONSE\<rparr>)"
    by (rule tracked_fields) simp_all
  then have "tracked s (handle_send_http_request ec s)"
    unfolding handle_send_http_request_def by (intro tracked_guarded tracked_then)
  moreover have "tracked s (handle_write_http_response ec s)"
    unfolding handle_write_http_response_def using tracked_open by (intro tracked_guarded) simp
  ultimately show ?thesis by (simp add: handle_written_def)
qed

lemma tracked_start: "tracked s (start s)"
  by (auto simp: start_def intro!: tracked_then tracked_fields)

lemma tracked_init: "tracked s (handle_transport_init ec s)"
  by (auto simp: handle_transport_init_def send_request_def Let_def intro!: tracked_then tracked_fields split: option.splits sum.splits)

lemma tracked_run_write: "tracked s (run_write s)"
  by (auto simp: run_write_def intro!: tracked_then split: prod.splits option.splits)

lemma tracked_react: "tracked s (react e s)"
proof (cases e)
  case (Read a r)
  then show ?thesis
    by (auto simp: handle_read_def intro!: tracked_read_frame tracked_guarded tracked_read_handshake tracked_read_response split: sum.splits)
qed (auto simp: handle_timeout_def handle_terminate_def tracked_tell tracked_written tracked_start tracked_init tracked_run_write
    split: terminate_status.splits)

lemma tracked_step: "tracked s (step e s)"
proof -
  have "tracked s (completed a s)" for a by (simp add: completed_def split: option.splits)
  then show ?thesis unfolding step_def by (rule tracked_trans) (rule tracked_react)
qed

subsection \<open>Sessions of the server\<close>

definition good_session :: "session \<Rightarrow> bool" where
  "good_session s \<longleftrightarrow> session_inv s \<and> cn_server (ss_con s) \<and> calls_of (seen_of s) (ss_calls s) \<and>
     (Call_open \<in> set (ss_calls s) \<longrightarrow> m_internal_state s = PROCESS_CONNECTION)"

text \<open>A session some time later.\<close>

definition later :: "session \<Rightarrow> session \<Rightarrow> bool" where
  "later s s' \<longleftrightarrow> set (ss_calls s) \<subseteq> set (ss_calls s') \<and>
     (Call_open \<in> set (ss_calls s) \<longrightarrow> m_uri (m_request s') = m_uri (m_request s))"

lemma good_step:
  assumes "good_session s" "enabled e s"
  shows "good_session (step e s)" "later s (step e s)" "ss_calls (step e s) = ss_calls s @ new_calls s (step e s)"
    "sees (seen_of s) (new_calls s (step e s)) (seen_of (step e s))"
proof -
  have "sound s e" using assms(1) by (simp add: sound_def good_session_def)
  with step_follows assms have f: "follows s (step e s)" by (simp add: good_session_def)
  then obtain ks where ks: "ss_calls (step e s) = ss_calls s @ ks" "sees (seen_of s) ks (seen_of (step e s))"
    unfolding follows_def by blast
  then show c: "ss_calls (step e s) = ss_calls s @ new_calls s (step e s)"
    and n: "sees (seen_of s) (new_calls s (step e s)) (seen_of (step e s))" by (simp_all add: new_calls_def)
  note t = tracked_step [of s e]
  show "later s (step e s)" using assms(1) t ks(1) by (auto simp: later_def good_session_def tracked_def)
  show "good_session (step e s)" using assms(1) f t ks sees_calls [OF ks(2)] by (auto simp: good_session_def follows_def tracked_def)
qed

lemma good_new: "good_session (create_connection True rng)" "ss_calls (create_connection True rng) = []"
  by (simp_all add: good_session_def create_connection_def session_inv_new)
    (simp_all add: session_new_def connection_new_def)

lemma good_accept: "good_session (handle_accept ec (create_connection True rng))"
proof (cases ec)
  case None
  have "enabled Started (create_connection True rng)" by (simp add: enabled_def create_connection_def session_new_def)
  with good_step(1) [OF good_new(1)] None show ?thesis by (simp add: handle_accept_def)
next
  case (Some e)
  let ?s = "create_connection True rng" and ?s' = "terminate_session (Some (transport_text e)) (create_connection True rng)"
  have f: "follows ?s ?s'" using good_new(1) [of rng] quiet_follows [OF _ quiet_terminate] by (simp add: good_session_def)
  then obtain ks where ks: "ss_calls ?s' = ss_calls ?s @ ks" "sees (seen_of ?s) ks (seen_of ?s')" unfolding follows_def by blast
  from sees_calls [OF ks(2)] good_new(1) [of rng] ks(1) have "calls_of (seen_of ?s') (ss_calls ?s')" by (simp add: good_session_def)
  moreover have "Call_open \<notin> set (ss_calls ?s')"
    using good_new(2) [of rng] by (auto simp: terminate_session_def on_con_def Let_def)
  ultimately show ?thesis using f good_new(1) [of rng] Some by (simp add: handle_accept_def good_session_def follows_def)
qed

text \<open>What the threads of the server do to a session calls no handler.\<close>

lemma app_calls:
  "ss_calls (step (App_send m) s) = ss_calls s" "ss_calls (step (App_close code reason) s) = ss_calls s"
proof -
  have "cn_delivered (fst (send_message m c)) = cn_delivered c" for c
    by (simp add: send_message_def split: sum.splits prod.splits)
  then show "ss_calls (step (App_send m) s) = ss_calls s" by (simp add: step_def completed_def on_con_def Let_def)
  have "cn_delivered (fst (close_connection code reason c)) = cn_delivered c" for c
    using shut_from_close [of c code reason] by (simp add: shut_from_def)
  then show "ss_calls (step (App_close code reason) s) = ss_calls s" by (simp add: step_def completed_def on_con_def Let_def)
qed

lemma app_enabled: "enabled (App_send m) s" "enabled (App_close code reason) s"
  by (simp_all add: enabled_def)

subsection \<open>The invariant\<close>

text \<open>The part of a uri the server remembers with a message.\<close>

definition before_hash :: "string \<Rightarrow> string" where
  "before_hash = takeWhile (\<lambda>c. c \<noteq> CHR 0x23)"

definition live :: "session \<Rightarrow> bool" where
  "live s \<longleftrightarrow> Call_open \<in> set (ss_calls s) \<and> Call_close \<notin> set (ss_calls s)"

definition spoke :: "(nat \<rightharpoonup> session) \<Rightarrow> string \<Rightarrow> bool" where
  "spoke S u \<longleftrightarrow> (\<exists>h s m. S h = Some s \<and> Call_message m \<in> set (ss_calls s) \<and> before_hash (m_uri (m_request s)) = u)"

definition registered :: "host \<Rightarrow> bool" where
  "registered H \<longleftrightarrow> (\<forall>u h. m_connections (endpoint (host_server H)) u = Some h \<longrightarrow>
     (\<exists>s. host_sessions H h = Some s \<and> live s \<and> m_uri (m_request s) = u))"

definition answered :: "host \<Rightarrow> bool" where
  "answered H \<longleftrightarrow> (\<forall>(h, t)\<in>set (delivered (host_server H)).
     \<exists>s. host_sessions H h = Some s \<and> Call_open \<in> set (ss_calls s) \<and> spoke (host_sessions H) (m_uri (m_request s)))"

definition host_inv :: "host \<Rightarrow> bool" where
  "host_inv H \<longleftrightarrow> (\<forall>h s. host_sessions H h = Some s \<longrightarrow> good_session s) \<and> registered H \<and>
     (\<forall>m\<in>set (ocppCALLMessageQueue (mailbox (host_server H))). spoke (host_sessions H) (ws_uri m)) \<and> answered H"

definition grows :: "(nat \<rightharpoonup> session) \<Rightarrow> (nat \<rightharpoonup> session) \<Rightarrow> bool" where
  "grows S S' \<longleftrightarrow> (\<forall>h s. S h = Some s \<longrightarrow> (\<exists>s'. S' h = Some s' \<and> later s s'))"

lemma message_opened: "good_session s \<Longrightarrow> Call_message m \<in> set (ss_calls s) \<Longrightarrow> Call_open \<in> set (ss_calls s)"
  by (cases "seen_of s") (auto simp: good_session_def)

lemma later_refl [simp]: "later s s"
  by (simp add: later_def)

lemma grows_update: "(\<And>s. S h = Some s \<Longrightarrow> later s s') \<Longrightarrow> grows S (S(h \<mapsto> s'))"
  by (auto simp: grows_def)

lemma spoke_grows:
  assumes "grows S S'" "\<forall>h s. S h = Some s \<longrightarrow> good_session s" "spoke S u"
  shows "spoke S' u"
proof -
  obtain h s m where s: "S h = Some s" "Call_message m \<in> set (ss_calls s)" "before_hash (m_uri (m_request s)) = u"
    using assms(3) by (auto simp: spoke_def)
  then obtain s' where s': "S' h = Some s'" "later s s'" using assms(1) by (auto simp: grows_def)
  with s message_opened [of s m] assms(2) have "Call_message m \<in> set (ss_calls s')" "before_hash (m_uri (m_request s')) = u"
    by (auto simp: later_def)
  with s'(1) show ?thesis unfolding spoke_def by blast
qed

lemma answered_grows:
  assumes "grows (host_sessions H) (host_sessions H')" "\<forall>h s. host_sessions H h = Some s \<longrightarrow> good_session s" "answered H"
    and "delivered (host_server H') = delivered (host_server H)"
  shows "answered H'"
  unfolding answered_def
proof (intro ballI, clarify)
  fix h t assume "(h, t) \<in> set (delivered (host_server H'))"
  then obtain s where s: "host_sessions H h = Some s" "Call_open \<in> set (ss_calls s)" "spoke (host_sessions H) (m_uri (m_request s))"
    using assms(3,4) by (auto simp: answered_def)
  then obtain s' where "host_sessions H' h = Some s'" "later s s'" using assms(1) by (auto simp: grows_def)
  with s spoke_grows [OF assms(1,2) s(3)]
  show "\<exists>s. host_sessions H' h = Some s \<and> Call_open \<in> set (ss_calls s) \<and> spoke (host_sessions H') (m_uri (m_request s))"
    by (auto simp: later_def)
qed

subsection \<open>What the application has been told\<close>

lemma queued_uri:
  assumes "AddMessage mm (raw_message ''Server'' uri p) = Inr (mm', b)"
  shows "\<forall>m\<in>set (ocppCALLMessageQueue mm'). m \<in> set (ocppCALLMessageQueue mm) \<or> ws_uri m = before_hash uri"
proof -
  have "split_on (CHR 0x23) (raw_message ''Server'' uri p) = ''Server'' # split_on (CHR 0x23) (uri @ CHR 0x23 # p)"
    by (simp add: raw_message_def split_on_append)
  moreover have "takeWhile (\<lambda>c. c \<noteq> CHR 0x23) (uri @ CHR 0x23 # p) = before_hash uri"
    unfolding before_hash_def by (induction uri) simp_all
  then have "hd (split_on (CHR 0x23) (uri @ CHR 0x23 # p)) = before_hash uri"
    using split_on_Cons_hd [of "CHR 0x23" "uri @ CHR 0x23 # p"] by (metis list.sel(1))
  moreover obtain y ys where "split_on (CHR 0x23) (uri @ CHR 0x23 # p) = y # ys" by (metis list.exhaust split_on_not_Nil)
  ultimately show ?thesis using assms by (auto simp: AddMessage_def Let_def vec_at_Inr push_call_def push_result_def split: if_splits)
qed

lemma tell_keeps:
  assumes "tell_server sem hdl uri ks \<sigma> = Inr \<sigma>'"
  shows "delivered \<sigma>' = delivered \<sigma>"
    and "\<forall>m\<in>set (ocppCALLMessageQueue (mailbox \<sigma>')). m \<in> set (ocppCALLMessageQueue (mailbox \<sigma>)) \<or>
      ws_uri m = before_hash uri \<and> (\<exists>m. Call_message m \<in> set ks)"
proof -
  from assms have "delivered \<sigma>' = delivered \<sigma> \<and> (\<forall>m\<in>set (ocppCALLMessageQueue (mailbox \<sigma>')).
      m \<in> set (ocppCALLMessageQueue (mailbox \<sigma>)) \<or> ws_uri m = before_hash uri \<and> (\<exists>m. Call_message m \<in> set ks))"
  proof (induction ks arbitrary: \<sigma>)
    case (Cons k ks)
    show ?case
    proof (cases k)
      case (Call_message m)
      with Cons.prems obtain ws mm b where m: "AddMessage (mailbox \<sigma>) (raw_message ''Server'' uri (text_of (wm_payload m))) = Inr (mm, b)"
        "tell_server sem hdl uri ks (\<sigma>\<lparr>endpoint := ws, mailbox := mm\<rparr>) = Inr \<sigma>'"
        by (auto simp: on_message_def)
      from Cons.IH [OF m(2)] queued_uri [OF m(1)] Call_message show ?thesis by auto
    qed (use Cons in \<open>fastforce split: prod.splits\<close>)+
  qed simp
  then show "delivered \<sigma>' = delivered \<sigma>"
    "\<forall>m\<in>set (ocppCALLMessageQueue (mailbox \<sigma>')). m \<in> set (ocppCALLMessageQueue (mailbox \<sigma>)) \<or>
      ws_uri m = before_hash uri \<and> (\<exists>m. Call_message m \<in> set ks)" by blast+
qed

abbreviation handles :: "server \<Rightarrow> string \<rightharpoonup> nat" where
  "handles \<sigma> \<equiv> m_connections (endpoint \<sigma>)"

lemma tell_messages: "tell_server sem hdl uri (map Call_message ms) \<sigma> = Inr \<sigma>' \<Longrightarrow> handles \<sigma>' = handles \<sigma>"
  by (induction ms arbitrary: \<sigma>) (fastforce simp: on_message_def)+

lemma tell_connections:
  assumes "tell_server sem hdl uri ks \<sigma> = Inr \<sigma>'"
  shows "ks = Call_open # map Call_message ms \<Longrightarrow>
      handles \<sigma>' = (if handles \<sigma> uri = None then (handles \<sigma>)(uri \<mapsto> hdl) else handles \<sigma>)"
    "ks = map Call_message ms \<Longrightarrow> handles \<sigma>' = handles \<sigma>" "ks = [Call_fail] \<Longrightarrow> handles \<sigma>' = handles \<sigma>"
    "ks = [Call_close] \<Longrightarrow> handles \<sigma>' = (handles \<sigma>)(uri := None)"
  using assms by (auto simp: on_open_def on_close_def dest!: tell_messages split: prod.splits if_splits)

subsection \<open>Every step keeps it\<close>

lemma live_later: "live s \<Longrightarrow> ss_calls s' = ss_calls s \<Longrightarrow> later s s' \<Longrightarrow> live s' \<and> m_uri (m_request s') = m_uri (m_request s)"
  by (simp add: live_def later_def)

text \<open>The threads of the server change sessions this way.\<close>

definition served :: "(nat \<rightharpoonup> session) \<Rightarrow> (nat \<rightharpoonup> session) \<Rightarrow> bool" where
  "served S S' \<longleftrightarrow> (\<forall>h s. S h = Some s \<longrightarrow> (\<exists>s'. S' h = Some s' \<and> later s s' \<and> ss_calls s' = ss_calls s)) \<and>
     ((\<forall>h s. S h = Some s \<longrightarrow> good_session s) \<longrightarrow> (\<forall>h s. S' h = Some s \<longrightarrow> good_session s))"

lemma served_later: "served S S' \<Longrightarrow> S h = Some s \<Longrightarrow> \<exists>s'. S' h = Some s' \<and> later s s' \<and> ss_calls s' = ss_calls s"
  unfolding served_def by blast

lemma served_refl [simp]: "served S S"
  by (auto simp: served_def)

lemma later_trans: "later s s1 \<Longrightarrow> later s1 s2 \<Longrightarrow> later s s2"
  by (auto simp: later_def)

lemma served_trans:
  assumes "served S S1" "served S1 S2"
  shows "served S S2"
proof -
  have "\<exists>s'. S2 h = Some s' \<and> later s s' \<and> ss_calls s' = ss_calls s" if h: "S h = Some s" for h s
  proof -
    obtain s1 where s1: "S1 h = Some s1" "later s s1" "ss_calls s1 = ss_calls s" using served_later [OF assms(1) h] by blast
    obtain s2 where s2: "S2 h = Some s2" "later s1 s2" "ss_calls s2 = ss_calls s1" using served_later [OF assms(2) s1(1)] by blast
    from s2 later_trans [OF s1(2) s2(2)] s1(3) show ?thesis by simp
  qed
  with assms show ?thesis unfolding served_def by blast
qed

lemma later_app: "good_session s \<Longrightarrow> e = App_send m \<or> e = App_close code reason \<Longrightarrow> good_session (step e s) \<and> later s (step e s)"
  using good_step(1,2) [of s e] app_enabled by blast

lemma served_app:
  assumes "\<forall>h s. S h = Some s \<longrightarrow> good_session s"
  shows "served S (fst (endpoint_send h t S))" "served S (endpoint_close h code reason S)"
  using later_app assms app_calls
  by (auto simp: served_def endpoint_send_def endpoint_close_def split: option.splits)

lemma served_grows: "served S S' \<Longrightarrow> grows S S'"
  unfolding grows_def using served_later by blast

lemma served_hand_over:
  assumes "\<forall>h s. S h = Some s \<longrightarrow> good_session s"
  shows "served S (hand_over ds S)"
  unfolding hand_over_def using assms
proof (induction ds arbitrary: S)
  case (Cons d ds)
  obtain h t where d: "d = (h, t)" by force
  from served_app(1) [OF Cons.prems] have s: "served S (fst (endpoint_send h t S))" .
  with Cons.prems have "\<forall>k s. fst (endpoint_send h t S) k = Some s \<longrightarrow> good_session s" unfolding served_def by blast
  from served_trans [OF s Cons.IH [OF this]] d show ?case by simp
qed simp

lemma registered_served:
  assumes "served (host_sessions H) (host_sessions H')" "registered H"
    and "handles (host_server H') \<subseteq>\<^sub>m handles (host_server H)"
  shows "registered H'"
  unfolding registered_def
proof (intro allI impI)
  fix u h assume "handles (host_server H') u = Some h"
  then have "handles (host_server H) u = Some h" using assms(3) by (auto simp: map_le_def dom_def)
  then obtain s where s: "host_sessions H h = Some s" "live s" "m_uri (m_request s) = u" using assms(2) by (auto simp: registered_def)
  then obtain s' where "host_sessions H' h = Some s'" "later s s'" "ss_calls s' = ss_calls s" using served_later [OF assms(1)] by blast
  with s live_later [of s s'] show "\<exists>s. host_sessions H' h = Some s \<and> live s \<and> m_uri (m_request s) = u" by blast
qed

lemma host_inv_served:
  assumes "host_inv H" "served (host_sessions H) (host_sessions H')" "handles (host_server H') \<subseteq>\<^sub>m handles (host_server H)"
    and "set (ocppCALLMessageQueue (mailbox (host_server H'))) \<subseteq> set (ocppCALLMessageQueue (mailbox (host_server H)))"
    and "delivered (host_server H') = delivered (host_server H)"
  shows "host_inv H'"
proof -
  have g: "\<forall>h s. host_sessions H h = Some s \<longrightarrow> good_session s" using assms(1) by (simp add: host_inv_def)
  note gr = served_grows [OF assms(2)]
  have "registered H'" using registered_served [OF assms(2) _ assms(3)] assms(1) by (simp add: host_inv_def)
  moreover have "answered H'" using answered_grows [OF gr g _ assms(5)] assms(1) by (simp add: host_inv_def)
  moreover have "\<forall>h s. host_sessions H' h = Some s \<longrightarrow> good_session s" using g assms(2) by (simp add: served_def)
  ultimately show ?thesis using spoke_grows [OF gr g] assms(1,4) by (auto simp: host_inv_def)
qed

text \<open>A session goes on, and the application is told.\<close>

lemma session_registered:
  assumes "host_inv H" "host_sessions H hdl = Some s" "enabled e s"
    and t: "tell_server sem hdl (m_uri (m_request (step e s))) (new_calls s (step e s)) (host_server H) = Inr \<sigma>"
  shows "registered \<lparr>host_server = \<sigma>, host_sessions = (host_sessions H)(hdl \<mapsto> step e s)\<rparr>"
  unfolding registered_def
proof (intro allI impI, simp)
  let ?s = "step e s" and ?u = "m_uri (m_request (step e s))"
  have g: "good_session s" using assms(1,2) by (auto simp: host_inv_def)
  note st = good_step [OF g assms(3)]
  fix u h assume m: "handles \<sigma> u = Some h"
  have old: "\<exists>s. host_sessions H h = Some s \<and> live s \<and> m_uri (m_request s) = u" if "handles (host_server H) u = Some h" for h
    using assms(1) that by (simp add: host_inv_def registered_def)
  have kept: "live ?s \<and> ?u = u" if "handles (host_server H) u = Some hdl" "Call_close \<notin> set (new_calls s ?s)"
  proof -
    from old [OF that(1)] assms(2) have "live s" "m_uri (m_request s) = u" by auto
    with that(2) st(2,3) show ?thesis by (auto simp: live_def later_def)
  qed
  from st(4) show "(h = hdl \<longrightarrow> live ?s \<and> ?u = u) \<and>
      (h \<noteq> hdl \<longrightarrow> (\<exists>s. host_sessions H h = Some s \<and> live s \<and> m_uri (m_request s) = u))"
  proof (cases rule: sees.cases)
    case stay
    with tell_connections(2) [OF t, of "[]"] m kept old show ?thesis by auto
  next
    case (opens ms)
    then have "live ?s" using g st(3) by (auto simp: live_def good_session_def)
    with tell_connections(1) [OF t opens(2)] m kept old opens show ?thesis by (auto split: if_splits)
  next
    case (opens_closing ms)
    then have "live ?s" using g st(3) by (auto simp: live_def good_session_def)
    with tell_connections(1) [OF t opens_closing(2)] m kept old opens_closing show ?thesis by (auto split: if_splits)
  next
    case fails
    with tell_connections(2) [OF t, of "[]"] m kept old show ?thesis by auto
  next
    case (messages ms)
    with tell_connections(2) [OF t messages(2)] m kept old show ?thesis by auto
  next
    case (closes ms)
    with tell_connections(2) [OF t closes(2)] m kept old show ?thesis by auto
  next
    case failed
    with tell_connections(3) [OF t failed(2)] m kept old show ?thesis by auto
  next
    case closed
    with tell_connections(4) [OF t closed(2)] m have u: "u \<noteq> ?u" "handles (host_server H) u = Some h" by (auto split: if_splits)
    have "h \<noteq> hdl"
    proof
      assume "h = hdl"
      with old [OF u(2)] assms(2) have "live s" "m_uri (m_request s) = u" by auto
      with st(2) u(1) show False by (simp add: live_def later_def)
    qed
    with old [OF u(2)] show ?thesis by blast
  qed
qed

lemma host_inv_event:
  assumes "host_inv H" "host_sessions H hdl = Some s" "enabled e s"
    and "tell_server sem hdl (m_uri (m_request (step e s))) (new_calls s (step e s)) (host_server H) = Inr \<sigma>"
  shows "host_inv \<lparr>host_server = \<sigma>, host_sessions = (host_sessions H)(hdl \<mapsto> step e s)\<rparr>"
proof -
  let ?H = "\<lparr>host_server = \<sigma>, host_sessions = (host_sessions H)(hdl \<mapsto> step e s)\<rparr>"
  have g: "\<forall>h s. host_sessions H h = Some s \<longrightarrow> good_session s" using assms(1) by (simp add: host_inv_def)
  then have gs: "good_session s" using assms(2) by blast
  note st = good_step [OF gs assms(3)]
  have gr: "grows (host_sessions H) (host_sessions ?H)" using assms(2) st(2) by (auto intro: grows_update)
  have "answered ?H" using answered_grows [OF gr g] tell_keeps(1) [OF assms(4)] assms(1) by (simp add: host_inv_def)
  moreover have "spoke (host_sessions ?H) (ws_uri m)" if "m \<in> set (ocppCALLMessageQueue (mailbox \<sigma>))" for m
  proof -
    from tell_keeps(2) [OF assms(4)] that
    consider "m \<in> set (ocppCALLMessageQueue (mailbox (host_server H)))" |
      k where "ws_uri m = before_hash (m_uri (m_request (step e s)))" "Call_message k \<in> set (new_calls s (step e s))" by blast
    then show ?thesis
    proof cases
      case 1
      with assms(1) spoke_grows [OF gr g] show ?thesis by (simp add: host_inv_def)
    next
      case 2
      with st(3) have "Call_message k \<in> set (ss_calls (step e s))" by simp
      with 2(1) show ?thesis unfolding spoke_def by (intro exI [of _ hdl] exI [of _ "step e s"] exI [of _ k]) simp
    qed
  qed
  ultimately show ?thesis using g st(1) session_registered [OF assms] by (simp add: host_inv_def)
qed

lemma handed_over: "(h, t) \<in> set (deliver obs out ws) \<Longrightarrow> \<exists>u. out = Some (u, t) \<and> m_connections ws u = Some h"
  by (auto simp: deliver_def SendMessage_def split: option.splits if_splits)

lemma turn_uri:
  assumes "GateHanlder_turn env s mm = (s', mm', Inr (Some (u, t)))"
  shows "\<exists>m\<in>set (ocppCALLMessageQueue mm). ws_uri m = u"
proof (cases "ocppCALLMessageQueue mm")
  case Nil
  with assms show ?thesis by (simp add: GateHanlder_turn_def GetCALLMessageSize_def)
next
  case (Cons m ms)
  obtain s1 r where "handle_call env s m = (s1, r)" by force
  with assms Cons show ?thesis by (cases r) (auto simp: GateHanlder_turn_def GetCALLMessageSize_def GetCALLMessage_def)
qed

lemma host_inv_turn:
  assumes inv: "host_inv H" and turn: "GateHanlder_turn env (park (host_server H)) (mailbox (host_server H)) = (s, mm, Inr out)"
    and ds: "ds = deliver obs out (endpoint (host_server H))"
  shows "host_inv \<lparr>host_server = (host_server H)\<lparr>park := s, mailbox := mm, delivered := delivered (host_server H) @ ds\<rparr>,
    host_sessions = hand_over ds (host_sessions H)\<rparr>" (is "host_inv ?H")
proof -
  let ?H0 = "\<lparr>host_server = (host_server H)\<lparr>park := s, mailbox := mm\<rparr>, host_sessions = hand_over ds (host_sessions H)\<rparr>"
  have g: "\<forall>h s. host_sessions H h = Some s \<longrightarrow> good_session s" using inv by (simp add: host_inv_def)
  have sv: "served (host_sessions H) (host_sessions ?H)" using served_hand_over [OF g] by simp
  note q = GateHanlder_turn_mail [OF turn]
  have H0: "host_inv ?H0" by (rule host_inv_served [OF inv]) (use sv q in \<open>auto dest: in_set_dropD\<close>)
  have "\<exists>s. host_sessions ?H h = Some s \<and> Call_open \<in> set (ss_calls s) \<and> spoke (host_sessions ?H) (m_uri (m_request s))"
    if d: "(h, t) \<in> set ds" for h t
  proof -
    obtain u where u: "out = Some (u, t)" "handles (host_server H) u = Some h" using handed_over d ds by blast
    then obtain m where "m \<in> set (ocppCALLMessageQueue (mailbox (host_server H)))" "ws_uri m = u" using turn_uri turn by blast
    then have "spoke (host_sessions H) u" using inv by (auto simp: host_inv_def)
    then have sp: "spoke (host_sessions ?H) u" using spoke_grows [OF served_grows [OF sv] g] by simp
    have "\<exists>s'. host_sessions ?H h = Some s' \<and> live s' \<and> m_uri (m_request s') = u"
      using H0 u(2) unfolding host_inv_def registered_def by simp
    then obtain s' where "host_sessions ?H h = Some s'" "live s'" "m_uri (m_request s') = u" by blast
    with sp show ?thesis by (auto simp: live_def)
  qed
  with H0 show ?thesis by (auto simp: host_inv_def answered_def registered_def)
qed

lemma host_inv_step:
  assumes "host_step H H'" "host_inv H"
  shows "host_inv H'"
  using assms(1)
proof cases
  case (accepted hdl ec rng)
  let ?s = "handle_accept ec (create_connection True rng)"
  have gr: "grows (host_sessions H) ((host_sessions H)(hdl \<mapsto> ?s))" using accepted(2) by (auto intro: grows_update)
  have g: "\<forall>h s. host_sessions H h = Some s \<longrightarrow> good_session s" using assms(2) by (simp add: host_inv_def)
  have "answered H'" using answered_grows [of H H', OF _ g] gr assms(2) accepted(1) by (simp add: host_inv_def)
  moreover have "registered H'" using assms(2) accepted by (force simp: host_inv_def registered_def)
  ultimately show ?thesis using accepted g good_accept [of ec rng] spoke_grows [OF gr g] assms(2) by (simp add: host_inv_def)
next
  case (session_event hdl s e s' sem \<sigma>)
  with host_inv_event assms(2) show ?thesis by blast
next
  case (handler_turned env s mm out ds obs)
  with host_inv_turn [OF assms(2)] show ?thesis by blast
next
  case (handler_ended env s mm e)
  from GateHanlder_turn_mail [OF handler_ended(3)] handler_ended(1) show ?thesis
    by (intro host_inv_served [OF assms(2)]) (auto dest: in_set_dropD)
next
  case (watcher_turned sem cur ws hdl)
  have "m_connections ws \<subseteq>\<^sub>m handles (host_server H)"
    using watcher_turned(3) by (auto simp: RunServer_turn_def Close_def Let_def map_le_def split: if_splits option.splits)
  moreover have "served (host_sessions H) (host_sessions H')"
    using watcher_turned(1) served_app(2) assms(2) by (auto simp: host_inv_def split: option.splits)
  ultimately show ?thesis using watcher_turned(1) by (intro host_inv_served [OF assms(2)]) auto
next
  case watcher_ended
  then show ?thesis by (intro host_inv_served [OF assms(2)]) auto
qed

lemma host_inv_run: "host_run H H' \<Longrightarrow> host_inv H \<Longrightarrow> host_inv H'"
  by (induction rule: host_run.induct) (auto intro: host_inv_step)

lemma host_inv_start: "host_start loaded = Inr H \<Longrightarrow> host_inv H"
  by (auto simp: host_start_def server_start_def WebSocketServer_new_def MessageManager_new_def host_inv_def registered_def answered_def
      split: prod.splits)

lemma registered_live:
  "host_inv H \<Longrightarrow> m_connections (endpoint (host_server H)) u = Some h \<Longrightarrow>
   \<exists>s. host_sessions H h = Some s \<and> Call_open \<in> set (ss_calls s) \<and> Call_close \<notin> set (ss_calls s) \<and> m_uri (m_request s) = u"
  by (simp add: host_inv_def registered_def live_def)

lemma delivered_answers:
  assumes "host_inv H" "(h, t) \<in> set (delivered (host_server H))"
  shows "\<exists>s h' s' m. host_sessions H h = Some s \<and> Call_open \<in> set (ss_calls s) \<and> host_sessions H h' = Some s' \<and>
    Call_message m \<in> set (ss_calls s') \<and> takeWhile (\<lambda>c. c \<noteq> CHR 0x23) (m_uri (m_request s')) = m_uri (m_request s)"
proof -
  have "answered H" using assms(1) by (simp add: host_inv_def)
  then obtain s where "host_sessions H h = Some s" "Call_open \<in> set (ss_calls s)" "spoke (host_sessions H) (m_uri (m_request s))"
    using assms(2) unfolding answered_def by blast
  then show ?thesis unfolding spoke_def before_hash_def by blast
qed

end
