(* ===== verification/SessionRound.thy ===== *)
theory SessionRound
  imports SessionLife
begin

text \<open>
  Two sessions joined by a transport that brings the bytes of each side to the other in pieces of any
  size: the handshake opens both, and the texts sent at once behind it arrive.
\<close>

subsection \<open>The transport\<close>

text \<open>Pieces are given to a pending read as long as there is one.\<close>

fun transfer :: "async \<Rightarrow> string list \<Rightarrow> session \<Rightarrow> session \<times> string list" where
  "transfer a [] s = (s, [])"
| "transfer a (c # cs) s =
     (if a \<in> set (cn_pending (ss_con s)) then transfer a cs (step (Read a (Inr c)) s) else (s, c # cs))"

lemma transfer_stops: "a \<notin> set (cn_pending (ss_con s)) \<Longrightarrow> transfer a cs s = (s, cs)"
  by (cases cs) simp_all

definition reach :: "bool \<Rightarrow> (nat \<Rightarrow> 32 word) \<Rightarrow> uri \<Rightarrow> string list \<Rightarrow> session" where
  "reach server rng u ps = step (Initialized None) (step Started (session_new server rng u ps))"

lemma on_con_pending [simp]:
  "on_con (\<lambda>c. c\<lparr>cn_pending := f c\<rparr>) s = s\<lparr>ss_con := (ss_con s)\<lparr>cn_pending := f (ss_con s)\<rparr>\<rparr>"
  "ask a s = s\<lparr>ss_con := (ss_con s)\<lparr>cn_pending := cn_pending (ss_con s) @ [a]\<rparr>\<rparr>"
  by (simp_all add: on_con_def ask_def await_def Let_def)

lemma server_reached:
  "reach True rng u ps = (session_new True rng u ps)
     \<lparr>ss_con := (connection_new True rng)\<lparr>cn_pending := [A_timer Open_handshake, A_read_handshake]\<rparr>, m_internal_state := READ_HTTP_REQUEST\<rparr>"
  by (simp add: reach_def step_def start_def completed_def handle_transport_init_def session_new_def connection_new_def)

lemma client_reached:
  assumes "send_http_request user_agent u ps rng = Inr req"
  shows "step (Written A_send_request None) (reach False rng u ps) = (session_new False rng u ps)
     \<lparr>ss_con := (connection_new False rng)\<lparr>cn_drawn := 4, cn_pending := [A_timer Open_handshake, A_read_response]\<rparr>,
      m_internal_state := READ_HTTP_RESPONSE, m_request := req, ss_written := [bytes_of (request_raw req)]\<rparr>"
  using assms
  by (simp add: reach_def step_def start_def completed_def handle_transport_init_def send_request_def write_out_def
      handle_written_def handle_send_http_request_def guarded_def session_new_def connection_new_def Let_def)

subsection \<open>The server\<close>

abbreviation with_pending :: "async list \<Rightarrow> session \<Rightarrow> session" where
  "with_pending as s \<equiv> s\<lparr>ss_con := (ss_con s)\<lparr>cn_pending := as\<rparr>\<rparr>"

lemma server_delivered:
  assumes "server_reads user_agent (m_request s) cs = (Server_answers r resp ec sub rest, cs')"
    and "A_read_handshake \<notin> set ps" "state_of s = S_connecting" "m_internal_state s = READ_HTTP_REQUEST"
  shows "transfer A_read_handshake cs (with_pending (ps @ [A_read_handshake]) s) =
    (with_pending (ps @ [A_write_response]) (s\<lparr>m_request := r, m_response := resp, ss_ec := ec, ss_rest := rest,
       m_internal_state := PROCESS_HTTP_REQUEST, ss_written := ss_written s @ [bytes_of (response_raw resp)]\<rparr>), cs')"
  using assms
proof (induction cs arbitrary: s)
  case (Cons c cs)
  have s: "step (Read A_read_handshake (Inr c)) (with_pending (ps @ [A_read_handshake]) s) = read_handshake c (with_pending ps s)"
    using Cons.prems by (simp add: step_def completed_def handle_read_def guarded_def remove1_append)
  show ?case
  proof (cases "handle_read_handshake user_agent (m_request s) c")
    case (Server_reading r1)
    with Cons.IH [of "s\<lparr>m_request := r1\<rparr>"] Cons.prems s show ?thesis by (simp add: read_handshake_def)
  next
    case (Server_answers r1 resp1 ec1 sub1 rest1)
    then show ?thesis using Cons.prems s by (simp add: read_handshake_def write_out_def transfer_stops)
  qed (use Cons.prems in simp)
qed simp

lemma client_delivered:
  assumes "client_reads (m_request s) (m_response s) ds = (Client_opened r False rest, ds')"
    and "A_read_response \<notin> set ps" "state_of s = S_connecting" "m_internal_state s = READ_HTTP_RESPONSE"
    and "\<And>r. A_read_response \<notin> set (cn_pending (ss_con (session_open rest ((with_pending ps s)\<lparr>m_response := r\<rparr>))))"
  shows "transfer A_read_response ds (with_pending (ps @ [A_read_response]) s) =
    (session_open rest ((with_pending ps s)\<lparr>m_response := r\<rparr>), ds')"
  using assms
proof (induction ds arbitrary: s)
  case (Cons c cs)
  have s: "step (Read A_read_response (Inr c)) (with_pending (ps @ [A_read_response]) s) = read_http_response c (with_pending ps s)"
    using Cons.prems by (simp add: step_def completed_def handle_read_def guarded_def remove1_append)
  show ?case
  proof (cases "handle_read_http_response (m_request s) (m_response s) c")
    case (Client_reading r1)
    with Cons.IH [of "s\<lparr>m_response := r1\<rparr>"] Cons.prems s show ?thesis by (simp add: read_http_response_def)
  next
    case (Client_opened r1 t1 rest1)
    then show ?thesis using Cons.prems(1,5) s by (simp add: read_http_response_def transfer_stops)
  qed (use Cons.prems in simp)
qed simp

subsection \<open>Frames\<close>

lemma frame_read:
  assumes "handle_read_frame (cn_processor (ss_con s)) (bytes_of c) = (ms, Read_more p)" "\<forall>m\<in>set ms. \<not> is_control (wm_opcode m)"
    and "state_of s = S_open" "cn_reading (ss_con s)" "m_internal_state s = PROCESS_CONNECTION"
  shows "session_read_frame (Inr c) s =
    s\<lparr>ss_con := (ss_con s)\<lparr>cn_delivered := cn_delivered (ss_con s) @ ms, cn_processor := p,
        cn_pending := cn_pending (ss_con s) @ [A_read_frame]\<rparr>,
      ss_calls := ss_calls s @ map Call_message ms\<rparr>"
  using assms by (simp add: session_read_frame_def on_con_def on_read_def fold_dispatch_data ask_def await_def Let_def)

lemma frames_delivered:
  assumes "reads (cn_processor (ss_con s)) (map bytes_of cs) = (ms, Read_more p)" "\<forall>m\<in>set ms. \<not> is_control (wm_opcode m)"
    and "state_of s = S_open" "cn_reading (ss_con s)" "m_internal_state s = PROCESS_CONNECTION" "A_read_frame \<notin> set ps"
  shows "transfer A_read_frame cs (with_pending (ps @ [A_read_frame]) s) =
    (s\<lparr>ss_con := (ss_con s)\<lparr>cn_delivered := cn_delivered (ss_con s) @ ms, cn_processor := p, cn_pending := ps @ [A_read_frame]\<rparr>,
      ss_calls := ss_calls s @ map Call_message ms\<rparr>, [])"
  using assms
proof (induction cs arbitrary: s ms)
  case (Cons c cs)
  from Cons.prems(1) obtain m1 p1 m2 where r: "handle_read_frame (cn_processor (ss_con s)) (bytes_of c) = (m1, Read_more p1)"
    "reads p1 (map bytes_of cs) = (m2, Read_more p)" "ms = m1 @ m2"
    by (auto split: prod.splits read_end.splits)
  let ?s = "s\<lparr>ss_con := (ss_con s)\<lparr>cn_delivered := cn_delivered (ss_con s) @ m1, cn_processor := p1\<rparr>, ss_calls := ss_calls s @ map Call_message m1\<rparr>"
  have "step (Read A_read_frame (Inr c)) (with_pending (ps @ [A_read_frame]) s) = session_read_frame (Inr c) (with_pending ps s)"
    using Cons.prems by (simp add: step_def completed_def handle_read_def remove1_append)
  also have "\<dots> = with_pending (ps @ [A_read_frame]) ?s"
    using frame_read [of "with_pending ps s" c m1 p1] Cons.prems r by simp
  finally show ?case using Cons.IH [of ?s m2] Cons.prems r by simp
qed simp

text \<open>A session that opens reads what came with the handshake, and then the rest.\<close>

lemma opened_delivered:
  assumes "hybi_inv (cn_processor (ss_con s))" "handle_read_frame (cn_processor (ss_con s)) (bytes_of (rest @ concat cs)) = (ms, Read_more p)"
    and "\<forall>m\<in>set ms. \<not> is_control (wm_opcode m)" "A_read_frame \<notin> set (cn_pending (ss_con s))"
  shows "transfer A_read_frame cs (session_open rest s) =
      (s\<lparr>ss_con := (ss_con s)\<lparr>cn_state := S_open, cn_reading := True, cn_delivered := cn_delivered (ss_con s) @ ms, cn_processor := p,
           cn_pending := cn_pending (ss_con s) @ [A_read_frame]\<rparr>,
         m_internal_state := PROCESS_CONNECTION, ss_calls := ss_calls s @ Call_open # map Call_message ms\<rparr>, [])"
    "cn_pending (ss_con (session_open rest s)) = cn_pending (ss_con s) @ [A_read_frame]"
proof -
  have "bytes_of (rest @ concat cs) = concat (map bytes_of (rest # cs))" by (induction cs) (simp_all add: bytes_of_def)
  then have "reads (cn_processor (ss_con s)) (map bytes_of (rest # cs)) = (ms, Read_more p)"
    using reads_concat [OF assms(1), of "map bytes_of (rest # cs)"] assms(2) by simp
  then obtain m1 p1 m2 where r: "handle_read_frame (cn_processor (ss_con s)) (bytes_of rest) = (m1, Read_more p1)"
    "reads p1 (map bytes_of cs) = (m2, Read_more p)" "ms = m1 @ m2"
    by (auto split: prod.splits read_end.splits)
  let ?s = "tell Call_open (on_con connection_open (s\<lparr>m_internal_state := PROCESS_CONNECTION\<rparr>))"
  let ?s1 = "?s\<lparr>ss_con := (ss_con ?s)\<lparr>cn_delivered := cn_delivered (ss_con s) @ m1, cn_processor := p1\<rparr>, ss_calls := ss_calls ?s @ map Call_message m1\<rparr>"
  have s: "ss_con ?s = (ss_con s)\<lparr>cn_state := S_open, cn_reading := True\<rparr>" "m_internal_state ?s = PROCESS_CONNECTION"
      "ss_calls ?s = ss_calls s @ [Call_open]"
    by (simp_all add: tell_def on_con_def connection_open_def Let_def)
  have o: "session_open rest s = with_pending (cn_pending (ss_con s) @ [A_read_frame]) ?s1"
    using frame_read [of ?s rest m1 p1] r assms(3) by (simp add: session_open_def s)
  then show "cn_pending (ss_con (session_open rest s)) = cn_pending (ss_con s) @ [A_read_frame]" by simp
  show "transfer A_read_frame cs (session_open rest s) =
      (s\<lparr>ss_con := (ss_con s)\<lparr>cn_state := S_open, cn_reading := True, cn_delivered := cn_delivered (ss_con s) @ ms, cn_processor := p,
           cn_pending := cn_pending (ss_con s) @ [A_read_frame]\<rparr>,
         m_internal_state := PROCESS_CONNECTION, ss_calls := ss_calls s @ Call_open # map Call_message ms\<rparr>, [])"
    unfolding o using frames_delivered [of ?s1 cs m2 p] r assms(3,4)
    by (simp add: s) (simp add: tell_def on_con_def connection_open_def Let_def)
qed

subsection \<open>Texts\<close>

lemma text_append: "text_of (bytes_of a @ b) = a @ text_of b"
  by (metis map_append text_bytes text_of_def)

lemma bytes_text: "bytes_of (text_of bs) = bs"
proof -
  have "of_nat (byte (char_of (unat b))) = b" for b :: "8 word"
  proof -
    have "unat b < 256" using unsigned_less [of b, where ?'a = nat] by simp
    then have "byte (char_of (unat b)) = unat b" by simp
    then show ?thesis by simp
  qed
  then show ?thesis by (simp add: bytes_of_def text_of_def comp_def)
qed

lemma texts_queued:
  "fold (\<lambda>t. step (App_send (text_message t))) ts s = s\<lparr>ss_con := send_texts ts (ss_con s)\<rparr>"
proof (induction ts arbitrary: s)
  case (Cons t ts)
  have "cn_delivered (fst (send_message m c)) = cn_delivered c" for m c
    by (simp add: send_message_def write_push_def draw_def split: sum.splits prod.splits)
  then have "step (App_send (text_message t)) s = s\<lparr>ss_con := fst (send_message (text_message t) (ss_con s))\<rparr>"
    by (simp add: step_def completed_def on_con_def)
  with Cons show ?case by (simp add: send_texts_def)
qed (simp add: send_texts_def)

lemma texts_written:
  assumes "state_of s = S_open" "m_send_queue (ss_con s) = []" "\<not> m_write_flag (ss_con s)" "\<forall>t\<in>set ts. utf8_valid t"
  shows "\<exists>fs. map snd fs = map text_message ts \<and>
    concat (ss_written (step Dispatched (fold (\<lambda>t. step (App_send (text_message t))) ts s))) =
      concat (ss_written s) @ wire (cn_server (ss_con s)) fs"
proof (cases "ts = []")
  case True
  with assms show ?thesis
    by (intro exI [of _ "[]"]) (simp add: step_def completed_def run_write_def write_frame_def on_con_def wire_def Let_def)
next
  case False
  from write_texts [OF assms(1-3) False assms(4)] obtain fs c where
    "map snd fs = map text_message ts" "write_frame (send_texts ts (ss_con s)) = (c, Some (wire (cn_server (ss_con s)) fs))"
    by (metis prod.collapse)
  then show ?thesis unfolding texts_queued
    by (intro exI [of _ fs]) (simp add: step_def completed_def run_write_def write_out_def on_con_def Let_def)
qed

lemma texts_readable:
  assumes "idle p" "map snd fs = map text_message ts" "h_server p = (\<not> server)"
    and "\<forall>t\<in>set ts. utf8_valid t \<and> length t \<le> m_max_message_size p \<and> length t < 2 ^ 64"
  shows "\<exists>p'. handle_read_frame p (wire server fs) = (map text_message ts, Read_more p')"
proof -
  have "snd ` set fs = text_message ` set ts" using arg_cong [OF assms(2), of set] by simp
  then have "\<forall>f\<in>set fs. \<exists>t\<in>set ts. snd f = text_message t" by blast
  then have "\<forall>(rng, m)\<in>set fs. readable server (m_max_message_size p) m"
    using assms(4) readable_text by fastforce
  from wire_received [OF assms(1) this assms(3)] assms(2) show ?thesis by auto
qed

subsection \<open>A gate connects\<close>

text \<open>A session that is open and waits for the next frame, with nothing to write.\<close>

definition talks :: "bool \<Rightarrow> session \<Rightarrow> bool" where
  "talks server s \<longleftrightarrow> cn_server (ss_con s) = server \<and> state_of s = S_open \<and> m_internal_state s = PROCESS_CONNECTION \<and>
     cn_reading (ss_con s) \<and> m_send_queue (ss_con s) = [] \<and> \<not> m_write_flag (ss_con s) \<and>
     cn_pending (ss_con s) = [A_timer Open_handshake, A_read_frame]"

definition gate_session :: "string \<Rightarrow> nat \<Rightarrow> string \<Rightarrow> (nat \<Rightarrow> 32 word) \<Rightarrow> session" where
  "gate_session host port gid rng =
     step (Written A_send_request None) (reach False rng (uri_parse (gate_url host port gid)) [''PMS''])"

lemma answer_written:
  assumes "good_host host" "good_id gid" "0 < port" "port < 65536"
    and "concat cs = text_of (concat (ss_written (gate_session host port gid rng)))" "length host + length gid + 3 * length cs \<le> 15000"
    and "s = step (Written A_write_response None) (fst (transfer A_read_handshake cs (reach True rng' u [])))"
  obtains req where "send_http_request user_agent (uri_parse (gate_url host port gid)) [''PMS''] rng = Inr req"
    "m_uri (m_request s) = ''/'' @ gid" "ss_calls s = [Call_open]"
    "ss_written s = [bytes_of (response_raw (switching (get_header ''Sec-WebSocket-Key'' req)))]"
    "talks True s" "cn_processor (ss_con s) = hybi13_new True max_message_size"
    "cn_pending (ss_con (fst (transfer A_read_handshake cs (reach True rng' u [])))) = [A_timer Open_handshake, A_write_response]"
    "ss_calls (fst (transfer A_read_handshake cs (reach True rng' u []))) = []"
proof -
  obtain req where req: "send_http_request user_agent (uri_parse (gate_url host port gid)) [''PMS''] rng = Inr req"
    using request_is_sent [OF assms(1-4)] by blast
  have "concat cs = request_raw req" using assms(5) client_reached [OF req] by (simp add: gate_session_def)
  from server_side [OF assms(1-4) refl req this assms(6)] obtain r cs' where r:
    "server_reads user_agent request_new cs = (Server_answers r (switching (get_header ''Sec-WebSocket-Key'' req)) None ''PMS'' [], cs')"
    "m_uri r = ''/'' @ gid" by blast
  let ?n = "(session_new True rng' u [])\<lparr>m_internal_state := READ_HTTP_REQUEST\<rparr>"
  let ?a = "(?n\<lparr>m_request := r, m_response := switching (get_header ''Sec-WebSocket-Key'' req), ss_ec := None, ss_rest := [],
      m_internal_state := PROCESS_HTTP_REQUEST, ss_written := [bytes_of (response_raw (switching (get_header ''Sec-WebSocket-Key'' req)))]\<rparr>)"
  have n: "reach True rng' u [] = with_pending ([A_timer Open_handshake] @ [A_read_handshake]) ?n"
    by (simp add: server_reached session_new_def)
  have before: "fst (transfer A_read_handshake cs (reach True rng' u [])) = with_pending [A_timer Open_handshake, A_write_response] ?a"
    unfolding n using server_delivered [of ?n cs r _ None "''PMS''" "[]" cs' "[A_timer Open_handshake]"] r(1)
    by (simp add: session_new_def connection_new_def)
  have "m_status_code (switching k) = 101" for k by (simp add: switching_def)
  with before have s: "s = session_open [] (with_pending [A_timer Open_handshake] ?a)"
    unfolding assms(7) by (simp add: step_def completed_def handle_written_def handle_write_http_response_def guarded_def session_new_def connection_new_def)
  let ?w = "with_pending [A_timer Open_handshake] ?a"
  have w: "ss_con ?w = (connection_new True rng')\<lparr>cn_pending := [A_timer Open_handshake]\<rparr>" "ss_calls ?w = []"
    by (simp_all add: session_new_def)
  have c: "cn_processor (ss_con ?w) = hybi13_new True max_message_size" "cn_server (ss_con ?w)" "m_send_queue (ss_con ?w) = []" "\<not> m_write_flag (ss_con ?w)"
    unfolding w by (simp_all add: connection_new_def)
  have "handle_read_frame (cn_processor (ss_con ?w)) (bytes_of ([] @ concat [])) = ([], Read_more (cn_processor (ss_con ?w)))"
    by (simp add: bytes_of_def)
  from opened_delivered(1) [OF _ this] c hybi_inv_new have o: "s = ?w\<lparr>ss_con := (ss_con ?w)\<lparr>cn_state := S_open, cn_reading := True,
      cn_delivered := cn_delivered (ss_con ?w) @ [], cn_processor := cn_processor (ss_con ?w), cn_pending := cn_pending (ss_con ?w) @ [A_read_frame]\<rparr>,
      m_internal_state := PROCESS_CONNECTION, ss_calls := ss_calls ?w @ Call_open # map Call_message []\<rparr>"
    unfolding s w by simp
  show ?thesis
    by (rule that [OF req]) (simp_all add: before, simp_all add: o w r(2) session_new_def connection_new_def talks_def)
qed

lemma answer_read:
  assumes "send_http_request user_agent (uri_parse (gate_url host port gid)) [''PMS''] rng = Inr req"
    and "concat ds = text_of (bytes_of (response_raw (switching (get_header ''Sec-WebSocket-Key'' req))) @ wire True fs)"
    and "3 * length ds \<le> 15000" "map snd fs = map text_message ts"
    and "\<forall>t\<in>set ts. utf8_valid t \<and> length t \<le> max_message_size"
    and "transfer A_read_response ds (gate_session host port gid rng) = (c, ds')"
  shows "ss_calls (fst (transfer A_read_frame ds' c)) = Call_open # map (Call_message \<circ> text_message) ts"
    "talks False (fst (transfer A_read_frame ds' c))" "snd (transfer A_read_frame ds' c) = []"
    "ts = [] \<Longrightarrow> cn_processor (ss_con (fst (transfer A_read_frame ds' c))) = hybi13_new False max_message_size"
proof -
  let ?g = "(session_new False rng (uri_parse (gate_url host port gid)) [''PMS''])\<lparr>ss_con := (connection_new False rng)\<lparr>cn_drawn := 4\<rparr>,
      m_internal_state := READ_HTTP_RESPONSE, m_request := req, ss_written := [bytes_of (request_raw req)]\<rparr>"
  let ?w = "with_pending [A_timer Open_handshake] ?g"
  let ?later = "text_of (wire True fs)"
  have g: "gate_session host port gid rng = with_pending ([A_timer Open_handshake] @ [A_read_response]) ?g"
    unfolding gate_session_def client_reached [OF assms(1)] by simp
  have "concat ds = response_raw (switching (get_header ''Sec-WebSocket-Key'' req)) @ ?later"
    using assms(2) by (simp add: text_append)
  from client_side [OF this assms(3)] obtain resp rest ds1 where cl:
    "client_reads req response_new ds = (Client_opened resp False rest, ds1)" "rest @ concat ds1 = ?later" by blast
  have "h_server (hybi13_new False n) = (\<not> True)" "m_max_message_size (hybi13_new False n) = n" for n
    by (simp_all add: hybi13_new_def reset_headers_def)
  note texts_readable [OF idle_new assms(4), of False max_message_size True] this
  moreover have "\<forall>t\<in>set ts. utf8_valid t \<and> length t \<le> max_message_size \<and> length t < 2 ^ 64"
    using assms(5) by (auto simp: max_message_size_def)
  ultimately obtain p where p: "handle_read_frame (hybi13_new False max_message_size) (wire True fs) = (map text_message ts, Read_more p)"
    by (metis (no_types, lifting))
  have w: "cn_processor (ss_con (?w\<lparr>m_response := r\<rparr>)) = hybi13_new False max_message_size"
    "cn_pending (ss_con (?w\<lparr>m_response := r\<rparr>)) = [A_timer Open_handshake]" for r
    by (simp_all add: connection_new_def)
  have data: "\<forall>m\<in>set (map text_message ts). \<not> is_control (wm_opcode m)" by (simp add: text_message_def)
  have "handle_read_frame (cn_processor (ss_con (?w\<lparr>m_response := r\<rparr>))) (bytes_of (rest @ concat ds1)) = (map text_message ts, Read_more p)" for r
    unfolding w cl(2) using p by (simp add: bytes_text)
  note o = opened_delivered [OF _ this data]
  have "transfer A_read_response ds (gate_session host port gid rng) = (session_open rest (?w\<lparr>m_response := resp\<rparr>), ds1)"
    unfolding g
    by (rule client_delivered) (use cl o(2) w hybi_inv_new in \<open>simp_all add: session_new_def connection_new_def\<close>)
  then have "c = session_open rest (?w\<lparr>m_response := resp\<rparr>)" "ds' = ds1" using assms(6) by simp_all
  note c = this
  from o(1) [of resp] w hybi_inv_new c show "ss_calls (fst (transfer A_read_frame ds' c)) = Call_open # map (Call_message \<circ> text_message) ts"
    "talks False (fst (transfer A_read_frame ds' c))" "snd (transfer A_read_frame ds' c) = []"
    by (simp_all add: session_new_def connection_new_def talks_def)
  assume "ts = []"
  with assms(4) p have "p = hybi13_new False max_message_size" by (simp add: wire_def)
  with o(1) [of resp] w hybi_inv_new c
  show "cn_processor (ss_con (fst (transfer A_read_frame ds' c))) = hybi13_new False max_message_size" by simp
qed

subsection \<open>An answer whose extensions cannot be parsed\<close>

definition unparsable :: "string \<Rightarrow> string \<Rightarrow> response" where
  "unparsable key e = replace_header ''Sec-WebSocket-Extensions'' e (switching key)"

lemma unparsable_headers:
  "m_headers (unparsable key e) =
     [(''Connection'', ''Upgrade''), (''Sec-WebSocket-Accept'', process_handshake_key key), (''Sec-WebSocket-Extensions'', e),
      (''Sec-WebSocket-Protocol'', ''PMS''), (''Server'', user_agent), (''Upgrade'', ''websocket'')]"
  by (simp add: unparsable_def replace_header_def switching_def response_headers_def lower_char_def)

lemma unparsable_finds:
  "get_header ''Upgrade'' (unparsable key e) = ''websocket''" "get_header ''Connection'' (unparsable key e) = ''Upgrade''"
  "get_header ''Sec-WebSocket-Accept'' (unparsable key e) = process_handshake_key key" "get_header ''Content-Length'' (unparsable key e) = []"
  "get_header ''Sec-WebSocket-Extensions'' (unparsable key e) = e"
  by (simp_all add: get_header_def unparsable_headers lower_char_def)

lemma unparsable_good:
  assumes "good_field e"
  shows "good_response (unparsable key e)"
proof -
  let ?h = "m_headers (unparsable key e)"
  have "sorted_wrt ci_less (map fst ?h)" by (simp add: unparsable_headers lower_char_def)
  then have "sorted_wrt (\<lambda>a b. ci_less (fst a) (fst b)) ?h" by (simp only: sorted_wrt_map)
  moreover have "good_name ''Sec-WebSocket-Extensions''" by code_simp
  then have "\<forall>(k, v)\<in>set ?h. good_name k \<and> good_field v"
    using assms names_and_values switching_key by (simp add: unparsable_headers)
  ultimately have "good_headers ?h" by (simp only: good_headers_def simp_thms)
  then show ?thesis using good_switching [of key] unparsable_finds(4)
    by (simp add: good_response_def) (simp add: unparsable_def replace_header_def)
qed

lemma unparsable_read:
  assumes "good_field e" "extract_parameters e [] = None" "length e \<le> 15000"
  shows "\<exists>r. handle_read_http_response req response_new
      (response_raw (unparsable (get_header ''Sec-WebSocket-Key'' req) e)) = Client_opened r True []"
proof -
  let ?u = "unparsable (get_header ''Sec-WebSocket-Key'' req) e"
  have "length (to_string 101) = 3" by (simp add: to_string_def nat_str.simps)
  moreover have "length (process_handshake_key (get_header ''Sec-WebSocket-Key'' req)) = 28" by (rule handshake_key_text(2))
  ultimately have "charge (head_lines (response_first ?u) ?u) = 221 + length e"
    unfolding charge_head unparsable_headers
    by (simp add: response_first_def unparsable_def replace_header_def switching_def user_agent_def)
  then have "charge (head_lines (response_first ?u) ?u) + 3 * length [response_raw ?u] \<le> max_header_size"
    using assms(3) by (simp add: max_header_size_def)
  from response_comes_through [OF unparsable_good [OF assms(1)] _ this, of "[]"] obtain r rest cs' where
    r: "feed response_consume headers_ready response_new [response_raw ?u] = Inr (r, rest # cs')" "rest @ concat cs' = []" "headers_ready r"
      "m_status_code r = 101" "m_headers r = m_headers ?u"
    by (auto simp: unparsable_def replace_header_def switching_def)
  then have c: "response_consume response_new (response_raw ?u) = Inr (r, [])"
    by (auto split: if_splits)
  have g: "get_header n r = get_header n ?u" for n by (simp add: get_header_def r(5))
  have "validate_server_handshake_response req r = None" "negotiate_extensions r \<noteq> None"
    using handshake_words(1,2) r(4) assms(1,2)
    by (simp_all add: validate_server_handshake_response_def negotiate_extensions_def get_header_as_plist_def g unparsable_finds good_field_def)
  with c r(3) show ?thesis by (simp add: handle_read_http_response_def)
qed

definition after_failure :: "string \<Rightarrow> event list" where
  "after_failure buf = [Read A_read_response (Inr buf), Shut_down T_failed, Read A_read_frame (Inl Eof), Shut_down T_closed]"

lemma all_less_four: "(\<forall>i<4. P i) \<longleftrightarrow> P 0 \<and> P (Suc 0) \<and> P 2 \<and> P (3::nat)"
  by (auto simp: numeral_eq_Suc All_less_Suc)

lemma shut_down_step:
  "cn_pending (ss_con (step (Shut_down t) s)) = remove1 (A_shutdown t) (cn_pending (ss_con s))"
  "state_of (step (Shut_down t) s) = state_of s"
  "ss_calls (step (Shut_down t) s) = ss_calls s @ [case t of T_failed \<Rightarrow> Call_fail | T_closed \<Rightarrow> Call_close]"
  by (simp_all add: step_def completed_def handle_terminate_def tell_def)

lemma eof_step:
  assumes "state_of s = S_open"
  shows "cn_pending (ss_con (step (Read A_read_frame (Inl Eof)) s)) = remove1 A_read_frame (cn_pending (ss_con s)) @ [A_shutdown T_closed]"
    "ss_calls (step (Read A_read_frame (Inl Eof)) s) = ss_calls s"
  using assms
  by (simp_all add: step_def completed_def handle_read_def session_read_frame_def terminate_session_def terminate_def on_con_def await_def Let_def)

lemma failed_open_step:
  assumes "handle_read_http_response (m_request g) (m_response g) buf = Client_opened r True []"
    and "state_of g = S_connecting" "m_internal_state g = READ_HTTP_RESPONSE" "ss_calls g = []"
    and "s = with_pending ([A_timer Open_handshake] @ [A_read_response]) g"
  shows "cn_pending (ss_con (step (Read A_read_response (Inr buf)) s)) = [A_timer Open_handshake, A_shutdown T_failed, A_read_frame]"
    "state_of (step (Read A_read_response (Inr buf)) s) = S_open" "ss_calls (step (Read A_read_response (Inr buf)) s) = [Call_open]"
  using assms
  by (simp_all add: step_def completed_def handle_read_def guarded_def read_http_response_def terminate_session_def
    session_open_def session_read_frame_def connection_open_def terminate_def on_con_def ask_def await_def tell_def on_read_def bytes_of_def Let_def)

lemma opened_after_failure:
  assumes "handle_read_http_response (m_request g) (m_response g) buf = Client_opened r True []"
    and "state_of g = S_connecting" "m_internal_state g = READ_HTTP_RESPONSE" "ss_calls g = []"
    and "s = with_pending ([A_timer Open_handshake] @ [A_read_response]) g"
  shows "\<forall>i<4. enabled (after_failure buf ! i) (fold step (take i (after_failure buf)) s)"
    "state_of (fold step (take 1 (after_failure buf)) s) = S_open"
    "ss_calls (fold step (after_failure buf) s) = [Call_open, Call_fail, Call_close]"
proof -
  note 1 = failed_open_step [OF assms]
  let ?s1 = "step (Read A_read_response (Inr buf)) s"
  let ?s2 = "step (Shut_down T_failed) ?s1"
  have 2: "state_of ?s2 = S_open" by (simp add: shut_down_step 1)
  have "enabled (Read A_read_response (Inr buf)) s" by (simp add: enabled_def assms(5))
  then show "\<forall>i<4. enabled (after_failure buf ! i) (fold step (take i (after_failure buf)) s)"
    unfolding after_failure_def by (simp add: all_less_four enabled_def shut_down_step eof_step [OF 2] 1)
  show "state_of (fold step (take 1 (after_failure buf)) s) = S_open" by (simp add: after_failure_def 1)
  show "ss_calls (fold step (after_failure buf) s) = [Call_open, Call_fail, Call_close]"
    by (simp add: after_failure_def shut_down_step eof_step [OF 2] 1)
qed

lemma gate_session_form:
  assumes "send_http_request user_agent (uri_parse (gate_url host port gid)) [''PMS''] rng = Inr req"
  obtains g where "gate_session host port gid rng = with_pending ([A_timer Open_handshake] @ [A_read_response]) g"
    "m_request g = req" "m_response g = response_new" "state_of g = S_connecting" "m_internal_state g = READ_HTTP_RESPONSE" "ss_calls g = []"
  by (rule that [of "(gate_session host port gid rng)\<lparr>ss_con := (ss_con (gate_session host port gid rng))\<rparr>"])
     (simp_all add: gate_session_def client_reached [OF assms] session_new_def connection_new_def)

end
