(* ===== verification/SessionTalk.thy ===== *)
theory SessionTalk
  imports SessionRound
begin

text \<open>Two open sessions: a text one of them sends is what the other one hears.\<close>

text \<open>A text is sent, written by the strand, and the write completes.\<close>

definition say :: "string \<Rightarrow> session \<Rightarrow> session" where
  "say t s = step (Written A_write_frame None) (step Dispatched (step (App_send (text_message t)) s))"

lemma write_one:
  assumes "cn_state c = S_open" "m_send_queue c = []" "\<not> m_write_flag c" "utf8_valid t"
  obtains k g where "fst (send_message (text_message t) c) = write_push g (draw c)" "snd (send_message (text_message t) c) = None"
    "\<not> og_terminal g"
    "write_frame (write_push g (draw c)) = ((draw c)\<lparr>m_send_queue := [], m_current_msgs := [g], m_write_flag := True\<rparr>,
       Some (wire (cn_server c) [(k, text_message t)]))"
proof -
  obtain h p where hp: "make_frame (cn_server c) (drawn_key c) TEXT True (bytes_of t) = (h, p)" by force
  let ?g = "\<lparr>og_opcode = TEXT, og_header = h, og_payload = p, og_terminal = False\<rparr>"
  have "og_bytes ?g = frame_bytes (cn_server c) (drawn_key c) (text_message t)"
    using hp by (simp add: og_bytes_def frame_bytes_def text_message_def)
  with assms hp show ?thesis
    by (intro that [of ?g "drawn_key c"]) (simp_all add: send_text write_frame_def write_push_def wire_def)
qed

lemma said:
  assumes "talks server s" "utf8_valid t"
  shows "talks server (say t s)" "\<exists>k. ss_written (say t s) = ss_written s @ [wire server [(k, text_message t)]]"
    "ss_calls (say t s) = ss_calls s" "m_request (say t s) = m_request s"
    "cn_processor (ss_con (say t s)) = cn_processor (ss_con s)" "snd (send_message (text_message t) (ss_con s)) = None"
    "ss_calls (step (App_send (text_message t)) s) = ss_calls s" "ss_calls (step Dispatched (step (App_send (text_message t)) s)) = ss_calls s"
    "A_write_frame \<in> set (cn_pending (ss_con (step Dispatched (step (App_send (text_message t)) s))))"
proof -
  have c: "cn_state (ss_con s) = S_open" "m_send_queue (ss_con s) = []" "\<not> m_write_flag (ss_con s)" "cn_server (ss_con s) = server"
    using assms(1) by (simp_all add: talks_def)
  obtain k g where w: "fst (send_message (text_message t) (ss_con s)) = write_push g (draw (ss_con s))"
    "snd (send_message (text_message t) (ss_con s)) = None" "\<not> og_terminal g"
    "write_frame (write_push g (draw (ss_con s))) =
       ((draw (ss_con s))\<lparr>m_send_queue := [], m_current_msgs := [g], m_write_flag := True\<rparr>, Some (wire server [(k, text_message t)]))"
    using write_one [OF c(1-3) assms(2)] c(4) by metis
  have 1: "step (App_send (text_message t)) s = s\<lparr>ss_con := write_push g (draw (ss_con s))\<rparr>"
    by (simp add: step_def completed_def on_con_def w(1) Let_def)
  let ?d = "(draw (ss_con s))\<lparr>m_send_queue := [], m_current_msgs := [g], m_write_flag := True, cn_pending := cn_pending (ss_con s) @ [A_write_frame]\<rparr>"
  have 2: "step Dispatched (step (App_send (text_message t)) s) =
      s\<lparr>ss_con := ?d, ss_written := ss_written s @ [wire server [(k, text_message t)]]\<rparr>"
    unfolding 1 by (simp add: step_def completed_def run_write_def w(4) write_out_def on_con_def Let_def)
  have 3: "say t s = s\<lparr>ss_con := (draw (ss_con s))\<lparr>m_send_queue := [], m_current_msgs := [], m_write_flag := False\<rparr>,
      ss_written := ss_written s @ [wire server [(k, text_message t)]]\<rparr>"
    unfolding say_def 2 using assms(1) w(3)
    by (simp add: step_def completed_def handle_written_def handle_write_frame_def on_con_def Let_def talks_def)
  show "talks server (say t s)" "\<exists>k. ss_written (say t s) = ss_written s @ [wire server [(k, text_message t)]]"
    "ss_calls (say t s) = ss_calls s" "m_request (say t s) = m_request s"
    "cn_processor (ss_con (say t s)) = cn_processor (ss_con s)" "snd (send_message (text_message t) (ss_con s)) = None"
    unfolding 3 using assms(1) w(2) by (auto simp: talks_def)
  show "ss_calls (step (App_send (text_message t)) s) = ss_calls s" "ss_calls (step Dispatched (step (App_send (text_message t)) s)) = ss_calls s"
    "A_write_frame \<in> set (cn_pending (ss_con (step Dispatched (step (App_send (text_message t)) s))))"
    unfolding 2 by (simp_all add: 1)
qed

lemma heard:
  assumes "talks server s" "cn_processor (ss_con s) = hybi13_new server max_message_size" "utf8_valid t" "length t \<le> max_message_size"
    and "concat cs = text_of (wire (\<not> server) [(k, text_message t)])"
  shows "talks server (fst (transfer A_read_frame cs s))" "ss_calls (fst (transfer A_read_frame cs s)) = ss_calls s @ [Call_message (text_message t)]"
    "m_request (fst (transfer A_read_frame cs s)) = m_request s" "ss_written (fst (transfer A_read_frame cs s)) = ss_written s"
proof -
  have "h_server (hybi13_new server n) = server" "m_max_message_size (hybi13_new server n) = n" for n
    by (simp_all add: hybi13_new_def reset_headers_def)
  then obtain p where p: "handle_read_frame (cn_processor (ss_con s)) (bytes_of (concat cs)) = ([text_message t], Read_more p)"
    using texts_readable [OF idle_new, of "[(k, text_message t)]" "[t]" server max_message_size "\<not> server"] assms
    by (auto simp: bytes_text max_message_size_def)
  have "bytes_of (concat cs) = concat (map bytes_of cs)" by (induction cs) (simp_all add: bytes_of_def)
  then have r: "reads (cn_processor (ss_con s)) (map bytes_of cs) = ([text_message t], Read_more p)"
    using reads_concat [of "cn_processor (ss_con s)" "map bytes_of cs"] p hybi_inv_new assms(2) by simp
  have s: "with_pending ([A_timer Open_handshake] @ [A_read_frame]) s = s" using assms(1) by (simp add: talks_def)
  have "transfer A_read_frame cs (with_pending ([A_timer Open_handshake] @ [A_read_frame]) s) =
    (s\<lparr>ss_con := (ss_con s)\<lparr>cn_delivered := cn_delivered (ss_con s) @ [text_message t], cn_processor := p,
         cn_pending := [A_timer Open_handshake] @ [A_read_frame]\<rparr>,
      ss_calls := ss_calls s @ map Call_message [text_message t]\<rparr>, [])"
    by (rule frames_delivered [OF r]) (use assms(1) in \<open>simp_all add: talks_def, simp add: text_message_def\<close>)
  from this [unfolded s] show "talks server (fst (transfer A_read_frame cs s))" "ss_calls (fst (transfer A_read_frame cs s)) = ss_calls s @ [Call_message (text_message t)]"
    "m_request (fst (transfer A_read_frame cs s)) = m_request s" "ss_written (fst (transfer A_read_frame cs s)) = ss_written s"
    using assms(1) by (simp_all add: talks_def)
qed

text \<open>One text each way, over pieces of any size.\<close>

lemma exchanged:
  assumes c: "talks False c" "cn_processor (ss_con c) = hybi13_new False max_message_size"
    and s: "talks True s" "cn_processor (ss_con s) = hybi13_new True max_message_size"
    and texts: "utf8_valid p" "length p \<le> max_message_size" "utf8_valid t" "length t \<le> max_message_size"
    and cut: "concat es = text_of (last (ss_written (say p c)))"
      "concat fs = text_of (last (ss_written (say t (fst (transfer A_read_frame es s)))))"
  shows "ss_calls (fst (transfer A_read_frame fs (say p c))) = ss_calls c @ [Call_message (text_message t)]"
    "ss_calls (fst (transfer A_read_frame es s)) = ss_calls s @ [Call_message (text_message p)]"
    "talks True (fst (transfer A_read_frame es s))" "m_request (fst (transfer A_read_frame es s)) = m_request s"
proof -
  note sc = said [OF c(1) texts(1)]
  obtain k where "ss_written (say p c) = ss_written c @ [wire False [(k, text_message p)]]" using sc(2) by blast
  then have "concat es = text_of (wire (\<not> True) [(k, text_message p)])" using cut(1) by simp
  note hs = heard [OF s texts(1,2) this]
  then show "ss_calls (fst (transfer A_read_frame es s)) = ss_calls s @ [Call_message (text_message p)]"
    "talks True (fst (transfer A_read_frame es s))" "m_request (fst (transfer A_read_frame es s)) = m_request s" by simp_all
  obtain k' where "ss_written (say t (fst (transfer A_read_frame es s))) =
      ss_written (fst (transfer A_read_frame es s)) @ [wire True [(k', text_message t)]]" using said(2) [OF hs(1) texts(3)] by blast
  then have "concat fs = text_of (wire (\<not> False) [(k', text_message t)])" using cut(2) by simp
  from heard(2) [OF sc(1) _ texts(3,4) this] sc(3,5) c(2)
  show "ss_calls (fst (transfer A_read_frame fs (say p c))) = ss_calls c @ [Call_message (text_message t)]" by simp
qed

end
