(* ===== verification/HostRun.thy ===== *)
theory HostRun
  imports HostInv SessionTalk
begin

text \<open>
  From a gate to the parking lot and back, over the whole stack: the two sessions, the endpoint, the queues
  and the handler thread.
\<close>

subsection \<open>Events of a session as steps of the process\<close>

lemma host_run_trans: "host_run H1 H2 \<Longrightarrow> host_run H0 H1 \<Longrightarrow> host_run H0 H2"
  by (induction rule: host_run.induct) (auto intro: host_run.intros)

lemma host_run_one: "host_step H H' \<Longrightarrow> host_run H H'"
  by (rule host_more [OF host_refl])

abbreviation with_session :: "nat \<Rightarrow> session \<Rightarrow> server \<Rightarrow> host \<Rightarrow> host" where
  "with_session h s \<sigma> H \<equiv> \<lparr>host_server = \<sigma>, host_sessions = (host_sessions H)(h \<mapsto> s)\<rparr>"

lemma same_session: "host_sessions H h = Some s \<Longrightarrow> with_session h s (host_server H) H = H"
  by (cases H) (simp add: fun_upd_idem)

lemma tell_append:
  "tell_server sem h u (ks @ ls) \<sigma> = bindR (tell_server sem h u ks \<sigma>) (tell_server sem h u ls)"
proof (induction ks arbitrary: \<sigma>)
  case (Cons k ks)
  have "tell_server sem h u (ks @ ls) = (\<lambda>\<sigma>. bindR (tell_server sem h u ks \<sigma>) (tell_server sem h u ls))"
    using Cons.IH by (rule ext)
  then show ?case by (simp add: bindR_assoc)
qed simp

text \<open>Events that tell the application nothing.\<close>

lemma silent_event:
  assumes "host_sessions H h = Some s" "of_library e" "enabled e s" "ss_calls (step e s) = ss_calls s"
  shows "host_step H (with_session h (step e s) (host_server H) H)"
  using session_event [OF assms(1-3) refl] assms(4) by (simp add: new_calls_def)

text \<open>Pieces that arrive: the handshake tells nothing, and an open session what it hears.\<close>

lemma transfer_good:
  assumes "good_session s" "a \<in> {A_read_handshake, A_read_frame}"
  shows "good_session (fst (transfer a cs s)) \<and> later s (fst (transfer a cs s)) \<and> (\<exists>ks. ss_calls (fst (transfer a cs s)) = ss_calls s @ ks)"
  using assms(1)
proof (induction cs arbitrary: s)
  case (Cons c cs)
  show ?case
  proof (cases "a \<in> set (cn_pending (ss_con s))")
    case True
    let ?s = "step (Read a (Inr c)) s"
    have "enabled (Read a (Inr c)) s" using True assms(2) by (auto simp: enabled_def)
    note g = good_step [OF Cons.prems this]
    from Cons.IH [OF g(1)] obtain ks where k: "good_session (fst (transfer a cs ?s))" "later ?s (fst (transfer a cs ?s))"
      "ss_calls (fst (transfer a cs ?s)) = ss_calls ?s @ ks" by blast
    have "later s (fst (transfer a cs ?s))" using g(2) k(2) by (auto simp: later_def)
    moreover have "ss_calls (fst (transfer a cs ?s)) = ss_calls s @ new_calls s ?s @ ks" using k(3) g(3) by simp
    ultimately show ?thesis using k(1) True by auto
  qed (use Cons.prems in simp)
qed simp

lemma transfer_run:
  assumes "good_session s" "host_sessions H h = Some s" "a \<in> {A_read_handshake, A_read_frame}"
    and "new_calls s (fst (transfer a cs s)) = [] \<or> Call_open \<in> set (ss_calls s)"
    and "tell_server sem h (m_uri (m_request (fst (transfer a cs s)))) (new_calls s (fst (transfer a cs s))) (host_server H) = Inr \<sigma>"
  shows "host_run H (with_session h (fst (transfer a cs s)) \<sigma> H)"
  using assms(1,2,4,5)
proof (induction cs arbitrary: s H)
  case Nil
  then have "with_session h s \<sigma> H = H" using same_session [of H h s] by (simp add: new_calls_def)
  then show ?case by (simp only: transfer.simps fst_conv host_refl)
next
  case (Cons c cs)
  show ?case
  proof (cases "a \<in> set (cn_pending (ss_con s))")
    case False
    then have "with_session h (fst (transfer a (c # cs) s)) \<sigma> H = H"
      using same_session [of H h s] Cons.prems by (simp add: new_calls_def)
    then show ?thesis by (simp only: host_refl)
  next
    case True
    let ?e = "Read a (Inr c)" and ?s = "step (Read a (Inr c)) s" and ?t = "fst (transfer a cs (step (Read a (Inr c)) s))"
    have e: "enabled ?e s" using True assms(3) by (auto simp: enabled_def)
    note g = good_step [OF Cons.prems(1) e]
    obtain ks where k: "later ?s ?t" "ss_calls ?t = ss_calls ?s @ ks" using transfer_good [OF g(1) assms(3)] by blast
    have n: "new_calls s ?t = new_calls s ?s @ new_calls ?s ?t"
      using g(3) k(2) by (metis append.assoc append_eq_conv_conj new_calls_def)
    have u: "m_uri (m_request ?t) = m_uri (m_request ?s) \<or> new_calls s ?s = []"
      using Cons.prems(3) True n g(2) k(1) by (auto simp: later_def)
    have "tell_server sem h (m_uri (m_request ?t)) (new_calls s ?s @ new_calls ?s ?t) (host_server H) = Inr \<sigma>"
      using Cons.prems(4) True n by simp
    then obtain \<sigma>1 where s1: "tell_server sem h (m_uri (m_request ?t)) (new_calls s ?s) (host_server H) = Inr \<sigma>1"
      "tell_server sem h (m_uri (m_request ?t)) (new_calls ?s ?t) \<sigma>1 = Inr \<sigma>"
      unfolding tell_append by auto
    with u have "tell_server sem h (m_uri (m_request ?s)) (new_calls s ?s) (host_server H) = Inr \<sigma>1" by auto
    from session_event [OF Cons.prems(2) _ e refl this] have step: "host_step H (with_session h ?s \<sigma>1 H)" by simp
    let ?H = "with_session h ?s \<sigma>1 H"
    have "host_run ?H (with_session h ?t \<sigma> ?H)"
    proof (rule Cons.IH [OF g(1)])
      show "new_calls ?s ?t = [] \<or> Call_open \<in> set (ss_calls ?s)" using Cons.prems(3) True n g(2) by (auto simp: later_def)
    qed (use s1(2) in simp_all)
    from host_run_trans [OF this host_run_one [OF step]] have "host_run H (with_session h ?t \<sigma> H)"
      by (simp only: host.simps fun_upd_upd)
    moreover have "fst (transfer a (c # cs) s) = ?t" using True by simp
    ultimately show ?thesis by (simp only:)
  qed
qed

subsection \<open>A gate connects\<close>

lemma gate_connects:
  fixes rng :: "nat \<Rightarrow> 32 word" and cs :: "string list"
  defines "s0 \<equiv> fst (transfer A_read_handshake cs (reach True rng (uri_parse []) []))"
  defines "s \<equiv> step (Written A_write_response None) s0"
  assumes "host_sessions H h = None" "ss_calls s0 = []" "A_write_response \<in> set (cn_pending (ss_con s0))" "ss_calls s = [Call_open]"
    and "on_open sem (m_uri (m_request s)) h (endpoint (host_server H)) (shared (host_server H)) = (ws, Inr shm)"
  shows "host_run H (with_session h s ((host_server H)\<lparr>endpoint := ws, shared := shm\<rparr>) H)" "good_session s"
proof -
  let ?n = "create_connection True rng" and ?r = "reach True rng (uri_parse []) []"
  let ?\<sigma> = "host_server H"
  have r: "?r = step (Initialized None) (step Started ?n)" by (simp add: reach_def create_connection_def)
  have e0: "enabled Started ?n" by (simp add: enabled_def create_connection_def session_new_def)
  have c1: "cn_pending (ss_con (step Started ?n)) = [A_init]" "ss_calls (step Started ?n) = []"
    by (simp_all add: create_connection_def session_new_def connection_new_def step_def start_def completed_def)
  then have e1: "enabled (Initialized None) (step Started ?n)" by (simp add: enabled_def)
  have c2: "ss_calls ?r = []" by (simp add: server_reached session_new_def)
  have "H\<lparr>host_sessions := S\<rparr> = \<lparr>host_server = ?\<sigma>, host_sessions = S\<rparr>" for S by simp
  then have "host_step H (with_session h (step Started ?n) ?\<sigma> H)"
    using host_step.accepted [OF assms(3), of None rng] by (simp only: handle_accept_def option.case)
  note run1 = host_run_one [OF this]
  have g1: "good_session (step Started ?n)" using good_step(1) [OF good_new(1) e0] .
  have "host_step (with_session h (step Started ?n) ?\<sigma> H) (with_session h ?r ?\<sigma> H)"
    using silent_event [of "with_session h (step Started ?n) ?\<sigma> H" h "step Started ?n" "Initialized None"] e1 c1 c2 r by simp
  note run2 = host_more [OF run1 this]
  have g2: "good_session ?r" unfolding r using good_step(1) [OF g1 e1] .
  have "host_run (with_session h ?r ?\<sigma> H) (with_session h s0 ?\<sigma> H)"
    using transfer_run [OF g2, of "with_session h ?r ?\<sigma> H" h A_read_handshake cs sem ?\<sigma>] assms(4) c2
    unfolding s0_def by (simp add: new_calls_def)
  note run3 = host_run_trans [OF this run2]
  have g3: "good_session s0" unfolding s0_def using transfer_good [OF g2] by blast
  have e3: "enabled (Written A_write_response None) s0" using assms(5) by (simp add: enabled_def)
  then show "good_session s" unfolding s_def using good_step(1) [OF g3] by blast
  have "tell_server sem h (m_uri (m_request s)) (new_calls s0 s) (host_server (with_session h s0 ?\<sigma> H)) =
      Inr (?\<sigma>\<lparr>endpoint := ws, shared := shm\<rparr>)"
    using assms(4,6,7) by (simp add: new_calls_def)
  from session_event [of "with_session h s0 ?\<sigma> H" h s0 "Written A_write_response None" s, OF _ _ e3 _ this]
  have "host_step (with_session h s0 ?\<sigma> H) (with_session h s (?\<sigma>\<lparr>endpoint := ws, shared := shm\<rparr>) H)" by (simp add: s_def)
  from host_more [OF run3 this] show "host_run H (with_session h s (?\<sigma>\<lparr>endpoint := ws, shared := shm\<rparr>) H)" .
qed

text \<open>The connection \<open>Connect\<close> makes is the one of a gate.\<close>

lemma client_connected:
  assumes "good_host host" "good_id gid" "0 < port" "port < 65536"
    and "c_url wc = ''ws://'' @ host @ '':'' @ to_string (int port)" "c_id wc = gid"
  shows "client_connection wc rng = Some (session_new False rng (uri_parse (gate_url host port gid)) [''PMS''])"
proof -
  have "c_url wc @ CHR ''/'' # c_id wc = gate_url host port gid" by (simp add: gate_url_def assms(5,6))
  moreover have "add_subprotocol ''PMS'' [] = Some [''PMS'']" by code_simp
  ultimately show ?thesis using gate_url_parsed [OF assms(1-4)]
    by (simp add: client_connection_def get_connection_def create_connection_def session_new_def Let_def)
qed

subsection \<open>A call is answered\<close>

lemma call_answered:
  assumes s1_def: "s1 = fst (transfer A_read_frame es s)" and p_def: "p = AddBase r b mt_CALL A []"
    and H: "host_sessions H h = Some s" "good_session s" "talks True s" "Call_open \<in> set (ss_calls s)"
    and uri: "CHR 0x23 \<notin> set (m_uri (m_request s))" "CHR 0x23 \<notin> set p"
    and heard: "ss_calls s1 = ss_calls s @ [Call_message (text_message p)]" "talks True s1" "m_request s1 = m_request s"
    and idle: "ocppCALLMessageQueue (mailbox (host_server H)) = []" "handler_on (host_server H)"
    and reg: "m_connections (endpoint (host_server H)) (m_uri (m_request s)) = Some h"
    and call: "handle_call env (park (host_server H)) \<lparr>ws_uri = m_uri (m_request s), ws_type = ''Server'', ws_payload = p\<rparr> = (park', Inr (Some t))"
    and t: "utf8_valid t"
  shows "\<exists>\<sigma>. host_run H (with_session h (say t s1) \<sigma> H) \<and> park \<sigma> = park' \<and> delivered \<sigma> = delivered (host_server H) @ [(h, t)] \<and>
    m_connections (endpoint \<sigma>) = m_connections (endpoint (host_server H)) \<and> ocppCALLMessageQueue (mailbox \<sigma>) = [] \<and> handler_on \<sigma>"
proof -
  let ?\<sigma> = "host_server H" and ?u = "m_uri (m_request s)" and ?q = "text_message p"
  let ?m = "\<lparr>ws_uri = m_uri (m_request s), ws_type = ''Server'', ws_payload = p\<rparr>"
  have g1: "good_session s1" unfolding s1_def using transfer_good [OF H(2)] by blast
  have "text_of (wm_payload ?q) = p" by (simp add: text_message_def)
  then have "tell_server True h ?u [Call_message ?q] ?\<sigma> =
      Inr (?\<sigma>\<lparr>endpoint := (endpoint ?\<sigma>)\<lparr>m_websocketMessage := p\<rparr>, mailbox := push_call ?m (mailbox ?\<sigma>)\<rparr>)"
    using request_queued [OF uri(1) uri(2) [unfolded p_def], of "endpoint ?\<sigma>" "mailbox ?\<sigma>"] by (simp add: p_def)
  moreover have "new_calls s s1 = [Call_message ?q]" using heard(1) by (simp add: new_calls_def)
  ultimately have told: "tell_server True h (m_uri (m_request s1)) (new_calls s s1) ?\<sigma> =
      Inr (?\<sigma>\<lparr>endpoint := (endpoint ?\<sigma>)\<lparr>m_websocketMessage := p\<rparr>, mailbox := push_call ?m (mailbox ?\<sigma>)\<rparr>)"
    by (simp add: heard(3))
  let ?\<sigma>1 = "?\<sigma>\<lparr>endpoint := (endpoint ?\<sigma>)\<lparr>m_websocketMessage := p\<rparr>, mailbox := push_call ?m (mailbox ?\<sigma>)\<rparr>"
  let ?H1 = "with_session h s1 ?\<sigma>1 H"
  have run1: "host_run H ?H1"
    using transfer_run [OF H(2,1), of A_read_frame es True ?\<sigma>1] H(4) told unfolding s1_def by simp
  have turn: "GateHanlder_turn env (park ?\<sigma>1) (mailbox ?\<sigma>1) = (park', mailbox ?\<sigma>, Inr (Some (?u, t)))"
    using turn_on_call [OF idle(1), of env "park ?\<sigma>" ?m park' t] call by simp
  have "send_loop SEND_RETRY (\<lambda>i. (OPEN, True)) 0" by (simp add: send_loop.simps attempt_ok_def)
  then have ds: "deliver (\<lambda>i. (OPEN, True)) (Some (?u, t)) (endpoint ?\<sigma>1) = [(h, t)]"
    using reg by (simp add: deliver_def SendMessage_def)
  note sd = said [OF heard(2) t]
  let ?a = "step (App_send (text_message t)) s1" and ?\<sigma>2 = "?\<sigma>1\<lparr>park := park', mailbox := mailbox ?\<sigma>, delivered := delivered ?\<sigma> @ [(h, t)]\<rparr>"
  have "host_step ?H1 (with_session h ?a ?\<sigma>2 H)"
    using handler_turned [of ?H1 env park' "mailbox ?\<sigma>" "Some (?u, t)" "[(h, t)]" "\<lambda>i. (OPEN, True)"] idle(2) turn ds sd(6)
    by (simp add: hand_over_def endpoint_send_def)
  note run2 = host_more [OF run1 this]
  let ?b = "step Dispatched ?a"
  have "host_step (with_session h ?a ?\<sigma>2 H) (with_session h ?b ?\<sigma>2 H)"
    using silent_event [of "with_session h ?a ?\<sigma>2 H" h ?a Dispatched] sd(7,8) by (simp add: enabled_def)
  note run3 = host_more [OF run2 this]
  have "enabled (Written A_write_frame None) ?b" using sd(9) by (simp add: enabled_def)
  then have "host_step (with_session h ?b ?\<sigma>2 H) (with_session h (say t s1) ?\<sigma>2 H)"
    using silent_event [of "with_session h ?b ?\<sigma>2 H" h ?b "Written A_write_frame None"] sd(3,8) by (simp add: say_def)
  from host_more [OF run3 this] idle show ?thesis by (intro exI [of _ ?\<sigma>2]) simp
qed

end
