(* ===== verification/HostExamples.thy ===== *)
theory HostExamples
  imports HostRun Examples
begin

text \<open>The process with the shipped configuration, and the entrance gate that connects and registers.\<close>

definition demo_client :: WebSocketClient where
  "demo_client = \<lparr>c_url = ''ws://127.0.0.1:1884'', c_id = ''Gate1'', c_status = INIT, c_IsLC = True, c_message = []\<rparr>"

lemma demo_host:
  "\<exists>H. host_start (Some demo_ini) = Inr H \<and> park (host_server H) = demo_server \<and> mailbox (host_server H) = MessageManager_new \<and>
     handler_on (host_server H) \<and> delivered (host_server H) = [] \<and> host_sessions H = Map.empty \<and>
     m_connections (endpoint (host_server H)) = Map.empty \<and> shm_inv (shared (host_server H))"
proof -
  have ok: "ok_value (status_value [] INIT)" "c_str (status_value [] INIT) = status_value [] INIT"
    using status_value_ok [of "[]" INIT] by (simp_all add: ok_uri_def MAXLEN_VALUE_def)
  obtain shm b where p: "publish True (status_value [] INIT) C_BoostShmObj_new = Inr shm"
    "shm_set C_BoostShmObj_new status_key (status_value [] INIT) = (shm, b)"
    using publish_get [OF demo_shm, of "[]" INIT] by (auto simp: ok_uri_def MAXLEN_VALUE_def)
  have "shm_inv shm" using shm.set_inv [OF demo_shm status_key_ok ok(1) p(2)] .
  with p(1) show ?thesis by (simp add: host_start_def server_start_def demo_server_new WebSocketServer_new_def)
qed

lemma demo_opens:
  assumes "shm_inv shm"
  shows "\<exists>ws shm'. on_open True ''/Gate1'' 0 w shm = (ws, Inr shm')"
  using publish_get [OF assms, of "''/Gate1''" OPEN] by (auto simp: on_open_def ok_uri_def MAXLEN_VALUE_def nul_def)

lemma demo_call:
  "\<exists>p b. p = AddBase 7 b mt_CALL ActionGateRegistration [] \<and> j_dump (to_json_GateRegistration demo_registration) = Inr b \<and>
     CHR 0x23 \<notin> set p \<and> utf8_valid p \<and> length p \<le> max_message_size"
proof -
  have "case j_dump (to_json_GateRegistration demo_registration) of
      Inr b \<Rightarrow> CHR 0x23 \<notin> set (AddBase 7 b mt_CALL ActionGateRegistration []) \<and> utf8_valid (AddBase 7 b mt_CALL ActionGateRegistration []) \<and>
        length (AddBase 7 b mt_CALL ActionGateRegistration []) \<le> 400
    | Inl e \<Rightarrow> False" by code_simp
  then show ?thesis by (auto simp: max_message_size_def split: sum.splits)
qed

lemma demo_registration_answer:
  assumes "j_dump (to_json_GateRegistration demo_registration) = Inr b"
  shows "\<exists>t. handle_call demo_env demo_server \<lparr>ws_uri = uri, ws_type = ''Server'', ws_payload = AddBase 7 b mt_CALL ActionGateRegistration []\<rparr> =
      (demo_open, Inr (Some t)) \<and> utf8_valid t \<and> length t \<le> max_message_size \<and> CHR 0x23 \<notin> set t \<and> t \<noteq> [] \<and>
    payload_kind t = CALLRESULT_str"
proof -
  have "gate_type_of (gr_gateType demo_registration) = 0" by code_simp
  then have reg: "register_gate (gr_gateName demo_registration) (gate_type_of (gr_gateType demo_registration)) demo_server = (demo_open, RS_Accept)"
    using demo_register_answers by (simp add: demo_registration_def)
  have "case Respond (call_id 7) (to_json_GateRegistrationResponse \<lparr>grr_result = RS_Accept\<rparr>) of
      Inr t \<Rightarrow> utf8_valid t \<and> length t \<le> 400 \<and> CHR 0x23 \<notin> set t \<and> t \<noteq> [] \<and> payload_kind t = CALLRESULT_str
    | Inl e \<Rightarrow> False" by code_simp
  then obtain t where t: "Respond (call_id 7) (to_json_GateRegistrationResponse \<lparr>grr_result = RS_Accept\<rparr>) = Inr t" "utf8_valid t" "length t \<le> 400"
    "CHR 0x23 \<notin> set t" "t \<noteq> []" "payload_kind t = CALLRESULT_str"
    by (auto split: sum.splits)
  have "OnGateRegistration demo_server (AddBase 7 b mt_CALL ActionGateRegistration []) = (demo_open, Inr t)"
    by (simp add: OnGateRegistration_call [OF assms] reg t(1))
  moreover have "contains (quoted ActionGateRegistration) (quoted ActionGateRegistration)" by code_simp
  ultimately have "handle_call demo_env demo_server \<lparr>ws_uri = uri, ws_type = ''Server'', ws_payload = AddBase 7 b mt_CALL ActionGateRegistration []\<rparr> =
      (demo_open, Inr (Some t))"
    unfolding handle_call_def Let_def by (simp add: call_action del: One_nat_def)
  with t(2-) show ?thesis by (auto simp: max_message_size_def)
qed

lemma demo_gate_names: "good_host ''127.0.0.1''" "good_id ''Gate1''" "CHR 0x23 \<notin> set ''Gate1''"
  by code_simp+

lemma demo_client_opens: "\<exists>wc shm. client_on_open True demo_client C_BoostShmObj_new = (wc, Inr shm)"
proof -
  have r: "represents C_BoostShmObj_new []" using represents_new by (simp add: C_BoostShmObj_new_def)
  have c: "c_str (to_string OPEN) = to_string OPEN" by code_simp
  have "ok_name LC_key" "ok_value (to_string OPEN)"
    by (simp_all add: ok_name_def ok_value_def fits_def LC_key_def MAXLEN_NAME_def MAXLEN_VALUE_def nul_def) (code_simp+)
  from SetValue_represents [OF r this] obtain shm y where "SetValue True C_BoostShmObj_new LC_key (to_string OPEN) = Inr (y, shm)" by blast
  with c show ?thesis by (simp add: client_on_open_def publish_client_def demo_client_def)
qed

lemma demo_client_connection:
  "\<exists>con. client_connection demo_client (\<lambda>i. 7) = Some con \<and> c_id demo_client = ''Gate1'' \<and> c_IsLC demo_client \<and>
     c_url demo_client = ''ws://'' @ ''127.0.0.1'' @ '':'' @ to_string (int 1884)"
proof -
  have "c_url demo_client = ''ws://'' @ ''127.0.0.1'' @ '':'' @ to_string (int 1884)" "c_id demo_client = ''Gate1''" "c_IsLC demo_client"
    by code_simp+
  with client_connected [OF demo_gate_names(1,2), of 1884 demo_client] show ?thesis by simp
qed

text \<open>The gate of the example connects.\<close>

lemma demo_connected:
  "\<exists>H0 H s. host_start (Some demo_ini) = Inr H0 \<and> host_run H0 H \<and> host_sessions H 0 = Some s \<and> m_uri (m_request s) = ''/Gate1'' \<and>
     m_connections (endpoint (host_server H)) ''/Gate1'' = Some 0"
proof -
  let ?g = "gate_session ''127.0.0.1'' 1884 ''Gate1'' (\<lambda>i. 7)"
  obtain cs where cs: "cs = [text_of (concat (ss_written ?g))]" by simp
  let ?pre = "fst (transfer A_read_handshake cs (reach True (\<lambda>i. 0) (uri_parse []) []))"
  let ?s = "step (Written A_write_response None) ?pre"
  have s: "m_uri (m_request ?s) = ''/'' @ ''Gate1''" "ss_calls ?s = [Call_open]"
    "cn_pending (ss_con ?pre) = [A_timer Open_handshake, A_write_response]" "ss_calls ?pre = []"
    by (rule answer_written [OF demo_gate_names(1,2), of 1884 cs "\<lambda>i. 7" ?s "\<lambda>i. 0" "uri_parse []"]; simp add: cs)+
  obtain H0 where H0: "host_start (Some demo_ini) = Inr H0" "host_sessions H0 = Map.empty"
    "m_connections (endpoint (host_server H0)) = Map.empty" "shm_inv (shared (host_server H0))" using demo_host by blast
  obtain ws shm where o: "on_open True ''/Gate1'' 0 (endpoint (host_server H0)) (shared (host_server H0)) = (ws, Inr shm)"
    using demo_opens [OF H0(4)] by blast
  then have "m_connections ws ''/Gate1'' = Some 0" using H0(3) by (auto simp: on_open_def)
  moreover have "host_run H0 (with_session 0 ?s ((host_server H0)\<lparr>endpoint := ws, shared := shm\<rparr>) H0)"
    by (rule gate_connects(1) [where sem = True]) (simp_all add: H0(2) s o)
  ultimately show ?thesis using H0(1) s(1)
    by (intro exI [of _ H0] exI [of _ "with_session 0 ?s ((host_server H0)\<lparr>endpoint := ws, shared := shm\<rparr>) H0"] exI [of _ ?s]) simp
qed

end
