(* ===== verification/Logging.thy ===== *)
theory Logging
  imports ParkServer
begin

text \<open>
  The logger (\<open>logging.cpp\<close>): its configuration from the environment, the file it writes, and the making
  of a line, which passes the caller's arguments to \<open>vsprintf\<close> on a buffer of 1024 bytes. Where that has
  no defined behaviour, the outcome is a \<open>log_fault\<close>. The calls that open, measure and truncate the file
  are taken to succeed where the environment says that the file can be opened.
\<close>

subsection \<open>Levels and arguments\<close>

datatype ERROR_LEVEL = LEVEL_TRACE | LEVEL_DEBUG | LEVEL_INFO | LEVEL_WARN | LEVEL_ERROR | LEVEL_FATAL | LEVEL_ALL

fun level_value :: "ERROR_LEVEL \<Rightarrow> nat" where
  "level_value LEVEL_TRACE = 0"
| "level_value LEVEL_DEBUG = 1"
| "level_value LEVEL_INFO = 2"
| "level_value LEVEL_WARN = 3"
| "level_value LEVEL_ERROR = 4"
| "level_value LEVEL_FATAL = 5"
| "level_value LEVEL_ALL = 6"

definition ERROR_LEVEL_TEXT :: "string list" where
  "ERROR_LEVEL_TEXT = [''TRACE'', ''DEBUG'', ''INFO'', ''WARN'', ''ERROR'', ''FATAL'']"

text \<open>What a caller hands to \<open>...\<close>: a C string, an \<open>int\<close> or a \<open>long\<close>.\<close>

datatype log_arg = A_str string | A_int int | A_long int

datatype log_fault =
    Buffer_overrun     \<comment> \<open>\<open>vsprintf\<close> writes past \<open>buffer\<close>\<close>
  | Missing_argument   \<comment> \<open>a conversion without an argument\<close>
  | Wrong_argument     \<comment> \<open>a conversion and an argument of another type\<close>
  | Bad_conversion     \<comment> \<open>a format that ends in a conversion, or one the program does not use\<close>

record log_call =
  lc_func :: string
  lc_line :: int
  lc_level :: ERROR_LEVEL
  lc_text :: string
  lc_args :: "log_arg list"

text \<open>\<open>vsprintf\<close> with the conversions of the program: \<open>%s\<close>, \<open>%d\<close>, \<open>%ld\<close> and \<open>%%\<close>.\<close>

fun vformat :: "string \<Rightarrow> log_arg list \<Rightarrow> log_fault + string" where
  "vformat [] args = Inr []"
| "vformat (c # cs) args =
     (if c \<noteq> CHR ''%'' then bindR (vformat cs args) (\<lambda>t. Inr (c # t))
      else case cs of
        [] \<Rightarrow> Inl Bad_conversion
      | d # ds \<Rightarrow>
          if d = CHR ''%'' then bindR (vformat ds args) (\<lambda>t. Inr (CHR ''%'' # t))
          else if d = CHR ''s'' then
            (case args of [] \<Rightarrow> Inl Missing_argument
             | A_str s # as \<Rightarrow> bindR (vformat ds as) (\<lambda>t. Inr (s @ t)) | _ \<Rightarrow> Inl Wrong_argument)
          else if d = CHR ''d'' then
            (case args of [] \<Rightarrow> Inl Missing_argument
             | A_int i # as \<Rightarrow> bindR (vformat ds as) (\<lambda>t. Inr (to_string i @ t)) | _ \<Rightarrow> Inl Wrong_argument)
          else if d = CHR ''l'' \<and> ds \<noteq> [] \<and> hd ds = CHR ''d'' then
            (case args of [] \<Rightarrow> Inl Missing_argument
             | A_long i # as \<Rightarrow> bindR (vformat (tl ds) as) (\<lambda>t. Inr (to_string i @ t)) | _ \<Rightarrow> Inl Wrong_argument)
          else Inl Bad_conversion)"

subsection \<open>Configuration\<close>

record log_config =
  m_log_level :: "16 word"
  m_print_log_level :: "16 word"
  m_log_file_size :: "16 word"
  m_log_filename :: string
  lf_open :: bool        \<comment> \<open>\<open>m_logfile\<close>: whether it is open, for appending, what is in it, and where it stands\<close>
  lf_append :: bool
  lf_text :: string
  lf_pos :: nat
  lf_stderr :: string

definition log_config_new :: log_config where
  "log_config_new =
     \<lparr>m_log_level = 2, m_print_log_level = 0, m_log_file_size = 0, m_log_filename = [],
      lf_open = False, lf_append = False, lf_text = [], lf_pos = 0, lf_stderr = []\<rparr>"

record log_env =
  le_getenv :: "string \<Rightarrow> string option"
  le_can_open :: "string \<Rightarrow> bool"
  le_realpath :: "string \<Rightarrow> string"
  le_content :: "string \<Rightarrow> string"
  le_file :: string      \<comment> \<open>\<open>__FILE__\<close> of the caller\<close>
  le_time :: string      \<comment> \<open>the time as \<open>strftime\<close> prints it\<close>
  le_usec :: int

definition ENV_LOG_FILE :: string where "ENV_LOG_FILE = ''LOG_FILE''"
definition ENV_LOG_LEVEL :: string where "ENV_LOG_LEVEL = ''LOG_LEVEL''"
definition ENV_LOG_PRINT_LEVEL :: string where "ENV_LOG_PRINT_LEVEL = ''LOG_PRINT_LEVEL''"
definition ENV_LOG_FILE_MAX_SIZE :: string where "ENV_LOG_FILE_MAX_SIZE = ''LOG_FILE_MAX_SIZE''"
definition ENV_LOG_APPEND :: string where "ENV_LOG_APPEND = ''LOG_APPEND''"

text \<open>
  \<open>atol\<close>, which gives zero when nothing converts, and \<open>atoi\<close>, its low 32 bits. The configuration keeps 16
  bits of either.
\<close>

definition atol :: "string \<Rightarrow> int" where
  "atol s = (case strtol10 (c_str s) of None \<Rightarrow> 0 | Some i \<Rightarrow> max long_min (min long_max i))"

definition atoi :: "string \<Rightarrow> int" where
  "atoi s = signed_take_bit 31 (atol s)"

definition set_log_filename :: "log_env \<Rightarrow> string \<Rightarrow> bool \<Rightarrow> log_config \<Rightarrow> log_config" where
  "set_log_filename env name app c =
     c\<lparr>m_log_filename := name, lf_open := le_can_open env name, lf_append := app, lf_text := le_content env name, lf_pos := 0\<rparr>"

text \<open>The name of the file: the one of the environment, or \<open>"log "\<close>; a null name cannot be opened.\<close>

definition usable_filename :: "log_env \<Rightarrow> string option" where
  "usable_filename env =
     (case le_getenv env ENV_LOG_FILE of
        Some n \<Rightarrow> if le_can_open env n then Some n else if le_can_open env ''log '' then Some ''log '' else None
      | None \<Rightarrow> if le_can_open env ''log '' then Some ''log '' else None)"

definition read_levels :: "log_env \<Rightarrow> log_config \<Rightarrow> log_config" where
  "read_levels env c =
     (let str = le_getenv env ENV_LOG_LEVEL;
          log_level = (case str of Some s \<Rightarrow> of_int (atoi s) | None \<Rightarrow> 2);
          print_level = (case str of Some s \<Rightarrow> of_int (atoi s) | None \<Rightarrow> 2);
          c1 = c\<lparr>m_log_level := if log_level < print_level then log_level else print_level\<rparr>;
          print_level = (case le_getenv env ENV_LOG_PRINT_LEVEL of Some s \<Rightarrow> of_int (atoi s) | None \<Rightarrow> print_level);
          c2 = c1\<lparr>m_print_log_level := if log_level < print_level then log_level else print_level\<rparr>
      in if m_print_log_level c2 < m_log_level c2 then c2\<lparr>m_log_level := m_print_log_level c2\<rparr> else c2)"

definition OPEN_LOGGER_INTERNAL :: "bool \<Rightarrow> log_env \<Rightarrow> log_config \<Rightarrow> log_config" where
  "OPEN_LOGGER_INTERNAL app env c =
     (if m_log_filename c \<noteq> [] then c
      else let c1 = (case usable_filename env of
                       Some n \<Rightarrow> set_log_filename env (le_realpath env n) app c | None \<Rightarrow> c);
               c2 = read_levels env c1
           in case le_getenv env ENV_LOG_FILE_MAX_SIZE of
                Some s \<Rightarrow> c2\<lparr>m_log_file_size := of_int (atol s)\<rparr> | None \<Rightarrow> c2)"

text \<open>Both pass a string literal for the flag, which is true.\<close>

definition OPEN_LOGGER :: "log_env \<Rightarrow> log_config \<Rightarrow> log_config" where
  "OPEN_LOGGER = OPEN_LOGGER_INTERNAL True"

definition OPEN_LOGGER_APPEND :: "log_env \<Rightarrow> log_config \<Rightarrow> log_config" where
  "OPEN_LOGGER_APPEND = OPEN_LOGGER_INTERNAL True"

definition CLOSE_LOGGER :: "log_config \<Rightarrow> log_config" where
  "CLOSE_LOGGER c = c\<lparr>lf_open := False\<rparr>"

subsection \<open>The file\<close>

text \<open>\<open>m_logfile << t\<close>: at the end when it was opened for appending, and otherwise over what is there.\<close>

definition write_file :: "string \<Rightarrow> log_config \<Rightarrow> log_config" where
  "write_file t c =
     (if \<not> lf_open c then c
      else let pos = (if lf_append c then length (lf_text c) else lf_pos c) in
        c\<lparr>lf_text := take pos (lf_text c) @ t @ drop (pos + length t) (lf_text c), lf_pos := pos + length t\<rparr>)"

text \<open>A file that is not open has the size \<open>-1\<close>, which exceeds no maximum either.\<close>

definition getFileSize :: "log_config \<Rightarrow> nat" where
  "getFileSize c = (if lf_open c then length (lf_text c) else 0)"

definition reduced_text :: "nat \<Rightarrow> nat \<Rightarrow> string" where
  "reduced_text current half =
     [CHR 0x0A, CHR 0x0A] @ '' reducing log size '' @ to_string (int current) @ '' to '' @ to_string (int half) @ '' '' @ [CHR 0x0A, CHR 0x0A]"

definition optimize_log_file :: "nat \<Rightarrow> log_config \<Rightarrow> log_config" where
  "optimize_log_file max_size c =
     (let current_size = getFileSize c; half = max_size div 2 in
      write_file (reduced_text current_size half) (c\<lparr>lf_text := take half (lf_text c), lf_pos := half\<rparr>))"

subsection \<open>A line\<close>

definition pad4 :: "int \<Rightarrow> string" where
  "pad4 i = replicate (4 - length (to_string i)) CHR ''0'' @ to_string i"

text \<open>What comes before the caller's text.\<close>

definition line_prefix :: "log_env \<Rightarrow> log_call \<Rightarrow> string" where
  "line_prefix env lc =
     (if level_value (lc_level lc) < 6
      then le_time env @ ''.'' @ pad4 (le_usec env div 100) @ '' '' @ (ERROR_LEVEL_TEXT ! level_value (lc_level lc)) @ '' '' @
             lc_func lc @ ''['' @ le_file env @ '':'' @ to_string (lc_line lc) @ '']: ''
      else le_time env @ ''.'' @ pad4 (le_usec env div 100) @ ''  '' @
             lc_func lc @ ''['' @ le_file env @ '':'' @ to_string (lc_line lc) @ '']: '')"

text \<open>\<open>snprintf\<close> of the prefix into \<open>new_text\<close>, \<open>strncat\<close> of the text behind it: both stop at 1023 bytes.\<close>

definition line_format :: "log_env \<Rightarrow> log_call \<Rightarrow> string" where
  "line_format env lc =
     (let new_text = snprintf_to 1024 (line_prefix env lc) in new_text @ take (1024 - length new_text - 1) (lc_text lc))"

definition make_room :: "log_config \<Rightarrow> log_config" where
  "make_room c =
     (if m_log_file_size c \<noteq> 0 \<and> unat (m_log_file_size c) < getFileSize c
      then optimize_log_file (unat (m_log_file_size c)) c else c)"

definition LOGGER :: "log_env \<Rightarrow> log_call \<Rightarrow> log_config \<Rightarrow> log_fault + log_config" where
  "LOGGER env lc c =
     (let c = (if lf_open c then c
               else OPEN_LOGGER_INTERNAL (case le_getenv env ENV_LOG_APPEND of Some a \<Rightarrow> atoi a \<noteq> 0 | None \<Rightarrow> False) env c)
      in if level_value (lc_level lc) < unat (m_log_level c) then Inr c
         else let c = make_room c
           in bindR (vformat (line_format env lc) (lc_args lc)) (\<lambda>buffer.
                if 1024 \<le> length buffer then Inl Buffer_overrun
                else let c = write_file buffer c in
                  Inr (if unat (m_print_log_level c) \<le> level_value (lc_level lc)
                       then c\<lparr>lf_stderr := lf_stderr c @ buffer\<rparr> else c)))"

fun run_log :: "log_env \<Rightarrow> log_call list \<Rightarrow> log_config \<Rightarrow> log_fault + log_config" where
  "run_log env [] c = Inr c"
| "run_log env (lc # lcs) c = bindR (LOGGER env lc c) (run_log env lcs)"

subsection \<open>Levels\<close>

text \<open>
  Once the levels are read both are the smaller one: a line that is written to the file is printed as well,
  whatever \<open>LOG_PRINT_LEVEL\<close> says.
\<close>

lemma levels_equal: "m_print_log_level (read_levels env c) = m_log_level (read_levels env c)"
  by (auto simp: read_levels_def Let_def split: option.splits)

lemma level_is_smaller:
  assumes "le_getenv env ENV_LOG_LEVEL = Some l" "le_getenv env ENV_LOG_PRINT_LEVEL = Some p"
  shows "m_log_level (read_levels env c) = min (of_int (atoi l)) (of_int (atoi p))"
  using assms by (auto simp: read_levels_def Let_def min_def)

text \<open>The size of the file is kept modulo \<open>2 ^ 16\<close>.\<close>

lemma size_wraps:
  assumes "le_getenv env ENV_LOG_FILE_MAX_SIZE = Some s" "m_log_filename c = []" "0 \<le> atol s"
  shows "unat (m_log_file_size (OPEN_LOGGER_INTERNAL app env c)) = nat (atol s) mod 2 ^ 16"
proof -
  obtain n where "atol s = int n" using assms(3) by (rule nonneg_int_cases)
  then have "unat (of_int (atol s) :: 16 word) = nat (atol s) mod 2 ^ 16" by (simp add: unsigned_of_nat take_bit_eq_mod)
  with assms(1,2) show ?thesis by (simp add: OPEN_LOGGER_INTERNAL_def Let_def)
qed

subsection \<open>Lines\<close>

lemma vformat_plain: "CHR ''%'' \<notin> set p \<Longrightarrow> vformat (p @ q) args = bindR (vformat q args) (\<lambda>t. Inr (p @ t))"
proof (induction p)
  case Nil
  then show ?case by (cases "vformat q args") simp_all
next
  case (Cons c p)
  then show ?case by (cases "vformat q args") auto
qed

text \<open>What is wrong with a line, if anything.\<close>

definition line_fault :: "log_env \<Rightarrow> log_call \<Rightarrow> log_fault option" where
  "line_fault env lc =
     (case vformat (line_format env lc) (lc_args lc) of
        Inl e \<Rightarrow> Some e | Inr b \<Rightarrow> if 1024 \<le> length b then Some Buffer_overrun else None)"

definition shown :: "log_config \<Rightarrow> log_call \<Rightarrow> bool" where
  "shown c lc \<longleftrightarrow> unat (m_log_level c) \<le> level_value (lc_level lc)"

lemma file_keeps [simp]:
  "lf_open (write_file t c) = lf_open c" "m_log_level (write_file t c) = m_log_level c"
  "m_log_file_size (write_file t c) = m_log_file_size c"
  "lf_open (optimize_log_file n c) = lf_open c" "m_log_level (optimize_log_file n c) = m_log_level c"
  "m_log_file_size (optimize_log_file n c) = m_log_file_size c"
  by (simp_all add: optimize_log_file_def write_file_def Let_def)

lemma make_room_keeps [simp]:
  "lf_open (make_room c) = lf_open c" "m_log_level (make_room c) = m_log_level c"
  by (simp_all add: make_room_def)

lemma LOGGER_shown:
  assumes "lf_open c" "shown c lc"
  shows "LOGGER env lc c = bindR (vformat (line_format env lc) (lc_args lc)) (\<lambda>buffer.
      if 1024 \<le> length buffer then Inl Buffer_overrun
      else let c = write_file buffer (make_room c) in
        Inr (if unat (m_print_log_level c) \<le> level_value (lc_level lc) then c\<lparr>lf_stderr := lf_stderr c @ buffer\<rparr> else c))"
  using assms unfolding LOGGER_def shown_def Let_def by simp

lemma LOGGER_open:
  assumes "lf_open c"
  shows "case LOGGER env lc c of
      Inl e \<Rightarrow> shown c lc \<and> line_fault env lc = Some e
    | Inr c' \<Rightarrow> (shown c lc \<longrightarrow> line_fault env lc = None) \<and> lf_open c' \<and> m_log_level c' = m_log_level c"
proof (cases "shown c lc")
  case True
  with assms show ?thesis
    by (cases "vformat (line_format env lc) (lc_args lc)") (simp_all add: LOGGER_shown line_fault_def Let_def)
qed (use assms in \<open>simp add: LOGGER_def shown_def\<close>)

text \<open>A sequence of lines ends at the first fault of those that are shown.\<close>

definition first_fault :: "log_env \<Rightarrow> log_config \<Rightarrow> log_call list \<Rightarrow> log_fault option" where
  "first_fault env c lcs = (case List.map_filter (line_fault env) (filter (shown c) lcs) of [] \<Rightarrow> None | e # _ \<Rightarrow> Some e)"

lemma first_fault_simps [simp]:
  "first_fault env c [] = None"
  "first_fault env c (lc # lcs) = (if shown c lc \<and> line_fault env lc \<noteq> None then line_fault env lc else first_fault env c lcs)"
  by (auto simp: first_fault_def List.map_filter_def split: option.splits)

lemma first_fault_append:
  "first_fault env c (xs @ ys) = (case first_fault env c xs of None \<Rightarrow> first_fault env c ys | Some e \<Rightarrow> Some e)"
  by (induction xs) auto

lemma run_log_fault:
  assumes "lf_open c"
  shows "case run_log env lcs c of Inl e \<Rightarrow> first_fault env c lcs = Some e | Inr c' \<Rightarrow> first_fault env c lcs = None"
  using assms
proof (induction lcs arbitrary: c)
  case (Cons lc lcs)
  note o = LOGGER_open [OF Cons.prems, of lc env]
  show ?case
  proof (cases "LOGGER env lc c")
    case (Inr c')
    with o have k: "lf_open c'" "m_log_level c' = m_log_level c" "shown c lc \<longrightarrow> line_fault env lc = None" by simp_all
    have sh: "shown c' = shown c" by (rule ext) (simp add: shown_def k(2))
    have "first_fault env c' = first_fault env c" by (rule ext) (simp add: first_fault_def sh)
    with Cons.IH [OF k(1)] k(3) Inr show ?thesis by (auto split: sum.splits)
  next
    case (Inl e)
    with o show ?thesis by simp
  qed
qed simp

lemma run_log_iff:
  assumes "lf_open c"
  shows "run_log env lcs c = Inl e \<longleftrightarrow> first_fault env c lcs = Some e" "(\<exists>c'. run_log env lcs c = Inr c') \<longleftrightarrow> first_fault env c lcs = None"
  using run_log_fault [OF assms, of env lcs] by (auto split: sum.splits)

text \<open>The surroundings of a call, so that the prefix is short and has no conversion in it.\<close>

definition plain_env :: "log_env \<Rightarrow> bool" where
  "plain_env env \<longleftrightarrow> CHR ''%'' \<notin> set (le_time env) \<and> CHR ''%'' \<notin> set (le_file env) \<and>
     length (le_time env) + length (le_file env) \<le> 300 \<and> 0 \<le> le_usec env \<and> le_usec env < 1000000"

definition plain_call :: "log_call \<Rightarrow> bool" where
  "plain_call lc \<longleftrightarrow> CHR ''%'' \<notin> set (lc_func lc) \<and> length (lc_func lc) \<le> 40 \<and> 0 \<le> lc_line lc \<and> lc_line lc < 10000 \<and>
     length (lc_text lc) \<le> 200"

lemma to_string_short: "0 \<le> i \<Longrightarrow> i < 10 ^ k \<Longrightarrow> 0 < k \<Longrightarrow> length (to_string i) \<le> k"
  using length_nat_str [of "nat i" k] by (simp add: to_string_def nat_less_iff)

lemma to_string_percent: "CHR ''%'' \<notin> set (to_string i)"
  using to_string_chars [of "CHR ''%''" i] by (auto simp: is_digit_def)

lemma prefix_plain:
  assumes "plain_env env" "plain_call lc"
  shows "CHR ''%'' \<notin> set (line_prefix env lc)" "length (line_prefix env lc) \<le> 400"
proof -
  have t: "CHR ''%'' \<notin> set (ERROR_LEVEL_TEXT ! level_value l)" "length (ERROR_LEVEL_TEXT ! level_value l) \<le> 5" if "level_value l < 6" for l
    using that by (cases l; simp add: ERROR_LEVEL_TEXT_def)+
  have u: "length (to_string (le_usec env div 100)) \<le> 4" using assms(1) by (intro to_string_short) (auto simp: plain_env_def)
  then have p: "length (pad4 (le_usec env div 100)) = 4" "CHR ''%'' \<notin> set (pad4 (le_usec env div 100))"
    using to_string_percent by (simp_all add: pad4_def)
  have l: "length (to_string (lc_line lc)) \<le> 4" using assms(2) by (intro to_string_short) (auto simp: plain_call_def)
  show "CHR ''%'' \<notin> set (line_prefix env lc)"
    using assms t(1) p(2) to_string_percent by (simp add: line_prefix_def plain_env_def plain_call_def)
  show "length (line_prefix env lc) \<le> 400"
    using assms t(2) [of "lc_level lc"] p(1) l by (auto simp: line_prefix_def plain_env_def plain_call_def)
qed

lemma line_fault_plain:
  assumes "plain_env env" "plain_call lc"
  shows "line_fault env lc =
    (case vformat (lc_text lc) (lc_args lc) of
       Inl e \<Rightarrow> Some e | Inr b \<Rightarrow> if 1024 \<le> length (line_prefix env lc) + length b then Some Buffer_overrun else None)"
proof -
  note p = prefix_plain [OF assms]
  have "length (lc_text lc) \<le> 1023 - length (line_prefix env lc)" using p(2) assms(2) unfolding plain_call_def by linarith
  with p(2) have "line_format env lc = line_prefix env lc @ lc_text lc" by (simp add: line_format_def snprintf_to_def Let_def)
  then show ?thesis using vformat_plain [OF p(1)] by (simp add: line_fault_def split: sum.splits)
qed

subsection \<open>The size of the file\<close>

text \<open>With a maximal size, a line leaves the file at that size, a note and a line longer at most.\<close>

lemma write_file_length:
  assumes "lf_pos c \<le> length (lf_text c)"
  shows "length (lf_text (write_file t c)) \<le> length (lf_text c) + length t" "lf_pos (write_file t c) \<le> length (lf_text (write_file t c))"
  using assms by (auto simp: write_file_def Let_def)

lemma reduced_text_length: "n < 10 ^ 18 \<Longrightarrow> m < 10 ^ 5 \<Longrightarrow> length (reduced_text n m) \<le> 60"
  using to_string_short [of "int n" 18] to_string_short [of "int m" 5] by (simp add: reduced_text_def)

lemma optimized_length:
  assumes "length (lf_text c) < 10 ^ 18" "m < 2 ^ 16" "m \<le> length (lf_text c)" "lf_open c"
  shows "length (lf_text (optimize_log_file m c)) \<le> m + 60" "lf_pos (optimize_log_file m c) \<le> length (lf_text (optimize_log_file m c))"
proof -
  let ?c = "c\<lparr>lf_text := take (m div 2) (lf_text c), lf_pos := m div 2\<rparr>" and ?t = "reduced_text (length (lf_text c)) (m div 2)"
  have pos: "lf_pos ?c \<le> length (lf_text ?c)" "length (lf_text ?c) \<le> m" using assms(3) by simp_all
  have t: "length ?t \<le> 60" using assms(1,2) by (intro reduced_text_length) auto
  have o: "optimize_log_file m c = write_file ?t ?c" using assms(4) by (simp add: optimize_log_file_def getFileSize_def Let_def)
  show "length (lf_text (optimize_log_file m c)) \<le> m + 60" "lf_pos (optimize_log_file m c) \<le> length (lf_text (optimize_log_file m c))"
    unfolding o using write_file_length [OF pos(1), of ?t] pos(2) t by linarith+
qed

lemma LOGGER_size:
  assumes "lf_open c" "m_log_file_size c \<noteq> 0" "lf_pos c \<le> length (lf_text c)" "length (lf_text c) < 10 ^ 18" "shown c lc"
    and "LOGGER env lc c = Inr c'"
  shows "length (lf_text c') \<le> unat (m_log_file_size c) + 1083" "lf_pos c' \<le> length (lf_text c')"
proof -
  let ?m = "unat (m_log_file_size c)"
  have m: "?m < 2 ^ 16" using unsigned_less [of "m_log_file_size c", where 'a = nat] by simp
  have c1: "length (lf_text (make_room c)) \<le> ?m + 60" "lf_pos (make_room c) \<le> length (lf_text (make_room c))"
    using optimized_length [OF assms(4) m] assms(1-3) by (auto simp: make_room_def getFileSize_def)
  from assms(6) obtain b where "vformat (line_format env lc) (lc_args lc) = Inr b"
    by (cases "vformat (line_format env lc) (lc_args lc)") (simp_all add: LOGGER_shown [OF assms(1,5)])
  with assms(6) have b: "length b < 1024" "lf_text c' = lf_text (write_file b (make_room c))" "lf_pos c' = lf_pos (write_file b (make_room c))"
    by (auto simp: LOGGER_shown [OF assms(1,5)] Let_def split: if_splits)
  with write_file_length [OF c1(2), of b] c1(1)
  show "length (lf_text c') \<le> ?m + 1083" "lf_pos c' \<le> length (lf_text c')" by simp_all
qed

end
