(* ===== verification/ParkLog.thy ===== *)
theory ParkLog
  imports Logging
begin

text \<open>
  What the handler thread logs (\<open>ParkManagerServer.cpp\<close>): the calls of the logger each handler makes on a
  message, in order, with their levels, formats and arguments. A handler that ends with an exception has
  logged what comes before it.
\<close>

subsection \<open>The calls\<close>

definition log_at :: "string \<Rightarrow> int \<Rightarrow> ERROR_LEVEL \<Rightarrow> string \<Rightarrow> log_arg list \<Rightarrow> log_call" where
  "log_at func line level text args = \<lparr>lc_func = func, lc_line = line, lc_level = level, lc_text = text, lc_args = args\<rparr>"

text \<open>Most texts end in a line break, some in a line break and a blank.\<close>

definition nl :: "string \<Rightarrow> string" where "nl t = t @ [CHR 0x0A]"
definition nl_sp :: "string \<Rightarrow> string" where "nl_sp t = t @ [CHR 0x0A, CHR '' '']"

text \<open>The line a handler begins with: the whole request.\<close>

definition request_line_log :: "string \<Rightarrow> int \<Rightarrow> string \<Rightarrow> string \<Rightarrow> log_call" where
  "request_line_log func line action inp =
     log_at func line LEVEL_INFO (nl (''%s %d Gate '' @ action @ '' request:%s'')) [A_str func, A_int line, A_str (c_str inp)]"

text \<open>The line it ends with; the text of the format goes on after the line break.\<close>

definition response_line_log :: "string \<Rightarrow> int \<Rightarrow> string \<Rightarrow> string res \<Rightarrow> log_call list" where
  "response_line_log func line what r =
     (case r of Inl e \<Rightarrow> []
      | Inr t \<Rightarrow> [log_at func line LEVEL_INFO (nl (''%s %d  '' @ what @ '' : '' @ [CHR 0x0A] @ '' %s '')) [A_str func, A_int line, A_str (c_str t)]])"

text \<open>The line about the gate; the two of a gate that is in its list have no argument for their conversion.\<close>

definition registration_line :: "ParkManagerServer \<Rightarrow> string \<Rightarrow> string \<Rightarrow> int \<Rightarrow> log_call" where
  "registration_line s uri GateName GateType =
     (let log = log_at ''OnGateRegistration'' in
      if GateType = GT_Enterence then
        (if GateName \<notin> m_EnternceGates s
         then log 144 LEVEL_INFO (nl ''Registering Entrance gate %s with uri %s '') [A_str (c_str GateName), A_str (c_str uri)]
         else log 149 LEVEL_INFO (nl ''gate %s is already registered'') [])
      else if GateType = GT_Exiting then
        (if GateName \<notin> m_exitingGates s
         then log 154 LEVEL_INFO (nl ''Registering exitingGates  %s with uri %s '') [A_str (c_str GateName), A_str (c_str uri)]
         else log 159 LEVEL_INFO (nl ''gate %s is already registered'') [])
      else log 163 LEVEL_ERROR (nl_sp ''unknown Gate type %d '') [A_int GateType])"

definition log_OnGateRegistration :: "ParkManagerServer \<Rightarrow> string \<Rightarrow> string \<Rightarrow> log_call list" where
  "log_OnGateRegistration s uri inp =
     (let log = log_at ''OnGateRegistration'' in
      request_line_log ''OnGateRegistration'' 124 ''GateRegistration'' inp #
      (case handleIncomingMsg inp mt_CALL of
         Inl e \<Rightarrow> []
       | Inr (messageId, JsonString) \<Rightarrow>
           log 131 LEVEL_INFO (nl ''messageId %s JsonString %s '') [A_str (c_str messageId), A_str (c_str JsonString)] #
           (case bindR (json_parse JsonString) from_json_GateRegistration of
              Inl e \<Rightarrow> []
            | Inr GateRegist \<Rightarrow>
                let GateName = gr_gateName GateRegist; GateType = gate_type_of (gr_gateType GateRegist) in
                (case stoi (gr_gateType GateRegist) of
                   Inl e \<Rightarrow> [log 139 LEVEL_ERROR (nl_sp '' error on registration of gate with URI %s '') [A_str ''stoi'']] | Inr i \<Rightarrow> []) @
                [registration_line s uri GateName GateType] @
                response_line_log ''OnGateRegistration'' 169 ''GateRegistrationResponse'' (snd (OnGateRegistration s inp)))))"

definition log_OnCarEnterence :: "nat \<Rightarrow> ParkManagerServer \<Rightarrow> string \<Rightarrow> string \<Rightarrow> log_call list" where
  "log_OnCarEnterence rnd s uri inp =
     (let log = log_at ''OnCarEnterence'' in
      request_line_log ''OnCarEnterence'' 175 ''CarEnterence'' inp #
      (case handleIncomingMsg inp mt_CALL of
         Inl e \<Rightarrow> []
       | Inr (messageId, JsonString) \<Rightarrow>
           (case bindR (json_parse JsonString) from_json_CarEnterence of
              Inl e \<Rightarrow> []
            | Inr CarEnter \<Rightarrow>
                (if ce_enterenceGate CarEnter \<notin> m_EnternceGates s
                 then [log 186 LEVEL_INFO (nl '' gate %s with uri %s is not registered '') [A_str (c_str (ce_enterenceGate CarEnter)), A_str (c_str uri)]]
                 else if ce_handicap CarEnter = HS_Yes \<and> m_HandicapSlotCount s \<noteq> 0
                 then [log 197 LEVEL_INFO (nl ''allocating Handicap slot , remaining slots %d '') [A_int (sint (m_HandicapSlotCount s))]]
                 else []) @
                response_line_log ''OnCarEnterence'' 231 ''CarEnterence'' (snd (OnCarEnterence rnd s inp)))))"

text \<open>
  The time and the seconds are logged at the level of debugging, with \<open>%d\<close> for values of type \<open>time_t\<close>.
\<close>

definition log_OnCarStatusUpdate :: "libc_time \<Rightarrow> int \<Rightarrow> ParkManagerServer \<Rightarrow> string \<Rightarrow> log_call list" where
  "log_OnCarStatusUpdate lib now s inp =
     (let log = log_at ''OnCarStatusUpdate'' in
      request_line_log ''OnCarStatusUpdate'' 237 ''CarStatusUpdate'' inp #
      (case handleIncomingMsg inp mt_CALL of
         Inl e \<Rightarrow> []
       | Inr (messageId, JsonString) \<Rightarrow>
           (case bindR (json_parse JsonString) from_json_CarStatusUpdate of
              Inl e \<Rightarrow> []
            | Inr CarStatusUp \<Rightarrow>
                (if csu_exitingGate CarStatusUp \<notin> m_exitingGates s
                 then [log 251 LEVEL_INFO (nl ''gate not register ,register the gate'') []] else []) @
                (case m_RegisteredCars s (csu_carPlate CarStatusUp) of
                   None \<Rightarrow> []
                 | Some car \<Rightarrow>
                     log 259 LEVEL_DEBUG (nl_sp ''current time UTC %s '') [A_str (GetCurrentUTCTime now)] #
                     log 262 LEVEL_DEBUG (nl_sp ''current time %d '') [A_long (GetTimeinSeconds (lib_mktime lib) (stack_tm lib 0) (GetCurrentUTCTime now))] #
                     (case car of None \<Rightarrow> []
                      | Some car \<Rightarrow>
                          (case bindR (stoi (GetValueFromConfigFile (m_untils s) PMS_FreeDurationinMin)) free_seconds of
                             Inl e \<Rightarrow> []
                           | Inr freeSec \<Rightarrow>
                               (let CT = GetTimeinSeconds (lib_mktime lib) (stack_tm lib 0) (GetCurrentUTCTime now); ET = GetTimeinSeconds (lib_mktime lib) (stack_tm lib 1) (m_EnterenceTime car) in
                                [log 267 LEVEL_DEBUG (nl_sp ''EnterenceTimeUTC  %d EnterenceTimeUTC  %s durationSec %d , free time s:%d'')
                                   [A_long ET, A_str (c_str (m_EnterenceTime car)), A_long (CT - ET), A_int freeSec]])))) @
                response_line_log ''OnCarStatusUpdate'' 291 ''CarStatusUpdate'' (snd (OnCarStatusUpdate lib now s inp)))))"

text \<open>The lines before a handler is chosen.\<close>

definition turn_lines :: "turn_env \<Rightarrow> WSMessage \<Rightarrow> log_call list" where
  "turn_lines tenv m =
     (let log = log_at ''GateHanlder'' in
      [log 100 LEVEL_INFO (nl ''###################Incoming Message PM <-> Gate #############'') [],
       log 101 LEVEL_DEBUG (nl ''timestamp:%ld'') [A_long (env_now tenv)],
       log 102 LEVEL_DEBUG (nl ''type:%s'') [A_str (c_str (ws_type m))],
       log 103 LEVEL_DEBUG (nl ''uri:%s'') [A_str (c_str (ws_uri m))],
       log 104 LEVEL_DEBUG (nl ''input:%s'') [A_str (c_str (ws_payload m))],
       log 105 LEVEL_DEBUG (nl ''###############################################'') []])"

text \<open>One turn of \<open>GateHanlder\<close> on a message.\<close>

definition handle_log :: "turn_env \<Rightarrow> ParkManagerServer \<Rightarrow> WSMessage \<Rightarrow> log_call list" where
  "handle_log env s m =
     (let requestItems = split_on (CHR '','') (ws_payload m) in
      case bindR (vec_at requestItems 1) (\<lambda>_. vec_at requestItems 2) of
        Inl e \<Rightarrow> []
      | Inr action \<Rightarrow>
          turn_lines env m @
          (if ws_type m = ''Server'' then
             (if contains action (quoted ActionGateRegistration) then log_OnGateRegistration s (ws_uri m) (ws_payload m)
              else if contains action (quoted ActionCarStatusUpdate) then log_OnCarStatusUpdate (env_libc env) (env_now env) s (ws_payload m)
              else if contains action (quoted ActionCarEnterence) then log_OnCarEnterence (env_random env) s (ws_uri m) (ws_payload m)
              else [log_at ''GateHanlder'' 114 LEVEL_FATAL (nl ''unkown or unsupport action: %s'') [A_str (c_str action)]])
           else []))"

subsection \<open>Lines that are too long\<close>

lemma plain_log_at [simp]:
  "plain_call (log_at func line level text args) \<longleftrightarrow>
     CHR ''%'' \<notin> set func \<and> length func \<le> 40 \<and> 0 \<le> line \<and> line < 10000 \<and> length text \<le> 200"
  "lc_text (log_at func line level text args) = text" "lc_args (log_at func line level text args) = args"
  "lc_level (log_at func line level text args) = level" "lc_func (log_at func line level text args) = func"
  "lc_line (log_at func line level text args) = line"
  by (simp_all add: plain_call_def log_at_def)

lemma request_line_format:
  "CHR ''%'' \<notin> set action \<Longrightarrow>
   vformat (nl (''%s %d Gate '' @ action @ '' request:%s'')) [A_str f, A_int l, A_str s] =
     Inr (nl (f @ '' '' @ to_string l @ '' Gate '' @ action @ '' request:'' @ s))"
  using vformat_plain [of action "'' request:%s'' @ [CHR 0x0A]" "[A_str s]"] by (simp add: nl_def)

lemma response_line_format:
  "CHR ''%'' \<notin> set what \<Longrightarrow>
   vformat (nl (''%s %d  '' @ what @ '' : '' @ [CHR 0x0A] @ '' %s '')) [A_str f, A_int l, A_str s] =
     Inr (nl (f @ '' '' @ to_string l @ ''  '' @ what @ '' : '' @ [CHR 0x0A] @ '' '' @ s @ '' ''))"
  using vformat_plain [of what "'' : '' @ [CHR 0x0A] @ '' %s '' @ [CHR 0x0A]" "[A_str s]"] by (simp add: nl_def)

text \<open>A line whose arguments fit its format can only be too long.\<close>

lemma formatted_fault:
  assumes "plain_env env" "plain_call lc" "vformat (lc_text lc) (lc_args lc) = Inr b"
  shows "line_fault env lc \<in> {None, Some Buffer_overrun}" "length b \<le> 600 \<Longrightarrow> line_fault env lc = None"
    "1024 \<le> length b \<Longrightarrow> line_fault env lc = Some Buffer_overrun"
  using line_fault_plain [OF assms(1,2)] prefix_plain(2) [OF assms(1,2)] assms(3) by auto

lemma first_fault_only:
  "\<forall>lc\<in>set lcs. line_fault env lc \<in> {None, Some e} \<Longrightarrow> first_fault env c lcs \<in> {None, Some e}"
  by (induction lcs) auto

lemma first_fault_none: "\<forall>lc\<in>set lcs. line_fault env lc = None \<Longrightarrow> first_fault env c lcs = None"
  by (induction lcs) auto

lemma turn_lines_fault:
  assumes "plain_env env" "lc \<in> set (turn_lines tenv m)"
  shows "line_fault env lc \<in> {None, Some Buffer_overrun}"
    "length (ws_payload m) \<le> 500 \<Longrightarrow> length (ws_uri m) \<le> 500 \<Longrightarrow> length (ws_type m) \<le> 500 \<Longrightarrow> 0 \<le> env_now tenv \<Longrightarrow>
     env_now tenv < 10 ^ 18 \<Longrightarrow> line_fault env lc = None"
proof -
  have "\<exists>b. vformat (lc_text lc) (lc_args lc) = Inr b \<and> plain_call lc \<and>
      (length (ws_payload m) \<le> 500 \<longrightarrow> length (ws_uri m) \<le> 500 \<longrightarrow> length (ws_type m) \<le> 500 \<longrightarrow> 0 \<le> env_now tenv \<longrightarrow>
       env_now tenv < 10 ^ 18 \<longrightarrow> length b \<le> 600)"
    using assms(2) length_c_str [of "ws_payload m"] length_c_str [of "ws_uri m"] length_c_str [of "ws_type m"]
      to_string_short [of "env_now tenv" 18]
    by (auto simp: turn_lines_def nl_def Let_def)
  with formatted_fault [OF assms(1)] show "line_fault env lc \<in> {None, Some Buffer_overrun}"
    "length (ws_payload m) \<le> 500 \<Longrightarrow> length (ws_uri m) \<le> 500 \<Longrightarrow> length (ws_type m) \<le> 500 \<Longrightarrow> 0 \<le> env_now tenv \<Longrightarrow>
     env_now tenv < 10 ^ 18 \<Longrightarrow> line_fault env lc = None" by blast+
qed

text \<open>Every handler begins with the line of its request.\<close>

lemma handler_begins:
  "\<exists>rest. log_OnGateRegistration s uri inp = request_line_log ''OnGateRegistration'' 124 ''GateRegistration'' inp # rest"
  "\<exists>rest. log_OnCarEnterence rnd s uri inp = request_line_log ''OnCarEnterence'' 175 ''CarEnterence'' inp # rest"
  "\<exists>rest. log_OnCarStatusUpdate mk now s inp = request_line_log ''OnCarStatusUpdate'' 237 ''CarStatusUpdate'' inp # rest"
  by (simp_all add: log_OnGateRegistration_def log_OnCarEnterence_def log_OnCarStatusUpdate_def Let_def)

lemma request_line_plain:
  assumes "plain_env env" "CHR ''%'' \<notin> set func" "length func \<le> 40" "0 \<le> line" "line < 10000" "CHR ''%'' \<notin> set action" "length action \<le> 100"
  shows "1024 \<le> length (c_str inp) \<Longrightarrow> line_fault env (request_line_log func line action inp) = Some Buffer_overrun"
    "length (c_str inp) \<le> 400 \<Longrightarrow> line_fault env (request_line_log func line action inp) = None"
proof -
  let ?lc = "request_line_log func line action inp"
  have p: "plain_call ?lc" using assms by (simp add: request_line_log_def nl_def)
  have f: "vformat (lc_text ?lc) (lc_args ?lc) = Inr (nl (func @ '' '' @ to_string line @ '' Gate '' @ action @ '' request:'' @ c_str inp))"
    using request_line_format [OF assms(6)] by (simp add: request_line_log_def)
  have l: "length (to_string line) \<le> 4" using assms(4,5) by (intro to_string_short) simp_all
  show "line_fault env ?lc = Some Buffer_overrun" if "1024 \<le> length (c_str inp)"
    by (rule formatted_fault(3) [OF assms(1) p f]) (use that in \<open>simp add: nl_def\<close>)
  show "line_fault env ?lc = None" if "length (c_str inp) \<le> 400"
    by (rule formatted_fault(2) [OF assms(1) p f]) (use that assms l in \<open>simp add: nl_def\<close>)
qed

lemma handle_log_Server:
  assumes "bindR (vec_at (split_on (CHR '','') (ws_payload m)) 1) (\<lambda>_. vec_at (split_on (CHR '','') (ws_payload m)) 2) = Inr action"
    and "ws_type m = ''Server''"
  shows "handle_log tenv s m = turn_lines tenv m @
    (if contains action (quoted ActionGateRegistration) then log_OnGateRegistration s (ws_uri m) (ws_payload m)
     else if contains action (quoted ActionCarStatusUpdate) then log_OnCarStatusUpdate (env_libc tenv) (env_now tenv) s (ws_payload m)
     else if contains action (quoted ActionCarEnterence) then log_OnCarEnterence (env_random tenv) s (ws_uri m) (ws_payload m)
     else [log_at ''GateHanlder'' 114 LEVEL_FATAL (nl ''unkown or unsupport action: %s'') [A_str (c_str action)]])"
  unfolding handle_log_def assms Let_def by simp

lemma long_request_fault:
  assumes "plain_env env" "unat (m_log_level c) \<le> 2" "ws_type m = ''Server''" "1024 \<le> length (c_str (ws_payload m))"
    and "bindR (vec_at (split_on (CHR '','') (ws_payload m)) 1) (\<lambda>_. vec_at (split_on (CHR '','') (ws_payload m)) 2) = Inr action"
    and "contains action (quoted ActionGateRegistration) \<or> contains action (quoted ActionCarStatusUpdate) \<or>
      contains action (quoted ActionCarEnterence)"
  shows "first_fault env c (handle_log tenv s m) = Some Buffer_overrun"
proof -
  obtain func line act rest where h: "handle_log tenv s m = turn_lines tenv m @ request_line_log func line act (ws_payload m) # rest"
    "(func, line, act) \<in> {(''OnGateRegistration'', 124, ''GateRegistration''), (''OnCarEnterence'', 175, ''CarEnterence''),
      (''OnCarStatusUpdate'', 237, ''CarStatusUpdate'')}"
    unfolding handle_log_Server [OF assms(5,3)]
    using assms(6) handler_begins(1) [of s "ws_uri m" "ws_payload m"] handler_begins(2) [of "env_random tenv" s "ws_uri m" "ws_payload m"]
      handler_begins(3) [of "env_libc tenv" "env_now tenv" s "ws_payload m"]
    by (smt (verit) insertI1 insertI2)
  then have f: "line_fault env (request_line_log func line act (ws_payload m)) = Some Buffer_overrun"
    by (intro request_line_plain(1) [OF assms(1)] assms(4)) auto
  have sh: "shown c (request_line_log func line act (ws_payload m))"
    using assms(2) by (simp add: shown_def request_line_log_def)
  have "first_fault env c (turn_lines tenv m) \<in> {None, Some Buffer_overrun}"
    using turn_lines_fault(1) [OF assms(1)] by (intro first_fault_only) blast
  with f sh show ?thesis unfolding h(1) first_fault_append by auto
qed

subsection \<open>A gate that registers\<close>

lemma registration_response_length:
  assumes "res \<in> {RS_Accept, RS_Exist, RS_Reject}"
  shows "\<exists>t. Respond (call_id r) (to_json_GateRegistrationResponse \<lparr>grr_result = res\<rparr>) = Inr t \<and> length t \<le> length (nat_str r) + 50"
proof -
  have "j_dump (to_json_GateRegistrationResponse \<lparr>grr_result = RS_Accept\<rparr>) = Inr ''{\"Result\":\"Accept\"}''"
    "j_dump (to_json_GateRegistrationResponse \<lparr>grr_result = RS_Exist\<rparr>) = Inr ''{\"Result\":\"Exist\"}''"
    "j_dump (to_json_GateRegistrationResponse \<lparr>grr_result = RS_Reject\<rparr>) = Inr ''{\"Result\":\"Reject\"}''"
    by code_simp+
  with assms obtain d where d: "j_dump (to_json_GateRegistrationResponse \<lparr>grr_result = res\<rparr>) = Inr d" "length d \<le> 20" by auto
  have "length (c_str (AddBase 0 d mt_RESPOND [] (call_id r))) \<le> length (nat_str r) + 50"
    using length_c_str [of "AddBase 0 d mt_RESPOND [] (call_id r)"] d(2) by (simp add: AddBase_RESPOND call_id_def quoted_def)
  with d(1) show ?thesis by (simp add: Respond_def)
qed

lemma registration_response_line:
  assumes "plain_env env" "length t \<le> 500"
  shows "\<forall>lc\<in>set (response_line_log ''OnGateRegistration'' 169 ''GateRegistrationResponse'' (Inr t)). line_fault env lc = None"
proof -
  let ?lc = "log_at ''OnGateRegistration'' 169 LEVEL_INFO (nl (''%s %d  '' @ ''GateRegistrationResponse'' @ '' : '' @ [CHR 0x0A] @ '' %s ''))
    [A_str ''OnGateRegistration'', A_int 169, A_str (c_str t)]"
  have f: "vformat (lc_text ?lc) (lc_args ?lc) =
      Inr (nl (''OnGateRegistration'' @ '' '' @ to_string 169 @ ''  '' @ ''GateRegistrationResponse'' @ '' : '' @ [CHR 0x0A] @ '' '' @ c_str t @ '' ''))"
    using response_line_format [of "''GateRegistrationResponse''" "''OnGateRegistration''" 169 "c_str t"] by simp
  have "line_fault env ?lc = None"
    by (rule formatted_fault(2) [OF assms(1) _ f])
      (use assms(2) length_c_str [of t] to_string_short [of 169 3] in \<open>simp_all add: nl_def\<close>)
  then show ?thesis by (simp add: response_line_log_def)
qed

lemma gate_type_range: "int_min \<le> gate_type_of s \<and> gate_type_of s \<le> int_max"
  using stoi_range [of s] by (auto simp: gate_type_of_def int_min_def int_max_def split: sum.splits)

lemma to_string_int_short: "int_min \<le> i \<Longrightarrow> i \<le> int_max \<Longrightarrow> length (to_string i) \<le> 11"
  using length_nat_str [of "nat i" 10] length_nat_str [of "nat (- i)" 10]
  by (auto simp: to_string_def int_min_def int_max_def nat_less_iff)

lemma registration_line_fault:
  assumes "plain_env env" "length name \<le> 100" "length uri \<le> 100"
  shows "line_fault env (registration_line s uri name (gate_type_of g)) =
    (if snd (register_gate name (gate_type_of g) s) = RS_Exist then Some Missing_argument else None)"
proof -
  have ne: "RS_Accept \<noteq> RS_Exist" "RS_Reject \<noteq> RS_Exist" by code_simp+
  have t: "length (to_string (gate_type_of g)) \<le> 11" using gate_type_range [of g] by (intro to_string_int_short) simp_all
  let ?l = "registration_line s uri name (gate_type_of g)"
  have p: "plain_call ?l" by (simp add: registration_line_def nl_def nl_sp_def Let_def)
  show ?thesis
  proof (cases "snd (register_gate name (gate_type_of g) s) = RS_Exist")
    case True
    then have "vformat (lc_text ?l) (lc_args ?l) = Inl Missing_argument"
      using ne by (auto simp: registration_line_def register_gate_def nl_def Let_def split: if_splits)
    with True show ?thesis by (simp add: line_fault_plain [OF assms(1) p])
  next
    case False
    then have "\<exists>b. vformat (lc_text ?l) (lc_args ?l) = Inr b \<and> length b \<le> 600"
      using t assms(2,3) length_c_str [of name] length_c_str [of uri]
      by (simp add: registration_line_def register_gate_def nl_def nl_sp_def Let_def split: if_splits)
    with False formatted_fault(2) [OF assms(1) p] show ?thesis by auto
  qed
qed

lemma registration_log_fault:
  fixes x :: GateRegistration
  defines "ty \<equiv> gate_type_of (gr_gateType x)"
  assumes "plain_env env" "unat (m_log_level c) \<le> 2" "j_dump (to_json_GateRegistration x) = Inr b"
    and "length (AddBase r b mt_CALL ActionGateRegistration []) \<le> 400" "length uri \<le> 100" "length (gr_gateName x) \<le> 100"
    and "0 \<le> env_now tenv" "env_now tenv < 10 ^ 18"
  shows "first_fault env c (handle_log tenv s \<lparr>ws_uri = uri, ws_type = ''Server'', ws_payload = AddBase r b mt_CALL ActionGateRegistration []\<rparr>) =
    (if snd (register_gate (gr_gateName x) ty s) = RS_Exist then Some Missing_argument else None)"
proof -
  let ?p = "AddBase r b mt_CALL ActionGateRegistration []" and ?log = "log_at ''OnGateRegistration''"
  let ?m = "\<lparr>ws_uri = uri, ws_type = ''Server'', ws_payload = ?p\<rparr>"
  have lens: "length (call_id r) + length b \<le> 400" "length (nat_str r) \<le> 400"
    using assms(5) by (simp_all add: AddBase_CALL call_id_def)
  note rd = gr.request_read [OF no_comma_actions(1) assms(4), of r "[]"]
  have turn: "first_fault env c (turn_lines tenv ?m) = None"
    using turn_lines_fault(2) [OF assms(2)] assms(5-9) by (intro first_fault_none) simp
  have req: "line_fault env (request_line_log ''OnGateRegistration'' 124 ''GateRegistration'' ?p) = None"
    using length_c_str [of ?p] assms(5) by (intro request_line_plain(2) [OF assms(2)]) auto
  have body: "line_fault env (?log 131 LEVEL_INFO (nl ''messageId %s JsonString %s '') [A_str (c_str (call_id r)), A_str (c_str b)]) = None"
    by (rule formatted_fault(2) [OF assms(2), where b = "nl (''messageId '' @ c_str (call_id r) @ '' JsonString '' @ c_str b @ '' '')"])
      (use lens length_c_str [of "call_id r"] length_c_str [of b] in \<open>simp_all add: nl_def\<close>)
  have err: "line_fault env (?log 139 LEVEL_ERROR (nl_sp '' error on registration of gate with URI %s '') [A_str ''stoi'']) = None"
    by (rule formatted_fault(2) [OF assms(2), where b = "nl_sp '' error on registration of gate with URI stoi ''"]) (simp_all add: nl_sp_def)
  obtain t where t: "snd (OnGateRegistration s ?p) = Inr t" "length t \<le> 500"
  proof -
    have "snd (register_gate (gr_gateName x) ty s) \<in> {RS_Accept, RS_Exist, RS_Reject}" by (simp add: register_gate_def)
    from registration_response_length [OF this, of r] lens(2) that show ?thesis
      by (auto simp: OnGateRegistration_call [OF assms(4)] ty_def case_prod_beta)
  qed
  have "handle_log tenv s ?m = turn_lines tenv ?m @ log_OnGateRegistration s uri ?p"
    by (subst handle_log_Server [of _ "quoted ActionGateRegistration"]) (simp_all add: call_action del: One_nat_def)
  moreover have "log_OnGateRegistration s uri ?p = request_line_log ''OnGateRegistration'' 124 ''GateRegistration'' ?p #
      ?log 131 LEVEL_INFO (nl ''messageId %s JsonString %s '') [A_str (c_str (call_id r)), A_str (c_str b)] #
      (case stoi (gr_gateType x) of Inl e \<Rightarrow> [?log 139 LEVEL_ERROR (nl_sp '' error on registration of gate with URI %s '') [A_str ''stoi'']] | Inr i \<Rightarrow> []) @
      registration_line s uri (gr_gateName x) ty # response_line_log ''OnGateRegistration'' 169 ''GateRegistrationResponse'' (Inr t)"
    using rd t(1) by (auto simp: log_OnGateRegistration_def ty_def Let_def)
  moreover have "first_fault env c (response_line_log ''OnGateRegistration'' 169 ''GateRegistrationResponse'' (Inr t)) = None"
    using registration_response_line [OF assms(2) t(2)] by (rule first_fault_none)
  moreover have "shown c (registration_line s uri (gr_gateName x) ty)"
    using assms(3) by (simp add: shown_def registration_line_def Let_def)
  ultimately show ?thesis
    using turn req body err registration_line_fault [OF assms(2,7,6), of s "gr_gateType x"]
    by (auto simp: first_fault_append ty_def split: sum.splits)
qed

end
