(* ===== verification/LogExamples.thy ===== *)
theory LogExamples
  imports ParkLog Examples
begin

text \<open>The logger as it is opened without any setting, for the witnesses.\<close>

definition demo_log_env :: log_env where
  "demo_log_env = \<lparr>le_getenv = (\<lambda>_. None), le_can_open = (\<lambda>_. True), le_realpath = (\<lambda>n. n), le_content = (\<lambda>_. []),
     le_file = ''ParkManagerServer.cpp'', le_time = ''12:00:00'', le_usec = 0\<rparr>"

definition demo_log :: log_config where
  "demo_log = OPEN_LOGGER_INTERNAL False demo_log_env log_config_new"

lemma demo_log_open: "lf_open demo_log" "m_log_level demo_log = 2" "plain_env demo_log_env"
proof -
  show "lf_open demo_log" "m_log_level demo_log = 2"
    by (simp_all add: demo_log_def OPEN_LOGGER_INTERNAL_def usable_filename_def demo_log_env_def set_log_filename_def read_levels_def
        log_config_new_def Let_def)
  show "plain_env demo_log_env" by (simp add: plain_env_def demo_log_env_def)
qed

end
