(* ===== verification/TimeMeasuring.thy ===== *)
theory TimeMeasuring
  imports Prelude "HOL-Library.Word"
begin

text \<open>
  The stopwatch of \<open>TimeMeasuring.h\<close>, on a machine whose \<open>long\<close> has 64 bits and whose \<open>int\<close> has 32. The
  time \<open>gettimeofday\<close> gives is an argument; it stays below the year 294000, where the product in
  \<open>GetCurrentMicroSecond\<close> would leave a \<open>long\<close>.
\<close>

record timeval =
  tv_sec :: int
  tv_usec :: int

record CTimeMeasuring =
  m_startingTime :: "64 word"
  m_stoppingTime :: "64 word"
  m_startingTimeSecond :: "32 word"
  m_stoppingTimeSecond :: "32 word"

definition CTimeMeasuring_new :: CTimeMeasuring where
  "CTimeMeasuring_new = \<lparr>m_startingTime = 0, m_stoppingTime = 0, m_startingTimeSecond = 0, m_stoppingTimeSecond = 0\<rparr>"

definition GetCurrentMicroSecond :: "timeval \<Rightarrow> 64 word" where
  "GetCurrentMicroSecond aTime = of_int (tv_sec aTime * 1000000 + tv_usec aTime)"

definition GetCurrentSecond :: "timeval \<Rightarrow> 32 word" where
  "GetCurrentSecond aTime = of_int (tv_sec aTime)"

definition FixStartingTime :: "timeval \<Rightarrow> CTimeMeasuring \<Rightarrow> CTimeMeasuring" where
  "FixStartingTime now c = c\<lparr>m_startingTime := GetCurrentMicroSecond now\<rparr>"

definition FixStoppingTime :: "timeval \<Rightarrow> CTimeMeasuring \<Rightarrow> CTimeMeasuring" where
  "FixStoppingTime now c = c\<lparr>m_stoppingTime := GetCurrentMicroSecond now\<rparr>"

definition FixStartingTimeSecond :: "timeval \<Rightarrow> CTimeMeasuring \<Rightarrow> CTimeMeasuring" where
  "FixStartingTimeSecond now c = c\<lparr>m_startingTimeSecond := GetCurrentSecond now\<rparr>"

definition FixStoppingTimeSecond :: "timeval \<Rightarrow> CTimeMeasuring \<Rightarrow> CTimeMeasuring" where
  "FixStoppingTimeSecond now c = c\<lparr>m_stoppingTimeSecond := GetCurrentSecond now\<rparr>"

definition IsStarted :: "CTimeMeasuring \<Rightarrow> bool" where
  "IsStarted c \<longleftrightarrow> m_startingTime c \<noteq> 0"

text \<open>The seconds are not reset.\<close>

definition ResetCounters :: "CTimeMeasuring \<Rightarrow> CTimeMeasuring" where
  "ResetCounters c = c\<lparr>m_startingTime := 0, m_stoppingTime := 0\<rparr>"

definition GetTimeDifference :: "CTimeMeasuring \<Rightarrow> int" where
  "GetTimeDifference c = sint (m_stoppingTime c - m_startingTime c)"

definition GetTimeDifferenceSecond :: "CTimeMeasuring \<Rightarrow> int" where
  "GetTimeDifferenceSecond c = sint (m_stoppingTimeSecond c - m_startingTimeSecond c)"

subsection \<open>Differences are exact\<close>

lemma sint_difference:
  fixes x y :: int
  assumes "- (2 ^ (LENGTH('a) - 1)) \<le> y - x" "y - x < 2 ^ (LENGTH('a) - 1)"
  shows "sint ((of_int y :: 'a::len word) - of_int x) = y - x"
  using assms by (simp flip: of_int_diff add: signed_of_int signed_take_bit_int_eq_self)

text \<open>
  Whatever the counters do in between, the difference of two times less than \<open>2 ^ 63\<close> microseconds apart is
  exact, and so is that of two seconds less than \<open>2 ^ 31\<close> apart, also over the year 2038.
\<close>

lemma difference_exact:
  assumes "\<bar>(tv_sec t1 * 1000000 + tv_usec t1) - (tv_sec t0 * 1000000 + tv_usec t0)\<bar> < 2 ^ 63"
  shows "GetTimeDifference (FixStoppingTime t1 (FixStartingTime t0 c)) =
    (tv_sec t1 * 1000000 + tv_usec t1) - (tv_sec t0 * 1000000 + tv_usec t0)"
proof -
  have "GetTimeDifference (FixStoppingTime t1 (FixStartingTime t0 c)) =
    sint ((of_int (tv_sec t1 * 1000000 + tv_usec t1) :: 64 word) - of_int (tv_sec t0 * 1000000 + tv_usec t0))"
    by (simp add: GetTimeDifference_def FixStoppingTime_def FixStartingTime_def GetCurrentMicroSecond_def)
  also have "\<dots> = (tv_sec t1 * 1000000 + tv_usec t1) - (tv_sec t0 * 1000000 + tv_usec t0)"
    using assms by (intro sint_difference) simp_all
  finally show ?thesis .
qed

lemma difference_second_exact:
  assumes "\<bar>tv_sec t1 - tv_sec t0\<bar> < 2 ^ 31"
  shows "GetTimeDifferenceSecond (FixStoppingTimeSecond t1 (FixStartingTimeSecond t0 c)) = tv_sec t1 - tv_sec t0"
proof -
  have "GetTimeDifferenceSecond (FixStoppingTimeSecond t1 (FixStartingTimeSecond t0 c)) =
    sint ((of_int (tv_sec t1) :: 32 word) - of_int (tv_sec t0))"
    by (simp add: GetTimeDifferenceSecond_def FixStoppingTimeSecond_def FixStartingTimeSecond_def GetCurrentSecond_def)
  also have "\<dots> = tv_sec t1 - tv_sec t0"
    using assms by (intro sint_difference) simp_all
  finally show ?thesis .
qed

text \<open>A reset forgets the microseconds only.\<close>

lemma reset_keeps_seconds:
  "GetTimeDifference (ResetCounters c) = 0" "\<not> IsStarted (ResetCounters c)"
  "GetTimeDifferenceSecond (ResetCounters c) = GetTimeDifferenceSecond c"
  by (simp_all add: GetTimeDifference_def GetTimeDifferenceSecond_def ResetCounters_def IsStarted_def)

end
