(* ===== verification/JsonGrammar.thy ===== *)
theory JsonGrammar
  imports JsonRoundtrip
begin

text \<open>
  What \<open>parse\<close> accepts, stated without its loop and its stack: a grammar over the tokens of the lexer,
  in the form of RFC 8259, with the document every sentence stands for. The loop of the parser is then
  shown to accept exactly the sentences of the grammar and to build exactly their documents.
\<close>

subsection \<open>The grammar\<close>

text \<open>The tokens that are a value by themselves; a number that is too large for a double is none.\<close>

fun scalar_of :: "token \<Rightarrow> json option" where
  "scalar_of literal_true = Some (JBool True)"
| "scalar_of literal_false = Some (JBool False)"
| "scalar_of literal_null = Some JNull"
| "scalar_of (value_string s) = Some (JString s)"
| "scalar_of (value_unsigned n) = Some (JUnsigned n)"
| "scalar_of (value_integer i) = Some (JInteger i)"
| "scalar_of (value_float (Fin q)) = Some (JFloat q)"
| "scalar_of _ = None"

text \<open>The members of an object in the order of the text: a later member replaces an earlier one.\<close>

definition put_all :: "(string \<times> json) list \<Rightarrow> (string \<times> json) list \<Rightarrow> (string \<times> json) list" where
  "put_all kvs m = fold (\<lambda>(k, v). obj_put k v) kvs m"

lemma put_all_simps [simp]: "put_all [] m = m" "put_all ((k, v) # kvs) m = put_all kvs (obj_put k v m)"
  by (simp_all add: put_all_def)

inductive value_of :: "token list \<Rightarrow> json \<Rightarrow> bool"
  and elements_of :: "token list \<Rightarrow> json list \<Rightarrow> bool"
  and members_of :: "token list \<Rightarrow> (string \<times> json) list \<Rightarrow> bool" where
  scalar: "scalar_of t = Some v \<Longrightarrow> value_of [t] v"
| empty_array: "value_of [begin_array, end_array] (JArray [])"
| array: "elements_of ts vs \<Longrightarrow> value_of (begin_array # ts @ [end_array]) (JArray vs)"
| empty_object: "value_of [begin_object, end_object] (JObject [])"
| object: "members_of ts kvs \<Longrightarrow> value_of (begin_object # ts @ [end_object]) (JObject (put_all kvs []))"
| element: "value_of ts v \<Longrightarrow> elements_of ts [v]"
| elements: "value_of ts v \<Longrightarrow> elements_of ts' vs \<Longrightarrow> elements_of (ts @ value_separator # ts') (v # vs)"
| member: "value_of ts v \<Longrightarrow> members_of (value_string k # name_separator # ts) [(k, v)]"
| members: "value_of ts v \<Longrightarrow> members_of ts' kvs \<Longrightarrow>
    members_of (value_string k # name_separator # ts @ value_separator # ts') ((k, v) # kvs)"

text \<open>The tokens of a text up to its end or its first error, and which of the two it is.\<close>

function lex :: "string \<Rightarrow> token list \<times> token" where
  "lex s =
     (case scan s of (t, r) \<Rightarrow>
        if is_terminal t then ([], t) else (case lex r of (ts, e) \<Rightarrow> (t # ts, e)))"
  by pat_completeness auto
termination
  by (relation "measure length") (auto dest!: scan_length_less [OF sym])

declare lex.simps [simp del]

definition lex_document :: "string \<Rightarrow> token list \<times> token" where
  "lex_document s = (case skip_bom s of None \<Rightarrow> ([], parse_error) | Some s' \<Rightarrow> lex s')"

subsection \<open>Reading tokens\<close>

text \<open>\<open>takes ts s r\<close>: the tokens \<open>ts\<close> stand at the start of \<open>s\<close>, and \<open>r\<close> is left behind them.\<close>

primrec takes :: "token list \<Rightarrow> string \<Rightarrow> string \<Rightarrow> bool" where
  "takes [] s r = (s = r)"
| "takes (t # ts) s r = (\<exists>s'. scan s = (t, s') \<and> \<not> is_terminal t \<and> takes ts s' r)"

lemma takes_append: "takes (ts @ us) s r \<longleftrightarrow> (\<exists>m. takes ts s m \<and> takes us m r)"
  by (induction ts arbitrary: s) auto

lemma takes_length: "takes ts s r \<Longrightarrow> length r \<le> length s"
  by (induction ts arbitrary: s) (auto dest!: scan_length_le intro: order_trans)

lemma lex_iff: "lex s = (ts, e) \<longleftrightarrow> (\<exists>r. takes ts s r \<and> is_terminal e \<and> fst (scan r) = e)"
proof (induction s arbitrary: ts rule: lex.induct)
  case (1 s)
  obtain t r where t: "scan s = (t, r)" by force
  show ?case
  proof (cases "is_terminal t")
    case True
    then show ?thesis by (cases ts) (auto simp: lex.simps [of s] t)
  next
    case False
    then have "lex s = (ts, e) \<longleftrightarrow> (\<exists>us. ts = t # us \<and> lex r = (us, e))"
      by (auto simp: lex.simps [of s] t split: prod.splits)
    also have "\<dots> \<longleftrightarrow> (\<exists>m. takes ts s m \<and> is_terminal e \<and> fst (scan m) = e)"
      using 1 [OF t [symmetric] False] False by (cases ts) (auto simp: t)
    finally show ?thesis .
  qed
qed

lemma token_terminal [simp]:
  "\<not> is_terminal begin_array" "\<not> is_terminal begin_object" "\<not> is_terminal end_array" "\<not> is_terminal end_object"
  "\<not> is_terminal name_separator" "\<not> is_terminal value_separator" "\<not> is_terminal (value_string k)"
  "is_terminal end_of_input" "is_terminal parse_error"
  by (simp_all add: is_terminal_def)

subsection \<open>Every sentence is accepted\<close>

lemma parse_scalar: "scalar_of t = Some v \<Longrightarrow> parse_value d t s = Inr (Inr (handle_value v d, s))"
  by (cases "(d, t, s)" rule: parse_value.cases) auto

lemma scalar_not_end: "scalar_of t = Some v \<Longrightarrow> t \<noteq> end_array"
  by auto

lemma value_not_end: "value_of ts v \<Longrightarrow> \<exists>t us. ts = t # us \<and> t \<noteq> end_array"
  by (erule value_of.cases) (auto dest: scalar_not_end)

lemma elements_not_end: "elements_of ts vs \<Longrightarrow> \<exists>t us. ts = t # us \<and> t \<noteq> end_array"
  by (erule elements_of.cases) (auto dest: value_not_end)

text \<open>What the loop does at the punctuation, for any text in which the lexer finds it.\<close>

lemma evaluate_array_next:
  "scan s = (value_separator, r) \<Longrightarrow>
   evaluate_from (In_array vs # fs, rt) s = parse_from (In_array vs # fs, rt) (scan r)"
  by (rule evaluate_from_goto) simp

lemma evaluate_array_done:
  "scan s = (end_array, r) \<Longrightarrow>
   evaluate_from (In_array vs # fs, rt) s = evaluate_from (handle_value (JArray vs) (fs, rt)) r"
  by (rule evaluate_from_evaluate) simp

lemma evaluate_members_next:
  "takes [value_separator, value_string k', name_separator] s r \<Longrightarrow>
   evaluate_from (In_object m k # fs, rt) s = parse_from (In_object m k' # fs, rt) (scan r)"
  by (rule evaluate_from_goto) (auto simp: read_key_def)

lemma evaluate_members_done:
  "scan s = (end_object, r) \<Longrightarrow>
   evaluate_from (In_object m k # fs, rt) s = evaluate_from (handle_value (JObject m) (fs, rt)) r"
  by (rule evaluate_from_evaluate) simp

lemma parse_empty_array:
  "scan s = (end_array, r) \<Longrightarrow> parse_from d (begin_array, s) = evaluate_from (handle_value (JArray []) d) r"
  by (rule parse_from_value) (simp add: parse_array_def)

lemma parse_empty_object:
  "scan s = (end_object, r) \<Longrightarrow> parse_from d (begin_object, s) = evaluate_from (handle_value (JObject []) d) r"
  by (rule parse_from_value) (simp add: parse_object_def)

lemma parse_first_element:
  "fst (scan s) \<noteq> end_array \<Longrightarrow> parse_from (fs, rt) (begin_array, s) = parse_from (In_array [] # fs, rt) (scan s)"
  by (rule parse_from_goto) (auto simp: parse_array_def split: prod.splits)

lemma parse_first_member:
  "takes [value_string k, name_separator] s r \<Longrightarrow>
   parse_from (fs, rt) (begin_object, s) = parse_from (In_object [] k # fs, rt) (scan r)"
  by (rule parse_from_goto) (auto simp: parse_object_def read_key_def)

lemma grammar_accepted:
  shows "value_of ts v \<Longrightarrow> (\<And>s r d. takes ts s r \<Longrightarrow> parse_from d (scan s) = evaluate_from (handle_value v d) r)"
    and "elements_of ts vs \<Longrightarrow> (\<And>s m r us fs rt. takes ts s m \<Longrightarrow> scan m = (end_array, r) \<Longrightarrow>
      parse_from (In_array us # fs, rt) (scan s) = evaluate_from (handle_value (JArray (us @ vs)) (fs, rt)) r)"
    and "members_of ts kvs \<Longrightarrow> (\<And>s m r pre fs rt. takes ts s m \<Longrightarrow> scan m = (end_object, r) \<Longrightarrow>
      \<exists>k s'. takes [value_string k, name_separator] s s' \<and> parse_from (In_object pre k # fs, rt) (scan s') =
        evaluate_from (handle_value (JObject (put_all kvs pre)) (fs, rt)) r)"
proof (induction rule: value_of_elements_of_members_of.inducts)
  case (scalar t v)
  then show ?case by (auto intro: parse_from_value parse_scalar)
next
  case empty_array
  then show ?case by (auto simp: parse_empty_array)
next
  case (array ts vs)
  from array.prems obtain s' m where s: "scan s = (begin_array, s')" "takes ts s' m" "scan m = (end_array, r)"
    by (auto simp: takes_append)
  obtain fs rt where d: "d = (fs, rt)" by force
  have "fst (scan s') \<noteq> end_array" using elements_not_end [OF array.hyps] s(2) by auto
  with parse_first_element array.IH [OF s(2,3), of "[]" fs rt] show ?case by (simp add: s(1) d)
next
  case empty_object
  then show ?case by (auto simp: parse_empty_object)
next
  case (object ts kvs)
  from object.prems obtain s' m where s: "scan s = (begin_object, s')" "takes ts s' m" "scan m = (end_object, r)"
    by (auto simp: takes_append)
  obtain fs rt where d: "d = (fs, rt)" by force
  from object.IH [OF s(2,3), of "[]" fs rt] show ?case by (auto simp: s(1) d parse_first_member simp del: takes.simps)
next
  case (element ts v)
  from element.IH [OF element.prems(1)] show ?case by (simp add: evaluate_array_done [OF element.prems(2)])
next
  case (elements ts v ts' vs)
  from elements.prems(1) obtain m1 m2 where s: "takes ts s m1" "scan m1 = (value_separator, m2)" "takes ts' m2 m"
    by (auto simp: takes_append)
  have "parse_from (In_array us # fs, rt) (scan s) = parse_from (In_array (us @ [v]) # fs, rt) (scan m2)"
    by (simp add: elements.IH(1) [OF s(1)] evaluate_array_next [OF s(2)])
  then show ?case using elements.IH(2) [OF s(3) elements.prems(2), of "us @ [v]" fs rt] by simp
next
  case (member ts v k)
  from member.prems(1) obtain s' where s: "takes [value_string k, name_separator] s s'" "takes ts s' m" by auto
  from member.IH [OF s(2)] have "parse_from (In_object pre k # fs, rt) (scan s') =
      evaluate_from (handle_value (JObject (obj_put k v pre)) (fs, rt)) r"
    by (simp add: evaluate_members_done [OF member.prems(2)])
  with s(1) show ?case by auto
next
  case (members ts v ts' kvs k)
  from members.prems(1) obtain s' m1 m2 where s: "takes [value_string k, name_separator] s s'" "takes ts s' m1"
    "scan m1 = (value_separator, m2)" "takes ts' m2 m" by (auto simp: takes_append)
  from members.IH(2) [OF s(4) members.prems(2), of "obj_put k v pre" fs rt] obtain k' s2 where
    s2: "takes [value_string k', name_separator] m2 s2" "parse_from (In_object (obj_put k v pre) k' # fs, rt) (scan s2) =
      evaluate_from (handle_value (JObject (put_all kvs (obj_put k v pre))) (fs, rt)) r" by blast
  have "takes [value_separator, value_string k', name_separator] m1 s2" using s(3) s2(1) by simp
  from members.IH(1) [OF s(2)] evaluate_members_next [OF this] s2(2)
  have "parse_from (In_object pre k # fs, rt) (scan s') =
      evaluate_from (handle_value (JObject (put_all ((k, v) # kvs) pre)) (fs, rt)) r" by simp
  with s(1) show ?case by blast
qed

subsection \<open>Nothing else is accepted\<close>

text \<open>The loop read backwards: where it ends with a document, what its turn has found.\<close>

lemma parse_from_Inl: "parse_value d t s = Inl e \<Longrightarrow> parse_from d (t, s) = Inl e"
  unfolding parse_from_def by (subst sax_parse_internal.simps) (simp add: parse_step_def)

lemma evaluate_from_Inl: "evaluate_state d s = Inl e \<Longrightarrow> evaluate_from d s = Inl e"
  unfolding evaluate_from_def by (subst sax_parse_internal.simps) (simp add: parse_step_def)

lemma read_key_cases:
  "(\<exists>k s' ts. t = value_string k \<and> scan s = (name_separator, s') \<and> ts = scan s' \<and> read_key t s = Inr (k, ts)) \<or>
   read_key t s = Inl (Json_exception 101)"
  by (cases t; cases "scan s") (auto simp: read_key_def)

lemma parse_from_cases:
  assumes "parse_from d (t, s) = Inr w"
  shows "(\<exists>v. scalar_of t = Some v) \<or> t = begin_array \<or> t = begin_object"
proof (rule ccontr)
  assume "\<not> ?thesis"
  then obtain e where "parse_value d t s = Inl e" by (cases "(d, t, s)" rule: parse_value.cases) auto
  with assms show False by (simp add: parse_from_Inl)
qed

lemma evaluate_array_cases:
  assumes "evaluate_from (In_array vs # fs, rt) s = Inr w"
  shows "\<exists>r. scan s = (value_separator, r) \<or> scan s = (end_array, r)"
proof -
  obtain t r where t: "scan s = (t, r)" by force
  have "evaluate_state (In_array vs # fs, rt) s \<noteq> Inl (Json_exception 101)"
    using assms evaluate_from_Inl [of "(In_array vs # fs, rt)" s "Json_exception 101"] by auto
  with t show ?thesis by (auto split: if_splits)
qed

lemma evaluate_object_cases:
  assumes "evaluate_from (In_object m k # fs, rt) s = Inr w"
  shows "(\<exists>k' r. takes [value_separator, value_string k', name_separator] s r) \<or> (\<exists>r. scan s = (end_object, r))"
proof -
  obtain t r where t: "scan s = (t, r)" by force
  obtain t' r' where t': "scan r = (t', r')" by force
  have "evaluate_state (In_object m k # fs, rt) s \<noteq> Inl (Json_exception 101)"
    using assms evaluate_from_Inl [of "(In_object m k # fs, rt)" s "Json_exception 101"] by auto
  with t t' read_key_cases [of t' r'] show ?thesis by (auto split: if_splits)
qed

lemma parse_object_cases:
  assumes "parse_from d (begin_object, s) = Inr w"
  shows "(\<exists>r. scan s = (end_object, r)) \<or> (\<exists>k r. takes [value_string k, name_separator] s r)"
proof -
  obtain t r where t: "scan s = (t, r)" by force
  have "parse_value d begin_object s \<noteq> Inl (Json_exception 101)"
    using assms parse_from_Inl [of d begin_object s "Json_exception 101"] by auto
  with t read_key_cases [of t r] show ?thesis by (auto simp: parse_object_def split: if_splits)
qed

text \<open>The three kinds of sentence the loop can have read, from a token \<open>t\<close> with the text \<open>s\<close> behind it.\<close>

definition sound_value :: "nat \<Rightarrow> bool" where
  "sound_value n \<longleftrightarrow> (\<forall>s d t w. length s \<le> n \<longrightarrow> parse_from d (t, s) = Inr w \<longrightarrow>
     (\<exists>ts v r. takes ts s r \<and> value_of (t # ts) v \<and> evaluate_from (handle_value v d) r = Inr w))"

definition sound_elements :: "nat \<Rightarrow> bool" where
  "sound_elements n \<longleftrightarrow> (\<forall>s us fs rt t w. length s \<le> n \<longrightarrow> parse_from (In_array us # fs, rt) (t, s) = Inr w \<longrightarrow>
     (\<exists>ts vs m r. takes ts s m \<and> scan m = (end_array, r) \<and> elements_of (t # ts) vs \<and>
       evaluate_from (handle_value (JArray (us @ vs)) (fs, rt)) r = Inr w))"

definition sound_members :: "nat \<Rightarrow> bool" where
  "sound_members n \<longleftrightarrow> (\<forall>s pre k fs rt t w. length s \<le> n \<longrightarrow> parse_from (In_object pre k # fs, rt) (t, s) = Inr w \<longrightarrow>
     (\<exists>ts kvs m r. takes ts s m \<and> scan m = (end_object, r) \<and> members_of (value_string k # name_separator # t # ts) kvs \<and>
       evaluate_from (handle_value (JObject (put_all kvs pre)) (fs, rt)) r = Inr w))"

text \<open>A token at which the loop goes on is not the last one, and takes up some of the text.\<close>

lemma parse_from_nonterminal: "parse_from d (t, s) = Inr w \<Longrightarrow> \<not> is_terminal t"
  by (drule parse_from_cases) (auto simp: is_terminal_def)

lemma parse_scan:
  assumes "parse_from d (scan s) = Inr w"
  obtains t s' where "scan s = (t, s')" "\<not> is_terminal t" "length s' < length s" "parse_from d (t, s') = Inr w"
proof -
  obtain t s' where t: "scan s = (t, s')" by force
  with assms have p: "parse_from d (t, s') = Inr w" by simp
  from parse_from_nonterminal [OF p] show ?thesis by (rule that [OF t _ scan_length_less [OF t] p]) (rule parse_from_nonterminal [OF p])
qed

lemma sound_value_step:
  assumes "\<And>m. m < n \<Longrightarrow> sound_elements m" "\<And>m. m < n \<Longrightarrow> sound_members m"
  shows "sound_value n"
  unfolding sound_value_def
proof (intro allI impI)
  fix s d t w
  assume s: "length s \<le> n" and p: "parse_from d (t, s) = Inr (w :: json \<times> string)"
  obtain fs rt where d: "d = (fs, rt)" by force
  let ?goal = "\<exists>ts v r. takes ts s r \<and> value_of (t # ts) v \<and> evaluate_from (handle_value v d) r = Inr w"
  from parse_from_cases [OF p] consider v where "scalar_of t = Some v" | "t = begin_array" | "t = begin_object" by blast
  then show ?goal
  proof cases
    case 1
    with p parse_from_value [OF parse_scalar [OF 1, of d s]] show ?thesis
      by (intro exI [of _ "[]"] exI [of _ v] exI [of _ s]) (simp add: value_of_elements_of_members_of.scalar)
  next
    case 2
    obtain t' r where t': "scan s = (t', r)" by force
    show ?thesis
    proof (cases "t' = end_array")
      case True
      with p 2 parse_empty_array t' show ?thesis
        by (intro exI [of _ "[end_array]"] exI [of _ "JArray []"] exI [of _ r]) (auto intro: empty_array)
    next
      case False
      with p 2 t' have "parse_from (In_array [] # fs, rt) (scan s) = Inr w"
        using parse_first_element [of s fs rt] by (simp add: d)
      then obtain s' where s': "scan s = (t', s')" "\<not> is_terminal t'" "length s' < length s"
        "parse_from (In_array [] # fs, rt) (t', s') = Inr w" by (rule parse_scan) (auto simp: t')
      have "sound_elements (length s')" using assms(1) s s'(3) by simp
      with s'(4) obtain ts vs m r' where e: "takes ts s' m" "scan m = (end_array, r')" "elements_of (t' # ts) vs"
        "evaluate_from (handle_value (JArray ([] @ vs)) (fs, rt)) r' = Inr w" unfolding sound_elements_def by blast
      with s' 2 d show ?thesis using array [OF e(3)]
        by (intro exI [of _ "t' # ts @ [end_array]"] exI [of _ "JArray vs"] exI [of _ r']) (auto simp: takes_append)
    qed
  next
    case 3
    with parse_object_cases p consider r where "scan s = (end_object, r)"
      | k r where "takes [value_string k, name_separator] s r" by metis
    then show ?thesis
    proof cases
      case 1
      with p 3 parse_empty_object [OF 1] show ?thesis
        by (intro exI [of _ "[end_object]"] exI [of _ "JObject []"] exI [of _ r]) (auto intro: empty_object)
    next
      case (2 k r)
      with p 3 have "parse_from (In_object [] k # fs, rt) (scan r) = Inr w" using parse_first_member [OF 2] by (simp add: d)
      then obtain t' s' where s': "scan r = (t', s')" "\<not> is_terminal t'" "length s' < length r"
        "parse_from (In_object [] k # fs, rt) (t', s') = Inr w" by (rule parse_scan)
      have "sound_members (length s')" using assms(2) s s'(3) takes_length [OF 2] by simp
      with s'(4) obtain ts kvs m r' where e: "takes ts s' m" "scan m = (end_object, r')"
        "members_of (value_string k # name_separator # t' # ts) kvs"
        "evaluate_from (handle_value (JObject (put_all kvs [])) (fs, rt)) r' = Inr w" unfolding sound_members_def by blast
      have "takes (value_string k # name_separator # t' # ts @ [end_object]) s r'"
        using 2 s' e(1,2) by (auto simp: takes_append)
      moreover have "value_of (t # value_string k # name_separator # t' # ts @ [end_object]) (JObject (put_all kvs []))"
        using object [OF e(3)] 3 by simp
      ultimately show ?thesis using e(4) d by blast
    qed
  qed
qed

lemma sound_elements_step:
  assumes "sound_value n" "\<And>m. m < n \<Longrightarrow> sound_elements m"
  shows "sound_elements n"
  unfolding sound_elements_def
proof (intro allI impI)
  fix s us fs rt t w
  assume s: "length s \<le> n" and "parse_from (In_array us # fs, rt) (t, s) = Inr (w :: json \<times> string)"
  with assms(1) obtain ts v r where v: "takes ts s r" "value_of (t # ts) v"
    "evaluate_from (In_array (us @ [v]) # fs, rt) r = Inr w" unfolding sound_value_def by fastforce
  from evaluate_array_cases [OF v(3)] consider r' where "scan r = (value_separator, r')"
    | r' where "scan r = (end_array, r')" by blast
  then show "\<exists>ts vs m r. takes ts s m \<and> scan m = (end_array, r) \<and> elements_of (t # ts) vs \<and>
       evaluate_from (handle_value (JArray (us @ vs)) (fs, rt)) r = Inr w"
  proof cases
    case 2
    with v show ?thesis using element [OF v(2)] evaluate_array_done [OF 2]
      by (intro exI [of _ ts] exI [of _ "[v]"] exI [of _ r] exI [of _ r']) simp
  next
    case 1
    then have "parse_from (In_array (us @ [v]) # fs, rt) (scan r') = Inr w" using v(3) evaluate_array_next by simp
    then obtain t' s' where s': "scan r' = (t', s')" "\<not> is_terminal t'" "length s' < length r'"
      "parse_from (In_array (us @ [v]) # fs, rt) (t', s') = Inr w" by (rule parse_scan)
    have "sound_elements (length s')"
      using assms(2) s s'(3) scan_length_le [OF 1] takes_length [OF v(1)] by simp
    with s'(4) obtain ts' vs m r2 where e: "takes ts' s' m" "scan m = (end_array, r2)" "elements_of (t' # ts') vs"
      "evaluate_from (handle_value (JArray ((us @ [v]) @ vs)) (fs, rt)) r2 = Inr w" unfolding sound_elements_def by blast
    have "takes (ts @ value_separator # t' # ts') s m" using v(1) 1 s' e(1) by (auto simp: takes_append)
    with e show ?thesis using elements [OF v(2) e(3)]
      by (intro exI [of _ "ts @ value_separator # t' # ts'"] exI [of _ "v # vs"] exI [of _ m] exI [of _ r2]) simp
  qed
qed

lemma sound_members_step:
  assumes "sound_value n" "\<And>m. m < n \<Longrightarrow> sound_members m"
  shows "sound_members n"
  unfolding sound_members_def
proof (intro allI impI)
  fix s pre k fs rt t w
  assume s: "length s \<le> n" and "parse_from (In_object pre k # fs, rt) (t, s) = Inr (w :: json \<times> string)"
  with assms(1) obtain ts v r where v: "takes ts s r" "value_of (t # ts) v"
    "evaluate_from (In_object (obj_put k v pre) k # fs, rt) r = Inr w" unfolding sound_value_def by fastforce
  from evaluate_object_cases [OF v(3)]
  consider k' r' where "takes [value_separator, value_string k', name_separator] r r'"
    | r' where "scan r = (end_object, r')" by blast
  then show "\<exists>ts kvs m r. takes ts s m \<and> scan m = (end_object, r) \<and>
       members_of (value_string k # name_separator # t # ts) kvs \<and>
       evaluate_from (handle_value (JObject (put_all kvs pre)) (fs, rt)) r = Inr w"
  proof cases
    case 2
    with v show ?thesis using member [OF v(2), of k] evaluate_members_done [OF 2]
      by (intro exI [of _ ts] exI [of _ "[(k, v)]"] exI [of _ r] exI [of _ r']) simp
  next
    case (1 k' r')
    then have "parse_from (In_object (obj_put k v pre) k' # fs, rt) (scan r') = Inr w"
      using v(3) evaluate_members_next [OF 1] by simp
    then obtain t' s' where s': "scan r' = (t', s')" "\<not> is_terminal t'" "length s' < length r'"
      "parse_from (In_object (obj_put k v pre) k' # fs, rt) (t', s') = Inr w" by (rule parse_scan)
    have "sound_members (length s')"
      using assms(2) s s'(3) takes_length [OF 1] takes_length [OF v(1)] by simp
    with s'(4) obtain ts' kvs m r2 where e: "takes ts' s' m" "scan m = (end_object, r2)"
      "members_of (value_string k' # name_separator # t' # ts') kvs"
      "evaluate_from (handle_value (JObject (put_all kvs (obj_put k v pre))) (fs, rt)) r2 = Inr w"
      unfolding sound_members_def by blast
    have "takes (ts @ value_separator # value_string k' # name_separator # t' # ts') s m"
      using v(1) 1 s' e(1) by (auto simp: takes_append)
    with e show ?thesis using members [OF v(2) e(3), of k]
      by (intro exI [of _ "ts @ value_separator # value_string k' # name_separator # t' # ts'"]
        exI [of _ "(k, v) # kvs"] exI [of _ m] exI [of _ r2]) simp
  qed
qed

lemma loop_sound: "sound_value n \<and> sound_elements n \<and> sound_members n"
proof (induction n rule: less_induct)
  case (less n)
  have v: "sound_value n" using less by (intro sound_value_step) simp_all
  with less show ?case by (auto intro: sound_elements_step sound_members_step)
qed

lemma parse_from_sentence:
  assumes "parse_from d (t, s) = Inr w"
  obtains ts v r where "takes ts s r" "value_of (t # ts) v" "evaluate_from (handle_value v d) r = Inr w"
  using assms loop_sound [of "length s"] unfolding sound_value_def by blast

subsection \<open>The parser is the grammar\<close>

lemma json_parse_iff:
  "json_parse s = Inr v \<longleftrightarrow> (\<exists>ts. lex_document s = (ts, end_of_input) \<and> value_of ts v)"
proof (cases "skip_bom s")
  case None
  have "parse_from ([], JNull) (parse_error, []) = Inl (Json_exception 101)" by (rule parse_from_Inl) simp
  then have "json_parse s = Inl (Json_exception 101)"
    by (simp add: json_parse_def scan_first_def None parse_from_def)
  then show ?thesis by (simp add: lex_document_def None)
next
  case (Some u)
  have p: "json_parse s = bindR (parse_from ([], JNull) (scan u))
      (\<lambda>(v, rest). if fst (scan rest) = end_of_input then Inr v else Inl (Json_exception 101))"
    by (simp add: json_parse_def scan_first_def Some parse_from_def split: prod.splits)
  have "json_parse s = Inr v \<longleftrightarrow>
      (\<exists>r. parse_from ([], JNull) (scan u) = Inr (v, r) \<and> fst (scan r) = end_of_input)"
    unfolding p by (auto split: if_splits)
  also have "\<dots> \<longleftrightarrow> (\<exists>ts r. takes ts u r \<and> value_of ts v \<and> fst (scan r) = end_of_input)"
  proof
    assume "\<exists>r. parse_from ([], JNull) (scan u) = Inr (v, r) \<and> fst (scan r) = end_of_input"
    then obtain r where r: "parse_from ([], JNull) (scan u) = Inr (v, r)" "fst (scan r) = end_of_input" by blast
    from r(1) obtain t s' where t: "scan u = (t, s')" "\<not> is_terminal t" "parse_from ([], JNull) (t, s') = Inr (v, r)"
      by (rule parse_scan)
    from t(3) obtain ts v' r' where "takes ts s' r'" "value_of (t # ts) v'"
      "evaluate_from (handle_value v' ([], JNull)) r' = Inr (v, r)" by (rule parse_from_sentence)
    with t(1,2) r(2) show "\<exists>ts r. takes ts u r \<and> value_of ts v \<and> fst (scan r) = end_of_input"
      by (intro exI [of _ "t # ts"] exI [of _ r]) (simp add: evaluate_from_root)
  next
    assume "\<exists>ts r. takes ts u r \<and> value_of ts v \<and> fst (scan r) = end_of_input"
    then show "\<exists>r. parse_from ([], JNull) (scan u) = Inr (v, r) \<and> fst (scan r) = end_of_input"
      using grammar_accepted(1) [of _ v u _ "([], JNull)"] by (auto simp: evaluate_from_root)
  qed
  finally show ?thesis by (auto simp: lex_document_def Some lex_iff)
qed

end
