(* ===== verification/Spec2Isabelle.thy ===== *)
theory Spec2Isabelle
  imports Examples SessionWait HostExamples LogExamples TimeMeasuring JsonGrammar
begin

text \<open>
  A verification library for the parking manager: a server that keeps the slots of a parking lot
  (\<open>src/src/ParkManager\<close>), the gates that talk to it over websockets (\<open>src/src/ParkManagerClient\<close>) and
  the code both use (\<open>src/src/CommonLibraries\<close>), the vendored JSON, date, configuration and
  websocket libraries as far as the program runs through them.

  How the parts interact. A driver's command makes a gate (\<open>Gate.cpp\<close>) build a request: a JSON body
  (\<open>json/*.hpp\<close>, nlohmann's \<open>dump\<close>) inside the envelope of \<open>json/Base.hpp\<close>, handed to the websocket
  client. On the server the websocket thread (\<open>WebSocketServer.cpp\<close>) puts it into the queue of
  \<open>MessageManager.cpp\<close>; the handler thread (\<open>ParkManagerServer::GateHanlder\<close>) takes it out, finds the
  handler by the action, changes the lot and sends the response, which the client thread of the gate
  puts into its queue of responses, where the waiting gate finds it by its id. The status of the
  connections goes through a table in shared memory (\<open>BoostShmObj.cpp\<close>), which a second thread of the
  server (\<open>RunServer\<close>) watches.

  Theories and what they model, in the order they build on each other:
  \<^item> \<open>Prelude\<close>: the result type, where every exception and every place without defined behaviour is a
    value of the error type; vectors with out-of-range access, unsigned subtraction.
  \<^item> \<open>CppString\<close>: C strings, \<open>boost::split\<close>, \<open>std::to_string\<close>, \<open>std::stoi\<close>, \<open>snprintf\<close> into a buffer.
  \<^item> \<open>Interfaces\<close>: locales for the contracts several components share: a queue, a keyed store, an
    encoder with its decoder, a sender with retries. Each is interpreted where a component provides it.
  \<^item> \<open>Pdu\<close>: \<open>AddBase\<close> and \<open>handleIncomingMsg\<close> of \<open>json/Base.hpp\<close>.
  \<^item> \<open>MessageManager\<close>: the two queues, with the wait for a response as a list of polls.
  \<^item> \<open>Binary64\<close>: rounding to binary64 on rationals, as far as prices and seconds need it.
  \<^item> \<open>JsonLexer\<close>, \<open>JsonParser\<close>, \<open>JsonDump\<close>, \<open>JsonBuffer\<close>, \<open>JsonRoundtrip\<close>: \<open>json::parse\<close> with its lexer
    and the loop of its parser, \<open>dump\<close> with the UTF-8 decoder and its buffer of 512 bytes, and what
    they are to each other. \<open>JsonGrammar\<close>: what the parser accepts and builds, as a grammar over the
    tokens, and that the parser is exactly this grammar.
  \<^item> \<open>Models\<close>: the six message bodies, each an interpretation of the locale \<open>document\<close>.
  \<^item> \<open>ShmObj\<close>: the table in shared memory, byte by byte, and the finite map it stands for.
  \<^item> \<open>Config\<close>: \<open>utils.cpp\<close> over the value lookup and update of SimpleIni; \<open>IniFile\<close>: its parser and
    writer of the file; \<open>IniRound\<close>: what is saved is loaded again.
  \<^item> \<open>Calendar\<close>, \<open>Clock\<close>: the civil calendar of \<open>date.h\<close>, with its 16-bit year and the \<open>int\<close> it counts
    in, and the time functions of \<open>json/Base.hpp\<close>. What \<open>GetTimeByString\<close> leaves unset in its \<open>struct tm\<close>
    and what \<open>mktime\<close> does with it are arguments (\<open>libc_time\<close>).
  \<^item> \<open>Car\<close>, \<open>ParkServer\<close>: the state of \<open>ParkManagerServer\<close>, its three handlers and its dispatch.
  \<^item> \<open>ParkingLot\<close>: the invariant of that state, the abstract parking lot it implements, and prices.
  \<^item> \<open>WsServer\<close>, \<open>WsClient\<close>: the handlers and operations of the two websocket classes, the watching
    thread. Handles are numbers; what the websocket library reports is an argument.
  \<^item> \<open>Gate\<close>: the three operations of a gate, with the world they meet as a record.
  \<^item> \<open>System\<close>: the threads of the server as an inductive step relation, and one exchange end to end. An
    exception ends the thread it leaves; where the behaviour is undefined there is no step, only the
    predicate \<open>server_undefined\<close>.
  \<^item> \<open>Examples\<close>: the server of the shipped configuration and the cars the witnesses use.
  \<^item> \<open>Frame\<close>: the frames of the websocket protocol (\<open>websocketpp/frame.hpp\<close>): headers, lengths, masking.
  \<^item> \<open>Hybi13\<close>: the protocol processor (\<open>websocketpp/processors/hybi13.hpp\<close>): its reader of frames, a state
    machine over the bytes that arrive, the UTF-8 validator, and the frames it makes. \<open>HybiRead\<close>: the
    invariant of the reader and its independence of the cuts. \<open>WireTrip\<close>: what one end makes, the other
    reads. \<open>Fragments\<close>: messages in several frames.
  \<^item> \<open>Connection\<close>: the connection after the handshake (\<open>websocketpp/impl/connection_impl.hpp\<close>): sending,
    the write queue, the dispatch of what was read, and the closing handshake of \<open>close.hpp\<close>.
  \<^item> \<open>HandshakeKey\<close>, \<open>Http\<close>, \<open>Handshake\<close>: the opening handshake: SHA-1 and base64, the HTTP messages and
    their parsers (\<open>websocketpp/http\<close>), addresses (\<open>uri.hpp\<close>), and the steps of both sides. \<open>HttpRead\<close>: the
    contract \<open>line_reader\<close> of a parser that takes its bytes as they come, and what follows from it;
    \<open>HttpRound\<close>: the two parsers provide it, and read what the other end writes. \<open>HandshakeRound\<close>: both
    sides together.
  \<^item> \<open>Session\<close>: the whole life of a connection, from \<open>start\<close> through the handshake and the frames to
    \<open>handle_terminate\<close>: the connection with what it has asked the transport for, and its handlers as
    steps over the events of the transport and the application. \<open>SessionLife\<close>: the machine of six states
    it implements; \<open>SessionWait\<close>: what it waits for in every state; \<open>SessionRound\<close>: two sessions joined.
  \<^item> \<open>Logging\<close>: the logger (\<open>logging.cpp\<close>); \<open>ParkLog\<close>: what the handler thread of the server logs, with
    the faults of these calls; \<open>LogExamples\<close>: the logger the witnesses use.
  \<^item> \<open>SessionTalk\<close>: a text between two open sessions. \<open>Endpoint\<close>: how a server accepts and a client makes a
    connection, and sending by handle (\<open>websocketpp/impl/endpoint_impl.hpp\<close>, \<open>roles\<close>). \<open>Host\<close>: the process of
    the server with its sessions, as a step relation; \<open>HostInv\<close>: what every run of it keeps; \<open>HostRun\<close>: a gate
    that connects and is answered. \<open>HostExamples\<close>: the process and the gate the witnesses use.
  \<^item> \<open>TimeMeasuring\<close>: the stopwatch of \<open>TimeMeasuring.h\<close>, which the program includes and does not use.

  The groups of properties below: what one exchange does, as a refinement of the abstract lot
  (\<open>lot_enter\<close>, \<open>lot_leave\<close>); what a gate is served over the
  whole stack of sessions, endpoint, queue and handler; what every run of the server keeps, alone and with its connections; the JSON text and its parser;
  billing; what the logger does with long and repeated requests; what stale entries and slot numbers do; the messages and the queues; the stores; the
  calendar; the connections. The last group is about
  the websocket library under the connections: the life of a session, and what a text goes through
  between two ends.

  Bounds. Counters and slots are 32-bit words and wrap as in the code; the size of the lot in the
  refinement is bounded so that slot numbers fit \<open>int\<close>. The loops of the lexer, the parser and the
  senders are total functions with a measure, so no fuel is needed, and so are those of the
  frame reader; the wait for a response runs over
  the list of polls the thread makes, and ends as soon as the clock of a poll is five seconds on.

  The header of an HTTP message is limited to 16000 bytes by the code, three of them for every read; the
  handshake is shown for addresses and cuts that stay below 15000 together.

  Undefined behaviour (a read past the end of a vector, a null dereference, an overrun buffer, a signed
  overflow) is a value of the error type and ends the model there: nothing is claimed of what
  the process does afterwards.

  Not modelled: the older protocol versions of the websocket library and its compression
  (which the configuration leaves out); the sockets, the event loop of asio, thread creation and the sleeping between polls;
  the command line menus of the two \<open>main.cpp\<close>; the file operations
  below \<open>LoadFile\<close> and \<open>SaveFile\<close>; floating-point numbers in JSON, which no
  message of the program holds (they are parsed, but \<open>dump_float\<close> is a parameter). \<open>strtod\<close>, \<open>mktime\<close>
  (with the indeterminate \<open>tm_isdst\<close> it is passed), \<open>random\<close> and \<open>time\<close> are arguments or, for decimal prices, the correctly rounded value.
\<close>

subsection \<open>One exchange between a gate and the server\<close>

text \<open>
  C1. A car entering. The call of a CarEnterence whose fields are UTF-8 without '#', arriving at an
  idle server, is answered in the next turn of the handler: the parking lot the server stands for
  moves as the specification lot_enter says, and the text of the answer carries the id of the call
  and is read back as the response of that outcome.
\<close>

theorem entering_exchange:
  fixes x :: CarEnterence
  assumes "lot_inv s" "counters_small s" "ocppCALLMessageQueue mm = []"
    and "plain_CarEnterence x" "CHR 0x23 \<notin> set uri"
    and "lot_enter (ce_enterenceGate x) (ce_carPlate x) (ce_handicap x = HS_Yes) (lot_of s) = (l', a)"
    and "utf8_CarEnterenceResponse (admission_response (m_untils s) x a)"
  shows "\<exists>b s' t. j_dump (to_json_CarEnterence x) = Inr b \<and>
    serve env uri (AddBase r b mt_CALL ActionCarEnterence []) ws s mm = (s', mm, Inr (Some (uri, t))) \<and>
    lot_of s' = l' \<and> response_id t = Inr (call_id r) \<and>
    read_response from_json_CarEnterenceResponse t = Inr (admission_response (m_untils s) x a)"
proof -
  obtain b where b: "j_dump (to_json_CarEnterence x) = Inr b" "CHR 0x23 \<notin> set b"
    using plain_dump_CarEnterence [OF assms(4)] by blast
  note ref = enter_car_refines [OF assms(1,2), of "env_random env" x, unfolded assms(6) fst_conv snd_conv]
  with entering_served [OF b(1), of env s uri r "[]"] assms(7) obtain t where
    t: "handle_call env s \<lparr>ws_uri = uri, ws_type = ''Server'', ws_payload = AddBase r b mt_CALL ActionCarEnterence []\<rparr> =
      (fst (enter_car (env_random env) x s), Inr (Some t))" "response_id t = Inr (call_id r)"
      "read_response from_json_CarEnterenceResponse t = Inr (admission_response (m_untils s) x a)" by auto
  from serve_answer [OF assms(5) b(2) hash_notin_actions(2) assms(3) t(1)] b(1) ref t(2,3) show ?thesis by blast
qed

theorem entering_exchange_witness:
  "\<exists>b s' t. j_dump (to_json_CarEnterence demo_entry) = Inr b \<and>
    serve demo_env ''g'' (AddBase 7 b mt_CALL ActionCarEnterence []) demo_ws demo_open MessageManager_new =
      (s', MessageManager_new, Inr (Some (''g'', t))) \<and>
    lot_of s' = \<lparr>free_normal = 19, free_handicap = 5, normal_capacity = 20, open_gates = {''EntGate1''},
      places = [''A1'' \<mapsto> NormalPlace]\<rparr> \<and>
    response_id t = Inr (call_id 7) \<and>
    read_response from_json_CarEnterenceResponse t = Inr (admission_response (m_untils demo_open) demo_entry (Slot 20))"
  by (rule entering_exchange [OF demo_open_inv(1,3) _ demo_entry_plain _ demo_enter])
    (simp_all add: demo_answer demo_open_utils MessageManager_new_def del: admission_response.simps)

text \<open>
  C2. A car leaving. The call of a CarStatusUpdate at an idle server is answered in the next turn:
  the lot moves as lot_leave says, and the answer carries the id of the call and the response of
  that outcome, with the price of the stay where there is one.
\<close>

theorem leaving_exchange:
  fixes x :: CarStatusUpdate
  assumes "lot_inv s" "unat (m_HandicapSlotCount s) + 1 < 2 ^ 32" "ocppCALLMessageQueue mm = []"
    and "plain_CarStatusUpdate x" "CHR 0x23 \<notin> set uri"
    and "\<And>c. parked s (csu_carPlate x) = Some c \<Longrightarrow>
      payable_of (m_untils s) (stay (env_libc env) (env_now env) c) = Inr payable"
    and "lot_leave (csu_carPlate x) (lot_of s) = (l', d)"
    and "departure_response (m_untils s) payable d = Inr resp" "utf8_CarStatusUpdateResponse resp"
  shows "\<exists>b s' t. j_dump (to_json_CarStatusUpdate x) = Inr b \<and>
    serve env uri (AddBase r b mt_CALL ActionCarStatusUpdate []) ws s mm = (s', mm, Inr (Some (uri, t))) \<and>
    lot_of s' = l' \<and> response_id t = Inr (call_id r) \<and>
    read_response from_json_CarStatusUpdateResponse t = Inr resp"
proof -
  obtain b where b: "j_dump (to_json_CarStatusUpdate x) = Inr b" "CHR 0x23 \<notin> set b"
    using plain_dump_CarStatusUpdate [OF assms(4)] by blast
  have ref: "lot_of (fst (exit_car (env_libc env) (env_now env) x s)) = l'"
    "snd (exit_car (env_libc env) (env_now env) x s) = Inr resp"
    using exit_car_refines [OF assms(1,2), of x "env_libc env" "env_now env" payable] assms(6-8) by auto
  from leaving_served [OF b(1) ref(2) assms(9), of uri r "[]"] obtain t where
    t: "handle_call env s \<lparr>ws_uri = uri, ws_type = ''Server'', ws_payload = AddBase r b mt_CALL ActionCarStatusUpdate []\<rparr> =
      (fst (exit_car (env_libc env) (env_now env) x s), Inr (Some t))" "response_id t = Inr (call_id r)"
      "read_response from_json_CarStatusUpdateResponse t = Inr resp" by auto
  from serve_answer [OF assms(5) b(2) hash_notin_actions(3) assms(3) t(1)] b(1) ref t(2,3) show ?thesis by blast
qed

theorem leaving_exchange_witness:
  "\<exists>b s' t. j_dump (to_json_CarStatusUpdate demo_exit) = Inr b \<and>
    serve demo_evening ''g'' (AddBase 7 b mt_CALL ActionCarStatusUpdate []) demo_ws demo_inside MessageManager_new =
      (s', MessageManager_new, Inr (Some (''g'', t))) \<and>
    lot_of s' = \<lparr>free_normal = 20, free_handicap = 5, normal_capacity = 20, open_gates = {''EntGate1''},
      places = [''A1'' \<mapsto> LeftPlace]\<rparr> \<and>
    response_id t = Inr (call_id 7) \<and> read_response from_json_CarStatusUpdateResponse t = Inr demo_bill"
  by (rule leaving_exchange [OF demo_inside_inv _ _ demo_exit_plain _ _ demo_leave demo_departure demo_bill_utf8])
    (simp_all add: demo_inside_parked demo_inside_simps demo_stay demo_payable MessageManager_new_def)

text \<open>
  C3. A gate registering. The answer is Reject unless the gate type is 0 or 1, Accept exactly when
  the name was not yet in the list of that type, and otherwise Exist; the lists of gates grow by the
  name, and nothing else of the server changes.
\<close>

theorem registration_exchange:
  fixes x :: GateRegistration
  assumes "ocppCALLMessageQueue mm = []" "plain_GateRegistration x" "CHR 0x23 \<notin> set uri"
  shows "\<exists>b s' t res. j_dump (to_json_GateRegistration x) = Inr b \<and>
    serve env uri (AddBase r b mt_CALL ActionGateRegistration []) ws s mm = (s', mm, Inr (Some (uri, t))) \<and>
    response_id t = Inr (call_id r) \<and>
    read_response from_json_GateRegistrationResponse t = Inr \<lparr>grr_result = res\<rparr> \<and>
    (let ty = gate_type_of (gr_gateType x); n = gr_gateName x in
      (res = RS_Reject \<longleftrightarrow> ty \<notin> {GT_Enterence, GT_Exiting}) \<and>
      (res = RS_Accept \<longleftrightarrow> ty = GT_Enterence \<and> n \<notin> m_EnternceGates s \<or> ty = GT_Exiting \<and> n \<notin> m_exitingGates s) \<and>
      m_EnternceGates s' = m_EnternceGates s \<union> (if ty = GT_Enterence then {n} else {}) \<and>
      m_exitingGates s' = m_exitingGates s \<union> (if ty = GT_Exiting then {n} else {}) \<and>
      s'\<lparr>m_EnternceGates := m_EnternceGates s, m_exitingGates := m_exitingGates s\<rparr> = s)"
proof -
  obtain b where b: "j_dump (to_json_GateRegistration x) = Inr b" "CHR 0x23 \<notin> set b"
    using plain_dump_GateRegistration [OF assms(2)] by blast
  let ?g = "register_gate (gr_gateName x) (gate_type_of (gr_gateType x)) s"
  from registration_served [OF b(1), of env s uri r "[]"] obtain t where
    t: "handle_call env s \<lparr>ws_uri = uri, ws_type = ''Server'', ws_payload = AddBase r b mt_CALL ActionGateRegistration []\<rparr> =
      (fst ?g, Inr (Some t))" "response_id t = Inr (call_id r)"
      "read_response from_json_GateRegistrationResponse t = Inr \<lparr>grr_result = snd ?g\<rparr>" by blast
  note served = serve_answer [OF assms(3) b(2) hash_notin_actions(1) assms(1) t(1), of ws]
  show ?thesis
    by (rule exI [of _ b], rule exI [of _ "fst ?g"], rule exI [of _ t], rule exI [of _ "snd ?g"])
      (use b(1) served t(2,3) in \<open>auto simp: register_gate_def Let_def result_defs gate_type_defs\<close>)
qed

theorem registration_exchange_witness:
  "\<exists>b s' t res. j_dump (to_json_GateRegistration demo_registration) = Inr b \<and>
    serve demo_env ''g'' (AddBase 7 b mt_CALL ActionGateRegistration []) demo_ws demo_server MessageManager_new =
      (s', MessageManager_new, Inr (Some (''g'', t))) \<and>
    read_response from_json_GateRegistrationResponse t = Inr \<lparr>grr_result = RS_Accept\<rparr> \<and>
    m_EnternceGates s' = {''EntGate1''}"
proof -
  have "gate_type_of (gr_gateType demo_registration) = 0" by code_simp
  with registration_exchange [OF _ demo_registration_plain, of MessageManager_new "''g''" demo_env 7 demo_ws demo_server]
  show ?thesis by (auto simp: MessageManager_new_def demo_registration_def gate_type_defs Let_def demo_server_def)
qed

text \<open>
  C4. From the driver to the server and back. CarRegistration of an entrance gate, when the server's
  answer arrives before the first poll, returns success with the welcome text exactly when the
  specification gives a slot, and failure with no text otherwise; its queue of responses is as
  before and the network problem flag is cleared.
\<close>

theorem car_registration_round_trip:
  assumes "lot_inv s" "counters_small s" "ocppCALLMessageQueue mm = []" "CHR 0x23 \<notin> set uri"
    and "m_GateType g = GT_Enterence" "plain_CarEnterence (gate_entry now plate handicap g)"
    and "lot_enter (m_GateName g) plate handicap (lot_of s) = (l', a)"
    and "utf8_CarEnterenceResponse (admission_response (m_untils s) (gate_entry now plate handicap g) a)"
    and "client_SendMessage (x_attempts x)" "ocppCALLRESULTMessageQueue gm = []"
  shows "\<exists>request s' t. serve env uri request ws s mm = (s', mm, Inr (Some (uri, t))) \<and> lot_of s' = l' \<and>
    CarRegistration (x\<lparr>x_polls := [([\<lparr>ws_uri = c, ws_type = ''Client'', ws_payload = t\<rparr>], t1)]\<rparr>) now plate handicap g gm =
      (g\<lparr>m_NetworkProblem := False\<rparr>, gm,
       Inr (Some (gate_told (m_untils s) (gate_entry now plate handicap g) a)))"
proof -
  let ?e = "gate_entry now plate handicap g" and ?x = "\<lambda>t. x\<lparr>x_polls := [([\<lparr>ws_uri = c, ws_type = ''Client'', ws_payload = t\<rparr>], t1)]\<rparr>"
  obtain b where b: "j_dump (to_json_CarEnterence ?e) = Inr b" "CHR 0x23 \<notin> set b"
    using plain_dump_CarEnterence [OF assms(6)] by blast
  have ref: "lot_of (fst (enter_car (env_random env) ?e s)) = l'"
    "snd (enter_car (env_random env) ?e s) = admission_response (m_untils s) ?e a"
    using enter_car_refines [OF assms(1,2), of "env_random env" ?e] assms(7)
    by (simp_all add: gate_entry_simps)
  from entering_served [OF b(1), of env s uri "x_random x" "[]"] assms(8) ref(2) obtain t where
    t: "handle_call env s \<lparr>ws_uri = uri, ws_type = ''Server'', ws_payload = AddBase (x_random x) b mt_CALL ActionCarEnterence []\<rparr> =
      (fst (enter_car (env_random env) ?e s), Inr (Some t))" "response_id t = Inr (call_id (x_random x))"
      "read_response from_json_CarEnterenceResponse t = Inr (admission_response (m_untils s) ?e a)" by auto
  have "call_server (?x t) ActionCarEnterence (to_json_CarEnterence ?e) from_json_CarEnterenceResponse (RV_FAILED, []) entering_answer g gm =
      (case entering_answer (admission_response (m_untils s) ?e a) (g\<lparr>m_NetworkProblem := False\<rparr>) of (g', r) \<Rightarrow> (g', gm, Inr (Some r)))"
    using t(2,3) assms(9,10) ce.dump_no_nul [OF b(1)]
    by (intro call_server_reply [OF b(1), where m = "\<lparr>ws_uri = c, ws_type = ''Client'', ws_payload = t\<rparr>"]) simp_all
  moreover have "entering_answer (admission_response (m_untils s) ?e a) g' = (g', gate_told (m_untils s) ?e a)" for g'
    by (cases a) (auto simp: entering_answer_def result_defs)
  ultimately have "CarRegistration (?x t) now plate handicap g gm = (g\<lparr>m_NetworkProblem := False\<rparr>, gm,
       Inr (Some (gate_told (m_untils s) ?e a)))"
    using assms(5) by (simp add: CarRegistration_def gate_entry_def)
  with serve_answer [OF assms(4) b(2) hash_notin_actions(2) assms(3) t(1)] ref(1) show ?thesis by blast
qed

theorem car_registration_round_trip_witness:
  "\<exists>request s' t. serve demo_env ''g'' request demo_ws demo_open MessageManager_new = (s', MessageManager_new, Inr (Some (''g'', t))) \<and>
    lot_of s' = \<lparr>free_normal = 19, free_handicap = 5, normal_capacity = 20, open_gates = {''EntGate1''},
      places = [''A1'' \<mapsto> NormalPlace]\<rparr> \<and>
    CarRegistration (demo_gate_env\<lparr>x_polls := [([\<lparr>ws_uri = ''g'', ws_type = ''Client'', ws_payload = t\<rparr>], 0)]\<rparr>)
        1656756000 ''A1'' False demo_gate MessageManager_new =
      (demo_gate\<lparr>m_NetworkProblem := False\<rparr>, MessageManager_new,
       Inr (Some (gate_told (m_untils demo_open) (gate_entry 1656756000 ''A1'' False demo_gate) (Slot 20))))"
  by (rule car_registration_round_trip [OF demo_open_inv(1,3) _ _ _ _ demo_gate_enter _ demo_gate_sends])
    (simp_all add: demo_gate_entry demo_entry_plain demo_answer demo_open_utils MessageManager_new_def
      del: admission_response.simps, simp add: demo_gate_def)

text \<open>
  C5. From a gate to the parking lot and back, over the whole stack, and over transports that cut
  the bytes of either direction anywhere. The connection WebSocketClient::Connect makes is accepted
  by an endpoint whose handler thread is idle; the handshake opens both sessions and registers the
  handle under the uri of the gate; a call the gate sends as a text goes through frames, the
  on_message handler, the queue and the handler of its action; and what that answers is sent on the
  registered handle, and is what the gate finds in its queue of responses, its status being open.
  (The uri and the text hold no '#', at which the queue cuts, and both texts are UTF-8.) On the way
  the process makes steps of its threads only.
\<close>

theorem gate_is_served:
  assumes gate: "good_host host" "good_id gid" "0 < port" "port < 65536" "CHR 0x23 \<notin> set gid"
      "c_url wc = ''ws://'' @ host @ '':'' @ to_string (int port)" "c_id wc = gid" "client_connection wc rng = Some con"
      "client_on_open True wc gshm = (wc', Inr gshm')"
    and connecting: "g = step (Written A_send_request None) (step (Initialized None) (handle_connect None con))" "concat cs = text_of (concat (ss_written g))"
      "length host + length gid + 3 * length cs \<le> 15000"
      "s = step (Written A_write_response None) (fst (transfer A_read_handshake cs (reach True rng' (uri_parse []) [])))"
      "concat ds = text_of (concat (ss_written s))" "3 * length ds \<le> 15000" "transfer A_read_response ds g = (g1, ds')"
      "g2 = fst (transfer A_read_frame ds' g1)"
    and server: "host_sessions H h = None" "handler_on (host_server H)" "ocppCALLMessageQueue (mailbox (host_server H)) = []"
      "m_connections (endpoint (host_server H)) (''/'' @ gid) = None"
      "on_open True (''/'' @ gid) h (endpoint (host_server H)) (shared (host_server H)) = (ws, Inr shm)"
    and call: "p = AddBase r b mt_CALL A []" "CHR 0x23 \<notin> set p" "utf8_valid p" "length p \<le> max_message_size"
      "concat es = text_of (last (ss_written (say p g2)))"
    and answer: "handle_call env (park (host_server H)) \<lparr>ws_uri = ''/'' @ gid, ws_type = ''Server'', ws_payload = p\<rparr> = (park', Inr (Some t))"
      "utf8_valid t" "length t \<le> max_message_size" "CHR 0x23 \<notin> set t" "t \<noteq> []" "payload_kind t = CALLRESULT_str"
      "concat fs = text_of (last (ss_written (say t (fst (transfer A_read_frame es s)))))"
  shows "tell_client True (ss_calls (fst (transfer A_read_frame fs (say p g2)))) (wc, gshm, gmm) =
      Inr (wc\<lparr>c_status := OPEN, c_message := t\<rparr>, gshm',
        push_result \<lparr>ws_uri = gid, ws_type = (if c_IsLC wc then ''LC'' else ''Client''), ws_payload = t\<rparr> gmm) \<and>
    (\<exists>H'. host_run H H' \<and> park (host_server H') = park' \<and> host_sessions H' h = Some (say t (fst (transfer A_read_frame es s))) \<and>
      delivered (host_server H') = delivered (host_server H) @ [(h, t)] \<and>
      m_connections (endpoint (host_server H')) (''/'' @ gid) = Some h)"
proof -
  have g: "g = gate_session host port gid rng"
    using client_connected [OF gate(1-4,6,7)] gate(8) connecting(1) by (simp add: gate_session_def reach_def handle_connect_def)
  obtain req where s: "send_http_request user_agent (uri_parse (gate_url host port gid)) [''PMS''] rng = Inr req"
    "m_uri (m_request s) = ''/'' @ gid" "ss_calls s = [Call_open]"
    "ss_written s = [bytes_of (response_raw (switching (get_header ''Sec-WebSocket-Key'' req)))]"
    "talks True s" "cn_processor (ss_con s) = hybi13_new True max_message_size"
    "cn_pending (ss_con (fst (transfer A_read_handshake cs (reach True rng' (uri_parse []) [])))) = [A_timer Open_handshake, A_write_response]"
    "ss_calls (fst (transfer A_read_handshake cs (reach True rng' (uri_parse []) []))) = []"
    using answer_written [OF gate(1-4) connecting(2) [unfolded g] connecting(3,4)] by blast
  have "concat ds = text_of (bytes_of (response_raw (switching (get_header ''Sec-WebSocket-Key'' req))) @ wire True [])"
    using connecting(5) by (simp add: s(4) wire_def)
  from answer_read [OF s(1) this connecting(6), of "[]", OF _ _ connecting(7) [unfolded g]]
  have g2: "ss_calls g2 = [Call_open]" "talks False g2" "cn_processor (ss_con g2) = hybi13_new False max_message_size"
    by (simp_all add: connecting(8))
  note hs = exchanged [OF g2(2,3) s(5,6) call(3,4) answer(2,3) call(5) answer(7)]
  from client_hears [OF gate(9) _ answer(4-6)] gate(5,7) hs(1) g2(1)
  have "tell_client True (ss_calls (fst (transfer A_read_frame fs (say p g2)))) (wc, gshm, gmm) =
      Inr (wc\<lparr>c_status := OPEN, c_message := t\<rparr>, gshm',
        push_result \<lparr>ws_uri = gid, ws_type = (if c_IsLC wc then ''LC'' else ''Client''), ws_payload = t\<rparr> gmm)" by simp
  moreover let ?\<sigma> = "(host_server H)\<lparr>endpoint := ws, shared := shm\<rparr>"
  have c: "host_run H (with_session h s ?\<sigma> H)" "good_session s"
    using gate_connects [OF server(1), where cs = cs and rng = rng' and sem = True and ws = ws and shm = shm] s server(5) connecting(4) by simp_all
  have ws: "m_connections ws (''/'' @ gid) = Some h" using server(4,5) by (auto simp: on_open_def)
  obtain \<sigma> where "host_run (with_session h s ?\<sigma> H) (with_session h (say t (fst (transfer A_read_frame es s))) \<sigma> (with_session h s ?\<sigma> H))"
    "park \<sigma> = park'" "delivered \<sigma> = delivered (host_server H) @ [(h, t)]" "m_connections (endpoint \<sigma>) = m_connections ws"
    using call_answered [OF refl call(1), of "with_session h s ?\<sigma> H" h s es env park' t] c(2) s gate(5) call(2) hs(2-4) answer(1,2) server(2,3) ws by auto
  with host_run_trans [OF this(1) c(1)] ws have "\<exists>H'. host_run H H' \<and> park (host_server H') = park' \<and>
      host_sessions H' h = Some (say t (fst (transfer A_read_frame es s))) \<and>
      delivered (host_server H') = delivered (host_server H) @ [(h, t)] \<and> m_connections (endpoint (host_server H')) (''/'' @ gid) = Some h"
    by (intro exI [of _ "with_session h (say t (fst (transfer A_read_frame es s))) \<sigma> H"]) simp
  ultimately show ?thesis by blast
qed

theorem gate_is_served_witness:
  "\<exists>H0 H t wc' shm gmm. host_start (Some demo_ini) = Inr H0 \<and> host_run H0 H \<and> park (host_server H) = demo_open \<and>
    delivered (host_server H) = [(0, t)] \<and> c_status wc' = OPEN \<and>
    (\<exists>g fs. tell_client True (ss_calls (fst (transfer A_read_frame fs g))) (demo_client, C_BoostShmObj_new, MessageManager_new) =
      Inr (wc', shm, push_result \<lparr>ws_uri = ''Gate1'', ws_type = ''LC'', ws_payload = t\<rparr> gmm))"
proof -
  obtain H0 where H0: "host_start (Some demo_ini) = Inr H0" "park (host_server H0) = demo_server" "mailbox (host_server H0) = MessageManager_new"
    "handler_on (host_server H0)" "delivered (host_server H0) = []" "host_sessions H0 = Map.empty"
    "m_connections (endpoint (host_server H0)) = Map.empty" "shm_inv (shared (host_server H0))" using demo_host by blast
  obtain ws shm where o: "on_open True ''/Gate1'' 0 (endpoint (host_server H0)) (shared (host_server H0)) = (ws, Inr shm)"
    using demo_opens [OF H0(8)] by blast
  obtain p b where p: "p = AddBase 7 b mt_CALL ActionGateRegistration []" "j_dump (to_json_GateRegistration demo_registration) = Inr b"
    "CHR 0x23 \<notin> set p" "utf8_valid p" "length p \<le> max_message_size" using demo_call by blast
  obtain t where t: "handle_call demo_env demo_server \<lparr>ws_uri = ''/Gate1'', ws_type = ''Server'', ws_payload = p\<rparr> = (demo_open, Inr (Some t))"
    "utf8_valid t" "length t \<le> max_message_size" "CHR 0x23 \<notin> set t" "t \<noteq> []" "payload_kind t = CALLRESULT_str"
    using demo_registration_answer [OF p(2)] p(1) by blast
  obtain wc' gshm' where c: "client_on_open True demo_client C_BoostShmObj_new = (wc', Inr gshm')" using demo_client_opens by blast
  obtain con where con: "client_connection demo_client (\<lambda>i. 7) = Some con" "c_id demo_client = ''Gate1''" "c_IsLC demo_client"
    "c_url demo_client = ''ws://'' @ ''127.0.0.1'' @ '':'' @ to_string (int 1884)" using demo_client_connection by blast
  obtain g cs where g: "g = step (Written A_send_request None) (step (Initialized None) (handle_connect None con))"
    "cs = [text_of (concat (ss_written g))]" by simp
  obtain s ds where s: "s = step (Written A_write_response None) (fst (transfer A_read_handshake cs (reach True (\<lambda>i. 0) (uri_parse []) [])))"
    "ds = [text_of (concat (ss_written s))]" by simp
  obtain g1 ds' where d: "transfer A_read_response ds g = (g1, ds')" by (rule prod.exhaust)
  obtain es where es: "es = [text_of (last (ss_written (say p (fst (transfer A_read_frame ds' g1)))))]" by simp
  obtain fs where fs: "fs = [text_of (last (ss_written (say t (fst (transfer A_read_frame es s)))))]" by simp
  have e: "concat cs = text_of (concat (ss_written g))" "concat ds = text_of (concat (ss_written s))"
    "concat es = text_of (last (ss_written (say p (fst (transfer A_read_frame ds' g1)))))"
    "concat fs = text_of (last (ss_written (say t (fst (transfer A_read_frame es s)))))" by (simp_all only: g(2) s(2) es fs concat.simps append_Nil2)
  have l: "length ''127.0.0.1'' + length ''Gate1'' + 3 * length cs \<le> 15000" "3 * length ds \<le> 15000" by (simp_all add: g(2) s(2))
  have h: "handle_call demo_env (park (host_server H0)) \<lparr>ws_uri = ''/'' @ ''Gate1'', ws_type = ''Server'', ws_payload = p\<rparr> = (demo_open, Inr (Some t))"
    "on_open True (''/'' @ ''Gate1'') 0 (endpoint (host_server H0)) (shared (host_server H0)) = (ws, Inr shm)"
    "host_sessions H0 0 = None" "ocppCALLMessageQueue (mailbox (host_server H0)) = []" "m_connections (endpoint (host_server H0)) (''/'' @ ''Gate1'') = None"
    using H0 t(1) o by (simp_all add: MessageManager_new_def)
  have w: "c_status (w\<lparr>c_status := x, c_message := y\<rparr>) = x" for w :: WebSocketClient and x y by simp
  note served = gate_is_served [OF demo_gate_names(1,2) _ _ demo_gate_names(3) con(4,2,1) c g(1) e(1) l(1) s(1) e(2) l(2) d refl h(3) H0(4) h(4,5,2) p(1,3-5)
      e(3) h(1) t(2-6) e(4), of MessageManager_new]
  from served obtain H where "host_run H0 H" "park (host_server H) = demo_open" "delivered (host_server H) = delivered (host_server H0) @ [(0, t)]"
    by auto
  with served H0(1,5) con(3) w show ?thesis
    by (intro exI [of _ H0] exI [of _ H] exI [of _ t] exI [of _ "demo_client\<lparr>c_status := OPEN, c_message := t\<rparr>"] exI [of _ gshm']
        exI [of _ MessageManager_new] conjI exI [of _ "say p (fst (transfer A_read_frame ds' g1))"] exI [of _ fs]) simp_all
qed

subsection \<open>Runs of the server\<close>

text \<open>
  C6. Every run of the server's threads, from its start and in every interleaving of opened and
  closed connections, messages, turns of the handler and of the watcher: the capacity is as
  configured, free normal slots and normal cars together never exceed it, each parked car is filed
  under its plate and came by a registered gate, and only calls from the websocket server are
  queued.
\<close>

theorem server_keeps_lot:
  assumes "server_start loaded = Inr \<sigma>0" "server_run \<sigma>0 \<sigma>"
  shows "m_NormalSlotMax (park \<sigma>) = m_NormalSlotMax (park \<sigma>0) \<and>
    unat (m_NormalSlotCount (park \<sigma>)) + card (normal_cars (park \<sigma>)) \<le> unat (m_NormalSlotMax (park \<sigma>0)) \<and>
    (\<forall>p c. parked (park \<sigma>) p = Some c \<longrightarrow> m_Plate c = p \<and> m_EnterenceGate c \<in> m_EnternceGates (park \<sigma>)) \<and>
    (\<forall>m\<in>set (ocppCALLMessageQueue (mailbox \<sigma>)). ws_type m = ''Server'') \<and>
    m_status (endpoint \<sigma>) \<in> {INIT, OPEN, CLOSE}"
  using server_inv_run [OF assms(2) server_inv_start [OF assms(1)]] capacity_run [OF assms(2)]
  by (simp add: server_inv_def lot_inv_def)

theorem server_keeps_lot_witness:
  "\<exists>\<sigma>0 \<sigma>. server_start (Some demo_ini) = Inr \<sigma>0 \<and> server_run \<sigma>0 \<sigma> \<and> ''EntGate1'' \<in> m_EnternceGates (park \<sigma>) \<and>
    m_NormalSlotMax (park \<sigma>) = m_NormalSlotMax (park \<sigma>0) \<and>
    unat (m_NormalSlotCount (park \<sigma>)) + card (normal_cars (park \<sigma>)) \<le> unat (m_NormalSlotMax (park \<sigma>0))"
proof -
  obtain \<sigma>0 \<sigma> where run: "server_start (Some demo_ini) = Inr \<sigma>0" "server_run \<sigma>0 \<sigma>" "park \<sigma> = demo_open"
    using demo_run by blast
  with server_keeps_lot [OF run(1,2)] show ?thesis by (intro exI [of _ \<sigma>0] exI [of _ \<sigma>]) (simp add: demo_open)
qed

text \<open>
  C7. In every run of the process with its connections, from its start and in every interleaving of
  the sessions with the threads of the server: what happens to the server is a run of its threads;
  every handle registered under a uri is the one of a session with that uri in its request, whose
  open handler was called and whose close handler was not; and every text that was delivered went to
  a session whose uri is the one a message came from, as far as that goes before the first '#'.
\<close>

theorem answers_reach_open_connections:
  assumes "host_start loaded = Inr H0" "host_run H0 H"
  shows "server_run (host_server H0) (host_server H) \<and>
    (\<forall>u h. m_connections (endpoint (host_server H)) u = Some h \<longrightarrow>
      (\<exists>s. host_sessions H h = Some s \<and> Call_open \<in> set (ss_calls s) \<and> Call_close \<notin> set (ss_calls s) \<and> m_uri (m_request s) = u)) \<and>
    (\<forall>h t. (h, t) \<in> set (delivered (host_server H)) \<longrightarrow>
      (\<exists>s h' s' m. host_sessions H h = Some s \<and> Call_open \<in> set (ss_calls s) \<and>
        host_sessions H h' = Some s' \<and> Call_message m \<in> set (ss_calls s') \<and>
        takeWhile (\<lambda>c. c \<noteq> CHR 0x23) (m_uri (m_request s')) = m_uri (m_request s)))"
proof -
  have inv: "host_inv H" using host_inv_run [OF assms(2) host_inv_start [OF assms(1)]] .
  show ?thesis
    by (intro conjI allI impI host_run_server [OF assms(2)] registered_live [OF inv] delivered_answers [OF inv]) assumption+
qed

theorem answers_reach_open_connections_witness:
  "\<exists>(H :: host) s. host_sessions H 0 = Some s \<and> m_connections (endpoint (host_server H)) ''/Gate1'' = Some 0 \<and>
    Call_open \<in> set (ss_calls s) \<and> Call_close \<notin> set (ss_calls s)"
proof -
  obtain H0 H s where H: "host_start (Some demo_ini) = Inr H0" "host_run H0 H" "host_sessions H 0 = Some s"
    "m_connections (endpoint (host_server H)) ''/Gate1'' = Some 0" using demo_connected by blast
  from answers_reach_open_connections [OF H(1,2), THEN conjunct2, THEN conjunct1, rule_format, OF H(4)] H(4) show ?thesis by blast
qed

text \<open>
  C8. As long as no plate that is inside in a normal slot enters again, no normal slot is lost: the
  free ones and the cars in them always add up to the capacity.
\<close>

theorem no_slot_lost:
  assumes "ParkManagerServer_new loaded = Inr s" "calm_run s s'"
  shows "unat (m_NormalSlotCount s') + card (normal_cars s') = unat (m_NormalSlotMax s')"
  using calm_run_exact [OF assms(2) lot_inv_new [OF assms(1)] exact_new [OF assms(1)]] by (simp add: exact_def)

theorem no_slot_lost_witness:
  "let s' = fst (enter_car 42 demo_entry demo_open)
   in unat (m_NormalSlotCount s') + card (normal_cars s') = unat (m_NormalSlotMax s')"
  using no_slot_lost [OF demo_server_new demo_calm] by (simp only: Let_def)

text \<open>
  C9. A call that any connection sends is queued as it is, and when it is the first one, the next
  turn of the handler thread reads requestItems past its end exactly when the text has fewer than
  three comma-separated items, whatever the turn meets outside. That is undefined behaviour, after
  which nothing is claimed of the server: no step of the model leads on from it.
\<close>

theorem short_call_reads_past_its_items:
  assumes "handler_on \<sigma>" "ocppCALLMessageQueue (mailbox \<sigma>) = []"
    and "CHR 0x23 \<notin> set uri" "CHR 0x23 \<notin> set p" "p \<noteq> []" "payload_kind p = CALL_str"
    and \<sigma>': "\<sigma>' = \<sigma>\<lparr>endpoint := (endpoint \<sigma>)\<lparr>m_websocketMessage := p\<rparr>,
      mailbox := push_call \<lparr>ws_uri = uri, ws_type = ''Server'', ws_payload = p\<rparr> (mailbox \<sigma>)\<rparr>"
  shows "server_step \<sigma> \<sigma>' \<and>
    (snd (snd (GateHanlder_turn env (park \<sigma>') (mailbox \<sigma>'))) = Inl UB_index \<longleftrightarrow> length (split_on (CHR '','') p) < 3) \<and>
    (length (split_on (CHR '','') p) < 3 \<longrightarrow> server_undefined \<sigma>' UB_index)"
proof -
  have "on_message uri p (endpoint \<sigma>) (mailbox \<sigma>) = (endpoint \<sigma>', Inr (mailbox \<sigma>'))"
    using assms(3-6) by (simp add: on_message_def AddMessage_raw \<sigma>' Let_def)
  from message_arrived [OF this] have "server_step \<sigma> \<sigma>'" by (simp add: \<sigma>')
  moreover have over: "snd (snd (GateHanlder_turn e (park \<sigma>') (mailbox \<sigma>'))) = Inl UB_index \<longleftrightarrow>
      length (split_on (CHR '','') p) < 3" for e
    using assms(2) by (simp add: handler_overread \<sigma>')
  moreover have "server_undefined \<sigma>' UB_index" if "length (split_on (CHR '','') p) < 3"
  proof -
    obtain s mm r where t: "GateHanlder_turn env (park \<sigma>') (mailbox \<sigma>') = (s, mm, r)" by (metis surj_pair)
    with over [of env] that have "r = Inl UB_index" by simp
    with t handler_undefined [of \<sigma>' env s mm UB_index] assms(1) show ?thesis by (simp add: \<sigma>')
  qed
  ultimately show ?thesis by simp
qed

theorem short_call_reads_past_its_items_witness:
  "snd (snd (GateHanlder_turn demo_env demo_open (push_call \<lparr>ws_uri = ''/g'', ws_type = ''Server'', ws_payload = ''[0,\"7\"]''\<rparr> MessageManager_new))) =
     Inl UB_index"
proof -
  have "payload_kind ''[0,\"7\"]'' = CALL_str" "length (split_on (CHR '','') ''[0,\"7\"]'') < 3" by code_simp+
  with short_call_reads_past_its_items [OF _ _ _ _ _ _ refl, of demo_idle "''/g''" "''[0,\"7\"]''" demo_env] show ?thesis
    by (simp add: demo_idle_def MessageManager_new_def)
qed

text \<open>
  C10. A call with a known action whose body is no JSON throws the exception of json::parse out of
  GateHanlder, which std::async keeps in a future nobody asks: the handler thread ends, and in every
  later state of the server, whatever happens, no request is served any more. The lot stays as it
  is, nothing is sent, and the calls that arrive only pile up behind those that waited.
\<close>

theorem bad_body_stops_server:
  assumes "handler_on \<sigma>" "ocppCALLMessageQueue (mailbox \<sigma>) = m # ms"
    and "ws_type m = ''Server''" "3 \<le> length (split_on (CHR '','') (ws_payload m))"
    and "contains (split_on (CHR '','') (ws_payload m) ! 2) (quoted ActionGateRegistration) \<or>
      contains (split_on (CHR '','') (ws_payload m) ! 2) (quoted ActionCarStatusUpdate) \<or>
      contains (split_on (CHR '','') (ws_payload m) ! 2) (quoted ActionCarEnterence)"
    and "handleIncomingMsg (ws_payload m) mt_CALL = Inr (mid, b)" "json_parse b = Inl e"
  shows "GateHanlder_turn env (park \<sigma>) (mailbox \<sigma>) = (park \<sigma>, (mailbox \<sigma>)\<lparr>ocppCALLMessageQueue := ms\<rparr>, Inl e) \<and>
    is_std_exception e \<and>
    (\<exists>\<sigma>'. server_step \<sigma> \<sigma>' \<and> (\<forall>\<sigma>''. server_run \<sigma>' \<sigma>'' \<longrightarrow>
      \<not> handler_on \<sigma>'' \<and> park \<sigma>'' = park \<sigma> \<and> delivered \<sigma>'' = delivered \<sigma> \<and>
      prefix ms (ocppCALLMessageQueue (mailbox \<sigma>''))))"
proof -
  let ?\<sigma> = "\<sigma>\<lparr>mailbox := (mailbox \<sigma>)\<lparr>ocppCALLMessageQueue := ms\<rparr>, handler_on := False\<rparr>"
  note h = handle_call_bad_body [OF assms(3-7)] and e = json_parse_error [OF assms(7)]
  have "mailbox \<sigma> = (mailbox \<sigma>)\<lparr>ocppCALLMessageQueue := m # ms\<rparr>" using assms(2) by simp
  then have turn: "GateHanlder_turn env (park \<sigma>) (mailbox \<sigma>) = (park \<sigma>, (mailbox \<sigma>)\<lparr>ocppCALLMessageQueue := ms\<rparr>, Inl e)"
    using handler_turn_call [where mm = "mailbox \<sigma>" and m = m and ms = ms] h by simp
  have "halted_after ?\<sigma> \<sigma>''" if "server_run ?\<sigma> \<sigma>''" for \<sigma>'' by (rule halted_run [OF that]) simp
  with turn e bad_body_halts [OF assms(1,2) h e] show ?thesis
    by (intro conjI exI [of _ ?\<sigma>]) (simp_all add: halted_after_def)
qed

theorem bad_body_stops_server_witness:
  "\<exists>\<sigma>'. server_step demo_stuck \<sigma>' \<and> (\<forall>\<sigma>''. server_run \<sigma>' \<sigma>'' \<longrightarrow>
    \<not> handler_on \<sigma>'' \<and> park \<sigma>'' = park demo_stuck \<and> delivered \<sigma>'' = delivered demo_stuck \<and>
    prefix [] (ocppCALLMessageQueue (mailbox \<sigma>'')))"
proof -
  have "3 \<le> length (split_on (CHR '','') (ws_payload demo_broken_call))"
    "contains (split_on (CHR '','') (ws_payload demo_broken_call) ! 2) (quoted ActionGateRegistration)"
    "handleIncomingMsg (ws_payload demo_broken_call) mt_CALL = Inr (''\"7\"'', ''{'')"
    "json_parse ''{'' = Inl (Json_exception 101)" by code_simp+
  note call = this
  have "handler_on demo_stuck" "ocppCALLMessageQueue (mailbox demo_stuck) = demo_broken_call # []" "ws_type demo_broken_call = ''Server''"
    by (simp_all add: demo_stuck_def demo_idle_def demo_broken_call_def MessageManager_new_def)
  from bad_body_stops_server [OF this call(1) disjI1 [OF call(2)] call(3,4), THEN conjunct2, THEN conjunct2] show ?thesis .
qed

subsection \<open>JSON\<close>

text \<open>
  C11. Every document without floating-point numbers, with UTF-8 strings, numbers in 64 bits and the
  keys of its objects in order, is written as a text from which the parser reads the same document.
\<close>

theorem json_text_round_trip:
  assumes "wf_json v"
  shows "\<exists>s. dump df False v = Inr s \<and> json_parse s = Inr v"
  using assms by (rule dump_then_parse)

theorem json_text_round_trip_witness:
  "\<exists>s. dump (\<lambda>_. []) False demo_json = Inr s \<and> json_parse s = Inr demo_json"
  using demo_json_wf by (rule json_text_round_trip)

text \<open>
  C12. A string is written in quotes with its characters escaped exactly when it is well-formed
  UTF-8; otherwise the program gets type error 316. The 400-entry table of the decoder accepts
  exactly the byte sequences of RFC 3629.
\<close>

theorem dump_of_string:
  "dump df False (JString s) = (if utf8_valid s then Inr (quoted (esc_string s)) else Inl (Json_exception 316))"
  by (simp add: dump_escaped_eq quoted_def)

text \<open>
  C13. While a string is written, the bytes the next character adds to the 512-byte buffer fit into
  it, the NUL that snprintf appends included, with and without ensure_ascii.
\<close>

theorem dump_buffer_never_overflows:
  assumes "dump_loop ea dump_init s = Inr st"
  shows "length (string_buffer st) + length (dump_written ea (n, cp) c) + 1 \<le> 512"
proof -
  have "mode_inv ea dump_init" by (simp add: mode_inv_def dump_init_def)
  from dump_loop_inv [OF buffer_inv_init this assms] show ?thesis using dump_written_fits by blast
qed

theorem dump_buffer_never_overflows_witness:
  "\<exists>st. dump_loop True dump_init ''A'' = Inr st \<and>
    length (string_buffer st) + length (dump_written True (0, 0x1F600) (CHR 0x80)) + 1 \<le> 512"
proof -
  have "case dump_loop True dump_init ''A'' of Inr _ \<Rightarrow> True | Inl _ \<Rightarrow> False" by code_simp
  then obtain st where "dump_loop True dump_init ''A'' = Inr st" by (auto split: sum.splits)
  with dump_buffer_never_overflows [OF this] show ?thesis by blast
qed

text \<open>
  C14. The parser accepts exactly the texts whose tokens, up to the end of the input, are a sentence
  of the JSON grammar (value_of: scalars, arrays and objects with their commas and colons, no
  trailing commas, nothing behind the value), and returns the document of that sentence, with a
  repeated key given its last value. On every other text it ends with the library's parse error 101
  or, at a number too large for a double, out of range 406.
\<close>

theorem parser_is_the_grammar:
  "(json_parse s = Inr v \<longleftrightarrow> (\<exists>ts. lex_document s = (ts, end_of_input) \<and> value_of ts v)) \<and>
   (case json_parse s of Inr _ \<Rightarrow> True | Inl e \<Rightarrow> e = Json_exception 101 \<or> e = Json_exception 406)"
  using json_parse_iff [of s v] json_parse_exception [of s]
  by (auto simp: is_parser_exception_def split: sum.split)

subsection \<open>Billing\<close>

text \<open>
  C15. A car whose entering time is a stamp the gate wrote is billed, in every time zone without
  changes of offset: nothing up to the end of the free minutes, then the price per minute for the
  completed minutes beyond them, in binary64 arithmetic, rounded. The seconds are those that really
  went by when the two tm_isdst that GetTimeByString leaves uninitialised have the same effect;
  otherwise they are off by what mktime makes of a positive flag (dst; an hour in glibc).
\<close>

theorem stamped_stay_is_billed:
  assumes "tariff u f p" "m_EnterenceTime c = GetCurrentUTCTime t" "fixed_zone (lib_mktime lib) off dst"
    and "0 \<le> t" "t < end_of_9999" "0 \<le> now" "now < end_of_9999"
    and D: "D = now - t + dst_shift dst (stack_tm lib 1) - dst_shift dst (stack_tm lib 0)" and "price f p D \<le> int_max"
  shows "payable_of u (stay lib now c) = Inr (to_string (price f p D)) \<and>
    ((0 < tm_isdst (stack_tm lib 0) \<longleftrightarrow> 0 < tm_isdst (stack_tm lib 1)) \<longrightarrow> D = now - t)"
  using payable_price [OF assms(1,9)] stay_stamped [OF assms(2-7)] by (simp add: D dst_shift_def)

theorem stamped_stay_is_billed_witness:
  "payable_of demo_utils (stay (zone_libc 7200) (1656756000 + 2700) demo_car) = Inr (to_string (price 30 1 2700))"
  using demo_price
  by (intro stamped_stay_is_billed [OF demo_tariff _ zone_libc_fixed, THEN conjunct1])
    (simp_all add: demo_car_def end_of_9999_def int_max_def)

text \<open>
  C16. A longer stay never costs less, and no price is negative, in the rounded arithmetic of the
  program, for a tariff whose settings can be read and as long as the longer stay costs no more than
  an int holds.
\<close>

theorem longer_stay_costs_no_less:
  assumes "tariff u f p" "D \<le> D'" "price f p D' \<le> int_max"
  shows "\<exists>a b. payable_of u D = Inr (to_string a) \<and> payable_of u D' = Inr (to_string b) \<and> 0 \<le> a \<and> a \<le> b"
proof -
  have "0 \<le> p" using assms(1) by (simp add: tariff_def)
  note mono = price_mono [OF this assms(2), of f]
  have "0 \<le> price f p D"
  proof (cases "f * 60 < D")
    case True
    then have "0 \<le> D div 60 - f" by linarith
    with True \<open>0 \<le> p\<close> show ?thesis by (simp add: price_def amount_nonneg)
  qed (simp add: price_def)
  with mono payable_price [OF assms(1)] assms(3) show ?thesis
    by (intro exI [of _ "price f p D"] exI [of _ "price f p D'"]) auto
qed

theorem longer_stay_costs_no_less_witness:
  "\<exists>a b. payable_of demo_utils 2700 = Inr (to_string a) \<and> payable_of demo_utils 7200 = Inr (to_string b) \<and> 0 \<le> a \<and> a \<le> b"
  by (rule longer_stay_costs_no_less [OF demo_tariff]) (simp_all add: demo_price_long int_max_def)

subsection \<open>Stale entries and slot numbers\<close>

text \<open>
  C17. A car in a normal slot that has left keeps an entry whose pointer was moved away: the next
  exit call for its plate dereferences null.
\<close>

theorem second_exit_dereferences_null:
  assumes "parked s (csu_carPlate x) = Some c" "m_Handicap c \<noteq> HS_Yes"
    and "payable_of (m_untils s) (stay lib now c) = Inr payable"
  shows "is_ok (snd (exit_car lib now x s)) \<and>
    exit_car lib' now' x (fst (exit_car lib now x s)) = (fst (exit_car lib now x s), Inl UB_null)"
proof (rule conjI)
  show "is_ok (snd (exit_car lib now x s))"
    using assms(1,3) by (simp add: exit_car_def parked_Some Let_def stay_def)
qed (rule second_exit_null [OF assms])

theorem second_exit_dereferences_null_witness:
  "is_ok (snd (exit_car (env_libc demo_evening) (env_now demo_evening) demo_exit demo_inside)) \<and>
    exit_car (zone_libc 0) 0 demo_exit (fst (exit_car (env_libc demo_evening) (env_now demo_evening) demo_exit demo_inside)) =
      (fst (exit_car (env_libc demo_evening) (env_now demo_evening) demo_exit demo_inside), Inl UB_null)"
  by (rule second_exit_dereferences_null [OF _ _ demo_bill_text])
    (simp_all add: demo_inside_parked demo_car_def)

text \<open>
  C18. A car in a handicap slot stays registered when it leaves, so every further exit call for its
  plate frees one more slot, past the configured maximum.
\<close>

theorem handicap_exits_free_slots:
  assumes "parked s (csu_carPlate x) = Some c" "m_Handicap c = HS_Yes"
    and "\<forall>(lib, now)\<in>set turns. is_ok (payable_of (m_untils s) (stay lib now c))"
    and "unat (m_HandicapSlotCount s) + length turns < 2 ^ 32"
  shows "unat (m_HandicapSlotCount (exits x turns s)) = unat (m_HandicapSlotCount s) + length turns \<and>
    m_HandicapSlotMax (exits x turns s) = m_HandicapSlotMax s \<and>
    parked (exits x turns s) (csu_carPlate x) = Some c"
proof -
  have n: "unat (of_nat (length turns) :: 32 word) = length turns"
    using assms(4) by (simp add: unat_of_nat take_bit_eq_mod)
  have "unat (m_HandicapSlotCount s + of_nat (length turns)) = unat (m_HandicapSlotCount s) + length turns"
    using assms(4) n by (simp add: unat_word_ariths(1))
  with exits_handicap [OF assms(1-3)] assms(1) show ?thesis by (simp add: parked_def)
qed

theorem handicap_exits_free_slots_witness:
  "let s' = exits demo_handicap_exit (replicate 3 (zone_libc 7200, 1656758700)) demo_handicap
   in unat (m_HandicapSlotCount s') = 7 \<and> m_HandicapSlotMax s' = 5"
proof -
  have "parked demo_handicap (csu_carPlate demo_handicap_exit) = Some demo_handicap_car"
    by (simp add: parked_def demo_handicap_def demo_handicap_exit_def)
  from handicap_exits_free_slots [OF this, of "replicate 3 (zone_libc 7200, 1656758700)"] demo_handicap_stay
  show ?thesis by (simp add: Let_def demo_handicap_car_def demo_handicap_def demo_open demo_server_def is_ok_def)
qed

text \<open>
  C19. The slot number is the value of the counter of free slots: after a car has entered and
  another one has left, the next car is sent to the slot of the first, who is still inside.
\<close>

theorem slot_number_given_twice:
  fixes x :: CarEnterence and rnd :: nat
  assumes "ce_enterenceGate x \<in> m_EnternceGates s" "ce_handicap x \<noteq> HS_Yes" "m_NormalSlotCount s \<noteq> 0"
    and "parked s p = Some c" "m_Handicap c \<noteq> HS_Yes" "p \<noteq> ce_carPlate x" "h \<noteq> HS_Yes"
  shows "parked (fst (enter_car rnd x s)) p = Some c \<and>
    ce_carPlate x \<in> normal_cars (release_slot p c (fst (enter_car rnd x s))) \<and>
    fst (allocate_slot h (release_slot p c (fst (enter_car rnd x s)))) = fst (allocate_slot (ce_handicap x) s)"
  by (rule slot_number_reused [OF assms])

theorem slot_number_given_twice_witness:
  "parked (fst (enter_car 1 demo_second demo_inside)) ''A1'' = Some demo_car \<and>
    ''B2'' \<in> normal_cars (release_slot ''A1'' demo_car (fst (enter_car 1 demo_second demo_inside))) \<and>
    fst (allocate_slot HS_No (release_slot ''A1'' demo_car (fst (enter_car 1 demo_second demo_inside)))) =
      fst (allocate_slot HS_No demo_inside)"
  using slot_number_given_twice [of demo_second demo_inside "''A1''" demo_car HS_No 1]
  by (simp add: demo_second_def demo_entry_def demo_inside_def demo_open demo_server_def parked_def demo_car_def HS_Yes_def HS_No_def)

subsection \<open>Messages and queues\<close>

text \<open>
  C20. The envelope of a call gives back the body and the id, and a response made with that id
  carries it back in the form under which the waiting gate looks for it, whatever commas the bodies
  hold.
\<close>

theorem call_and_response_envelopes:
  assumes "CHR '','' \<notin> set Action"
  shows "handleIncomingMsg (AddBase r body mt_CALL Action []) mt_CALL = Inr (call_id r, body) \<and>
    handleIncomingMsg (AddBase r' answer mt_RESPOND [] (call_id r)) mt_RESPOND = Inr (quoted (call_id r), answer) \<and>
    response_id (AddBase r' answer mt_RESPOND [] (call_id r)) = Inr (call_id r)"
  using handleIncomingMsg_call [OF assms] handleIncomingMsg_respond [of "call_id r"] response_id_respond [of "call_id r"]
  by (simp add: call_id_def)

theorem call_and_response_envelopes_witness:
  "handleIncomingMsg (AddBase 7 ''{}'' mt_CALL ''A'' []) mt_CALL = Inr (call_id 7, ''{}'') \<and>
    handleIncomingMsg (AddBase 0 ''[1,2]'' mt_RESPOND [] (call_id 7)) mt_RESPOND = Inr (quoted (call_id 7), ''[1,2]'') \<and>
    response_id (AddBase 0 ''[1,2]'' mt_RESPOND [] (call_id 7)) = Inr (call_id 7)"
  by (rule call_and_response_envelopes) simp

text \<open>
  C21. If every response that is queued or arrives has an id, the wait for a response ends once a
  poll finds the clock five seconds after the start. It ends at the first poll that finds a response
  with the id: the first such response is taken out of the queue and its payload returned, all
  others stay in their order; or at the first poll that finds none and the five seconds over, with
  the empty string and every response still queued. The queue of calls is not touched.
\<close>

theorem wait_for_response_ends:
  assumes "\<forall>m\<in>set (ocppCALLRESULTMessageQueue mm). well_formed_result m"
    and "\<forall>(arrived, now)\<in>set polls. \<forall>m\<in>set arrived. well_formed_result m"
    and "\<exists>(arrived, now)\<in>set polls. t0 + GET_RESULT_TIMEOUT \<le> now"
  shows "\<exists>p mm' k. GetResponseMessage i t0 polls mm = Inr (Some (p, mm')) \<and> k < length polls \<and>
    (\<forall>j<k. snd (polls ! j) < t0 + GET_RESULT_TIMEOUT \<and> (\<forall>m\<in>set (arrived_by mm polls (Suc j)). \<not> has_id i m)) \<and>
    (if p = [] then
       t0 + GET_RESULT_TIMEOUT \<le> snd (polls ! k) \<and> (\<forall>m\<in>set (arrived_by mm polls (Suc k)). \<not> has_id i m) \<and>
       mm' = mm\<lparr>ocppCALLRESULTMessageQueue := arrived_by mm polls (Suc k)\<rparr>
     else
       (\<exists>q1 m q2. arrived_by mm polls (Suc k) = q1 @ m # q2 \<and> (\<forall>m'\<in>set q1. \<not> has_id i m') \<and> has_id i m \<and>
          p = ws_payload m \<and> mm' = mm\<lparr>ocppCALLRESULTMessageQueue := q1 @ q2\<rparr>))"
proof -
  from GetResponse_terminates [OF assms] obtain p mm' where
    r: "GetResponseMessage i t0 polls mm = Inr (Some (p, mm'))" by (metis surj_pair)
  from GetResponse_exact [OF r] obtain k where "k < length polls" "\<forall>j<k. poll_goes_on i t0 polls mm j"
    "poll_ends i t0 polls mm k p mm'" by blast
  with r show ?thesis
    unfolding poll_goes_on_def poll_ends_def by (intro exI [of _ p] exI [of _ mm'] exI [of _ k] conjI)
qed

theorem wait_for_response_ends_witness:
  "\<exists>p mm'. GetResponseMessage ''\"7\"'' 0 [([], 1), ([], 5)] demo_bad_mail = Inr (Some (p, mm'))"
proof -
  have "\<exists>(arrived, now)\<in>set [([] :: WSMessage list, 1), ([], 5)]. 0 + GET_RESULT_TIMEOUT \<le> now"
    by (simp add: GET_RESULT_TIMEOUT_def)
  moreover have "\<forall>(arrived, now)\<in>set [([] :: WSMessage list, 1), ([], 5)]. \<forall>m\<in>set arrived. well_formed_result m" by simp
  ultimately show ?thesis using wait_for_response_ends [OF demo_bad_mail_formed, of _ 0 "''\"7\"''"] by blast
qed

subsection \<open>Gates\<close>

text \<open>
  C22. Once a registration has succeeded, every later registration of that gate with a valid
  configuration succeeds without sending anything.
\<close>

theorem registration_is_remembered:
  assumes "GateRegistrationCall x g mm = (g', mm', Inr (Some RV_SUCCESS))" "m_ConfigValid (g_untils g)"
  shows "GateRegistrationCall y g' mm2 = (g', mm2, Inr (Some RV_SUCCESS))"
proof -
  have "m_GateType g' = m_GateType g \<and> is_registered g'"
    using registration_persisted [OF assms] .
  moreover have "m_GateType g \<noteq> GT_NotSet" using assms(1) by (auto simp: GateRegistrationCall_def RV_SUCCESS_def RV_FAILED_def)
  ultimately show ?thesis by (simp add: GateRegistrationCall_def)
qed

theorem registration_is_remembered_witness:
  "\<exists>x g'. GateRegistrationCall x demo_gate MessageManager_new = (g', MessageManager_new, Inr (Some RV_SUCCESS)) \<and>
    GateRegistrationCall demo_gate_env g' demo_bad_mail = (g', demo_bad_mail, Inr (Some RV_SUCCESS))"
proof -
  obtain x g' where call: "GateRegistrationCall x demo_gate MessageManager_new = (g', MessageManager_new, Inr (Some RV_SUCCESS))"
    using demo_gate_registers by blast
  moreover have "m_ConfigValid (g_untils demo_gate)" by (simp add: demo_gate_def utils_new_def)
  ultimately show ?thesis using registration_is_remembered [OF call, of demo_gate_env demo_bad_mail] by blast
qed

text \<open>
  C23. An exchange of a gate always ends, provided every response that is queued or arrives has an
  id: without an answer and the queues as they were, if the request cannot be handed over; with the
  first response that carries its id, as soon as a poll finds one; or without an answer once the
  five seconds are over and none has come. Exactly when there is no answer the network problem flag
  is raised that makes ConnectionHolder reconnect, and nothing else of the gate changes.
\<close>

theorem exchange_always_ends:
  assumes "CHR '','' \<notin> set A"
    and "\<forall>m\<in>set (ocppCALLRESULTMessageQueue mm). well_formed_result m"
    and "\<forall>(arrived, now)\<in>set (x_polls x). \<forall>m\<in>set arrived. well_formed_result m"
    and "\<exists>(arrived, now)\<in>set (x_polls x). x_start x + GET_RESULT_TIMEOUT \<le> now"
  shows "\<exists>p mm'. exchange x (AddBase (x_random x) b mt_CALL A []) g mm =
      (g\<lparr>m_NetworkProblem := (p = [])\<rparr>, mm', Inr (Some (if p = [] then No_reply else Reply p))) \<and>
    (if client_SendMessage (x_attempts x)
     then \<exists>k<length (x_polls x). (\<forall>j<k. poll_goes_on (call_id (x_random x)) (x_start x) (x_polls x) mm j) \<and>
       poll_ends (call_id (x_random x)) (x_start x) (x_polls x) mm k p mm'
     else p = [] \<and> mm' = mm)"
  unfolding call_id_def by (rule exchange_ends [OF assms])

theorem exchange_always_ends_witness:
  "\<exists>g' mm' r. exchange (demo_gate_env\<lparr>x_polls := [([], 5)]\<rparr>)
      (AddBase (x_random (demo_gate_env\<lparr>x_polls := [([], 5)]\<rparr>)) ''{}'' mt_CALL ActionCarEnterence []) demo_gate demo_bad_mail =
      (g', mm', Inr (Some r)) \<and> m_NetworkProblem g' \<and> r = No_reply"
proof -
  have none: "\<not> has_id (call_id 7) m" if "m \<in> set (arrived_by demo_bad_mail [([], 5)] k)" for m k
  proof -
    have "response_id ''[1,\"\"9\"\",{}]'' = Inr ''\"9\"''" "call_id 7 \<noteq> ''\"9\"''" by code_simp+
    with that show ?thesis by (auto simp: arrived_by_def demo_bad_mail_def MessageManager_new_def has_id_def take_Cons' split: if_splits)
  qed
  obtain p mm' where e: "exchange (demo_gate_env\<lparr>x_polls := [([], 5)]\<rparr>)
      (AddBase (x_random (demo_gate_env\<lparr>x_polls := [([], 5)]\<rparr>)) ''{}'' mt_CALL ActionCarEnterence []) demo_gate demo_bad_mail =
      (demo_gate\<lparr>m_NetworkProblem := (p = [])\<rparr>, mm', Inr (Some (if p = [] then No_reply else Reply p)))"
    and k: "\<exists>k<1. poll_ends (call_id 7) 0 [([], 5)] demo_bad_mail k p mm'"
    using exchange_always_ends [of ActionCarEnterence demo_bad_mail "demo_gate_env\<lparr>x_polls := [([], 5)]\<rparr>" "''{}''" demo_gate]
      demo_bad_mail_formed demo_gate_sends by (auto simp: GET_RESULT_TIMEOUT_def demo_gate_env_def)
  have "p = []"
  proof (rule ccontr)
    assume "p \<noteq> []"
    with k obtain q1 m q2 where "arrived_by demo_bad_mail [([], 5)] (Suc 0) = q1 @ m # q2" "has_id (call_id 7) m"
      by (auto simp: poll_ends_def)
    with none [of m "Suc 0"] show False by simp
  qed
  with e show ?thesis by simp
qed

subsection \<open>Stores\<close>

text \<open>
  C24. The array in shared memory, searched with strcmp and written with strncpy, is a finite map
  from names to values that fit: SetValue never leaves its memory; it stores the value, changing no
  other name, exactly when the name is in the table or fewer names than elements are, and otherwise,
  for a new name in a full table, reports failure and changes nothing.
\<close>

theorem shared_table_is_a_map:
  assumes "shm_inv shm" "ok_name k" "ok_value v" "ok_name k'"
  shows "\<exists>shm'. shm_inv shm' \<and> m_numberOfElements shm' = m_numberOfElements shm \<and>
    (if shm_get shm k \<noteq> None \<or> card (shm_names shm) < m_numberOfElements shm
     then SetValue True shm k v = Inr (SETVALUE_OK, shm') \<and> shm_get shm' k' = (if k = k' then Some v else shm_get shm k')
     else SetValue True shm k v = Inr (SETVALUE_FAIL, shm') \<and> shm' = shm)"
  by (rule SetValue_exact [OF assms])

theorem shared_table_is_a_map_witness:
  "\<exists>shm'. SetValue True C_BoostShmObj_new ''Speed'' ''42'' = Inr (SETVALUE_OK, shm') \<and> shm_get shm' ''Speed'' = Some ''42''"
proof -
  have "card (shm_names C_BoostShmObj_new) < m_numberOfElements C_BoostShmObj_new"
    by (simp add: C_BoostShmObj_new_def shm_names_new MAXNUMBER_OBJECTS_def)
  with shared_table_is_a_map [OF demo_shm demo_name(1,3,1)] show ?thesis by auto
qed

text \<open>
  C25. A setting written to a valid configuration is what reading it gives, under every spelling of
  its key that differs in the case of ASCII letters only, and no other setting changes.
\<close>

theorem setting_read_back:
  assumes "m_ConfigValid u" "c_string k" "c_string v" "c_string k'"
  shows "GetValueFromConfigFile (SetValueFromConfigFile u k v) k' =
    (if map locase k = map locase k' then v else GetValueFromConfigFile u k')"
  using GetValue_SetValue [OF assms] by (simp add: same_key_iff)

theorem setting_read_back_witness:
  "GetValueFromConfigFile (SetValueFromConfigFile demo_utils ''currency'' ''EUR'') ''Currency'' =
    (if map locase ''currency'' = map locase ''Currency'' then ''EUR'' else GetValueFromConfigFile demo_utils ''Currency'')"
  by (rule setting_read_back) (simp_all add: demo_utils_def utils_new_def c_string_def nul_def)

text \<open>
  C26. A setting that is written to the configuration file is there after a restart: for a file, a
  key and a value in the form the format can hold, what Save writes is loaded as a table from which
  every setting reads as it did in the running program, the new one and all others.
\<close>

theorem setting_survives_restart:
  assumes "good_file f" "good_key k" "good_value v"
  shows "GetValueFromConfigFile (utils_new path (map_option (\<lambda>f'. erase (m_data f'))
      (LoadFile ini_empty (Some (Save True (set_setting k v f)))))) k' =
    GetValueFromConfigFile (SetValueFromConfigFile (utils_new path (Some (erase (m_data f)))) k v) k'"
  by (rule restarted_utils [OF assms])

theorem setting_survives_restart_witness:
  "Save True demo_file = ''WebsocketURL = ws://127.0.0.1:1884'' @ [LF] @ ''ClientURI = Gate1'' @ [LF] @
     ''GateName = EntGate1'' @ [LF] @ ''GateType = 0'' @ [LF] @ ''RegistratinResult = 0'' @ [LF] \<and>
   GetValueFromConfigFile (utils_new ''ClientConfig.ini'' (map_option (\<lambda>f'. erase (m_data f'))
      (LoadFile ini_empty (Some (Save True (set_setting ''RegistratinResult'' ''1'' demo_file)))))) ''registratinresult'' = ''1''"
proof -
  have good: "good_key ''RegistratinResult''" "good_value ''1''" and key: "same_key ''RegistratinResult'' ''registratinresult''"
    by code_simp+
  have "GetValueFromConfigFile (SetValueFromConfigFile (utils_new path (Some m)) ''RegistratinResult'' ''1'')
      ''registratinresult'' = ''1''" for path m
    using key by (simp add: GetValue_SetValue utils_new_def c_string_def nul_def)
  with setting_survives_restart [OF demo_file_good good] show ?thesis by (simp only: demo_file_text)
qed

subsection \<open>Time\<close>

text \<open>
  C27. Over the whole range of date::year, -32767 to 32767, the arithmetic of date.h from day
  numbers to dates and back are inverse to each other, without an overflow of int: the date of a day
  is the one valid date with that number. The day after the range already has the year the short
  wraps to.
\<close>

theorem day_numbers_are_dates:
  assumes "to_days year_min 1 1 \<le> z" "z \<le> to_days year_max 12 31"
  shows "(from_days z = Inr (y, m, d) \<longleftrightarrow> ymd_ok y m d \<and> to_days y m d = z) \<and>
    from_days (to_days year_max 12 31 + 1) = Inr (- 32768, 1, 1)"
  using from_days_date_range [OF assms] from_days_past_range by blast

theorem day_numbers_are_dates_witness:
  "from_days 19175 = Inr (2022, 7, 2)"
proof -
  have "ymd_ok 2022 7 2" "to_days 2022 7 2 = 19175" by code_simp+
  with day_numbers_are_dates [of 19175 2022 7 2] show ?thesis by (simp add: first_and_last_day)
qed

subsection \<open>Connections\<close>

text \<open>
  C28. A connection that opens under a uri that is still in the map does not replace the old handle:
  texts for the uri go to the old connection. When that one closes, the entry is erased, and no text
  is sent to the new connection although it is open.
\<close>

theorem reopened_uri_keeps_stale_handle:
  assumes "m_connections ws uri = Some h0" "\<exists>i<6. attempt_ok (obs i)"
  shows "SendMessage obs uri (fst (on_open sem_ok uri h1 ws shm)) = (True, Some h0) \<and>
    SendMessage obs' uri (fst (on_close sem_ok' uri (fst (on_open sem_ok uri h1 ws shm)) shm')) = (False, None)"
  using reopen_keeps_handle [OF assms] by (simp add: SendMessage_def on_close_def)

theorem reopened_uri_keeps_stale_handle_witness:
  "SendMessage (\<lambda>_. (OPEN, True)) ''a'' (fst (on_open True ''a'' 9 (demo_ws\<lparr>m_connections := [''a'' \<mapsto> 1]\<rparr>) C_BoostShmObj_new)) = (True, Some 1)"
  by (rule reopened_uri_keeps_stale_handle [THEN conjunct1]) (simp_all add: attempt_ok_def exI [of _ 0])

text \<open>
  C29. The status a closing connection publishes in shared memory is what the next turn of the
  watching thread reads, and that turn tells the endpoint to close the handle registered under that
  uri and erases its entry, and no other. If the same status was the last it has seen, a second
  close of the same uri, it does nothing.
\<close>

theorem watcher_closes_what_was_closed:
  assumes "shm_inv shm" "ok_uri uri" "uri \<noteq> []" "shm_get shm status_key \<noteq> None"
    and "on_close True uri ws shm = (ws', Inr shm')"
  shows "RunServer_turn True shm' cur ws1 =
    (if status_value uri CLOSE = cur then Inr (cur, ws1, None)
     else Inr (status_value uri CLOSE, ws1\<lparr>m_connections := (m_connections ws1)(uri := None)\<rparr>, m_connections ws1 uri))"
proof -
  from assms(5) have "publish True (status_value uri CLOSE) shm = Inr shm'" by (simp add: on_close_def)
  from publish_read [OF assms(1,2) _ this assms(4)] have "GetValue True shm' status_key [] = Inr (SETVALUE_OK, status_value uri CLOSE)"
    by simp
  from RunServer_turn_published [OF this assms(2)] assms(3) show ?thesis by (simp add: Close_eq)
qed

theorem watcher_closes_what_was_closed_witness:
  "\<exists>shm ws shm'. on_close True ''a'' demo_ws shm = (ws, Inr shm') \<and>
    RunServer_turn True shm' [] (demo_ws\<lparr>m_connections := [''a'' \<mapsto> 3, ''b'' \<mapsto> 4]\<rparr>) =
      Inr (status_value ''a'' CLOSE, demo_ws\<lparr>m_connections := [''b'' \<mapsto> 4]\<rparr>, Some 3)"
proof -
  obtain shm where shm: "shm_inv shm" "shm_get shm status_key \<noteq> None" using demo_published by blast
  obtain shm' where "publish True (status_value ''a'' CLOSE) shm = Inr shm'"
    using publish_get [OF shm(1) demo_uri, of CLOSE] by auto
  then have c: "on_close True ''a'' demo_ws shm = (fst (on_close True ''a'' demo_ws shm), Inr shm')" by (simp add: on_close_def)
  have "[''a'' \<mapsto> 3, ''b'' \<mapsto> 4](''a'' := None) = [''b'' \<mapsto> (4 :: nat)]" by auto
  with watcher_closes_what_was_closed [OF shm(1) demo_uri _ shm(2) c, of "[]" "demo_ws\<lparr>m_connections := [''a'' \<mapsto> 3, ''b'' \<mapsto> 4]\<rparr>"] c
  show ?thesis by (intro exI [of _ shm] exI [of _ "fst (on_close True ''a'' demo_ws shm)"] exI [of _ shm'])
      (simp add: status_value_def)
qed

subsection \<open>Logging\<close>

text \<open>
  C30. Any gate can break the memory of the server: a call of one of the three kinds that is 1024
  bytes long or longer is written by the logger into a buffer of 1024 bytes before anything else is
  done with it. This holds for every text the gate sends, at the level the logger has without a
  setting.
\<close>

theorem long_request_overruns_log:
  assumes "lf_open c" "unat (m_log_level c) \<le> 2" "plain_env env" "ws_type m = ''Server''" "1024 \<le> length (c_str (ws_payload m))"
    and "bindR (vec_at (split_on (CHR '','') (ws_payload m)) 1) (\<lambda>_. vec_at (split_on (CHR '','') (ws_payload m)) 2) = Inr action"
    and "contains action (quoted ActionGateRegistration) \<or> contains action (quoted ActionCarStatusUpdate) \<or>
      contains action (quoted ActionCarEnterence)"
  shows "run_log env (handle_log tenv s m) c = Inl Buffer_overrun"
  using long_request_fault [OF assms(3,2,4-7)] run_log_iff(1) [OF assms(1)] by blast

theorem long_request_overruns_log_witness:
  "run_log demo_log_env (handle_log demo_env demo_open
      \<lparr>ws_uri = ''g'', ws_type = ''Server'', ws_payload = AddBase 7 (replicate 1024 CHR ''x'') mt_CALL ActionCarEnterence []\<rparr>) demo_log = Inl Buffer_overrun"
proof -
  let ?p = "AddBase 7 (replicate 1024 CHR ''x'') mt_CALL ActionCarEnterence []"
  have "nul \<notin> set ?p" by (simp add: AddBase_CALL quoted_def action_defs nul_def) (simp add: nat_str.simps)
  then have l: "1024 \<le> length (c_str ?p)" by (simp add: c_str_id AddBase_CALL)
  have a: "bindR (vec_at (split_on (CHR '','') ?p) 1) (\<lambda>_. vec_at (split_on (CHR '','') ?p) 2) = Inr (quoted ActionCarEnterence)"
    by (rule call_action) simp
  have "contains (quoted ActionCarEnterence) (quoted ActionCarEnterence)" by code_simp
  with l show ?thesis
    by (intro long_request_overruns_log [where action = "quoted ActionCarEnterence"])
      (simp_all only: WSMessage.simps a demo_log_open, simp_all)
qed

text \<open>
  C31. A short registration call is logged without a fault, except when the gate is in its list
  already: the line about that has a conversion and no argument for it, so the second registration
  of a gate is undefined behaviour.
\<close>

theorem second_registration_breaks_log:
  fixes x :: GateRegistration
  assumes "lf_open c" "unat (m_log_level c) \<le> 2" "plain_env env" "j_dump (to_json_GateRegistration x) = Inr b"
    and "length (AddBase r b mt_CALL ActionGateRegistration []) \<le> 400" "length uri \<le> 100" "length (gr_gateName x) \<le> 100"
    and "0 \<le> env_now tenv" "env_now tenv < 10 ^ 18"
    and "lcs = handle_log tenv s \<lparr>ws_uri = uri, ws_type = ''Server'', ws_payload = AddBase r b mt_CALL ActionGateRegistration []\<rparr>"
  shows "if snd (register_gate (gr_gateName x) (gate_type_of (gr_gateType x)) s) = RS_Exist
    then run_log env lcs c = Inl Missing_argument else \<exists>c'. run_log env lcs c = Inr c'"
  using registration_log_fault [OF assms(3,2,4-9), of s] run_log_iff [OF assms(1), of env lcs] by (simp add: assms(10))

theorem second_registration_breaks_log_witness:
  "\<exists>b. j_dump (to_json_GateRegistration demo_registration) = Inr b \<and>
    run_log demo_log_env (handle_log demo_env demo_open
      \<lparr>ws_uri = ''g'', ws_type = ''Server'', ws_payload = AddBase 7 b mt_CALL ActionGateRegistration []\<rparr>) demo_log = Inl Missing_argument"
proof -
  have "case j_dump (to_json_GateRegistration demo_registration) of Inr b \<Rightarrow> length b \<le> 100 | Inl e \<Rightarrow> False" by code_simp
  then obtain b where b: "j_dump (to_json_GateRegistration demo_registration) = Inr b" "length b \<le> 100" by (auto split: sum.splits)
  let ?m = "\<lparr>ws_uri = ''g'', ws_type = ''Server'', ws_payload = AddBase 7 b mt_CALL ActionGateRegistration []\<rparr>"
  have "gate_type_of (gr_gateType demo_registration) = GT_Enterence" by code_simp
  then have e: "snd (register_gate (gr_gateName demo_registration) (gate_type_of (gr_gateType demo_registration)) demo_open) = RS_Exist"
    by (simp add: register_gate_def demo_open demo_registration_def)
  have "length (AddBase 7 b mt_CALL ActionGateRegistration []) \<le> 400"
    using b(2) by (simp add: AddBase_CALL quoted_def action_defs) (simp add: nat_str.simps)
  with second_registration_breaks_log [OF demo_log_open(1) _ demo_log_open(3) b(1), of 7 "''g''" demo_env "handle_log demo_env demo_open ?m" demo_open] e b(1)
  show ?thesis by (simp add: demo_log_open(2) demo_registration_def demo_env_def)
qed

subsection \<open>The websocket library\<close>

text \<open>
  C32. A gate connects to the server, over a transport that cuts the bytes anywhere. The request the
  session of the gate writes is read by the server's session as a handshake for the uri of this
  gate; its answer opens the gate's session, accept key included; and texts the server sends at
  once, whose frames come in the same pieces as the answer, are given to the message handler of the
  gate after the open handler, in order. Both sides have called their open handler once and are
  open.
\<close>

theorem sessions_connect:
  assumes "good_host host" "good_id gid" "0 < port" "port < 65536"
    and "c = gate_session host port gid rng"
    and "concat cs = text_of (concat (ss_written c))" "length host + length gid + 3 * length cs \<le> 15000"
    and "s = step (Written A_write_response None) (fst (transfer A_read_handshake cs (reach True rng' u [])))"
    and "\<forall>t\<in>set ts. utf8_valid t \<and> length t \<le> max_message_size"
    and "concat ds = text_of (concat (ss_written (step Dispatched (fold (\<lambda>t. step (App_send (text_message t))) ts s))))"
    and "3 * length ds \<le> 15000" "transfer A_read_response ds c = (c1, ds')"
  shows "ss_calls s = [Call_open] \<and> state_of s = S_open \<and> m_uri (m_request s) = ''/'' @ gid \<and>
    ss_calls (fst (transfer A_read_frame ds' c1)) = Call_open # map (Call_message \<circ> text_message) ts \<and>
    state_of (fst (transfer A_read_frame ds' c1)) = S_open"
proof -
  obtain req where s: "send_http_request user_agent (uri_parse (gate_url host port gid)) [''PMS''] rng = Inr req"
    "m_uri (m_request s) = ''/'' @ gid" "ss_calls s = [Call_open]"
    "ss_written s = [bytes_of (response_raw (switching (get_header ''Sec-WebSocket-Key'' req)))]"
    "talks True s"
    using answer_written [OF assms(1-4) assms(6) [unfolded assms(5)] assms(7,8)] by blast
  obtain fs where fs: "map snd fs = map text_message ts"
    "concat (ss_written (step Dispatched (fold (\<lambda>t. step (App_send (text_message t))) ts s))) = concat (ss_written s) @ wire True fs"
    using texts_written [of s ts] s(5) assms(9) by (auto simp: talks_def)
  have "concat ds = text_of (bytes_of (response_raw (switching (get_header ''Sec-WebSocket-Key'' req))) @ wire True fs)"
    using assms(10) fs(2) s(4) by simp
  from answer_read [OF s(1) this assms(11) fs(1) assms(9) assms(12) [unfolded assms(5)]] s show ?thesis by (simp add: talks_def)
qed

theorem sessions_connect_witness:
  "\<exists>c s c1 ds'. c = gate_session ''127.0.0.1'' 1884 ''Gate1'' (\<lambda>i. 7) \<and>
    s = step (Written A_write_response None) (fst (transfer A_read_handshake [text_of (concat (ss_written c))] (reach True (\<lambda>i. 0) (uri_parse []) []))) \<and>
    transfer A_read_response [text_of (concat (ss_written (step Dispatched (step (App_send (text_message ''Accept'')) s)))), []] c = (c1, ds') \<and>
    ss_calls s = [Call_open] \<and> m_uri (m_request s) = ''/Gate1'' \<and>
    ss_calls (fst (transfer A_read_frame ds' c1)) = [Call_open, Call_message (text_message ''Accept'')]"
proof -
  have g: "good_host ''127.0.0.1''" "good_id ''Gate1''" "utf8_valid ''Accept''" by code_simp+
  let ?c = "gate_session ''127.0.0.1'' 1884 ''Gate1'' (\<lambda>i. 7)"
  let ?s = "step (Written A_write_response None) (fst (transfer A_read_handshake [text_of (concat (ss_written ?c))] (reach True (\<lambda>i. 0) (uri_parse []) [])))"
  let ?d = "text_of (concat (ss_written (step Dispatched (step (App_send (text_message ''Accept'')) ?s))))"
  obtain c1 ds' where d: "transfer A_read_response [?d, []] ?c = (c1, ds')" by force
  have "ss_calls ?s = [Call_open] \<and> state_of ?s = S_open \<and> m_uri (m_request ?s) = ''/'' @ ''Gate1'' \<and>
    ss_calls (fst (transfer A_read_frame ds' c1)) = Call_open # map (Call_message \<circ> text_message) [''Accept''] \<and>
    state_of (fst (transfer A_read_frame ds' c1)) = S_open"
    by (rule sessions_connect [OF g(1,2), of 1884 ?c "\<lambda>i. 7" "[text_of (concat (ss_written ?c))]" ?s "\<lambda>i. 0" "uri_parse []" "[''Accept'']" "[?d, []]" c1 ds'])
       (use d g(3) in \<open>simp_all add: max_message_size_def\<close>)
  with d show ?thesis by (intro exI [of _ ?c] exI [of _ ?s] exI [of _ c1] exI [of _ ds']) simp
qed

text \<open>
  C33. Whatever the transport and the application do, in any order, a session is a machine of six
  states: it calls the open handler first and once, messages only after it, and then one handler
  that ends it, close after open and fail without it, and nothing after that. Left out is one event,
  a client's read of an answer whose extensions cannot be parsed.
\<close>

theorem handlers_come_in_order:
  assumes "runs_to sound (session_new server rng u ps) s"
  shows "sees_all Waiting (ss_calls s) (seen_of s) \<and>
    (ss_calls s = [] \<or> ss_calls s = [Call_fail] \<or>
     (\<exists>ms. ss_calls s = Call_open # map Call_message ms \<or> ss_calls s = Call_open # map Call_message ms @ [Call_close]))"
  using runs_sees [OF assms] runs_calls(1) [OF assms] by (cases "seen_of s") auto

theorem handlers_come_in_order_witness:
  "sees_all Waiting [Call_fail] Failed"
proof -
  let ?n = "session_new True (\<lambda>i. 0) (uri_parse []) []"
  let ?s1 = "step Started ?n"
  let ?s2 = "step (Initialized (Some Eof)) ?s1"
  let ?s3 = "step (Shut_down T_failed) ?s2"
  have 1: "?s1 = with_pending [A_init] (?n\<lparr>m_internal_state := TRANSPORT_INIT\<rparr>)"
    by (simp add: step_def start_def completed_def session_new_def connection_new_def)
  have 2: "cn_pending (ss_con ?s2) = [A_shutdown T_failed]" "state_of ?s2 = S_closed" "ss_calls ?s2 = []"
    unfolding 1 by (simp_all add: step_def completed_def handle_transport_init_def terminate_session_def on_con_def terminate_def
      session_new_def connection_new_def await_def Let_def)
  have s: "ss_calls ?s3 = [Call_fail]" "seen_of ?s3 = Failed"
    by (simp_all add: shut_down_step 2 seen_of_def shutdowns_def List.map_filter_def)
  have "enabled (Shut_down T_failed) ?s2" by (simp add: enabled_def 2)
  moreover have "enabled Started ?n" "enabled (Initialized (Some Eof)) ?s1"
    unfolding 1 by (simp_all add: enabled_def session_new_def)
  moreover have "sound ?n Started" "sound ?s1 (Initialized (Some Eof))" "sound ?s2 (Shut_down T_failed)"
    by (simp_all add: sound_def)
  ultimately have "runs_to sound ?n ?s3" by (intro runs_to.goes_on [of sound ?n] runs_to.begins)
  from handlers_come_in_order [OF this] s show ?thesis by simp
qed

text \<open>
  C34. No session is forgotten. As long as a started session is not over, the transport has been
  asked for the operation it waits for in its state, or for the timer of the closing handshake, and
  the failure of that operation closes it; from every state some events of the transport lead to the
  handler that ends the session. This rests on a close timer that is not cancelled before, and
  excludes requests of the older versions, where the model ends.
\<close>

theorem every_session_ends:
  assumes "runs_to covered (session_new server rng u ps) s" "m_internal_state s \<noteq> USER_INIT"
  shows "(state_of s \<noteq> S_closed \<longrightarrow> waits_for s \<in> set (cn_pending (ss_con s)) \<and> state_of (step (ending s) s) = S_closed) \<and>
    (\<exists>s'. runs_to covered s s' \<and> ended (ss_calls s'))"
proof (cases "state_of s = S_closed")
  case True
  with shut_down_ends [OF assms(1)] show ?thesis by simp
next
  case False
  note e = ending_ends [OF runs_wait [OF assms(1)] False assms(2)]
  have "runs_to covered (session_new server rng u ps) (step (ending s) s)" using assms(1) e(1,2) by (rule runs_to.goes_on)
  from shut_down_ends [OF this e(3)] obtain s' where "runs_to covered (step (ending s) s) s'" "ended (ss_calls s')" by blast
  with runs_trans [of covered _ s' s] runs_one [of "ending s" s covered, OF e(1,2)] e(3) runs_wait [OF assms(1)] False assms(2) show ?thesis
    unfolding wait_inv_def by blast
qed

theorem every_session_ends_witness:
  "\<exists>s'. runs_to covered (step Started (session_new False (\<lambda>i. 7) (uri_parse (gate_url ''127.0.0.1'' 1884 ''Gate1'')) [''PMS''])) s' \<and> ended (ss_calls s')"
proof -
  let ?n = "session_new False (\<lambda>i. 7) (uri_parse (gate_url ''127.0.0.1'' 1884 ''Gate1'')) [''PMS'']"
  have "enabled Started ?n" "covered ?n Started" "m_internal_state (step Started ?n) \<noteq> USER_INIT"
    by (simp_all add: enabled_def covered_def sound_def session_new_def step_def start_def completed_def ask_def on_con_def Let_def)
  with every_session_ends [of False "\<lambda>i. 7" "uri_parse (gate_url ''127.0.0.1'' 1884 ''Gate1'')" "[''PMS'']" "step Started ?n"]
    runs_one [of Started ?n covered]
  show ?thesis by blast
qed

text \<open>
  C35. A client that reads an answer with an extension header that cannot be parsed terminates the
  connection and opens it all the same: the state goes back to open, and the application is told
  open, then fail, then close.
\<close>

theorem opens_after_failing:
  assumes "good_host host" "good_id gid" "0 < port" "port < 65536" "good_field e" "extract_parameters e [] = None" "length e \<le> 15000"
    and "g = gate_session host port gid rng"
    and "es = after_failure (response_raw (unparsable (get_header ''Sec-WebSocket-Key'' (m_request g)) e))"
  shows "(\<forall>i<4. enabled (es ! i) (fold step (take i es) g)) \<and> state_of (step (es ! 0) g) = S_open \<and>
    ss_calls (fold step es g) = [Call_open, Call_fail, Call_close]"
proof -
  obtain req where req: "send_http_request user_agent (uri_parse (gate_url host port gid)) [''PMS''] rng = Inr req"
    using request_is_sent [OF assms(1-4)] by blast
  obtain g' where g: "g = with_pending ([A_timer Open_handshake] @ [A_read_response]) g'" "m_request g' = req" "m_response g' = response_new"
    "state_of g' = S_connecting" "m_internal_state g' = READ_HTTP_RESPONSE" "ss_calls g' = []"
    using gate_session_form [OF req] assms(8) by metis
  obtain r where r: "handle_read_http_response (m_request g') (m_response g')
      (response_raw (unparsable (get_header ''Sec-WebSocket-Key'' (m_request g)) e)) = Client_opened r True []"
    using unparsable_read [OF assms(5-7), of req] g by auto
  note opened_after_failure [OF r g(4-6,1)]
  then show ?thesis unfolding assms(9) by (simp add: after_failure_def)
qed

theorem opens_after_failing_witness:
  "\<exists>answer. ss_calls (fold step (after_failure answer) (gate_session ''127.0.0.1'' 1884 ''Gate1'' (\<lambda>i. 7))) = [Call_open, Call_fail, Call_close]"
proof -
  have "good_host ''127.0.0.1''" "good_id ''Gate1''" "good_field '';''" "extract_parameters '';'' [] = None" by code_simp+
  from opens_after_failing [OF this(1,2) _ _ this(3,4) _ refl refl, of 1884 "\<lambda>i. 7"] show ?thesis by auto
qed

text \<open>
  C36. From one end of a websocket to the other. Texts handed to send on an open connection go out
  in one write, as frames with their length in 7, 16 or 64 bits, masked by a client; however the
  transport cuts these bytes, the other end gives exactly these texts, in order, to its message
  handler, if each is UTF-8 and within its size limit.
\<close>

theorem texts_cross_the_wire:
  assumes "cn_state c = S_open" "m_send_queue c = []" "\<not> m_write_flag c" "ts \<noteq> []"
    and "\<forall>t\<in>set ts. utf8_valid t \<and> length t \<le> m_max_message_size (cn_processor d) \<and> length t < 2 ^ 64"
    and "cn_state d = S_open" "cn_reading d" "idle (cn_processor d)" "h_server (cn_processor d) = (\<not> cn_server c)"
  shows "\<exists>bs. snd (write_frame (send_texts ts c)) = Some bs \<and>
    (\<forall>cs. concat cs = bs \<longrightarrow>
      cn_delivered (fold on_read cs d) = cn_delivered d @ map text_message ts \<and> cn_state (fold on_read cs d) = S_open) \<and>
    map (\<lambda>t. text_of (wm_payload (text_message t))) ts = ts"
proof -
  obtain bs where bs: "snd (write_frame (send_texts ts c)) = Some bs" using write_texts [OF assms(1-4)] assms(5) by blast
  with texts_received [OF assms bs] show ?thesis by (simp add: text_message_def)
qed

theorem texts_cross_the_wire_witness:
  "\<exists>bs. snd (write_frame (send_texts [''AA-1'', ''BB-22''] (connection_open (connection_new False (\<lambda>n. 0x01020304))))) = Some bs \<and>
    (\<forall>n. cn_delivered (fold on_read [take n bs, drop n bs] (connection_open (connection_new True (\<lambda>n. 0)))) =
      map text_message [''AA-1'', ''BB-22''])"
proof -
  have "utf8_valid ''AA-1''" "utf8_valid ''BB-22''" by code_simp+
  then have "\<forall>t\<in>set [''AA-1'', ''BB-22'']. utf8_valid t \<and>
      length t \<le> m_max_message_size (cn_processor (connection_open (connection_new True (\<lambda>n. 0)))) \<and> length t < 2 ^ 64"
    by (simp add: max_message_size_def)
  from texts_cross_the_wire [OF _ _ _ _ this, of "connection_open (connection_new False (\<lambda>n. 0x01020304))"]
  obtain bs where bs: "snd (write_frame (send_texts [''AA-1'', ''BB-22''] (connection_open (connection_new False (\<lambda>n. 0x01020304))))) = Some bs"
    "\<And>cs. concat cs = bs \<Longrightarrow> cn_delivered (fold on_read cs (connection_open (connection_new True (\<lambda>n. 0)))) =
      map text_message [''AA-1'', ''BB-22'']"
    by auto
  have "concat [take n bs, drop n bs] = bs" for n by simp
  with bs show ?thesis by blast
qed

text \<open>
  C37. The frame reader is a machine over single bytes that may stop anywhere: reading the bytes in
  pieces, inside a header, a key or a character, gives the same messages, the same end and the same
  connection as reading them at once. After an error nothing more is read; only the state of the
  processor, which is not looked at any more, may then differ.
\<close>

theorem cuts_make_no_difference:
  assumes "hybi_inv (cn_processor c)"
  shows "reads (cn_processor c) cs = handle_read_frame (cn_processor c) (concat cs) \<and>
    (fold on_read cs c)\<lparr>cn_processor := s\<rparr> = (on_read (concat cs) c)\<lparr>cn_processor := s\<rparr>"
  using reads_concat [OF assms] on_reads_concat [OF assms] by simp_all

theorem cuts_make_no_difference_witness:
  "reads (hybi13_new True 100) [[0x81], [0x80, 1], [2, 3], [4]] = handle_read_frame (hybi13_new True 100) [0x81, 0x80, 1, 2, 3, 4]"
  using cuts_make_no_difference [of "(connection_new True (\<lambda>n. 0))\<lparr>cn_processor := hybi13_new True 100\<rparr>"
    "[[0x81], [0x80, 1], [2, 3], [4]]"]
  by (simp add: hybi_inv_new)

text \<open>
  C38. Whatever bytes arrive, in whatever pieces, the reader either goes on in a well-formed state
  (header bytes still needed within the buffers, a message wherever one is written to, a key that is
  a rotation of the frame's) or ends with an error of the protocol: it never gets stuck and never
  dereferences an empty message pointer.
\<close>

theorem reader_keeps_well_formed:
  "case reads (hybi13_new server max_size) cs of
     (ms, Read_more s) \<Rightarrow> hybi_inv s
   | (ms, Consume_error e) \<Rightarrow> e \<noteq> null_message
   | (ms, Stuck) \<Rightarrow> False"
proof -
  obtain ms e where r: "reads (hybi13_new server max_size) cs = (ms, e)" by force
  then have "handle_read_frame (hybi13_new server max_size) (concat cs) = (ms, e)" by (simp add: reads_concat hybi_inv_new)
  from handle_read_inv [OF hybi_inv_new this] r show ?thesis by auto
qed

text \<open>
  C39. A close frame with a valid code and reason, in whatever pieces, is answered by exactly one
  close frame with the same payload, or with code 1000 if it had none; the connection is then
  closing and clean, the frame of a server ends its connection when it is written, and nothing that
  still arrives is given to the handler.
\<close>

theorem close_is_answered:
  assumes "cn_state c = S_open" "cn_reading c" "idle (cn_processor c)" "h_server (cn_processor c) = cn_server c"
    and "extract_code p = (code, None)" "extract_reason p = (reason, None)" "length p \<le> 125"
    and "concat cs = frame_bytes (\<not> cn_server c) rng \<lparr>wm_opcode = CLOSE_op, wm_payload = p\<rparr>"
  shows "\<exists>c' g. fold on_read cs c = c' \<and> m_send_queue c' = m_send_queue c @ [g] \<and>
    og_bytes g = frame_bytes (cn_server c) (drawn_key c) \<lparr>wm_opcode = CLOSE_op, wm_payload = answer_to p\<rparr> \<and>
    og_opcode g = CLOSE_op \<and> og_terminal g = cn_server c \<and> cn_state c' = S_closing \<and> m_was_clean c' \<and>
    (\<forall>later. cn_delivered (fold on_read later c') = cn_delivered c)"
proof -
  note a = close_answered [OF assms]
  then have "cn_state (fold on_read cs c) \<noteq> S_open" "cn_delivered (fold on_read cs c) = cn_delivered c" by auto
  with on_reads_shut have "cn_delivered (fold on_read later (fold on_read cs c)) = cn_delivered c" for later by simp
  with a show ?thesis by auto
qed

theorem close_is_answered_witness:
  "\<exists>c' g. on_read (frame_bytes True 0 \<lparr>wm_opcode = CLOSE_op, wm_payload = []\<rparr>)
      (connection_open (connection_new False (\<lambda>n. 7))) = c' \<and> m_send_queue c' = [g] \<and>
    og_bytes g = frame_bytes False 7 \<lparr>wm_opcode = CLOSE_op, wm_payload = bytes_of_code 1000\<rparr> \<and>
    (\<forall>later. cn_delivered (fold on_read later c') = [])"
proof -
  have "extract_code [] = (cs_no_status, None)" "extract_reason [] = ([], None)"
    by (simp_all add: extract_code_def extract_reason_def validate_def complete_def validator_new_def)
  moreover have "drawn_key (connection_open (connection_new False (\<lambda>n. 7))) = 7"
    by (simp add: drawn_key_def connection_open_def connection_new_def)
  ultimately show ?thesis
    using close_is_answered [of "connection_open (connection_new False (\<lambda>n. 7))" "[]" cs_no_status "[]"
      "[frame_bytes True 0 \<lparr>wm_opcode = CLOSE_op, wm_payload = []\<rparr>]" 0]
    by (simp add: answer_to_def cs_normal_def) blast
qed

text \<open>
  C40. The limit on a message in several frames is compared with a sum in 64 bits: after a first
  frame of n bytes, a continuation that announces 2^64 - n bytes passes the check, and the reader
  then waits for that many, whatever the limit is.
\<close>

theorem size_limit_wraps:
  assumes "idle s" "h_server s = (k1 \<noteq> None)" "(k2 \<noteq> None) = (k1 \<noteq> None)" "utf8_valid t" "t \<noteq> []"
    and "length t \<le> m_max_message_size s" "m_max_message_size s < 2 ^ 64" "unat sz = 2 ^ 64 - length t"
  shows "\<exists>s'. handle_read_frame s (fragment TEXT False k1 (bytes_of t) @ fragment_header CONTINUATION fin sz k2) = ([], Read_more s') \<and>
    m_state s' = APPLICATION \<and> length t + m_bytes_needed s' = 2 ^ 64 \<and> m_max_message_size s' < length t + m_bytes_needed s'"
proof -
  obtain v where v: "validator_decode validator_new (bytes_of t) = (v, True)"
    using assms(4) by (auto simp: validate_utf8 [symmetric] validate_def split: prod.splits)
  have "bytes_of t \<noteq> []" using assms(5) length_bytes_of [of t] by (metis length_0_conv)
  from huge_continuation [OF assms(1-3) this _ _ v, of sz fin] assms(6-8) show ?thesis by fastforce
qed

theorem size_limit_wraps_witness:
  "\<exists>s'. handle_read_frame (hybi13_new True 32000000)
      (fragment TEXT False (Some 5) (bytes_of ''A'') @ fragment_header CONTINUATION True (-1) (Some 6)) = ([], Read_more s') \<and>
    m_bytes_needed s' = 2 ^ 64 - 1"
proof -
  have "utf8_valid ''A''" by code_simp
  from size_limit_wraps [OF idle_new [of True 32000000] _ _ this, of "Some 5" "Some 6" "-1" True] show ?thesis
    by (auto simp: hybi13_new_def reset_headers_def unsigned_minus_1_eq_mask mask_eq_exp_minus_1)
qed

end
